(* ===== verification/EW_Prelude.thy ===== *)
theory EW_Prelude
  imports Main "HOL-Library.Word"
begin

text \<open>
  What every component of the development shares: the machine words of the 32-bit ARM
  target, the ways a C statement can get stuck, the result type of C code and its
  sequencing, checked array accesses, the C remainder and a checked \<open>int\<close> increment,
  the run of a list of steps, and the list lemmas the components use.
\<close>

section \<open>Words\<close>

type_synonym u8 = "8 word"
type_synonym u16 = "16 word"
type_synonym u32 = "32 word"

section \<open>Results of C code\<close>

text \<open>
  The ways the modelled C code can leave the defined behaviour of the language (or not
  return at all). A function of the model returns \<open>Inl\<close> of one of these where the code
  would do so, and \<open>Inr\<close> of its result otherwise. The sequencing is the same for the
  exceptions of Python code, so it is stated for any type of failures.
\<close>

datatype stuck =
    Signed_Overflow
  | Out_Of_Bounds
  | Null_Deref
  | Bad_Union_Access
  | Indeterminate_Value
  | Diverges
  | Use_After_Free
  | Assertion_Failure
  | Uncaught_Exception

type_synonym 'a c = "stuck + 'a"

named_theorems c_simps \<open>evaluation of sequenced C statements\<close>

definition cbind :: "'e + 'a \<Rightarrow> ('a \<Rightarrow> 'e + 'b) \<Rightarrow> 'e + 'b" where
  "cbind m f = (case m of Inl e \<Rightarrow> Inl e | Inr x \<Rightarrow> f x)"

lemma cbind_Inl [simp, c_simps]: "cbind (Inl e) f = Inl e"
  by (simp add: cbind_def)

lemma cbind_Inr [simp, c_simps]: "cbind (Inr x) f = f x"
  by (simp add: cbind_def)

lemma cbind_eq_Inr [c_simps]: "cbind m f = Inr y \<longleftrightarrow> (\<exists>x. m = Inr x \<and> f x = Inr y)"
  by (cases m) auto

lemma cbind_assoc: "cbind (cbind m f) g = cbind m (\<lambda>x. cbind (f x) g)"
  by (cases m) auto

lemma cbind_cong [fundef_cong]:
  "m = m' \<Longrightarrow> (\<And>x. m' = Inr x \<Longrightarrow> f x = f' x) \<Longrightarrow> cbind m f = cbind m' f'"
  by (cases m') auto

text \<open>Reading and writing an array element, and dereferencing a pointer that may be null.\<close>

definition c_read :: "'a list \<Rightarrow> int \<Rightarrow> 'a c" where
  "c_read xs i = (if 0 \<le> i \<and> i < int (length xs) then Inr (xs ! nat i) else Inl Out_Of_Bounds)"

definition c_write :: "'a list \<Rightarrow> int \<Rightarrow> 'a \<Rightarrow> 'a list c" where
  "c_write xs i x =
     (if 0 \<le> i \<and> i < int (length xs) then Inr (xs[nat i := x]) else Inl Out_Of_Bounds)"

definition c_deref :: "'a option \<Rightarrow> 'a c" where
  "c_deref p = (case p of None \<Rightarrow> Inl Null_Deref | Some x \<Rightarrow> Inr x)"

lemma c_deref_simps [simp, c_simps]: "c_deref None = Inl Null_Deref" "c_deref (Some x) = Inr x"
  by (simp_all add: c_deref_def)

lemma c_read_nat [simp, c_simps]: "i < length xs \<Longrightarrow> c_read xs (int i) = Inr (xs ! i)"
  by (simp add: c_read_def)

lemma c_read_eq_Inr: "c_read xs i = Inr y \<longleftrightarrow> 0 \<le> i \<and> i < int (length xs) \<and> y = xs ! nat i"
  by (auto simp: c_read_def)

lemma c_read_beyond: "int (length xs) \<le> i \<Longrightarrow> c_read xs i = Inl Out_Of_Bounds"
  by (simp add: c_read_def)

lemma c_write_nat [simp, c_simps]: "i < length xs \<Longrightarrow> c_write xs (int i) x = Inr (xs[i := x])"
  by (simp add: c_write_def)

lemma c_write_eq_Inr:
  "c_write xs i x = Inr ys \<longleftrightarrow> 0 \<le> i \<and> i < int (length xs) \<and> ys = xs[nat i := x]"
  by (auto simp: c_write_def)

text \<open>A find in a map that asserts that the key is there.\<close>

definition c_find :: "('k \<rightharpoonup> 'v) \<Rightarrow> 'k \<Rightarrow> 'v c" where
  "c_find m k = (case m k of None \<Rightarrow> Inl Assertion_Failure | Some x \<Rightarrow> Inr x)"

lemma c_find_simps [simp]:
  "m k = None \<Longrightarrow> c_find m k = Inl Assertion_Failure" "m k = Some x \<Longrightarrow> c_find m k = Inr x"
  by (simp_all add: c_find_def)

text \<open>
  The C \<open>int\<close> of the target has 32 bits. It is modelled by the \<open>int\<close>eger it denotes;
  the increment is stuck where it would overflow. The remainder truncates towards zero.
\<close>

definition INT_MAX :: int where
  "INT_MAX = 2147483647"

definition c_incr :: "int \<Rightarrow> int c" where
  "c_incr i = (if i < INT_MAX then Inr (i + 1) else Inl Signed_Overflow)"

lemma c_incr_small [simp, c_simps]: "i < INT_MAX \<Longrightarrow> c_incr i = Inr (i + 1)"
  by (simp add: c_incr_def)

definition c_rem :: "int \<Rightarrow> int \<Rightarrow> int" where
  "c_rem a b = sgn a * (\<bar>a\<bar> mod \<bar>b\<bar>)"

lemma c_rem_nonneg [simp]: "0 \<le> a \<Longrightarrow> 0 < b \<Longrightarrow> c_rem a b = a mod b"
  by (cases "a = 0") (simp_all add: c_rem_def)

lemma c_rem_negative: "a < 0 \<Longrightarrow> 0 < b \<Longrightarrow> c_rem a b \<le> 0"
  by (simp add: c_rem_def)

section \<open>Runs\<close>

text \<open>A list of steps, one after the other; the first stuck step ends the run.\<close>

fun c_run :: "('a \<Rightarrow> 's \<Rightarrow> 'e + 's) \<Rightarrow> 'a list \<Rightarrow> 's \<Rightarrow> 'e + 's" where
  "c_run f [] s = Inr s"
| "c_run f (x # xs) s = cbind (f x s) (c_run f xs)"

lemma c_run_append: "c_run f (xs @ ys) s = cbind (c_run f xs s) (c_run f ys)"
proof (induction xs arbitrary: s)
  case Nil
  then show ?case by simp
next
  case (Cons x xs)
  then have "c_run f (xs @ ys) = (\<lambda>s. cbind (c_run f xs s) (c_run f ys))" by blast
  then show ?case by (simp add: cbind_assoc)
qed

lemma c_run_invariant:
  assumes "c_run f xs s = Inr s'" and "P s"
    and "\<And>x s s'. x \<in> set xs \<Longrightarrow> f x s = Inr s' \<Longrightarrow> P s \<Longrightarrow> P s'"
  shows "P s'"
  using assms
proof (induction xs arbitrary: s)
  case Nil
  then show ?case by simp
next
  case (Cons x xs)
  from Cons.prems(1) obtain t where t: "f x s = Inr t" "c_run f xs t = Inr s'"
    by (auto simp: cbind_eq_Inr)
  have "P t" using Cons.prems(3) [OF _ t(1)] Cons.prems(2) by simp
  with t(2) show ?case using Cons.IH Cons.prems(3) by (meson list.set_intros(2))
qed

text \<open>One step for each element, with the results collected.\<close>

fun c_map :: "('a \<Rightarrow> 'b c) \<Rightarrow> 'a list \<Rightarrow> 'b list c" where
  "c_map f [] = Inr []"
| "c_map f (x # xs) = cbind (f x) (\<lambda>y. cbind (c_map f xs) (\<lambda>ys. Inr (y # ys)))"

lemma c_map_all: "(\<And>x. x \<in> set xs \<Longrightarrow> f x = Inr (g x)) \<Longrightarrow> c_map f xs = Inr (map g xs)"
  by (induction xs) simp_all

lemma c_map_stuck: "(\<And>x. x \<in> set xs \<Longrightarrow> f x = (if P x then Inl e else Inr (g x))) \<Longrightarrow>
    c_map f xs = (if \<exists>x \<in> set xs. P x then Inl e else Inr (map g xs))"
  by (induction xs) auto

lemma c_map_in: "c_map f xs = Inr ys \<Longrightarrow> x \<in> set xs \<Longrightarrow> \<exists>y \<in> set ys. f x = Inr y"
  by (induction xs arbitrary: ys) (auto simp: cbind_eq_Inr)

lemma c_map_from: "c_map f xs = Inr ys \<Longrightarrow> y \<in> set ys \<Longrightarrow> \<exists>x \<in> set xs. f x = Inr y"
  by (induction xs arbitrary: ys) (auto simp: cbind_eq_Inr)

section \<open>Lists\<close>

lemma take_Suc_update:
  "n < length xs \<Longrightarrow> take (Suc n) (xs[n := x]) = take n xs @ [x]"
  by (simp add: take_Suc_conv_app_nth)

lemma drop_Suc_update: "n < length xs \<Longrightarrow> drop (Suc n) (xs[n := x]) = drop (Suc n) xs"
  by simp

lemma concat_replicate_Nil [simp]: "concat (replicate n []) = []"
  by (induction n) auto

lemma map_replicate_drop:
  "(\<And>k. n \<le> k \<Longrightarrow> k < length xs \<Longrightarrow> xs ! k = z) \<Longrightarrow> drop n xs = replicate (length xs - n) z"
  by (rule nth_equalityI) auto

text \<open>
  Cutting a flat list into pieces of \<open>n\<close> elements (an array of structs seen through its
  words); a last piece that is too short is dropped.
\<close>

function chunks :: "nat \<Rightarrow> 'a list \<Rightarrow> 'a list list" where
  "chunks n xs = (if n = 0 \<or> length xs < n then [] else take n xs # chunks n (drop n xs))"
  by pat_completeness auto
termination
  by (relation "measure (\<lambda>(n, xs). length xs)") auto

declare chunks.simps [simp del]

lemma chunks_short [simp]: "length xs < n \<Longrightarrow> chunks n xs = []"
  by (simp add: chunks.simps)

lemma chunks_append [simp]: "0 < n \<Longrightarrow> length x = n \<Longrightarrow> chunks n (x @ xs) = x # chunks n xs"
  by (subst chunks.simps) simp

lemma chunks_concat:
  "0 < n \<Longrightarrow> (\<And>x. x \<in> set xss \<Longrightarrow> length x = n) \<Longrightarrow>
     chunks n (concat xss @ ys) = xss @ chunks n ys"
  by (induction xss) auto

lemma length_concat_const:
  "(\<And>x. x \<in> set xss \<Longrightarrow> length x = n) \<Longrightarrow> length (concat xss) = n * length xss"
  by (induction xss) auto

lemma take_concat_const:
  "(\<And>x. x \<in> set xss \<Longrightarrow> length x = n) \<Longrightarrow> take (n * k) (concat xss) = concat (take k xss)"
proof (induction xss arbitrary: k)
  case Nil
  then show ?case by simp
next
  case (Cons x xss)
  then show ?case by (cases k) simp_all
qed

lemma drop_concat_const:
  "(\<And>x. x \<in> set xss \<Longrightarrow> length x = n) \<Longrightarrow> drop (n * k) (concat xss) = concat (drop k xss)"
proof (induction xss arbitrary: k)
  case Nil
  then show ?case by simp
next
  case (Cons x xss)
  then show ?case by (cases k) simp_all
qed

end
