(* ===== verification/Use_Entry.thy ===== *)
theory Use_Entry
  imports EW_Prelude
begin

text \<open>
  The record the two worlds exchange. The host library (libzbouncer/host/libzbouncer.c)
  and the trusted application (zbouncer-ta/ta/zbouncer_ta.c) declare it independently
  as \<open>use_t\<close>, eight 32-bit fields each; what travels through shared memory are the words.
  This theory holds both structs, their layout, and the events an entry stands for.
\<close>

section \<open>The two structs\<close>

record use_t =
  def_addr :: u32
  def :: u32
  def_size :: u32
  use_addr :: u32
  use_id :: u32
  i_use_def :: u32
  i_use_use :: u32
  i_use_addr :: u32

record ta_use_t =
  ta_def_addr :: u32
  ta_def :: u32
  ta_def_size :: u32
  ta_use_addr :: u32
  ta_use_id :: u32
  i_def :: u32
  i_use :: u32
  i_addr :: u32

definition use_zero :: use_t where
  "use_zero = \<lparr>def_addr = 0, def = 0, def_size = 0, use_addr = 0, use_id = 0,
     i_use_def = 0, i_use_use = 0, i_use_addr = 0\<rparr>"

definition ta_use_zero :: ta_use_t where
  "ta_use_zero = \<lparr>ta_def_addr = 0, ta_def = 0, ta_def_size = 0, ta_use_addr = 0, ta_use_id = 0,
     i_def = 0, i_use = 0, i_addr = 0\<rparr>"

text \<open>The memory layout: the fields in declaration order, one word each, no padding.\<close>

definition use_words :: "use_t \<Rightarrow> u32 list" where
  "use_words u = [def_addr u, def u, def_size u, use_addr u, use_id u,
     i_use_def u, i_use_use u, i_use_addr u]"

definition ta_use_words :: "ta_use_t \<Rightarrow> u32 list" where
  "ta_use_words u = [ta_def_addr u, ta_def u, ta_def_size u, ta_use_addr u, ta_use_id u,
     i_def u, i_use u, i_addr u]"

definition use_of_words :: "u32 list \<Rightarrow> use_t" where
  "use_of_words w = \<lparr>def_addr = w ! 0, def = w ! 1, def_size = w ! 2, use_addr = w ! 3,
     use_id = w ! 4, i_use_def = w ! 5, i_use_use = w ! 6, i_use_addr = w ! 7\<rparr>"

definition ta_use_of_words :: "u32 list \<Rightarrow> ta_use_t" where
  "ta_use_of_words w = \<lparr>ta_def_addr = w ! 0, ta_def = w ! 1, ta_def_size = w ! 2,
     ta_use_addr = w ! 3, ta_use_id = w ! 4, i_def = w ! 5, i_use = w ! 6, i_addr = w ! 7\<rparr>"

text \<open>An array of the structs and the flat words of the same memory.\<close>

definition entries_words :: "use_t list \<Rightarrow> u32 list" where
  "entries_words us = concat (map use_words us)"

definition ta_entries_words :: "ta_use_t list \<Rightarrow> u32 list" where
  "ta_entries_words us = concat (map ta_use_words us)"

definition words_entries :: "u32 list \<Rightarrow> use_t list" where
  "words_entries ws = map use_of_words (chunks 8 ws)"

definition words_ta_entries :: "u32 list \<Rightarrow> ta_use_t list" where
  "words_ta_entries ws = map ta_use_of_words (chunks 8 ws)"

text \<open>The same memory seen through the struct of the other side.\<close>

definition as_host :: "ta_use_t \<Rightarrow> use_t" where
  "as_host u = use_of_words (ta_use_words u)"

definition as_ta :: "use_t \<Rightarrow> ta_use_t" where
  "as_ta u = ta_use_of_words (use_words u)"

lemma length_use_words [simp]: "length (use_words u) = 8" "length (ta_use_words v) = 8"
  by (simp_all add: use_words_def ta_use_words_def)

lemma nth_8_simps:
  "[a0, a1, a2, a3, a4, a5, a6, a7] ! 0 = a0" "[a0, a1, a2, a3, a4, a5, a6, a7] ! 1 = a1"
  "[a0, a1, a2, a3, a4, a5, a6, a7] ! 2 = a2" "[a0, a1, a2, a3, a4, a5, a6, a7] ! 3 = a3"
  "[a0, a1, a2, a3, a4, a5, a6, a7] ! 4 = a4" "[a0, a1, a2, a3, a4, a5, a6, a7] ! 5 = a5"
  "[a0, a1, a2, a3, a4, a5, a6, a7] ! 6 = a6" "[a0, a1, a2, a3, a4, a5, a6, a7] ! 7 = a7"
  by (simp_all add: numeral_eq_Suc)

lemma use_of_words_inverse [simp]: "use_of_words (use_words u) = u"
  by (simp add: use_of_words_def use_words_def nth_8_simps)

lemma ta_use_of_words_inverse [simp]: "ta_use_of_words (ta_use_words u) = u"
  by (simp add: ta_use_of_words_def ta_use_words_def nth_8_simps)

lemma as_host_fields [simp]:
  "def_addr (as_host u) = ta_def_addr u" "def (as_host u) = ta_def u"
  "def_size (as_host u) = ta_def_size u" "use_addr (as_host u) = ta_use_addr u"
  "use_id (as_host u) = ta_use_id u" "i_use_def (as_host u) = i_def u"
  "i_use_use (as_host u) = i_use u" "i_use_addr (as_host u) = i_addr u"
  by (simp_all add: as_host_def use_of_words_def ta_use_words_def nth_8_simps)

lemma as_ta_fields [simp]:
  "ta_def_addr (as_ta u) = def_addr u" "ta_def (as_ta u) = def u"
  "ta_def_size (as_ta u) = def_size u" "ta_use_addr (as_ta u) = use_addr u"
  "ta_use_id (as_ta u) = use_id u" "i_def (as_ta u) = i_use_def u"
  "i_use (as_ta u) = i_use_use u" "i_addr (as_ta u) = i_use_addr u"
  by (simp_all add: as_ta_def ta_use_of_words_def use_words_def nth_8_simps)

lemma as_ta_as_host [simp]: "as_ta (as_host u) = u"
  by (rule ta_use_t.equality) simp_all

lemma as_host_as_ta [simp]: "as_host (as_ta u) = u"
  by (rule use_t.equality) simp_all

lemma as_ta_zero [simp]: "as_ta use_zero = ta_use_zero"
  by (rule ta_use_t.equality) (simp_all add: use_zero_def ta_use_zero_def)

lemma use_words_as_host [simp]: "use_words (as_host u) = ta_use_words u"
  by (simp add: use_words_def ta_use_words_def)

lemma ta_use_words_as_ta [simp]: "ta_use_words (as_ta u) = use_words u"
  by (simp add: use_words_def ta_use_words_def)

lemma words_zero [simp]:
  "use_words use_zero = replicate 8 0" "ta_use_words ta_use_zero = replicate 8 0"
  by (simp_all add: use_words_def ta_use_words_def use_zero_def ta_use_zero_def numeral_eq_Suc)

lemma length_entries_words [simp]:
  "length (entries_words us) = 8 * length us" "length (ta_entries_words vs) = 8 * length vs"
proof -
  have "length (concat (map use_words us)) = 8 * length (map use_words us)"
    by (rule length_concat_const) auto
  then show "length (entries_words us) = 8 * length us" by (simp add: entries_words_def)
  have "length (concat (map ta_use_words vs)) = 8 * length (map ta_use_words vs)"
    by (rule length_concat_const) auto
  then show "length (ta_entries_words vs) = 8 * length vs" by (simp add: ta_entries_words_def)
qed

lemma words_entries_append:
  "words_entries (entries_words us @ ws) = us @ words_entries ws"
proof -
  have "chunks 8 (concat (map use_words us) @ ws) = map use_words us @ chunks 8 ws"
    by (rule chunks_concat) auto
  then show ?thesis by (simp add: words_entries_def entries_words_def o_def)
qed

lemma words_ta_entries_append:
  "words_ta_entries (ta_entries_words us @ ws) = us @ words_ta_entries ws"
proof -
  have "chunks 8 (concat (map ta_use_words us) @ ws) = map ta_use_words us @ chunks 8 ws"
    by (rule chunks_concat) auto
  then show ?thesis by (simp add: words_ta_entries_def ta_entries_words_def o_def)
qed

lemma words_entries_short [simp]: "length ws < 8 \<Longrightarrow> words_entries ws = []"
  by (simp add: words_entries_def)

lemma words_ta_entries_short [simp]: "length ws < 8 \<Longrightarrow> words_ta_entries ws = []"
  by (simp add: words_ta_entries_def)

lemma entries_words_as_host: "entries_words (map as_host us) = ta_entries_words us"
  by (simp add: entries_words_def ta_entries_words_def o_def)

lemma ta_entries_words_as_ta: "ta_entries_words (map as_ta us) = entries_words us"
  by (simp add: entries_words_def ta_entries_words_def o_def)

lemma words_ta_entries_of_host:
  "words_ta_entries (entries_words us @ ws) = map as_ta us @ words_ta_entries ws"
  using words_ta_entries_append [of "map as_ta us" ws] by (simp add: ta_entries_words_as_ta)

lemma words_entries_of_ta:
  "words_entries (ta_entries_words us @ ws) = map as_host us @ words_entries ws"
  using words_entries_append [of "map as_host us" ws] by (simp add: entries_words_as_host)

section \<open>Events\<close>

text \<open>
  What the instrumented program reports: a static definition (a variable comes into
  existence at an address), a dynamic one (with its size), a use (a write that ends at
  an address), and an indirect use (a write through a parameter whose definition the
  caller passed on).
\<close>

datatype event =
    Def (ev_id: u32) (ev_addr: u32)
  | Ddef (ev_id: u32) (ev_addr: u32) (ev_size: u32)
  | Use (ev_id: u32) (ev_addr: u32)
  | Iuse (ev_id: u32) (ev_def: u32) (ev_addr: u32)

text \<open>
  The events one slot of the extracted trace stands for: the host prints a line for each
  condition that holds, in this order (the four tests of write_trace_to_file).
\<close>

definition slot_events :: "use_t \<Rightarrow> event list" where
  "slot_events u =
     (if def u \<noteq> 0 \<and> def_size u = -1 then [Def (def u) (def_addr u)] else []) @
     (if def u \<noteq> 0 \<and> def_size u \<noteq> -1 then [Ddef (def u) (def_addr u) (def_size u)] else []) @
     (if use_id u \<noteq> 0 then [Use (use_id u) (use_addr u)] else []) @
     (if i_use_def u \<noteq> 0 then [Iuse (i_use_use u) (i_use_def u) (i_use_addr u)] else [])"

lemma slot_events_zero [simp]: "slot_events use_zero = []"
  by (simp add: slot_events_def use_zero_def)

text \<open>
  The event a cache entry stands for: the first of the four tests that holds, in the order
  of the two flush loops; an entry for which none holds is blank.
\<close>

definition entry_event :: "use_t \<Rightarrow> event option" where
  "entry_event u =
     (if def u \<noteq> 0 \<and> def_size u = 0 then Some (Def (def u) (def_addr u))
      else if use_id u \<noteq> 0 then Some (Use (use_id u) (use_addr u))
      else if i_use_use u \<noteq> 0 then Some (Iuse (i_use_use u) (i_use_def u) (i_use_addr u))
      else if def_size u \<noteq> 0 then Some (Ddef (def u) (def_addr u) (def_size u))
      else None)"

lemma entry_event_zero [simp]: "entry_event use_zero = None"
  by (simp add: entry_event_def use_zero_def)

text \<open>
  The events the trace can keep: an identifier of 0 marks an absent field, a dynamic size
  of -1 marks a static definition, and an indirect use is found by its definition.
\<close>

fun recordable :: "event \<Rightarrow> bool" where
  "recordable (Def i a) \<longleftrightarrow> i \<noteq> 0"
| "recordable (Ddef i a n) \<longleftrightarrow> i \<noteq> 0 \<and> n \<noteq> -1"
| "recordable (Use i a) \<longleftrightarrow> i \<noteq> 0"
| "recordable (Iuse i d a) \<longleftrightarrow> d \<noteq> 0"

end
