(* ===== verification/TEE_Types.thy ===== *)
theory TEE_Types
  imports EW_Prelude
begin

text \<open>
  The GlobalPlatform TEE vocabulary the two sides share. The trusted side names its
  parameter types and result codes by constants whose header (tee_api_defines.h) is not
  part of the repository: they are the constructors of a datatype here, and a
  \<open>TEE_PARAM_TYPES\<close> word is the four types it packs. The client side's header
  (include/tee_client_api.h) is part of it, so its constants have their numbers.
\<close>

section \<open>Trusted side\<close>

datatype tee_ptype =
    TEE_PARAM_TYPE_NONE
  | TEE_PARAM_TYPE_VALUE_INPUT
  | TEE_PARAM_TYPE_VALUE_OUTPUT
  | TEE_PARAM_TYPE_VALUE_INOUT
  | TEE_PARAM_TYPE_MEMREF_INPUT
  | TEE_PARAM_TYPE_MEMREF_OUTPUT
  | TEE_PARAM_TYPE_MEMREF_INOUT

type_synonym tee_ptypes = "tee_ptype \<times> tee_ptype \<times> tee_ptype \<times> tee_ptype"

abbreviation TEE_PARAM_TYPES ::
    "tee_ptype \<Rightarrow> tee_ptype \<Rightarrow> tee_ptype \<Rightarrow> tee_ptype \<Rightarrow> tee_ptypes" where
  "TEE_PARAM_TYPES p0 p1 p2 p3 \<equiv> (p0, p1, p2, p3)"

datatype tee_result = TEE_SUCCESS | TEE_ERROR_BAD_PARAMETERS | TEE_ERROR_SECURITY

text \<open>
  One parameter: two integers, or a shared buffer. The buffer of a memory reference is the
  registered words; \<open>slack\<close> are the words that happen to be mapped right behind it (shared
  memory is mapped by whole pages), so that a read past the end is a value of the
  model where the page continues and stuck where it does not.
\<close>

datatype tee_param = Value u32 u32 | Memref (buffer: "u32 list") (slack: "u32 list")

definition get_value :: "tee_param \<Rightarrow> (u32 \<times> u32) c" where
  "get_value p = (case p of Value a b \<Rightarrow> Inr (a, b) | Memref _ _ \<Rightarrow> Inl Bad_Union_Access)"

definition get_memref :: "tee_param \<Rightarrow> (u32 list \<times> u32 list) c" where
  "get_memref p = (case p of Value _ _ \<Rightarrow> Inl Bad_Union_Access | Memref b s \<Rightarrow> Inr (b, s))"

lemma get_value_simps [simp, c_simps]:
  "get_value (Value a b) = Inr (a, b)" "get_value (Memref m s) = Inl Bad_Union_Access"
  by (simp_all add: get_value_def)

lemma get_memref_simps [simp, c_simps]:
  "get_memref (Memref m s) = Inr (m, s)" "get_memref (Value a b) = Inl Bad_Union_Access"
  by (simp_all add: get_memref_def)

record tee_time =
  seconds :: u32
  millis :: u32

section \<open>Client side\<close>

definition TEEC_NONE :: u32 where "TEEC_NONE = 0x0"
definition TEEC_VALUE_INOUT :: u32 where "TEEC_VALUE_INOUT = 0x3"
definition TEEC_MEMREF_WHOLE :: u32 where "TEEC_MEMREF_WHOLE = 0xC"

definition TEEC_MEM_INPUT :: u32 where "TEEC_MEM_INPUT = 0x1"
definition TEEC_MEM_OUTPUT :: u32 where "TEEC_MEM_OUTPUT = 0x2"

unbundle bit_operations_syntax

definition TEEC_PARAM_TYPES :: "u32 \<Rightarrow> u32 \<Rightarrow> u32 \<Rightarrow> u32 \<Rightarrow> u32" where
  "TEEC_PARAM_TYPES p0 p1 p2 p3 =
     (p0 OR push_bit 4 p1 OR push_bit 8 p2 OR push_bit 12 p3)"

definition TEEC_PARAM_TYPE_GET :: "u32 \<Rightarrow> nat \<Rightarrow> u32" where
  "TEEC_PARAM_TYPE_GET p i = (drop_bit (i * 4) p AND 0xF)"

text \<open>
  Unpacking gives back what was packed, as long as each type fits its four bits.
\<close>

lemma param_types_get:
  assumes "p0 AND 0xF = p0" "p1 AND 0xF = p1" "p2 AND 0xF = p2" "p3 AND 0xF = p3"
  shows "TEEC_PARAM_TYPE_GET (TEEC_PARAM_TYPES p0 p1 p2 p3) 0 = p0"
    and "TEEC_PARAM_TYPE_GET (TEEC_PARAM_TYPES p0 p1 p2 p3) 1 = p1"
    and "TEEC_PARAM_TYPE_GET (TEEC_PARAM_TYPES p0 p1 p2 p3) 2 = p2"
    and "TEEC_PARAM_TYPE_GET (TEEC_PARAM_TYPES p0 p1 p2 p3) 3 = p3"
proof -
  have low: "n < 4" if "p AND 0xF = p" "bit p n" for p :: u32 and n
  proof -
    have "bit (p AND mask 4) n" using that by (simp add: mask_eq_exp_minus_1)
    then show ?thesis by (simp add: bit_simps)
  qed
  have F: "(0xF :: u32) = mask 4" by (simp add: mask_eq_exp_minus_1)
  note d = low [OF assms(1)] low [OF assms(2)] low [OF assms(3)] low [OF assms(4)]
  show "TEEC_PARAM_TYPE_GET (TEEC_PARAM_TYPES p0 p1 p2 p3) 0 = p0"
    unfolding TEEC_PARAM_TYPE_GET_def TEEC_PARAM_TYPES_def F
    by (rule bit_eqI) (auto simp: bit_simps dest: d)
  show "TEEC_PARAM_TYPE_GET (TEEC_PARAM_TYPES p0 p1 p2 p3) 1 = p1"
    unfolding TEEC_PARAM_TYPE_GET_def TEEC_PARAM_TYPES_def F
    by (rule bit_eqI) (auto simp: bit_simps dest: d)
  show "TEEC_PARAM_TYPE_GET (TEEC_PARAM_TYPES p0 p1 p2 p3) 2 = p2"
    unfolding TEEC_PARAM_TYPE_GET_def TEEC_PARAM_TYPES_def F
    by (rule bit_eqI) (auto simp: bit_simps dest: d)
  show "TEEC_PARAM_TYPE_GET (TEEC_PARAM_TYPES p0 p1 p2 p3) 3 = p3"
    unfolding TEEC_PARAM_TYPE_GET_def TEEC_PARAM_TYPES_def F
    by (rule bit_eqI) (auto simp: bit_simps dest: d)
qed

lemma teec_param_types_value:
  "TEEC_PARAM_TYPES TEEC_VALUE_INOUT TEEC_NONE TEEC_NONE TEEC_NONE = 0x3"
  by (simp add: TEEC_PARAM_TYPES_def TEEC_VALUE_INOUT_def TEEC_NONE_def)

lemma teec_param_types_memref:
  "TEEC_PARAM_TYPES TEEC_MEMREF_WHOLE TEEC_NONE TEEC_NONE TEEC_NONE = 0xC"
  by (simp add: TEEC_PARAM_TYPES_def TEEC_MEMREF_WHOLE_def TEEC_NONE_def)

text \<open>
  The buffer of a shared memory reference as the host sees it: live with its words, or
  already freed (the host frees it when its registration fails and still passes it on).
\<close>

datatype shm_buffer = Live "u32 list" | Freed

datatype teec_parameter = TP_value u32 u32 | TP_memref shm_buffer u32

record teec_operation =
  paramTypes :: u32
  params0 :: teec_parameter

end
