(* ===== verification/Trace_Sink.thy ===== *)
theory Trace_Sink
  imports EW_Prelude
begin

text \<open>
  The contract between a producer of events and the store that keeps them: while there is
  room, recording an accepted event appends it to the log and keeps the invariant. The
  producer's lemmas about whole runs are proved here once, for any store.
\<close>

locale trace_sink =
  fixes rec_ev :: "'e \<Rightarrow> 's \<Rightarrow> 's c"
    and log :: "'s \<Rightarrow> 'e list"
    and invar :: "'s \<Rightarrow> bool"
    and accepts :: "'e \<Rightarrow> bool"
    and room :: "'s \<Rightarrow> nat"
  assumes rec_ev_appends:
    "invar s \<Longrightarrow> accepts e \<Longrightarrow> 0 < room s \<Longrightarrow>
       \<exists>s'. rec_ev e s = Inr s' \<and> invar s' \<and> log s' = log s @ [e] \<and> room s = Suc (room s')"
begin

lemma run_appends:
  "invar s \<Longrightarrow> list_all accepts es \<Longrightarrow> length es \<le> room s \<Longrightarrow>
     \<exists>s'. c_run rec_ev es s = Inr s' \<and> invar s' \<and> log s' = log s @ es \<and>
       room s = length es + room s'"
proof (induction es arbitrary: s)
  case Nil
  then show ?case by simp
next
  case (Cons e es)
  then obtain t where t: "rec_ev e s = Inr t" "invar t" "log t = log s @ [e]"
    "room s = Suc (room t)"
    using rec_ev_appends [of s e] by auto
  then have "length es \<le> room t" using Cons.prems(3) by simp
  then obtain s' where "c_run rec_ev es t = Inr s'" "invar s'" "log s' = log t @ es"
    "room t = length es + room s'"
    using Cons.IH [OF t(2)] Cons.prems(2) by auto
  then show ?case using t by auto
qed

lemma run_log_prefix:
  assumes "invar s" and "list_all accepts (es @ fs)" and "length (es @ fs) \<le> room s"
  obtains t u where "c_run rec_ev es s = Inr t" and "c_run rec_ev fs t = Inr u"
    and "log u = log t @ fs" and "log t = log s @ es"
proof -
  obtain t where t: "c_run rec_ev es s = Inr t" "invar t" "log t = log s @ es"
    "room s = length es + room t"
    using run_appends [of s es] assms by auto
  moreover obtain u where "c_run rec_ev fs t = Inr u" "log u = log t @ fs"
    using run_appends [of t fs] t(2,4) assms by auto
  ultimately show thesis using that by blast
qed

end

end
