(* ===== verification/Secure_Trace.thy ===== *)
theory Secure_Trace
  imports Use_Entry TEE_Types Trace_Sink
begin

text \<open>
  The trusted application zbouncer-ta/ta/zbouncer_ta.c: the ring of trace slots it keeps,
  its command handlers and their dispatch. A handler returns the result code, the
  parameter as it leaves it, and the new state; where the C code would read or write
  outside an array the result is stuck.
\<close>

section \<open>State\<close>

definition DYNAMIC_TRACE_SIZE :: int where "DYNAMIC_TRACE_SIZE = 2048"

definition TA_ZBOUNCER_DEF :: u32 where "TA_ZBOUNCER_DEF = 4"
definition TA_ZBOUNCER_USE :: u32 where "TA_ZBOUNCER_USE = 5"
definition TA_ZBOUNCER_CMD_GOTVALUE :: u32 where "TA_ZBOUNCER_CMD_GOTVALUE = 6"
definition TA_ZBOUNCER_IUSE :: u32 where "TA_ZBOUNCER_IUSE = 7"
definition TA_ZBOUNCER_DDEF :: u32 where "TA_ZBOUNCER_DDEF = 8"
definition TA_ZBOUNCER_FUNC_CTR :: u32 where "TA_ZBOUNCER_FUNC_CTR = 9"
definition TA_ZBOUNCER_TIME_GLOBAL :: u32 where "TA_ZBOUNCER_TIME_GLOBAL = 10"
definition TA_ZBOUNCER_FLUSH_CACHE :: u32 where "TA_ZBOUNCER_FLUSH_CACHE = 11"

lemmas command_ids =
  TA_ZBOUNCER_DEF_def TA_ZBOUNCER_USE_def TA_ZBOUNCER_CMD_GOTVALUE_def TA_ZBOUNCER_IUSE_def
  TA_ZBOUNCER_DDEF_def TA_ZBOUNCER_FUNC_CTR_def TA_ZBOUNCER_TIME_GLOBAL_def
  TA_ZBOUNCER_FLUSH_CACHE_def

record ta_state =
  dynamic_trace :: "ta_use_t list"
  trace_id :: int
  enable_time_tracing :: u8
  global_start :: u32
  global_end :: u32
  func_ctr :: "u32 list"

definition ta_initial :: ta_state where
  "ta_initial = \<lparr>dynamic_trace = replicate 2048 ta_use_zero, trace_id = 0,
     enable_time_tracing = 0, global_start = 0, global_end = 0, func_ctr = replicate 15 0\<rparr>"

type_synonym ta_result = "(tee_result \<times> tee_param \<times> ta_state) c"

definition read_time :: "tee_time \<Rightarrow> u32" where
  "read_time t = millis t + seconds t * 1000"

section \<open>Recording\<close>

text \<open>
  The handlers write the fields of one slot, chosen by the trace counter, and step the
  counter. The other fields of the slot keep what they hold.
\<close>

definition update_slot :: "(ta_use_t \<Rightarrow> ta_use_t) \<Rightarrow> ta_state \<Rightarrow> ta_state c" where
  "update_slot f s =
     (let i = c_rem (trace_id s) DYNAMIC_TRACE_SIZE in
      cbind (c_read (dynamic_trace s) i) (\<lambda>u.
      cbind (c_write (dynamic_trace s) i (f u)) (\<lambda>t.
      Inr (s\<lparr>dynamic_trace := t\<rparr>))))"

definition next_trace_id :: "ta_state \<Rightarrow> ta_state c" where
  "next_trace_id s = cbind (c_incr (trace_id s)) (\<lambda>n. Inr (s\<lparr>trace_id := n\<rparr>))"

definition record_def :: "u32 \<Rightarrow> u32 \<Rightarrow> ta_state \<Rightarrow> ta_state c" where
  "record_def i a s =
     cbind (update_slot (\<lambda>u. u\<lparr>ta_def := i, ta_def_addr := a, ta_def_size := -1\<rparr>) s) next_trace_id"

definition record_ddef :: "u32 \<Rightarrow> u32 \<Rightarrow> u32 \<Rightarrow> ta_state \<Rightarrow> ta_state c" where
  "record_ddef i a n s =
     cbind (update_slot (\<lambda>u. u\<lparr>ta_def := i, ta_def_addr := a, ta_def_size := n\<rparr>) s) next_trace_id"

definition record_use :: "u32 \<Rightarrow> u32 \<Rightarrow> ta_state \<Rightarrow> ta_state c" where
  "record_use i a s =
     cbind (update_slot (\<lambda>u. u\<lparr>ta_use_id := i, ta_use_addr := a\<rparr>) s) next_trace_id"

definition record_iuse :: "u32 \<Rightarrow> u32 \<Rightarrow> u32 \<Rightarrow> ta_state \<Rightarrow> ta_state c" where
  "record_iuse i d a s =
     cbind (update_slot (\<lambda>u. u\<lparr>i_use := i, i_def := d, i_addr := a\<rparr>) s) next_trace_id"

section \<open>Handlers\<close>

definition zbouncer_def_ta :: "tee_ptypes \<Rightarrow> tee_param \<Rightarrow> ta_state \<Rightarrow> ta_result" where
  "zbouncer_def_ta param_types p s =
     (if param_types \<noteq> TEE_PARAM_TYPES TEE_PARAM_TYPE_VALUE_INOUT TEE_PARAM_TYPE_NONE
           TEE_PARAM_TYPE_NONE TEE_PARAM_TYPE_NONE
      then Inr (TEE_ERROR_BAD_PARAMETERS, p, s)
      else cbind (get_value p) (\<lambda>(a, b).
           cbind (record_def a b s) (\<lambda>s'. Inr (TEE_SUCCESS, p, s'))))"

definition zbouncer_ddef_ta :: "tee_ptypes \<Rightarrow> tee_param \<Rightarrow> ta_state \<Rightarrow> ta_result" where
  "zbouncer_ddef_ta param_types p s =
     (if param_types \<noteq> TEE_PARAM_TYPES TEE_PARAM_TYPE_MEMREF_INOUT TEE_PARAM_TYPE_NONE
           TEE_PARAM_TYPE_NONE TEE_PARAM_TYPE_NONE
      then Inr (TEE_ERROR_BAD_PARAMETERS, p, s)
      else cbind (get_memref p) (\<lambda>(data, sl).
           cbind (c_read (data @ sl) 0) (\<lambda>d0.
           cbind (c_read (data @ sl) 1) (\<lambda>d1.
           cbind (c_read (data @ sl) 2) (\<lambda>d2.
           cbind (record_ddef d0 d1 d2 s) (\<lambda>s'. Inr (TEE_SUCCESS, p, s')))))))"

definition zbouncer_use_ta :: "tee_ptypes \<Rightarrow> tee_param \<Rightarrow> ta_state \<Rightarrow> ta_result" where
  "zbouncer_use_ta param_types p s =
     (if param_types \<noteq> TEE_PARAM_TYPES TEE_PARAM_TYPE_VALUE_INOUT TEE_PARAM_TYPE_NONE
           TEE_PARAM_TYPE_NONE TEE_PARAM_TYPE_NONE
      then Inr (TEE_ERROR_BAD_PARAMETERS, p, s)
      else cbind (get_value p) (\<lambda>(a, b).
           cbind (record_use a b s) (\<lambda>s'. Inr (TEE_SUCCESS, p, s'))))"

text \<open>
  The handler of indirect uses logs the slot before it steps the counter, and indexes the
  trace by the counter itself, without the remainder.
\<close>

definition zbouncer_iuse_ta :: "tee_ptypes \<Rightarrow> tee_param \<Rightarrow> ta_state \<Rightarrow> ta_result" where
  "zbouncer_iuse_ta param_types p s =
     (if param_types \<noteq> TEE_PARAM_TYPES TEE_PARAM_TYPE_MEMREF_INOUT TEE_PARAM_TYPE_NONE
           TEE_PARAM_TYPE_NONE TEE_PARAM_TYPE_NONE
      then Inr (TEE_ERROR_BAD_PARAMETERS, p, s)
      else cbind (get_memref p) (\<lambda>(data, sl).
           cbind (c_read (data @ sl) 0) (\<lambda>d0.
           cbind (c_read (data @ sl) 1) (\<lambda>d1.
           cbind (c_read (data @ sl) 2) (\<lambda>d2.
           cbind (update_slot (\<lambda>u. u\<lparr>i_use := d0, i_def := d1, i_addr := d2\<rparr>) s) (\<lambda>s1.
           cbind (c_read (dynamic_trace s1) (trace_id s1)) (\<lambda>_.
           cbind (next_trace_id s1) (\<lambda>s'. Inr (TEE_SUCCESS, p, s')))))))))"

text \<open>
  \<open>TEE_MemMove\<close> of the first 1024 slots (of 2048) into the caller's buffer. The loop that
  follows returns in its first round, its body being the \<open>return\<close>.
\<close>

definition copy_trace :: "tee_ptypes \<Rightarrow> tee_param \<Rightarrow> ta_state \<Rightarrow> ta_result" where
  "copy_trace param_types p s =
     (if param_types \<noteq> TEE_PARAM_TYPES TEE_PARAM_TYPE_MEMREF_INOUT TEE_PARAM_TYPE_NONE
           TEE_PARAM_TYPE_NONE TEE_PARAM_TYPE_NONE
      then Inr (TEE_ERROR_BAD_PARAMETERS, p, s)
      else cbind (get_memref p) (\<lambda>(buf, sl).
           let src = ta_entries_words (take 1024 (dynamic_trace s)) in
           if length (dynamic_trace s) < 1024 \<or> length (buf @ sl) < length src
           then Inl Out_Of_Bounds
           else let mem = src @ drop (length src) (buf @ sl) in
             Inr (TEE_SUCCESS, Memref (take (length buf) mem) (drop (length buf) mem), s)))"

definition zbouncer_time_global :: "tee_time \<Rightarrow> tee_ptypes \<Rightarrow> tee_param \<Rightarrow> ta_state \<Rightarrow> ta_result" where
  "zbouncer_time_global now param_types p s =
     (if param_types \<noteq> TEE_PARAM_TYPES TEE_PARAM_TYPE_VALUE_INOUT TEE_PARAM_TYPE_NONE
           TEE_PARAM_TYPE_NONE TEE_PARAM_TYPE_NONE
      then Inr (TEE_ERROR_BAD_PARAMETERS, p, s)
      else let s1 = s\<lparr>global_end := read_time now\<rparr> in
           Inr (TEE_SUCCESS, Value (global_start s1) (global_end s1), s1))"

definition zbouncer_func_ctr :: "tee_ptypes \<Rightarrow> tee_param \<Rightarrow> ta_state \<Rightarrow> ta_result" where
  "zbouncer_func_ctr param_types p s =
     (if param_types \<noteq> TEE_PARAM_TYPES TEE_PARAM_TYPE_VALUE_INOUT TEE_PARAM_TYPE_NONE
           TEE_PARAM_TYPE_NONE TEE_PARAM_TYPE_NONE
      then Inr (TEE_ERROR_BAD_PARAMETERS, p, s)
      else cbind (c_read (func_ctr s) (uint TA_ZBOUNCER_USE)) (\<lambda>cu.
           cbind (c_read (func_ctr s) (uint TA_ZBOUNCER_DEF)) (\<lambda>cd.
           cbind (c_read (func_ctr s) (uint TA_ZBOUNCER_IUSE)) (\<lambda>ci.
           cbind (c_read (func_ctr s) (uint TA_ZBOUNCER_DDEF)) (\<lambda>cdd.
           Inr (TEE_SUCCESS, Value (push_bit 16 cu OR (cd AND 0xFFFF))
                                   (push_bit 16 ci OR (cdd AND 0xFFFF)), s))))))"

text \<open>
  Flushing a cache: a first loop logs the entries 0 to 128 (one more than the cache has),
  a second one records entry after entry until the first blank one, without a bound of
  its own.
\<close>

definition log_cache :: "ta_use_t list \<Rightarrow> unit c" where
  "log_cache es = c_run (\<lambda>i _. cbind (c_read es i) (\<lambda>_. Inr ())) [0..128] ()"

fun flush_loop :: "ta_use_t list \<Rightarrow> ta_state \<Rightarrow> ta_state c" where
  "flush_loop [] s = Inl Out_Of_Bounds"
| "flush_loop (u # us) s =
     (if ta_def u \<noteq> 0 \<and> ta_def_size u = 0
      then cbind (record_def (ta_def u) (ta_def_addr u) s) (flush_loop us)
      else if ta_use_id u \<noteq> 0
      then cbind (record_use (ta_use_id u) (ta_use_addr u) s) (flush_loop us)
      else if i_use u \<noteq> 0
      then cbind (record_iuse (i_use u) (i_def u) (i_addr u) s) (flush_loop us)
      else if ta_def_size u \<noteq> 0
      then cbind (record_ddef (ta_def u) (ta_def_addr u) (ta_def_size u) s) (flush_loop us)
      else Inr s)"

definition zbouncer_flush_cache_ta :: "tee_ptypes \<Rightarrow> tee_param \<Rightarrow> ta_state \<Rightarrow> ta_result" where
  "zbouncer_flush_cache_ta param_types p s =
     (if param_types \<noteq> TEE_PARAM_TYPES TEE_PARAM_TYPE_MEMREF_INOUT TEE_PARAM_TYPE_NONE
           TEE_PARAM_TYPE_NONE TEE_PARAM_TYPE_NONE
      then Inr (TEE_ERROR_BAD_PARAMETERS, p, s)
      else cbind (get_memref p) (\<lambda>(buf, sl).
           let es = words_ta_entries (buf @ sl) in
           cbind (log_cache es) (\<lambda>_.
           cbind (flush_loop es s) (\<lambda>s'. Inr (TEE_SUCCESS, p, s')))))"

section \<open>Entry points\<close>

definition TA_OpenSessionEntryPoint :: "tee_time \<Rightarrow> tee_ptypes \<Rightarrow> tee_param \<Rightarrow> ta_state \<Rightarrow> ta_result" where
  "TA_OpenSessionEntryPoint now param_types p s =
     (let s1 = s\<lparr>global_start := read_time now\<rparr> in
      if param_types \<noteq> TEE_PARAM_TYPES TEE_PARAM_TYPE_VALUE_INOUT TEE_PARAM_TYPE_NONE
           TEE_PARAM_TYPE_NONE TEE_PARAM_TYPE_NONE
      then Inr (TEE_ERROR_BAD_PARAMETERS, p, s1)
      else cbind (get_value p) (\<lambda>(a, b).
           let s2 = (if a = 0x00FF00FF then s1\<lparr>enable_time_tracing := 0xFF\<rparr> else s1) in
           Inr (TEE_SUCCESS, p, s2\<lparr>trace_id := 0\<rparr>)))"

definition count_flush :: "ta_state \<Rightarrow> ta_state c" where
  "count_flush s =
     cbind (c_read (func_ctr s) (uint TA_ZBOUNCER_DEF)) (\<lambda>n.
     cbind (c_write (func_ctr s) (uint TA_ZBOUNCER_DEF) (n + 1)) (\<lambda>f.
     Inr (s\<lparr>func_ctr := f\<rparr>)))"

definition TA_InvokeCommandEntryPoint ::
    "tee_time \<Rightarrow> u32 \<Rightarrow> tee_ptypes \<Rightarrow> tee_param \<Rightarrow> ta_state \<Rightarrow> ta_result" where
  "TA_InvokeCommandEntryPoint now cmd_id param_types p s =
     (if cmd_id = TA_ZBOUNCER_USE then zbouncer_use_ta param_types p s
      else if cmd_id = TA_ZBOUNCER_DEF then zbouncer_def_ta param_types p s
      else if cmd_id = TA_ZBOUNCER_CMD_GOTVALUE then copy_trace param_types p s
      else if cmd_id = TA_ZBOUNCER_IUSE then zbouncer_iuse_ta param_types p s
      else if cmd_id = TA_ZBOUNCER_DDEF then zbouncer_ddef_ta param_types p s
      else if cmd_id = TA_ZBOUNCER_TIME_GLOBAL then zbouncer_time_global now param_types p s
      else if cmd_id = TA_ZBOUNCER_FUNC_CTR then zbouncer_func_ctr param_types p s
      else if cmd_id = TA_ZBOUNCER_FLUSH_CACHE then
        cbind (zbouncer_flush_cache_ta param_types p s) (\<lambda>(error, p', s').
        cbind (count_flush s') (\<lambda>s''. Inr (error, p', s'')))
      else Inr (TEE_ERROR_BAD_PARAMETERS, p, s))"

end
