(* ===== verification/Host_Cache.thy ===== *)
theory Host_Cache
  imports Use_Entry TEE_Types Secure_Trace
begin

text \<open>
  The host library libzbouncer/host/libzbouncer.c: the cache of events it keeps in the
  normal world, its flush, and the reporting functions the instrumented program calls.

  The TEE client library is not part of the repository. What the host needs of it is a
  parameter: \<open>optee\<close> holds the outcome of registering a shared buffer and the invocation
  of a command of the trusted application, which transforms the secure world's state.
\<close>

section \<open>State and environment\<close>

datatype ENTRY_TYPE = T_def | T_use | T_libuse | T_iuse | T_ilibuse | T_dalloca | T_novalue

record host_state =
  cache_enabled :: int
  cache :: "use_t list option"
  cache_last_index :: int
  res :: u32
  op :: teec_operation

definition host_initial :: host_state where
  "host_initial = \<lparr>cache_enabled = 1, cache = None, cache_last_index = -1, res = 0,
     op = \<lparr>paramTypes = 0, params0 = TP_value 0 0\<rparr>\<rparr>"

type_synonym memory = "u32 \<Rightarrow> u8 option"

record optee =
  register_shm :: "u32 list \<Rightarrow> bool"
  invoke :: "u32 \<Rightarrow> teec_operation \<Rightarrow> ta_state \<Rightarrow> (u32 \<times> teec_operation \<times> ta_state) c"
  open_session :: "teec_operation \<Rightarrow> ta_state \<Rightarrow> (u32 \<times> teec_operation \<times> ta_state) c"

type_synonym world = "host_state \<times> ta_state"

definition TEEC_InvokeCommand :: "optee \<Rightarrow> u32 \<Rightarrow> world \<Rightarrow> world c" where
  "TEEC_InvokeCommand env cmd hs =
     (case hs of (h, s) \<Rightarrow>
        cbind (invoke env cmd (op h) s) (\<lambda>(r, o', s'). Inr (h\<lparr>res := r, op := o'\<rparr>, s')))"

section \<open>Reporting without the cache\<close>

text \<open>
  A definition and a use travel as two values; a dynamic definition and an indirect use
  as three words of shared memory. A buffer that cannot be registered is freed and the
  command is invoked all the same.
\<close>

definition value_op :: "u32 \<Rightarrow> u32 \<Rightarrow> host_state \<Rightarrow> host_state" where
  "value_op a b h = h\<lparr>op := \<lparr>
     paramTypes = TEEC_PARAM_TYPES TEEC_VALUE_INOUT TEEC_NONE TEEC_NONE TEEC_NONE,
     params0 = TP_value a b\<rparr>\<rparr>"

definition memref_op :: "optee \<Rightarrow> u32 list \<Rightarrow> host_state \<Rightarrow> host_state" where
  "memref_op env data h = h\<lparr>op := \<lparr>
     paramTypes = TEEC_PARAM_TYPES TEEC_MEMREF_WHOLE TEEC_NONE TEEC_NONE TEEC_NONE,
     params0 = TP_memref (if register_shm env data then Live data else Freed)
       (TEEC_MEM_INPUT OR TEEC_MEM_OUTPUT)\<rparr>\<rparr>"

definition send_def :: "optee \<Rightarrow> u32 \<Rightarrow> u32 \<Rightarrow> world \<Rightarrow> world c" where
  "send_def env d addr hs =
     (case hs of (h, s) \<Rightarrow> TEEC_InvokeCommand env TA_ZBOUNCER_DEF (value_op d addr h, s))"

definition send_ddef :: "optee \<Rightarrow> u32 \<Rightarrow> u32 \<Rightarrow> u32 \<Rightarrow> world \<Rightarrow> world c" where
  "send_ddef env d addr sz hs =
     (case hs of (h, s) \<Rightarrow>
        TEEC_InvokeCommand env TA_ZBOUNCER_DDEF (memref_op env [d, addr, sz] h, s))"

definition send_use :: "optee \<Rightarrow> u32 \<Rightarrow> u32 \<Rightarrow> world \<Rightarrow> world c" where
  "send_use env u addr hs =
     (case hs of (h, s) \<Rightarrow> TEEC_InvokeCommand env TA_ZBOUNCER_USE (value_op u addr h, s))"

definition send_iuse :: "optee \<Rightarrow> u32 \<Rightarrow> u32 \<Rightarrow> u32 \<Rightarrow> world \<Rightarrow> world c" where
  "send_iuse env u d addr hs =
     (case hs of (h, s) \<Rightarrow>
        TEEC_InvokeCommand env TA_ZBOUNCER_IUSE (memref_op env [u, d, addr] h, s))"

section \<open>The end of a written object\<close>

text \<open>
  A library call that writes a string ends its write at the terminating zero. The loop
  looks for it byte by byte; it need not stop, and it is stuck at an unmapped address.
\<close>

partial_function (option) getEndOfObject :: "memory \<Rightarrow> u32 \<Rightarrow> u32 c option" where
  "getEndOfObject mem ptr =
     (case mem ptr of
        None \<Rightarrow> Some (Inl Out_Of_Bounds)
      | Some b \<Rightarrow> (if b \<noteq> 0 then getEndOfObject mem (ptr + 1) else Some (Inr ptr)))"

definition end_of_object :: "memory \<Rightarrow> u32 \<Rightarrow> u32 c" where
  "end_of_object mem ptr =
     (case getEndOfObject mem ptr of None \<Rightarrow> Inl Diverges | Some r \<Rightarrow> r)"

definition end_of_write :: "memory \<Rightarrow> u32 \<Rightarrow> u32 \<Rightarrow> u32 c" where
  "end_of_write mem addr size_of_write =
     (if size_of_write = 0xDEADBEEF then end_of_object mem addr
      else Inr (addr + size_of_write))"

section \<open>The cache\<close>

text \<open>The assignments of one event to an entry; the other fields keep what they hold.\<close>

definition entry_write ::
    "memory \<Rightarrow> ENTRY_TYPE \<Rightarrow> u32 \<Rightarrow> u32 \<Rightarrow> u32 \<Rightarrow> u32 \<Rightarrow> u32 \<Rightarrow> use_t \<Rightarrow> use_t c" where
  "entry_write mem type i addr def_id' def_size' size_of_write u =
     (case type of
        T_def \<Rightarrow> Inr (u\<lparr>def := i, def_addr := addr\<rparr>)
      | T_use \<Rightarrow> Inr (u\<lparr>use_id := i, use_addr := addr\<rparr>)
      | T_libuse \<Rightarrow> cbind (end_of_write mem addr size_of_write) (\<lambda>size.
          Inr (u\<lparr>use_id := i, use_addr := size\<rparr>))
      | T_iuse \<Rightarrow> Inr (u\<lparr>i_use_use := i, i_use_def := def_id', i_use_addr := addr\<rparr>)
      | T_ilibuse \<Rightarrow> cbind (end_of_write mem addr size_of_write) (\<lambda>size.
          Inr (u\<lparr>i_use_use := i, i_use_def := def_id', i_use_addr := size\<rparr>))
      | T_dalloca \<Rightarrow> Inr (u\<lparr>def := i, def_addr := addr, def_size := def_size'\<rparr>)
      | T_novalue \<Rightarrow> Inr u)"

definition zbouncer_update_entry ::
    "memory \<Rightarrow> ENTRY_TYPE \<Rightarrow> int \<Rightarrow> u32 \<Rightarrow> u32 \<Rightarrow> u32 \<Rightarrow> u32 \<Rightarrow> u32 \<Rightarrow> host_state \<Rightarrow> host_state c" where
  "zbouncer_update_entry mem type index i addr def_id' def_size' size_of_write h =
     cbind (c_deref (cache h)) (\<lambda>c.
     cbind (c_read c index) (\<lambda>u.
     cbind (entry_write mem type i addr def_id' def_size' size_of_write u) (\<lambda>u'.
     cbind (c_write c index u') (\<lambda>c'. Inr (h\<lparr>cache := Some c'\<rparr>)))))"

text \<open>The search for an entry of the same definition, from entry \<open>i\<close> to \<open>last\<close>.\<close>

definition entry_matches :: "ENTRY_TYPE \<Rightarrow> u32 \<Rightarrow> u32 \<Rightarrow> use_t \<Rightarrow> bool" where
  "entry_matches type i def_id' u \<longleftrightarrow>
     def u = i \<and> (\<not> (type = T_iuse \<or> type = T_ilibuse) \<or> def u = def_id')"

function find_entry :: "(use_t \<Rightarrow> bool) \<Rightarrow> use_t list \<Rightarrow> int \<Rightarrow> int \<Rightarrow> int option c" where
  "find_entry P c i lst =
     (if i \<le> lst
      then cbind (c_read c i) (\<lambda>u. if P u then Inr (Some i) else find_entry P c (i + 1) lst)
      else Inr None)"
  by pat_completeness auto
termination
  by (relation "measure (\<lambda>(P, c, i, lst). nat (lst - i + 1))") auto

declare find_entry.simps [simp del]

section \<open>Flushing\<close>

text \<open>
  \<open>memset(cache, 0, 128 * sizeof(use))\<close>: in the scope of the call \<open>use\<close> is the enumeration
  constant of ENTRY_TYPE, an \<open>int\<close>, and not the struct; the call clears 512 bytes.
\<close>

definition sizeof_int :: nat where "sizeof_int = 4"

definition memset_zero :: "nat \<Rightarrow> use_t list \<Rightarrow> use_t list c" where
  "memset_zero bytes c =
     (let ws = entries_words c in
      if length ws * 4 < bytes then Inl Out_Of_Bounds
      else Inr (words_entries (replicate (bytes div 4) 0 @ drop (bytes div 4) ws)))"

definition reset_cache :: "world \<Rightarrow> world c" where
  "reset_cache hs =
     (case hs of (h, s) \<Rightarrow>
        cbind (c_deref (cache h)) (\<lambda>c.
        cbind (memset_zero (128 * sizeof_int) c) (\<lambda>c'.
        Inr (h\<lparr>cache_last_index := -1, cache := Some c'\<rparr>, s))))"

text \<open>
  With the cache enabled, its 128 entries are copied to a shared buffer and the trusted
  application reads them from there; otherwise the entries are reported one by one.
\<close>

definition flush_shared :: "optee \<Rightarrow> world \<Rightarrow> world c" where
  "flush_shared env hs =
     (case hs of (h, s) \<Rightarrow>
        cbind (c_deref (cache h)) (\<lambda>c.
        if length c < 128 then Inl Out_Of_Bounds
        else TEEC_InvokeCommand env TA_ZBOUNCER_FLUSH_CACHE
               (memref_op env (entries_words (take 128 c)) h, s)))"

definition send_entry :: "optee \<Rightarrow> use_t \<Rightarrow> world \<Rightarrow> world c" where
  "send_entry env u hs =
     (if def u \<noteq> 0 \<and> def_size u = 0 then send_def env (def u) (def_addr u) hs
      else if use_id u \<noteq> 0 then send_use env (use_id u) (use_addr u) hs
      else if i_use_use u \<noteq> 0 then send_iuse env (i_use_use u) (i_use_def u) (i_use_addr u) hs
      else if def_size u \<noteq> 0 then send_ddef env (def u) (def_addr u) (def_size u) hs
      else Inr hs)"

definition flush_each :: "optee \<Rightarrow> world \<Rightarrow> world c" where
  "flush_each env hs =
     c_run (\<lambda>i hs.
        cbind (c_deref (cache (fst hs))) (\<lambda>c. cbind (c_read c i) (\<lambda>u. send_entry env u hs)))
       [0..cache_last_index (fst hs)] hs"

definition zbouncer_flush_cache :: "optee \<Rightarrow> world \<Rightarrow> world c" where
  "zbouncer_flush_cache env hs =
     cbind (if cache_enabled (fst hs) = 1 then flush_shared env hs else flush_each env hs)
       reset_cache"

section \<open>Collecting\<close>

text \<open>
  The cached branch of zbouncer_collect_entry: an entry of the same definition is updated
  in place, any other event takes the next entry, and a cache that has passed index 120
  is flushed.
\<close>

definition collect_cached ::
    "optee \<Rightarrow> memory \<Rightarrow> ENTRY_TYPE \<Rightarrow> u32 \<Rightarrow> u32 \<Rightarrow> u32 \<Rightarrow> u32 \<Rightarrow> u32 \<Rightarrow> world \<Rightarrow> world c" where
  "collect_cached env mem type i addr def_id' def_size' size_of_write hs =
     (case hs of (h, s) \<Rightarrow>
      cbind (if 0 \<le> cache_last_index h then c_deref (cache h) else Inr []) (\<lambda>c.
      cbind (find_entry (entry_matches type i def_id') c 0 (cache_last_index h)) (\<lambda>k.
      case k of
        Some k \<Rightarrow>
          cbind (zbouncer_update_entry mem type k i addr def_id' def_size' size_of_write h) (\<lambda>h'.
          Inr (h', s))
      | None \<Rightarrow>
          cbind (c_incr (cache_last_index h)) (\<lambda>n.
          cbind (zbouncer_update_entry mem type n i addr def_id' def_size' size_of_write
                   (h\<lparr>cache_last_index := n\<rparr>)) (\<lambda>h'.
          if cache_last_index h' > 120 then zbouncer_flush_cache env (h', s)
          else Inr (h', s))))))"

definition zbouncer_collect_alloca ::
    "optee \<Rightarrow> memory \<Rightarrow> u32 \<Rightarrow> u32 \<Rightarrow> world \<Rightarrow> world c" where
  "zbouncer_collect_alloca env mem d addr hs =
     (if cache_enabled (fst hs) = 1 then collect_cached env mem T_def d addr 0 0 0 hs
      else send_def env d addr hs)"

definition zbouncer_collect_alloca_dyn ::
    "optee \<Rightarrow> memory \<Rightarrow> u32 \<Rightarrow> u32 \<Rightarrow> u32 \<Rightarrow> world \<Rightarrow> world c" where
  "zbouncer_collect_alloca_dyn env mem d addr sz hs =
     (if cache_enabled (fst hs) = 1 then collect_cached env mem T_dalloca d addr 0 sz 0 hs
      else send_ddef env d addr sz hs)"

definition zbouncer_use :: "optee \<Rightarrow> memory \<Rightarrow> u32 \<Rightarrow> u32 \<Rightarrow> world \<Rightarrow> world c" where
  "zbouncer_use env mem u addr hs =
     (if cache_enabled (fst hs) = 1 then collect_cached env mem T_use u addr 0 0 0 hs
      else send_use env u addr hs)"

definition zbouncer_luse :: "optee \<Rightarrow> memory \<Rightarrow> u32 \<Rightarrow> u32 \<Rightarrow> u32 \<Rightarrow> world \<Rightarrow> world c" where
  "zbouncer_luse env mem u addr size_of_write hs =
     cbind (end_of_write mem addr size_of_write) (\<lambda>e. zbouncer_use env mem u e hs)"

definition zbouncer_iuse :: "optee \<Rightarrow> memory \<Rightarrow> u32 \<Rightarrow> u32 \<Rightarrow> u32 \<Rightarrow> world \<Rightarrow> world c" where
  "zbouncer_iuse env mem u d addr hs =
     (if cache_enabled (fst hs) = 1 then collect_cached env mem T_iuse u addr d 0 0 hs
      else send_iuse env u d addr hs)"

definition zbouncer_iluse ::
    "optee \<Rightarrow> memory \<Rightarrow> u32 \<Rightarrow> u32 \<Rightarrow> u32 \<Rightarrow> u32 \<Rightarrow> world \<Rightarrow> world c" where
  "zbouncer_iluse env mem u d addr size_of_write hs =
     cbind (end_of_write mem addr size_of_write) (\<lambda>e. zbouncer_iuse env mem u d e hs)"

definition zbouncer_collect_entry ::
    "optee \<Rightarrow> memory \<Rightarrow> ENTRY_TYPE \<Rightarrow> u32 \<Rightarrow> u32 \<Rightarrow> u32 \<Rightarrow> u32 \<Rightarrow> u32 \<Rightarrow> world \<Rightarrow> world c" where
  "zbouncer_collect_entry env mem type i addr def_id' def_size' size_of_write hs =
     (if cache_enabled (fst hs) = 1
      then collect_cached env mem type i addr def_id' def_size' size_of_write hs
      else (case type of
          T_use \<Rightarrow> zbouncer_use env mem i addr hs
        | T_libuse \<Rightarrow> zbouncer_luse env mem i addr size_of_write hs
        | T_iuse \<Rightarrow> zbouncer_iuse env mem i def_id' addr hs
        | T_ilibuse \<Rightarrow> zbouncer_iluse env mem i def_id' addr size_of_write hs
        | T_dalloca \<Rightarrow> zbouncer_collect_alloca_dyn env mem i addr def_size' hs
        | T_def \<Rightarrow> zbouncer_collect_alloca env mem i addr hs
        | T_novalue \<Rightarrow> Inr hs))"

section \<open>Start and end of the program\<close>

text \<open>
  zinit opens the session and allocates the cache; the child process it forks is the
  extractor of the theory Trace_File. zexit flushes and asks for the times and counters.
\<close>

definition zinit :: "optee \<Rightarrow> world \<Rightarrow> world c" where
  "zinit env hs =
     (case hs of (h, s) \<Rightarrow>
        let h1 = h\<lparr>op := (op h)\<lparr>paramTypes :=
                TEEC_PARAM_TYPES TEEC_VALUE_INOUT TEEC_NONE TEEC_NONE TEEC_NONE\<rparr>\<rparr> in
        cbind (open_session env (op h1) s) (\<lambda>(r, o', s').
        Inr (h1\<lparr>res := r, op := o', cache := Some (replicate 128 use_zero)\<rparr>, s')))"

definition value_types :: "host_state \<Rightarrow> host_state" where
  "value_types h = h\<lparr>op := (op h)\<lparr>paramTypes :=
     TEEC_PARAM_TYPES TEEC_VALUE_INOUT TEEC_NONE TEEC_NONE TEEC_NONE\<rparr>\<rparr>"

definition zexit :: "optee \<Rightarrow> world \<Rightarrow> world c" where
  "zexit env hs =
     cbind (zbouncer_flush_cache env hs) (\<lambda>(h1, s1).
     cbind (TEEC_InvokeCommand env TA_ZBOUNCER_TIME_GLOBAL (value_types h1, s1)) (\<lambda>(h2, s2).
     TEEC_InvokeCommand env TA_ZBOUNCER_FUNC_CTR (value_types h2, s2)))"

definition contextsw_test :: "optee \<Rightarrow> world \<Rightarrow> world c" where
  "contextsw_test env hs =
     (case hs of (h, s) \<Rightarrow> TEEC_InvokeCommand env TA_ZBOUNCER_DEF (value_op 0 0 h, s))"

end
