(* ===== verification/Text_Format.thy ===== *)
theory Text_Format
  imports EW_Prelude "HOL-Library.Char_ord" "HOL-Library.Sublist"
begin

text \<open>
  Text at the two ends of the socket: the conversions of printf the host writes the trace
  with (\<open>%05u\<close>, \<open>%05d\<close>, \<open>%08x\<close>), and the string functions of Python the verifier reads it
  with (\<open>str.split\<close>, \<open>str.strip\<close>, \<open>int\<close> in a base), and the search of \<open>std::string\<close>
  the analyses and passes match names with. A Python function that would raise
  \<open>ValueError\<close> is \<open>None\<close>. The text is ASCII.
\<close>

section \<open>Digits\<close>

function digits :: "nat \<Rightarrow> nat \<Rightarrow> nat list" where
  "digits b n = (if b < 2 \<or> n < b then [n] else digits b (n div b) @ [n mod b])"
  by pat_completeness auto
termination
  by (relation "measure snd") auto

declare digits.simps [simp del]

definition digit_char :: "nat \<Rightarrow> char" where
  "digit_char d = (if d < 10 then char_of (48 + d) else char_of (87 + d))"

definition digit_val :: "char \<Rightarrow> nat option" where
  "digit_val ch =
     (let n = of_char ch :: nat in
      if 48 \<le> n \<and> n \<le> 57 then Some (n - 48)
      else if 97 \<le> n \<and> n \<le> 102 then Some (n - 87)
      else if 65 \<le> n \<and> n \<le> 70 then Some (n - 55)
      else None)"

lemma digit_val_char: "d < 16 \<Longrightarrow> digit_val (digit_char d) = Some d"
  by (simp add: digit_val_def digit_char_def)

lemma digits_less: "2 \<le> b \<Longrightarrow> d \<in> set (digits b n) \<Longrightarrow> d < b"
proof (induction b n rule: digits.induct)
  case (1 b n)
  show ?case
  proof (cases "n < b")
    case True
    then show ?thesis using 1(3) by (simp add: digits.simps [of b n])
  next
    case False
    then show ?thesis using 1 by (auto simp: digits.simps [of b n])
  qed
qed

lemma digits_not_Nil [simp]: "digits b n \<noteq> []"
  by (simp add: digits.simps [of b n])

definition digits_value :: "nat \<Rightarrow> nat list \<Rightarrow> nat" where
  "digits_value b ds = foldl (\<lambda>a d. a * b + d) 0 ds"

lemma digits_value_digits: "2 \<le> b \<Longrightarrow> digits_value b (digits b n) = n"
proof (induction b n rule: digits.induct)
  case (1 b n)
  then show ?case
    by (cases "n < b") (simp_all add: digits.simps [of b n] digits_value_def)
qed

section \<open>printf\<close>

definition pad0 :: "nat \<Rightarrow> string \<Rightarrow> string" where
  "pad0 w s = replicate (w - length s) (CHR ''0'') @ s"

definition number_text :: "nat \<Rightarrow> nat \<Rightarrow> string" where
  "number_text b n = map digit_char (digits b n)"

definition fmt_05u :: "u32 \<Rightarrow> string" where
  "fmt_05u w = pad0 5 (number_text 10 (unat w))"

definition fmt_05d :: "u32 \<Rightarrow> string" where
  "fmt_05d w =
     (if sint w < 0 then CHR ''-'' # pad0 4 (number_text 10 (nat (- sint w)))
      else pad0 5 (number_text 10 (nat (sint w))))"

definition fmt_08x :: "u32 \<Rightarrow> string" where
  "fmt_08x w = pad0 8 (number_text 16 (unat w))"

text \<open>A number as C++ streams and Python's \<open>str\<close> write it.\<close>

definition int_text :: "int \<Rightarrow> string" where
  "int_text z = (if z < 0 then CHR ''-'' # number_text 10 (nat (- z)) else number_text 10 (nat z))"

section \<open>Python strings\<close>

definition py_space :: "char \<Rightarrow> bool" where
  "py_space ch = (let n = of_char ch :: nat in (9 \<le> n \<and> n \<le> 13) \<or> (28 \<le> n \<and> n \<le> 32))"

definition py_strip :: "string \<Rightarrow> string" where
  "py_strip s = rev (dropWhile py_space (rev (dropWhile py_space s)))"

fun py_split :: "char \<Rightarrow> string \<Rightarrow> string list" where
  "py_split ch [] = [[]]"
| "py_split ch (x # xs) =
     (if x = ch then [] # py_split ch xs
      else (case py_split ch xs of [] \<Rightarrow> [[x]] | p # ps \<Rightarrow> (x # p) # ps))"

text \<open>The digits of a literal, with single underscores between them.\<close>

fun py_digits :: "nat \<Rightarrow> bool \<Rightarrow> nat \<Rightarrow> string \<Rightarrow> nat option" where
  "py_digits b seen a [] = (if seen then Some a else None)"
| "py_digits b seen a (x # xs) =
     (if x = CHR ''_'' then (if seen then py_digits b False a xs else None)
      else (case digit_val x of
          None \<Rightarrow> None
        | Some d \<Rightarrow> if d < b then py_digits b True (a * b + d) xs else None))"

definition py_prefix :: "nat \<Rightarrow> string \<Rightarrow> string" where
  "py_prefix b s =
     (case s of
        x # y # r \<Rightarrow>
          if b = 16 \<and> x = CHR ''0'' \<and> (y = CHR ''x'' \<or> y = CHR ''X'')
          then (case r of u # r' \<Rightarrow> if u = CHR ''_'' then r' else r | [] \<Rightarrow> r) else s
      | _ \<Rightarrow> s)"

definition py_int :: "nat \<Rightarrow> string \<Rightarrow> int option" where
  "py_int b s =
     (case py_strip s of
        [] \<Rightarrow> None
      | x # r \<Rightarrow>
          if x = CHR ''-'' then map_option (\<lambda>n. - int n) (py_digits b False 0 (py_prefix b r))
          else if x = CHR ''+'' then map_option int (py_digits b False 0 (py_prefix b r))
          else map_option int (py_digits b False 0 (py_prefix b (x # r))))"

section \<open>What the verifier reads is what the host printed\<close>

lemma digit_char_plain:
  assumes "d < 16"
  shows "\<not> py_space (digit_char d)" and "digit_char d \<notin> {CHR ''_'', CHR ''-'', CHR ''+'', CHR ''x'', CHR ''X'', CHR ''|'', CHR 0x0A}"
proof -
  have "of_char (digit_char d) = (if d < 10 then 48 + d else 87 + d)"
    using assms by (simp add: digit_char_def)
  then show "\<not> py_space (digit_char d)"
    and "digit_char d \<notin> {CHR ''_'', CHR ''-'', CHR ''+'', CHR ''x'', CHR ''X'', CHR ''|'', CHR 0x0A}"
    using assms by (auto simp: py_space_def Let_def split: if_splits)
qed

lemma py_digits_number:
  assumes "\<forall>d \<in> set ds. d < b" and "b \<le> 16" and "ds \<noteq> [] \<or> seen"
  shows "py_digits b seen a (map digit_char ds) = Some (foldl (\<lambda>a d. a * b + d) a ds)"
  using assms
proof (induction ds arbitrary: a seen)
  case (Cons d ds)
  then have d: "d < b" "d < 16" by auto
  have "py_digits b True (a * b + d) (map digit_char ds) = Some (foldl (\<lambda>a d. a * b + d) (a * b + d) ds)"
    using Cons by auto
  then show ?case using d digit_char_plain(2) [OF d(2)] by (simp add: digit_val_char)
qed simp

text \<open>A zero-padded number is the digits of the number after zeros.\<close>

lemma pad0_number:
  "\<exists>k. pad0 w (number_text b n) = map digit_char (replicate k 0 @ digits b n)"
proof -
  have "of_char (digit_char 0) = (of_char (CHR ''0'') :: nat)" by (simp add: digit_char_def)
  then have "digit_char 0 = CHR ''0''" by (simp only: of_char_eq_iff)
  then show ?thesis by (auto simp: pad0_def number_text_def)
qed

lemma foldl_zeros: "foldl (\<lambda>a d. a * b + d) (0 :: nat) (replicate k 0) = 0"
  by (induction k) simp_all

lemma strip_plain:
  assumes "\<forall>x \<in> set s. \<not> py_space x"
  shows "py_strip s = s"
proof -
  have drop: "dropWhile py_space t = t" if "\<forall>x \<in> set t. \<not> py_space x" for t
    using that by (cases t) auto
  show ?thesis using assms drop [of s] drop [of "rev s"] by (simp add: py_strip_def)
qed

lemma py_prefix_number:
  assumes "\<forall>d \<in> set ds. d < 16"
  shows "py_prefix b (map digit_char ds) = map digit_char ds"
proof (cases "\<exists>d e es. ds = d # e # es")
  case True
  then obtain d e es where ds: "ds = d # e # es" by blast
  then have "digit_char e \<noteq> CHR ''x''" "digit_char e \<noteq> CHR ''X''"
    using assms digit_char_plain(2) [of e] by auto
  then show ?thesis by (simp add: ds py_prefix_def)
next
  case False
  then show ?thesis by (cases ds rule: list.exhaust; cases "tl ds") (auto simp: py_prefix_def)
qed

lemma py_int_digits:
  assumes "\<forall>d \<in> set ds. d < b" and "b \<le> 16" and "ds \<noteq> []"
  shows "py_int b (map digit_char ds) = Some (int (digits_value b ds))"
    and "py_int b (CHR ''-'' # map digit_char ds) = Some (- int (digits_value b ds))"
proof -
  have less: "\<forall>d \<in> set ds. d < 16" using assms by auto
  then have plain: "\<forall>x \<in> set (map digit_char ds). \<not> py_space x" using digit_char_plain by auto
  have minus: "\<not> py_space (CHR ''-'')" by (simp add: py_space_def)
  obtain d es where ds: "ds = d # es" using assms(3) by (cases ds) auto
  have d: "digit_char d \<noteq> CHR ''-''" "digit_char d \<noteq> CHR ''+''"
    using less digit_char_plain(2) [of d] by (auto simp: ds)
  have body: "py_digits b False 0 (py_prefix b (map digit_char ds)) = Some (digits_value b ds)"
    using py_digits_number [OF assms(1,2), of False 0] assms(3) by (simp add: py_prefix_number [OF less] digits_value_def)
  show "py_int b (map digit_char ds) = Some (int (digits_value b ds))"
    using body d by (simp add: py_int_def strip_plain [OF plain]) (simp add: ds)
  have "py_strip (CHR ''-'' # map digit_char ds) = CHR ''-'' # map digit_char ds"
    using plain minus by (intro strip_plain) auto
  then show "py_int b (CHR ''-'' # map digit_char ds) = Some (- int (digits_value b ds))"
    using body by (simp add: py_int_def)
qed

lemma py_int_pad0:
  assumes "2 \<le> b" and "b \<le> 16"
  shows "py_int b (pad0 w (number_text b n)) = Some (int n)"
    and "py_int b (CHR ''-'' # pad0 w (number_text b n)) = Some (- int n)"
proof -
  obtain k where k: "pad0 w (number_text b n) = map digit_char (replicate k 0 @ digits b n)"
    using pad0_number by blast
  have "\<forall>d \<in> set (replicate k 0 @ digits b n). d < b" using digits_less [OF assms(1)] assms(1) by auto
  note py_int_digits [OF this assms(2)]
  moreover have "digits_value b (replicate k 0 @ digits b n) = n"
    using digits_value_digits [OF assms(1), of n] by (simp add: digits_value_def foldl_zeros)
  ultimately show "py_int b (pad0 w (number_text b n)) = Some (int n)"
    "py_int b (CHR ''-'' # pad0 w (number_text b n)) = Some (- int n)"
    unfolding k by auto
qed

lemma py_int_fmt:
  "py_int 10 (fmt_05u w) = Some (uint w)"
  "py_int 16 (fmt_08x w) = Some (uint w)"
  "py_int 10 (fmt_05d w) = Some (sint w)"
  by (simp_all add: fmt_05u_def fmt_08x_def fmt_05d_def py_int_pad0)

text \<open>The printed numbers contain none of the characters the lines are cut at.\<close>

lemma pad0_digit:
  assumes "y \<in> set (pad0 k (number_text b n))" and "2 \<le> b" and "b \<le> 16"
  obtains d where "y = digit_char d" and "d < 16"
proof -
  obtain j where "pad0 k (number_text b n) = map digit_char (replicate j 0 @ digits b n)"
    using pad0_number by blast
  then obtain d where d: "y = digit_char d" "d \<in> set (replicate j 0 @ digits b n)"
    using assms(1) by auto
  then have "d < 16" using assms(2,3) digits_less [OF assms(2), of d n] by fastforce
  then show thesis using that d(1) by blast
qed

lemma fmt_digit:
  assumes "y \<in> set (fmt_05u w) \<union> set (fmt_08x w) \<union> set (fmt_05d w)"
  obtains d where "y = digit_char d" and "d < 16" | "y = CHR ''-''"
proof -
  from assms consider "y = CHR ''-''" | k b n where "y \<in> set (pad0 k (number_text b n))" "2 \<le> b" "b \<le> 16"
    unfolding fmt_05u_def fmt_08x_def fmt_05d_def by (fastforce split: if_splits)
  then show thesis using that pad0_digit by cases metis+
qed

lemma fmt_plain:
  assumes "x \<in> set (fmt_05u w) \<union> set (fmt_08x w) \<union> set (fmt_05d w)"
  shows "\<not> py_space x \<and> x \<noteq> CHR ''|'' \<and> x \<noteq> CHR 0x0A"
  using assms
proof (cases rule: fmt_digit)
  case (1 d)
  then show ?thesis using digit_char_plain [of d] by auto
qed (simp add: py_space_def)

lemma py_split_plain: "ch \<notin> set s \<Longrightarrow> py_split ch s = [s]"
  by (induction s) auto

lemma py_split_not_Nil [simp]: "py_split ch s \<noteq> []"
  by (induction s) (auto split: list.splits)

lemma py_split_append: "ch \<notin> set s \<Longrightarrow> py_split ch (s @ ch # t) = s # py_split ch t"
proof (induction s)
  case (Cons x s)
  then show ?case by (cases "py_split ch t") auto
qed simp

section \<open>Searching a text\<close>

fun find_sub :: "string \<Rightarrow> string \<Rightarrow> nat option" where
  "find_sub pat [] = (if pat = [] then Some 0 else None)"
| "find_sub pat (x # s) = (if prefix pat (x # s) then Some 0 else map_option Suc (find_sub pat s))"

lemma find_sub_bound: "find_sub pat s = Some i \<Longrightarrow> i + length pat \<le> length s"
  by (induction pat s arbitrary: i rule: find_sub.induct) (auto split: if_splits dest: prefix_length_le)

definition contains :: "string \<Rightarrow> string \<Rightarrow> bool" where
  "contains s pat \<longleftrightarrow> find_sub pat s \<noteq> None"

end
