(* ===== verification/Trace_File.thy ===== *)
theory Trace_File
  imports Host_Cache Text_Format
begin

text \<open>
  The extractor: the child process zinit forks copies the trace out of the secure world
  every five seconds, writes it to a file and sends the file to the verifier
  (write_trace_to_file, open_socket, send_trace_to_verifier and z_extractor of
  libzbouncer/host/libzbouncer.c). The operating system's answers are parameters.
\<close>

section \<open>The text of the trace\<close>

definition nl :: char where "nl = CHR 0x0A"

text \<open>The four prints of one slot.\<close>

definition write_slot :: "use_t \<Rightarrow> string" where
  "write_slot u =
     (if def u \<noteq> 0 \<and> def_size u = -1
      then ''DEF | '' @ fmt_05u (def u) @ '' | '' @ fmt_08x (def_addr u) @ [nl] else '''') @
     (if def u \<noteq> 0 \<and> def_size u \<noteq> -1
      then ''DDEF | '' @ fmt_05u (def u) @ '' | '' @ fmt_08x (def_addr u) @ '' | '' @
           fmt_05u (def_size u) @ [nl] else '''') @
     (if use_id u \<noteq> 0
      then ''USE | '' @ fmt_05u (use_id u) @ '' | '' @ fmt_08x (use_addr u) @ [nl] else '''') @
     (if i_use_def u \<noteq> 0
      then ''I-USE | '' @ fmt_05d (i_use_def u) @ '' | '' @ fmt_05d (i_use_use u) @ '' | '' @
           fmt_08x (i_use_addr u) @ [nl] else '''')"

definition TRACE_SIZE :: int where "TRACE_SIZE = 2048"

section \<open>Sending\<close>

text \<open>
  What the system calls return: descriptors or -1, and whether the file can be opened for
  writing and for reading.
\<close>

record os_answers =
  socket_fd :: int
  inet_pton_result :: int
  connect_result :: int
  writable :: bool
  readable :: bool

definition open_socket :: "os_answers \<Rightarrow> int" where
  "open_socket os =
     (if socket_fd os < 0 then -1
      else if inet_pton_result os \<le> 0 then -1
      else if connect_result os < 0 then -1
      else socket_fd os)"

text \<open>
  The line buffer of \<open>getline\<close> is a global pointer; after the loop it is freed and keeps its
  value, so that the next call hands a freed buffer to \<open>getline\<close>.
\<close>

datatype line_ptr = Line_Null | Line_Freed

text \<open>The lines of a text, each with its newline.\<close>

fun text_lines :: "string \<Rightarrow> string list" where
  "text_lines [] = []"
| "text_lines (x # xs) =
     (if x = nl then [nl] # text_lines xs
      else (case text_lines xs of [] \<Rightarrow> [[x]] | l # ls \<Rightarrow> (x # l) # ls))"

definition c_string :: "string \<Rightarrow> string" where
  "c_string s = takeWhile (\<lambda>x. x \<noteq> CHR 0x00) s"

definition infoline :: string where "infoline = ''INFO'' @ [nl]"

text \<open>
  The messages one call sends, and the line pointer it leaves; \<open>None\<close> where the process
  exits.
\<close>

definition send_trace_to_verifier ::
    "os_answers \<Rightarrow> string \<Rightarrow> line_ptr \<Rightarrow> (string list \<times> line_ptr) option c" where
  "send_trace_to_verifier os contents lp =
     (if open_socket os < 0 then Inr None
      else if \<not> readable os then Inr (Some ([], lp))
      else if lp = Line_Freed then Inl Use_After_Free
      else Inr (Some (map c_string (text_lines contents) @ [infoline], Line_Freed)))"

definition write_trace_to_file ::
    "os_answers \<Rightarrow> use_t list \<Rightarrow> line_ptr \<Rightarrow> (string list \<times> line_ptr) option c" where
  "write_trace_to_file os buf lp =
     (if \<not> writable os then Inr (Some ([], lp))
      else cbind (c_run (\<lambda>i acc. cbind (c_read buf i) (\<lambda>u. Inr (acc @ write_slot u)))
                    [0..TRACE_SIZE - 1] []) (\<lambda>acc.
           send_trace_to_verifier os acc lp))"

section \<open>The polling loop\<close>

definition extractor_op :: "optee \<Rightarrow> teec_operation" where
  "extractor_op env =
     (let data = replicate (8 * nat TRACE_SIZE) 0 in
      \<lparr>paramTypes = TEEC_PARAM_TYPES TEEC_MEMREF_WHOLE TEEC_NONE TEEC_NONE TEEC_NONE,
       params0 = TP_memref (if register_shm env data then Live data else Freed)
         (TEEC_MEM_INPUT OR TEEC_MEM_OUTPUT)\<rparr>)"

definition extractor_buffer :: "teec_operation \<Rightarrow> use_t list c" where
  "extractor_buffer oper =
     (case params0 oper of
        TP_memref (Live ws) _ \<Rightarrow> Inr (words_entries ws)
      | TP_memref Freed _ \<Rightarrow> Inl Use_After_Free
      | TP_value _ _ \<Rightarrow> Inl Bad_Union_Access)"

text \<open>
  A wake-up of the loop: whether the parent process is gone, what the system answers, and
  the state the secure world has reached meanwhile. The result are the messages of each
  round; the loop ends when the parent is gone, when the process exits, or when the list
  of wake-ups does.
\<close>

record wakeup =
  parent_gone :: bool
  answers_os :: os_answers
  secure :: ta_state

fun poll :: "optee \<Rightarrow> teec_operation \<Rightarrow> line_ptr \<Rightarrow> wakeup list \<Rightarrow> string list list c" where
  "poll env oper lp [] = Inr []"
| "poll env oper lp (w # ws) =
     cbind (invoke env TA_ZBOUNCER_CMD_GOTVALUE oper (secure w)) (\<lambda>(r, oper', s').
     cbind (extractor_buffer oper') (\<lambda>buf.
     cbind (write_trace_to_file (answers_os w) buf lp) (\<lambda>sent.
     case sent of
       None \<Rightarrow> Inr []
     | Some (msgs, lp') \<Rightarrow>
         if parent_gone w then Inr [msgs]
         else cbind (poll env oper' lp' ws) (\<lambda>rest. Inr (msgs # rest)))))"

definition z_extractor :: "optee \<Rightarrow> wakeup list \<Rightarrow> string list list c" where
  "z_extractor env ws = poll env (extractor_op env) Line_Null ws"

section \<open>The text of an event\<close>

fun event_text :: "event \<Rightarrow> string" where
  "event_text (Def i a) = ''DEF | '' @ fmt_05u i @ '' | '' @ fmt_08x a @ [nl]"
| "event_text (Ddef i a n) = ''DDEF | '' @ fmt_05u i @ '' | '' @ fmt_08x a @ '' | '' @ fmt_05u n @ [nl]"
| "event_text (Use i a) = ''USE | '' @ fmt_05u i @ '' | '' @ fmt_08x a @ [nl]"
| "event_text (Iuse i d a) = ''I-USE | '' @ fmt_05d d @ '' | '' @ fmt_05d i @ '' | '' @ fmt_08x a @ [nl]"

lemma write_slot_events: "write_slot u = concat (map event_text (slot_events u))"
  by (simp add: write_slot_def slot_events_def)

definition trace_text :: "event list \<Rightarrow> string" where
  "trace_text es = concat (map event_text es)"

lemma trace_text_append: "trace_text (es @ fs) = trace_text es @ trace_text fs"
  by (simp add: trace_text_def)

text \<open>Every slot of the buffer is printed, in order.\<close>

lemma write_run:
  assumes "0 \<le> i" and "i + int n \<le> int (length buf)"
  shows "c_run (\<lambda>i acc. cbind (c_read buf i) (\<lambda>u. Inr (acc @ write_slot u))) [i..i + int n - 1] acc =
    Inr (acc @ trace_text (concat (map slot_events (take n (drop (nat i) buf)))))"
  using assms
proof (induction n arbitrary: i acc)
  case 0
  then show ?case by (simp add: trace_text_def)
next
  case (Suc n)
  have up: "[i..i + int (Suc n) - 1] = i # [i + 1..i + 1 + int n - 1]"
    by (subst upto.simps) simp
  have "nat i < length buf" using Suc.prems by auto
  then have dr: "drop (nat i) buf = buf ! nat i # drop (nat (i + 1)) buf"
    using Suc.prems(1) by (simp add: Cons_nth_drop_Suc nat_add_distrib)
  have "c_read buf i = Inr (buf ! nat i)" using Suc.prems by (simp add: c_read_def)
  then show ?case using Suc.IH [of "i + 1" "acc @ write_slot (buf ! nat i)"] Suc.prems
    unfolding up dr by (simp add: trace_text_append write_slot_events) (simp add: trace_text_def)
qed

lemma write_file:
  assumes "length buf = 2048"
  shows "c_run (\<lambda>i acc. cbind (c_read buf i) (\<lambda>u. Inr (acc @ write_slot u))) [0..TRACE_SIZE - 1] [] =
    Inr (trace_text (concat (map slot_events buf)))"
  using write_run [of 0 2048 buf "[]"] assms by (simp add: TRACE_SIZE_def)

lemma write_file_short:
  assumes "length buf < 2048"
  shows "c_run (\<lambda>i acc. cbind (c_read buf i) (\<lambda>u. Inr (acc @ write_slot u))) [0..TRACE_SIZE - 1] [] =
    Inl Out_Of_Bounds"
proof -
  have stuck: "c_run (\<lambda>i acc. cbind (c_read buf i) (\<lambda>u. Inr (acc @ write_slot u))) is acc = Inl Out_Of_Bounds"
    if "2047 \<in> set is" for "is" acc
    using that assms by (induction "is" arbitrary: acc) (auto simp: c_read_def)
  show ?thesis by (rule stuck) (simp add: TRACE_SIZE_def)
qed

text \<open>What the receiver gets: the pieces of one connection, joined.\<close>

lemma text_lines_join: "concat (text_lines s) = s"
  by (induction s) (auto split: list.splits)

lemma c_string_id: "CHR 0x00 \<notin> set s \<Longrightarrow> c_string s = s"
  by (auto simp: c_string_def takeWhile_eq_all_conv)

lemma text_lines_subset: "l \<in> set (text_lines s) \<Longrightarrow> set l \<subseteq> set s"
proof -
  assume "l \<in> set (text_lines s)"
  then have "set l \<subseteq> set (concat (text_lines s))" by auto
  then show ?thesis by (simp add: text_lines_join)
qed

lemma digit_char_not_nul: "d < 16 \<Longrightarrow> digit_char d \<noteq> CHR 0x00"
proof
  assume "d < 16" "digit_char d = CHR 0x00"
  then have "of_char (digit_char d) = (0 :: nat)" by simp
  then show False using \<open>d < 16\<close> by (simp add: digit_char_def split: if_splits)
qed

lemma fmt_no_nul: "CHR 0x00 \<notin> set (fmt_05u w) \<union> set (fmt_08x w) \<union> set (fmt_05d w)"
proof
  assume "CHR 0x00 \<in> set (fmt_05u w) \<union> set (fmt_08x w) \<union> set (fmt_05d w)"
  then show False
  proof (cases rule: fmt_digit)
    case (1 d)
    then show ?thesis using digit_char_not_nul [of d] by simp
  qed simp
qed

lemma event_text_no_nul: "CHR 0x00 \<notin> set (event_text e)"
  using fmt_no_nul by (cases e) (auto simp: nl_def)

lemma trace_text_no_nul: "CHR 0x00 \<notin> set (trace_text es)"
  using event_text_no_nul by (auto simp: trace_text_def)

lemma sent_text:
  "concat (map c_string (text_lines (trace_text es)) @ [infoline]) = trace_text es @ infoline"
proof -
  have "map c_string (text_lines (trace_text es)) = map id (text_lines (trace_text es))"
    using text_lines_subset trace_text_no_nul [of es] by (intro map_cong) (auto intro!: c_string_id)
  then show ?thesis by (simp add: text_lines_join)
qed

section \<open>What the verifier cuts the text into\<close>

text \<open>
  The first statement of verify_input: the text is stripped and cut into lines, and each
  non-empty line into stripped fields.
\<close>

definition py_entries :: "string \<Rightarrow> string list list" where
  "py_entries trace =
     map (\<lambda>line. map py_strip (py_split (CHR ''|'') line))
       (filter (\<lambda>line. line \<noteq> []) (py_split nl (py_strip trace)))"

fun event_fields :: "event \<Rightarrow> string list" where
  "event_fields (Def i a) = [''DEF'', fmt_05u i, fmt_08x a]"
| "event_fields (Ddef i a n) = [''DDEF'', fmt_05u i, fmt_08x a, fmt_05u n]"
| "event_fields (Use i a) = [''USE'', fmt_05u i, fmt_08x a]"
| "event_fields (Iuse i d a) = [''I-USE'', fmt_05d d, fmt_05d i, fmt_08x a]"

lemma drop_spaces:
  assumes "\<forall>x \<in> set b. py_space x"
  shows "dropWhile py_space (b @ s) = dropWhile py_space s"
    and "dropWhile py_space (rev b @ s) = dropWhile py_space s"
proof -
  have "dropWhile py_space (t @ s) = dropWhile py_space s" if "\<forall>x \<in> set t. py_space x" for t
    using that by (induction t) auto
  from this [of b] this [of "rev b"] assms
  show "dropWhile py_space (b @ s) = dropWhile py_space s"
    "dropWhile py_space (rev b @ s) = dropWhile py_space s" by simp_all
qed

lemma drop_nothing: "\<not> py_space (hd s) \<or> s = [] \<Longrightarrow> dropWhile py_space s = s"
  by (cases s) auto

lemma strip_ends:
  assumes "s \<noteq> []" and "\<not> py_space (hd s)" and "\<not> py_space (last s)"
    and "\<forall>x \<in> set a. py_space x" and "\<forall>x \<in> set b. py_space x"
  shows "py_strip (a @ s @ b) = s"
proof -
  have "dropWhile py_space (a @ s @ b) = s @ b"
    using assms(1,2) by (simp add: drop_spaces(1) [OF assms(4)] drop_nothing)
  moreover have "dropWhile py_space (rev b @ rev s) = rev s"
    unfolding drop_spaces(2) [OF assms(5)]
    using assms(1,3) by (intro drop_nothing) (simp add: hd_rev)
  ultimately show ?thesis by (simp add: py_strip_def)
qed

lemma strip_padded:
  assumes "s \<noteq> []" and "\<forall>x \<in> set s. \<not> py_space x" and "\<forall>x \<in> set a. py_space x" and "\<forall>x \<in> set b. py_space x"
  shows "py_strip (a @ s @ b) = s"
  using assms by (intro strip_ends) auto

lemma fmt_not_Nil: "fmt_05u w \<noteq> []" "fmt_08x w \<noteq> []" "fmt_05d w \<noteq> []"
  by (simp_all add: fmt_05u_def fmt_08x_def fmt_05d_def pad0_def number_text_def)

text \<open>The line of an event, without its newline.\<close>

definition event_line :: "event \<Rightarrow> string" where
  "event_line e = butlast (event_text e)"

lemma event_text_line: "event_text e = event_line e @ [nl]"
proof -
  have "event_text e \<noteq> []" "last (event_text e) = nl" by (cases e; simp)+
  then show ?thesis by (metis event_line_def append_butlast_last_id)
qed

lemma event_line_simps:
  "event_line (Def i a) = ''DEF | '' @ fmt_05u i @ '' | '' @ fmt_08x a"
  "event_line (Ddef i a n) = ''DDEF | '' @ fmt_05u i @ '' | '' @ fmt_08x a @ '' | '' @ fmt_05u n"
  "event_line (Use i a) = ''USE | '' @ fmt_05u i @ '' | '' @ fmt_08x a"
  "event_line (Iuse i d a) = ''I-USE | '' @ fmt_05d d @ '' | '' @ fmt_05d i @ '' | '' @ fmt_08x a"
proof -
  have "butlast (s @ [nl]) = s" for s by simp
  from this [of "''DEF | '' @ fmt_05u i @ '' | '' @ fmt_08x a"]
    this [of "''DDEF | '' @ fmt_05u i @ '' | '' @ fmt_08x a @ '' | '' @ fmt_05u n"]
    this [of "''USE | '' @ fmt_05u i @ '' | '' @ fmt_08x a"]
    this [of "''I-USE | '' @ fmt_05d d @ '' | '' @ fmt_05d i @ '' | '' @ fmt_08x a"]
  show "event_line (Def i a) = ''DEF | '' @ fmt_05u i @ '' | '' @ fmt_08x a"
    "event_line (Ddef i a n) = ''DDEF | '' @ fmt_05u i @ '' | '' @ fmt_08x a @ '' | '' @ fmt_05u n"
    "event_line (Use i a) = ''USE | '' @ fmt_05u i @ '' | '' @ fmt_08x a"
    "event_line (Iuse i d a) = ''I-USE | '' @ fmt_05d d @ '' | '' @ fmt_05d i @ '' | '' @ fmt_08x a"
    unfolding event_line_def event_text.simps append_assoc by blast+
qed

lemma fmt_no_cut:
  "CHR ''|'' \<notin> set (fmt_05u w)" "CHR ''|'' \<notin> set (fmt_08x w)" "CHR ''|'' \<notin> set (fmt_05d w)"
  "nl \<notin> set (fmt_05u w)" "nl \<notin> set (fmt_08x w)" "nl \<notin> set (fmt_05d w)"
  using fmt_plain [of "CHR ''|''" w] fmt_plain [of nl w] unfolding nl_def by blast+

lemma strip_fmt:
  assumes "\<forall>x \<in> set a. py_space x" and "\<forall>x \<in> set b. py_space x"
  shows "py_strip (a @ fmt_05u w @ b) = fmt_05u w" "py_strip (a @ fmt_08x w @ b) = fmt_08x w"
    "py_strip (a @ fmt_05d w @ b) = fmt_05d w"
  using fmt_plain [of _ w] assms by (auto intro!: strip_padded simp: fmt_not_Nil)

lemma py_space_blank: "py_space (CHR '' '')"
  by (simp add: py_space_def)

lemma strip_fmt_blank:
  "py_strip (CHR '' '' # fmt_05u w @ '' '') = fmt_05u w" "py_strip (CHR '' '' # fmt_05u w) = fmt_05u w"
  "py_strip (CHR '' '' # fmt_08x w @ '' '') = fmt_08x w" "py_strip (CHR '' '' # fmt_08x w) = fmt_08x w"
  "py_strip (CHR '' '' # fmt_05d w @ '' '') = fmt_05d w"
  using strip_fmt [of "'' ''" "'' ''" w] strip_fmt [of "'' ''" "[]" w] py_space_blank by simp_all

text \<open>The fields of one line, cut at the bars.\<close>

lemma split_field:
  assumes "CHR ''|'' \<notin> set s"
  shows "py_split (CHR ''|'') (CHR '' '' # s @ '' | '' @ t) = (CHR '' '' # s @ '' '') # py_split (CHR ''|'') (CHR '' '' # t)"
proof -
  have "py_split (CHR ''|'') ((CHR '' '' # s @ '' '') @ CHR ''|'' # (CHR '' '' # t)) =
      (CHR '' '' # s @ '' '') # py_split (CHR ''|'') (CHR '' '' # t)"
    using assms by (intro py_split_append) simp
  then show ?thesis by simp
qed

lemma split_last: "CHR ''|'' \<notin> set s \<Longrightarrow> py_split (CHR ''|'') (CHR '' '' # s) = [CHR '' '' # s]"
  by (rule py_split_plain) simp

lemma split_tag:
  "py_split (CHR ''|'') (''DEF | '' @ t) = ''DEF '' # py_split (CHR ''|'') (CHR '' '' # t)"
  "py_split (CHR ''|'') (''DDEF | '' @ t) = ''DDEF '' # py_split (CHR ''|'') (CHR '' '' # t)"
  "py_split (CHR ''|'') (''USE | '' @ t) = ''USE '' # py_split (CHR ''|'') (CHR '' '' # t)"
  "py_split (CHR ''|'') (''I-USE | '' @ t) = ''I-USE '' # py_split (CHR ''|'') (CHR '' '' # t)"
  using py_split_append [of "CHR ''|''" "''DEF ''" "CHR '' '' # t"]
    py_split_append [of "CHR ''|''" "''DDEF ''" "CHR '' '' # t"]
    py_split_append [of "CHR ''|''" "''USE ''" "CHR '' '' # t"]
    py_split_append [of "CHR ''|''" "''I-USE ''" "CHR '' '' # t"] by simp_all

lemma strip_tag:
  "py_strip ''DEF '' = ''DEF''" "py_strip ''DDEF '' = ''DDEF''" "py_strip ''USE '' = ''USE''"
  "py_strip ''I-USE '' = ''I-USE''" "py_strip ''INFO'' = ''INFO''"
  by (simp_all add: py_strip_def py_space_def)

lemma line_fields: "map py_strip (py_split (CHR ''|'') (event_line e)) = event_fields e"
  by (cases e) (simp_all only: event_line_simps split_tag split_field split_last fmt_no_cut
      list.map strip_tag strip_fmt_blank event_fields.simps not_False_eq_True)

lemma event_line_plain: "nl \<notin> set (event_line e)" "event_line e \<noteq> []"
  by (cases e; simp add: event_line_simps fmt_no_cut; simp add: nl_def)+

lemma split_trace:
  "py_split nl (trace_text es @ ''INFO'') = map event_line es @ [''INFO'']"
proof (induction es)
  case Nil
  show ?case by (simp add: trace_text_def nl_def)
next
  case (Cons e es)
  have "trace_text (e # es) @ ''INFO'' = event_line e @ nl # (trace_text es @ ''INFO'')"
    by (simp add: trace_text_def event_text_line)
  then show ?case using Cons py_split_append [OF event_line_plain(1), of e] by simp
qed

lemma strip_trace: "py_strip (trace_text es @ infoline) = trace_text es @ ''INFO''"
proof -
  have "\<not> py_space (hd (event_line e @ xs))" for e xs by (cases e) (simp_all add: event_line_simps py_space_def)
  then have "\<not> py_space (hd (trace_text es @ ''INFO''))"
    by (cases es) (simp_all add: trace_text_def event_text_line py_space_def)
  moreover have "\<not> py_space (last (trace_text es @ ''INFO''))" by (simp add: py_space_def)
  ultimately have "py_strip ([] @ (trace_text es @ ''INFO'') @ [nl]) = trace_text es @ ''INFO''"
    by (intro strip_ends) (auto simp: nl_def py_space_def)
  then show ?thesis by (simp add: infoline_def)
qed

lemma entries_of_trace:
  "py_entries (trace_text es @ infoline) = map event_fields es @ [[''INFO'']]"
proof -
  have "filter (\<lambda>line. line \<noteq> []) (map event_line es @ [''INFO'']) = map event_line es @ [''INFO'']"
    using event_line_plain(2) by (simp add: filter_id_conv)
  moreover have "map py_strip (py_split (CHR ''|'') ''INFO'') = [''INFO'']"
    by (simp add: strip_tag)
  ultimately show ?thesis
    by (simp add: py_entries_def strip_trace split_trace line_fields o_def)
qed

end
