(* ===== verification/Verifier.thy ===== *)
theory Verifier
  imports Trace_File
begin

text \<open>
  The remote verifier verifier/verifier.py: it reads the static trace of the program (its
  definitions and uses, as a forest of lines), then checks each entry of a received dynamic
  trace against it. Python objects are referred to by their place in \<open>nodes\<close>, the list of
  the lines read, so that the children of a node and the lists of \<open>def_map\<close> share them.
  Statistics that only go to files and the screen are left out; the report of an alarm and
  the loop over messages are in Verifier_Report.
\<close>

section \<open>Exceptions and lines\<close>

datatype py_error = ValueError | IndexError | KeyError | StopIteration | UnboundLocalError | AttributeError

type_synonym 'a py = "py_error + 'a"

definition py_nth :: "'a list \<Rightarrow> nat \<Rightarrow> 'a py" where
  "py_nth xs k = (if k < length xs then Inr (xs ! k) else Inl IndexError)"

definition py_number :: "nat \<Rightarrow> string \<Rightarrow> int py" where
  "py_number b s = (case py_int b s of None \<Rightarrow> Inl ValueError | Some n \<Rightarrow> Inr n)"

text \<open>\<open>s in t\<close> for strings, and \<open>next(x for x in xs if P x)\<close>.\<close>

fun py_in :: "string \<Rightarrow> string \<Rightarrow> bool" where
  "py_in s [] \<longleftrightarrow> s = []"
| "py_in s (x # xs) \<longleftrightarrow> take (length s) (x # xs) = s \<or> py_in s xs"

definition py_next :: "('a \<Rightarrow> bool) \<Rightarrow> 'a list \<Rightarrow> 'a py" where
  "py_next P xs = (case find P xs of None \<Rightarrow> Inl StopIteration | Some x \<Rightarrow> Inr x)"

record trace_line =
  tl_id :: int
  tl_type :: string
  tl_father :: "int option"
  tl_info :: string
  tl_cls :: "string option"
  tl_length :: "int \<rightharpoonup> int"
  tl_offset :: int
  tl_fun :: "string option"
  tl_children :: "nat list"
  tl_address :: "int \<rightharpoonup> int"

text \<open>
  The constructor of a line. The field list of a struct member is the value of a Python
  expression that nothing reads; \<open>evals\<close> says whether its evaluation returns (its own
  exceptions count as \<open>ValueError\<close> here).
\<close>

definition def_attributes :: "(string \<Rightarrow> bool) \<Rightarrow> string list \<Rightarrow> trace_line \<Rightarrow> trace_line py" where
  "def_attributes evals values t =
     (if py_in ''DEF'' (tl_type t)
      then cbind (py_nth values 3) (\<lambda>cl.
           cbind (py_nth values 4) (\<lambda>v4. cbind (py_number 10 v4) (\<lambda>len.
           let t1 = t\<lparr>tl_cls := Some cl, tl_length := [0 \<mapsto> len]\<rparr> in
           if tl_type t = ''SDEF''
           then cbind (py_nth values 5) (\<lambda>v5. cbind (py_number 10 v5) (\<lambda>off.
                cbind (py_nth values 6) (\<lambda>v6.
                if evals v6 then Inr (t1\<lparr>tl_offset := off\<rparr>) else Inl ValueError)))
           else Inr t1)))
      else Inr t)"

definition use_attributes :: "string list \<Rightarrow> trace_line \<Rightarrow> trace_line py" where
  "use_attributes values t =
     (if py_in ''USE'' (tl_type t)
      then cbind (py_nth values 3) (\<lambda>f. Inr (t\<lparr>tl_fun := Some f\<rparr>))
      else Inr t)"

definition Trace_line :: "(string \<Rightarrow> bool) \<Rightarrow> string \<Rightarrow> trace_line py" where
  "Trace_line evals traceline =
     (let values = py_split (CHR '';'') traceline in
      cbind (py_nth values 0) (\<lambda>v0. cbind (py_number 10 v0) (\<lambda>i.
      cbind (py_nth values 1) (\<lambda>ty.
      cbind (py_nth values 2) (\<lambda>v2.
      cbind (if v2 \<noteq> [] then cbind (py_number 10 v2) (\<lambda>n. Inr (Some n)) else Inr None) (\<lambda>fa.
      cbind (def_attributes evals values
        \<lparr>tl_id = i, tl_type = ty, tl_father = fa, tl_info = last values, tl_cls = None,
         tl_length = Map.empty, tl_offset = 0, tl_fun = None, tl_children = [],
         tl_address = Map.empty\<rparr>)
      (use_attributes values)))))))"

definition get_len :: "trace_line \<Rightarrow> int option \<Rightarrow> int py" where
  "get_len t gdef =
     (if \<not> py_in ''DEF'' (tl_type t) then Inl ValueError
      else case (case gdef of None \<Rightarrow> None | Some g \<Rightarrow> tl_length t g) of
          Some n \<Rightarrow> Inr n
        | None \<Rightarrow> (case tl_length t 0 of None \<Rightarrow> Inl KeyError | Some n \<Rightarrow> Inr n))"

definition get_base :: "trace_line \<Rightarrow> int option \<Rightarrow> int py" where
  "get_base t frame_counter =
     (if \<not> py_in ''DEF'' (tl_type t) then Inl ValueError
      else case (case frame_counter of None \<Rightarrow> tl_address t 0
                 | Some g \<Rightarrow> (if tl_address t g = None then tl_address t 0 else tl_address t g)) of
          Some a \<Rightarrow> Inr (a + (if tl_type t = ''SDEF'' then tl_offset t else 0))
        | None \<Rightarrow> Inr 0)"

section \<open>The static trace\<close>

record verifier =
  nodes :: "trace_line list"
  def_map :: "int \<rightharpoonup> nat list"
  static_trace :: "nat list"
  entry_count :: "string \<rightharpoonup> nat"
  tlen :: nat
  tcount :: nat
  current_trace :: "string option"

definition verifier_initial :: verifier where
  "verifier_initial = \<lparr>nodes = [], def_map = Map.empty, static_trace = [], entry_count = Map.empty,
     tlen = 0, tcount = 0, current_trace = None\<rparr>"

definition node_with :: "int option \<Rightarrow> trace_line list \<Rightarrow> nat py" where
  "node_with i ns = py_next (\<lambda>k. Some (tl_id (ns ! k)) = i) [0..<length ns]"

definition add_child :: "nat \<Rightarrow> nat \<Rightarrow> trace_line list \<Rightarrow> trace_line list" where
  "add_child f k ns = ns[f := (ns ! f)\<lparr>tl_children := tl_children (ns ! f) @ [k]\<rparr>]"

definition parse_line :: "(string \<Rightarrow> bool) \<Rightarrow> string \<Rightarrow> verifier \<Rightarrow> verifier py" where
  "parse_line evals line v =
     cbind (Trace_line evals (py_strip line)) (\<lambda>tl.
     let k = length (nodes v);
         v1 = v\<lparr>nodes := nodes v @ [tl]\<rparr>;
         v2 = (if py_in ''DEF'' (tl_type tl)
               then v1\<lparr>def_map := (def_map v1)(tl_id tl \<mapsto>
                      (case def_map v1 (tl_id tl) of Some ks \<Rightarrow> ks @ [k] | None \<Rightarrow> [k]))\<rparr>
               else v1) in
     if tl_father tl = Some (-1) then Inr (v2\<lparr>static_trace := static_trace v2 @ [k]\<rparr>)
     else cbind (node_with (tl_father tl) (nodes v2)) (\<lambda>f.
          Inr (v2\<lparr>nodes := add_child f k (nodes v2)\<rparr>)))"

definition trace_parser :: "(string \<Rightarrow> bool) \<Rightarrow> string \<Rightarrow> verifier \<Rightarrow> verifier py" where
  "trace_parser evals trace = c_run (parse_line evals) (py_split nl (py_strip trace))"

section \<open>Checking\<close>

text \<open>\<open>x >> 16\<close> and \<open>x & 0xffff\<close> of Python's integers.\<close>

definition get_id_var :: "int \<Rightarrow> int \<times> int" where
  "get_id_var x = (x div 65536, x mod 65536)"

definition check_use :: "trace_line \<Rightarrow> int \<Rightarrow> int option \<Rightarrow> bool py" where
  "check_use d end_address gdef =
     cbind (get_base d gdef) (\<lambda>b. cbind (get_len d gdef) (\<lambda>n. Inr (end_address - b > n)))"

text \<open>
  The definition a use is checked against: a node, or the copy of a dynamic definition's
  first child that is given the dynamic definition's addresses. (The copy gets an
  attribute \<open>lenght\<close> too, which nothing reads.)
\<close>

datatype def_ref = Direct nat | Copied trace_line nat

definition resolve :: "verifier \<Rightarrow> def_ref \<Rightarrow> trace_line" where
  "resolve v d = (case d of
     Direct k \<Rightarrow> nodes v ! k
   | Copied t k \<Rightarrow> t\<lparr>tl_address := tl_address (nodes v ! k)\<rparr>)"

definition through_ddef :: "verifier \<Rightarrow> nat \<Rightarrow> def_ref py" where
  "through_ddef v k =
     (if tl_type (nodes v ! k) = ''DDEF''
      then cbind (py_nth (tl_children (nodes v ! k)) 0) (\<lambda>j. Inr (Copied (nodes v ! j) k))
      else Inr (Direct k))"

text \<open>An alarm: the use and the definition it overflows.\<close>

type_synonym alarm = "nat \<times> trace_line"

text \<open>The locals of the loop that outlive an iteration.\<close>

type_synonym locals = "(def_ref \<times> nat \<times> int) option"

type_synonym loop_state = "locals \<times> alarm list \<times> verifier"

definition set_address :: "int \<Rightarrow> int \<Rightarrow> trace_line \<Rightarrow> trace_line" where
  "set_address g a t = t\<lparr>tl_address := (tl_address t)(g \<mapsto> a)\<rparr>"

definition set_dynamic :: "int \<Rightarrow> int \<Rightarrow> int \<Rightarrow> trace_line \<Rightarrow> trace_line" where
  "set_dynamic g a n t = t\<lparr>tl_address := (tl_address t)(g \<mapsto> a, 0 \<mapsto> a),
     tl_length := (tl_length t)(g \<mapsto> n, 0 \<mapsto> n)\<rparr>"

definition update_all :: "(trace_line \<Rightarrow> trace_line) \<Rightarrow> nat list \<Rightarrow> trace_line list \<Rightarrow> trace_line list" where
  "update_all f ks ns = fold (\<lambda>k ns. ns[k := f (ns ! k)]) ks ns"

definition py_key :: "('k \<rightharpoonup> 'v) \<Rightarrow> 'k \<Rightarrow> 'v py" where
  "py_key m k = (case m k of None \<Rightarrow> Inl KeyError | Some v \<Rightarrow> Inr v)"

definition count_entry :: "string list \<Rightarrow> verifier \<Rightarrow> verifier" where
  "count_entry entry v =
     (let tag = hd entry in
      if tag = ''INFO''
      then v\<lparr>entry_count := (\<lambda>k. map_option (\<lambda>_. 0) (entry_count v k)), tcount := tcount v + 1, tlen := 0\<rparr>
      else let v1 = (if tag = ''TRACE'' then v
                     else v\<lparr>entry_count := (entry_count v)(tag \<mapsto>
                       (case entry_count v tag of None \<Rightarrow> 1 | Some n \<Rightarrow> n + 1))\<rparr>) in
           v1\<lparr>tlen := tlen v1 + sum_list (map length entry)\<rparr>)"

definition do_def :: "string list \<Rightarrow> verifier \<Rightarrow> verifier py" where
  "do_def entry v =
     cbind (py_nth entry 1) (\<lambda>e1. cbind (py_number 10 e1) (\<lambda>x.
     let (i, gdef) = get_id_var x in
     cbind (py_key (def_map v) i) (\<lambda>ks.
     cbind (py_nth entry 2) (\<lambda>e2. cbind (py_number 16 e2) (\<lambda>a.
     Inr (v\<lparr>nodes := update_all (set_address gdef a) ks (nodes v)\<rparr>))))))"

definition do_ddef :: "string list \<Rightarrow> verifier \<Rightarrow> verifier py" where
  "do_ddef entry v =
     cbind (py_nth entry 1) (\<lambda>e1. cbind (py_number 10 e1) (\<lambda>x.
     let (i, gdef) = get_id_var x in
     cbind (py_key (def_map v) i) (\<lambda>ks.
     cbind (py_nth entry 2) (\<lambda>e2. cbind (py_number 16 e2) (\<lambda>a.
     cbind (py_nth entry 3) (\<lambda>e3. cbind (py_number 10 e3) (\<lambda>n.
     Inr (v\<lparr>nodes := update_all (set_dynamic gdef a n) ks (nodes v)\<rparr>))))))))"

definition used_def :: "verifier \<Rightarrow> nat \<Rightarrow> nat py" where
  "used_def v u =
     (let cs = tl_children (nodes v ! u) in
      cbind (py_nth cs 0) (\<lambda>k0.
      if length cs > 1 then py_next (\<lambda>k. tl_cls (nodes v ! k) = Some ''BASE'') cs else Inr k0))"

definition do_use :: "string list \<Rightarrow> verifier \<Rightarrow> (int \<times> def_ref \<times> nat \<times> int) py" where
  "do_use entry v =
     cbind (py_nth entry 1) (\<lambda>e1. cbind (py_number 10 e1) (\<lambda>x.
     let (i, gdef) = get_id_var x in
     cbind (py_nth entry 2) (\<lambda>e2. cbind (py_number 16 e2) (\<lambda>end_addr.
     cbind (node_with (Some i) (nodes v)) (\<lambda>u.
     cbind (used_def v u) (\<lambda>k.
     cbind (through_ddef v k) (\<lambda>d. Inr (gdef, d, u, end_addr))))))))"

definition do_iuse :: "string list \<Rightarrow> verifier \<Rightarrow> (int \<times> def_ref \<times> nat \<times> int) py" where
  "do_iuse entry v =
     cbind (py_nth entry 2) (\<lambda>e2. cbind (py_number 10 e2) (\<lambda>x.
     let (i, use_gdef) = get_id_var x in
     cbind (py_nth entry 1) (\<lambda>e1. cbind (py_number 10 e1) (\<lambda>y.
     let (j, def_gdef) = get_id_var y in
     cbind (py_nth entry 3) (\<lambda>e3. cbind (py_number 16 e3) (\<lambda>end_addr.
     cbind (node_with (Some i) (nodes v)) (\<lambda>u.
     cbind (py_key (def_map v) j) (\<lambda>ks.
     cbind (py_nth ks 0) (\<lambda>k.
     cbind (through_ddef v k) (\<lambda>d. Inr (def_gdef, d, u, end_addr)))))))))))"

text \<open>One entry: its effect on the state, then the check if its tag contains \<open>USE\<close>.\<close>

definition verify_entry :: "string list \<Rightarrow> loop_state \<Rightarrow> loop_state py" where
  "verify_entry entry w =
     (case w of (loc, alarms, v0) \<Rightarrow>
      let tag = hd entry in
      cbind (if tag = ''TRACE''
             then cbind (py_nth entry 1) (\<lambda>e. Inr (v0\<lparr>current_trace := Some e\<rparr>)) else Inr v0) (\<lambda>v1.
      let v2 = count_entry entry v1 in
      cbind (if tag = ''DEF'' then do_def entry v2
             else if tag = ''DDEF'' then do_ddef entry v2 else Inr v2) (\<lambda>v3.
      cbind (if tag = ''USE'' then cbind (do_use entry v3) (\<lambda>(g, l). Inr (Some g, Some l))
             else if tag = ''I-USE'' then cbind (do_iuse entry v3) (\<lambda>(g, l). Inr (Some g, Some l))
             else Inr (None, loc)) (\<lambda>(use_gdef, loc').
      if py_in ''USE'' tag
      then (case loc' of
          None \<Rightarrow> Inl UnboundLocalError
        | Some (d, u, end_addr) \<Rightarrow>
            cbind (check_use (resolve v3 d) end_addr use_gdef) (\<lambda>bad.
            Inr (loc', if bad then alarms @ [(u, resolve v3 d)] else alarms, v3)))
      else Inr (loc', alarms, v3)))))"

definition verify_input :: "string \<Rightarrow> verifier \<Rightarrow> (alarm list \<times> verifier) py" where
  "verify_input trace v =
     cbind (c_run verify_entry (py_entries trace) (None, [], v)) (\<lambda>(loc, alarms, v').
     Inr (alarms, v'))"

end
