(* ===== verification/Verifier_Report.thy ===== *)
theory Verifier_Report
  imports Verifier
begin

text \<open>
  The rest of verifier/verifier.py: the thread that receives messages, the loop of main that
  verifies them one after the other, and the report of an alarm, for which the text of the
  LLVM module is searched for the instructions behind the definition and the use.
  Statistics and the log file are left out.
\<close>

section \<open>The module as text\<close>

text \<open>
  What llvmlite prints of the module: its lines, its global variables, and of each function
  its name, its lines and the instructions of its blocks.
\<close>

record llvm_function =
  lf_name :: string
  lf_lines :: "string list"
  lf_instrs :: "string list list"

record llvm_text =
  lt_lines :: "string list"
  lt_globals :: "string list"
  lt_functions :: "llvm_function list"

text \<open>
  What is found: an instruction with the name of its function, or a global variable, whose
  function is none, as the test of the code for it supposes.
\<close>

type_synonym found = "string \<times> string option"

definition metadata_types :: "string list" where
  "metadata_types = [''zdef'', ''zsuse'', ''zluse'']"

text \<open>
  The number of the metadata attached under a name: the word behind the first place the name
  stands at, without the comma behind it; an exception means that there is none.
\<close>

definition rstrip_commas :: "string \<Rightarrow> string" where
  "rstrip_commas s = rev (dropWhile (\<lambda>x. x = CHR '','') (rev s))"

definition metadata_ref :: "string \<Rightarrow> string \<Rightarrow> string option" where
  "metadata_ref l name =
     (case find_sub name l of
        None \<Rightarrow> None
      | Some i \<Rightarrow> (case py_split (CHR '' '') (drop i l) of
          _ # w # _ \<Rightarrow> Some (rstrip_commas (py_strip w))
        | _ \<Rightarrow> None))"

text \<open>A line that defines this metadata and contains the digits of the identifier.\<close>

definition defines_id :: "int \<Rightarrow> string \<Rightarrow> string \<Rightarrow> bool" where
  "defines_id id_num ref x \<longleftrightarrow> py_in (ref @ '' ='') x \<and> py_in (int_text id_num) (py_split (CHR ''='') x ! 1)"

definition tagged_with :: "llvm_text \<Rightarrow> int \<Rightarrow> string \<Rightarrow> bool" where
  "tagged_with M id_num l \<longleftrightarrow> list_ex (\<lambda>name. case metadata_ref l name of
     None \<Rightarrow> False | Some ref \<Rightarrow> list_ex (defines_id id_num ref) (lt_lines M)) metadata_types"

text \<open>
  \<open>re.sub(",\s+!z[isld].*$", "", s)\<close>: what is behind the comma goes, to the end of the text
  or to a line break that ends it.
\<close>

definition to_the_end :: "string \<Rightarrow> bool" where
  "to_the_end s \<longleftrightarrow> nl \<notin> set s \<or> (last s = nl \<and> nl \<notin> set (butlast s))"

fun meta_at :: "string \<Rightarrow> bool" where
  "meta_at (x # s) \<longleftrightarrow> x = CHR '','' \<and> s \<noteq> [] \<and> py_space (hd s) \<and>
     (case dropWhile py_space s of
        a # b # c # rest \<Rightarrow> a = CHR ''!'' \<and> b = CHR ''z'' \<and> c \<in> set ''isld'' \<and> to_the_end rest
      | _ \<Rightarrow> False)"
| "meta_at [] \<longleftrightarrow> False"

fun cut_meta :: "string \<Rightarrow> string" where
  "cut_meta [] = []"
| "cut_meta (x # s) = (if meta_at (x # s) then [] else x # cut_meta s)"

definition plain_instr :: "string \<Rightarrow> string" where
  "plain_instr s = py_strip (cut_meta s)"

text \<open>
  The range the code compares the place of an instruction with always contains it; what
  decides is that the text of the instruction is part of the line.
\<close>

fun first_some :: "('a \<Rightarrow> 'b option) \<Rightarrow> 'a list \<Rightarrow> 'b option" where
  "first_some f [] = None"
| "first_some f (x # xs) = (case f x of None \<Rightarrow> first_some f xs | Some y \<Rightarrow> Some y)"

definition find_in_line :: "llvm_text \<Rightarrow> int \<Rightarrow> llvm_function \<Rightarrow> string \<Rightarrow> found option" where
  "find_in_line M id_num f l =
     (if tagged_with M id_num l
      then map_option (\<lambda>i. (i, Some (lf_name f))) (find (\<lambda>i. py_in (plain_instr i) l) (concat (lf_instrs f)))
      else None)"

definition find_instr :: "llvm_text \<Rightarrow> int \<Rightarrow> found option" where
  "find_instr M id_num =
     (case find (tagged_with M id_num) (lt_globals M) of
        Some g \<Rightarrow> Some (g, None)
      | None \<Rightarrow> first_some (\<lambda>f. first_some (find_in_line M id_num f) (lf_lines f)) (lt_functions M))"

section \<open>The report of an alarm\<close>

text \<open>
  The lists of definitions in the order of the dictionary, which is that of their first
  nodes. The last definition with the text of the one that overflows decides.
\<close>

definition dict_order :: "verifier \<Rightarrow> nat list" where
  "dict_order v = concat (map (\<lambda>i. case def_map v i of None \<Rightarrow> [] | Some ks \<Rightarrow> ks)
     (rev (remdups (rev (map tl_id (filter (\<lambda>t. py_in ''DEF'' (tl_type t)) (nodes v)))))))"

definition find_def :: "llvm_text \<Rightarrow> verifier \<Rightarrow> string \<Rightarrow> found option" where
  "find_def M v info = fold (\<lambda>k def_found. if tl_info (nodes v ! k) = info
     then (case find_instr M (tl_id (nodes v ! k)) of None \<Rightarrow> def_found | Some i \<Rightarrow> Some i) else def_found) (dict_order v) None"

definition violation_text :: "found \<Rightarrow> found \<Rightarrow> string py" where
  "violation_text def_found use_found =
     (case snd use_found of
        None \<Rightarrow> Inl AttributeError
      | Some f \<Rightarrow> Inr (''VIOLATION'' @ [nl] @ ''Overflow of data defined at '' @ plain_instr (fst def_found) @ '' '' @
          (case snd def_found of None \<Rightarrow> ''(global variable) '' | Some g \<Rightarrow> ''in function '' @ g) @
          '' cause by instruction '' @ plain_instr (fst use_found) @ '' in function '' @ f))"

text \<open>
  The function of the use (none for a node that is no use) is handed to the search, which
  does not look at it.
\<close>

definition report_alarm :: "llvm_text \<Rightarrow> verifier \<Rightarrow> alarm \<Rightarrow> string py" where
  "report_alarm M v a = (case a of (u, d) \<Rightarrow>
     (case (find_instr M (tl_id (nodes v ! u)), find_def M v (tl_info d)) of
        (Some use_found, Some def_found) \<Rightarrow> violation_text def_found use_found
      | _ \<Rightarrow> Inr (''Cannot find informations about:'' @ [nl, CHR 0x09] @ '' - '' @ tl_info (nodes v ! u) @ [nl, CHR 0x09] @
          '' - '' @ tl_info d @ [nl] @ '' in llvm module'')))"

definition report_entry :: "llvm_text \<Rightarrow> string list \<Rightarrow> loop_state \<times> string list \<Rightarrow> (loop_state \<times> string list) py" where
  "report_entry M entry st = (case st of ((loc, alarms, v), out) \<Rightarrow>
     cbind (verify_entry entry (loc, alarms, v)) (\<lambda>(loc', alarms', v').
     if length alarms < length alarms'
     then cbind (report_alarm M v' (last alarms')) (\<lambda>text. Inr ((loc', alarms', v'), out @ [text]))
     else Inr ((loc', alarms', v'), out)))"

definition verify_reporting :: "llvm_text \<Rightarrow> string \<Rightarrow> verifier \<Rightarrow> (string list \<times> alarm list \<times> verifier) py" where
  "verify_reporting M trace v =
     cbind (c_run (report_entry M) (py_entries trace) ((None, [], v), [])) (\<lambda>((loc, alarms, v'), out).
     Inr (out, alarms, v'))"

section \<open>Messages\<close>

text \<open>A connection is what \<open>recv\<close> returns, piece by piece; the empty piece ends it.\<close>

definition received :: "string list \<Rightarrow> string" where
  "received ds = concat (takeWhile (\<lambda>d. d \<noteq> []) ds)"

text \<open>The state is kept from one message to the next; an exception ends the loop of main.\<close>

definition serve :: "llvm_text \<Rightarrow> string list list \<Rightarrow> verifier \<Rightarrow> (string list \<times> alarm list \<times> verifier) py" where
  "serve M conns v =
     c_run (\<lambda>ds (out, alarms, v). cbind (verify_reporting M (received ds) v) (\<lambda>(out', alarms', v').
       Inr (out @ out', alarms @ alarms', v'))) conns ([], [], v)"

end
