(* ===== verification/Secure_Trace_Laws.thy ===== *)
theory Secure_Trace_Laws
  imports Secure_Trace
begin

text \<open>
  What the trusted application guarantees: its well-formedness invariant, the effect of a
  recording, the cache flush as the run of the cache's events, and the log it refines.
\<close>

section \<open>Well-formed states\<close>

definition ta_wf :: "ta_state \<Rightarrow> bool" where
  "ta_wf s \<longleftrightarrow> length (dynamic_trace s) = 2048 \<and> length (func_ctr s) = 15 \<and> 0 \<le> trace_id s"

lemma ta_wf_initial: "ta_wf ta_initial"
  by (simp add: ta_wf_def ta_initial_def)

definition slot_index :: "ta_state \<Rightarrow> nat" where
  "slot_index s = nat (trace_id s) mod 2048"

lemma slot_index_less [simp]: "slot_index s < 2048"
  by (simp add: slot_index_def)

lemma slot_index_rem: "0 \<le> trace_id s \<Longrightarrow> c_rem (trace_id s) DYNAMIC_TRACE_SIZE = int (slot_index s)"
  by (simp add: DYNAMIC_TRACE_SIZE_def slot_index_def zmod_int)

lemma update_slot_wf:
  assumes "ta_wf s"
  shows "update_slot f s =
    Inr (s\<lparr>dynamic_trace := (dynamic_trace s)[slot_index s := f (dynamic_trace s ! slot_index s)]\<rparr>)"
  using assms by (simp add: update_slot_def slot_index_rem ta_wf_def)

lemma store_slot:
  assumes "ta_wf s" and "trace_id s < INT_MAX"
  shows "cbind (update_slot f s) next_trace_id =
    Inr (s\<lparr>dynamic_trace := (dynamic_trace s)[slot_index s := f (dynamic_trace s ! slot_index s)],
           trace_id := trace_id s + 1\<rparr>)"
  using assms by (simp add: update_slot_wf next_trace_id_def)

lemma update_slot_keeps_wf: "update_slot f s = Inr s' \<Longrightarrow> ta_wf s \<Longrightarrow> ta_wf s'"
  by (auto simp: update_slot_wf) (simp add: ta_wf_def)

lemma next_trace_id_keeps_wf: "next_trace_id s = Inr s' \<Longrightarrow> ta_wf s \<Longrightarrow> ta_wf s'"
  by (auto simp: next_trace_id_def cbind_eq_Inr c_incr_def ta_wf_def split: if_splits)

lemma store_slot_keeps_wf:
  "cbind (update_slot f s) next_trace_id = Inr s' \<Longrightarrow> ta_wf s \<Longrightarrow> ta_wf s'"
  by (auto simp: cbind_eq_Inr dest: update_slot_keeps_wf next_trace_id_keeps_wf)

lemmas record_defs = record_def_def record_ddef_def record_use_def record_iuse_def

lemma record_keeps_wf:
  "record_def i a s = Inr s' \<Longrightarrow> ta_wf s \<Longrightarrow> ta_wf s'"
  "record_ddef i a n s = Inr s' \<Longrightarrow> ta_wf s \<Longrightarrow> ta_wf s'"
  "record_use i a s = Inr s' \<Longrightarrow> ta_wf s \<Longrightarrow> ta_wf s'"
  "record_iuse i d a s = Inr s' \<Longrightarrow> ta_wf s \<Longrightarrow> ta_wf s'"
  unfolding record_defs by (erule (1) store_slot_keeps_wf)+

lemma flush_loop_keeps_wf: "flush_loop es s = Inr s' \<Longrightarrow> ta_wf s \<Longrightarrow> ta_wf s'"
proof (induction es arbitrary: s)
  case Nil
  then show ?case by simp
next
  case (Cons u us)
  show ?case
  proof (cases "flush_loop (u # us) s = Inr s")
    case True
    with Cons.prems show ?thesis by simp
  next
    case False
    with Cons.prems(1) obtain t where "flush_loop us t = Inr s'"
      and "record_def (ta_def u) (ta_def_addr u) s = Inr t \<or>
        record_use (ta_use_id u) (ta_use_addr u) s = Inr t \<or>
        record_iuse (i_use u) (i_def u) (i_addr u) s = Inr t \<or>
        record_ddef (ta_def u) (ta_def_addr u) (ta_def_size u) s = Inr t"
      by (auto simp: cbind_eq_Inr split: if_splits)
    then show ?thesis using Cons.IH Cons.prems(2) record_keeps_wf by blast
  qed
qed

lemma count_flush_keeps_wf: "count_flush s = Inr s' \<Longrightarrow> ta_wf s \<Longrightarrow> ta_wf s'"
  by (auto simp: count_flush_def cbind_eq_Inr c_write_eq_Inr ta_wf_def)

lemma handlers_keep_wf:
  "zbouncer_def_ta ts p s = Inr (r, p', s') \<Longrightarrow> ta_wf s \<Longrightarrow> ta_wf s'"
  "zbouncer_ddef_ta ts p s = Inr (r, p', s') \<Longrightarrow> ta_wf s \<Longrightarrow> ta_wf s'"
  "zbouncer_use_ta ts p s = Inr (r, p', s') \<Longrightarrow> ta_wf s \<Longrightarrow> ta_wf s'"
  "zbouncer_iuse_ta ts p s = Inr (r, p', s') \<Longrightarrow> ta_wf s \<Longrightarrow> ta_wf s'"
  "copy_trace ts p s = Inr (r, p', s') \<Longrightarrow> ta_wf s \<Longrightarrow> ta_wf s'"
  "zbouncer_time_global now ts p s = Inr (r, p', s') \<Longrightarrow> ta_wf s \<Longrightarrow> ta_wf s'"
  "zbouncer_func_ctr ts p s = Inr (r, p', s') \<Longrightarrow> ta_wf s \<Longrightarrow> ta_wf s'"
  "zbouncer_flush_cache_ta ts p s = Inr (r, p', s') \<Longrightarrow> ta_wf s \<Longrightarrow> ta_wf s'"
proof -
  show "zbouncer_def_ta ts p s = Inr (r, p', s') \<Longrightarrow> ta_wf s \<Longrightarrow> ta_wf s'"
    by (auto simp: zbouncer_def_ta_def cbind_eq_Inr dest: record_keeps_wf split: if_splits)
  show "zbouncer_ddef_ta ts p s = Inr (r, p', s') \<Longrightarrow> ta_wf s \<Longrightarrow> ta_wf s'"
    by (auto simp: zbouncer_ddef_ta_def cbind_eq_Inr dest: record_keeps_wf split: if_splits)
  show "zbouncer_use_ta ts p s = Inr (r, p', s') \<Longrightarrow> ta_wf s \<Longrightarrow> ta_wf s'"
    by (auto simp: zbouncer_use_ta_def cbind_eq_Inr dest: record_keeps_wf split: if_splits)
  show "zbouncer_iuse_ta ts p s = Inr (r, p', s') \<Longrightarrow> ta_wf s \<Longrightarrow> ta_wf s'"
    by (auto simp: zbouncer_iuse_ta_def cbind_eq_Inr
        dest: update_slot_keeps_wf next_trace_id_keeps_wf split: if_splits)
  show "copy_trace ts p s = Inr (r, p', s') \<Longrightarrow> ta_wf s \<Longrightarrow> ta_wf s'"
    by (auto simp: copy_trace_def cbind_eq_Inr Let_def split: if_splits)
  show "zbouncer_time_global now ts p s = Inr (r, p', s') \<Longrightarrow> ta_wf s \<Longrightarrow> ta_wf s'"
    by (auto simp: zbouncer_time_global_def Let_def ta_wf_def split: if_splits)
  show "zbouncer_func_ctr ts p s = Inr (r, p', s') \<Longrightarrow> ta_wf s \<Longrightarrow> ta_wf s'"
    by (auto simp: zbouncer_func_ctr_def cbind_eq_Inr split: if_splits)
  show "zbouncer_flush_cache_ta ts p s = Inr (r, p', s') \<Longrightarrow> ta_wf s \<Longrightarrow> ta_wf s'"
    by (auto simp: zbouncer_flush_cache_ta_def cbind_eq_Inr Let_def
        dest: flush_loop_keeps_wf split: if_splits)
qed

text \<open>Every command, whatever its identifier and parameters, keeps the state well formed.\<close>

lemma invoke_keeps_wf:
  assumes "TA_InvokeCommandEntryPoint now cmd ts p s = Inr (r, p', s')" and "ta_wf s"
  shows "ta_wf s'"
proof -
  have "ta_wf s'"
    if "cbind (zbouncer_flush_cache_ta ts p s) (\<lambda>(error, p', s').
        cbind (count_flush s') (\<lambda>s''. Inr (error, p', s''))) = Inr (r, p', s')"
    using that assms(2) handlers_keep_wf(8) count_flush_keeps_wf
    by (fastforce simp: cbind_eq_Inr)
  then show ?thesis
    using assms handlers_keep_wf unfolding TA_InvokeCommandEntryPoint_def
    by (auto split: if_splits)
qed

lemma session_keeps_wf:
  "TA_OpenSessionEntryPoint now ts p s = Inr (r, p', s') \<Longrightarrow> ta_wf s \<Longrightarrow> ta_wf s'"
  by (auto simp: TA_OpenSessionEntryPoint_def Let_def cbind_eq_Inr ta_wf_def split: if_splits)

section \<open>Events\<close>

fun record_event :: "event \<Rightarrow> ta_state \<Rightarrow> ta_state c" where
  "record_event (Def i a) s = record_def i a s"
| "record_event (Ddef i a n) s = record_ddef i a n s"
| "record_event (Use i a) s = record_use i a s"
| "record_event (Iuse i d a) s = record_iuse i d a s"

text \<open>What recording an event does to the slot it lands on.\<close>

fun event_write :: "event \<Rightarrow> ta_use_t \<Rightarrow> ta_use_t" where
  "event_write (Def i a) u = u\<lparr>ta_def := i, ta_def_addr := a, ta_def_size := -1\<rparr>"
| "event_write (Ddef i a n) u = u\<lparr>ta_def := i, ta_def_addr := a, ta_def_size := n\<rparr>"
| "event_write (Use i a) u = u\<lparr>ta_use_id := i, ta_use_addr := a\<rparr>"
| "event_write (Iuse i d a) u = u\<lparr>i_use := i, i_def := d, i_addr := a\<rparr>"

lemma record_event_store: "record_event e s = cbind (update_slot (event_write e) s) next_trace_id"
proof (cases e)
  case (Def i a)
  have "event_write e = (\<lambda>u. u\<lparr>ta_def := i, ta_def_addr := a, ta_def_size := -1\<rparr>)"
    using Def by auto
  then show ?thesis using Def by (simp add: record_def_def)
next
  case (Ddef i a n)
  have "event_write e = (\<lambda>u. u\<lparr>ta_def := i, ta_def_addr := a, ta_def_size := n\<rparr>)"
    using Ddef by auto
  then show ?thesis using Ddef by (simp add: record_ddef_def)
next
  case (Use i a)
  have "event_write e = (\<lambda>u. u\<lparr>ta_use_id := i, ta_use_addr := a\<rparr>)"
    using Use by auto
  then show ?thesis using Use by (simp add: record_use_def)
next
  case (Iuse i d a)
  have "event_write e = (\<lambda>u. u\<lparr>i_use := i, i_def := d, i_addr := a\<rparr>)"
    using Iuse by auto
  then show ?thesis using Iuse by (simp add: record_iuse_def)
qed

lemma record_event_wf:
  assumes "ta_wf s" and "trace_id s < INT_MAX"
  shows "record_event e s =
    Inr (s\<lparr>dynamic_trace :=
             (dynamic_trace s)[slot_index s := event_write e (dynamic_trace s ! slot_index s)],
           trace_id := trace_id s + 1\<rparr>)"
  using assms by (simp add: record_event_store store_slot)

lemma slot_events_fresh:
  "recordable e \<Longrightarrow> slot_events (as_host (event_write e ta_use_zero)) = [e]"
  by (cases e) (simp_all add: slot_events_def ta_use_zero_def)

section \<open>The log\<close>

definition ta_log :: "ta_state \<Rightarrow> event list" where
  "ta_log s = concat (map (slot_events \<circ> as_host) (dynamic_trace s))"

text \<open>
  Until the ring wraps, the slots below the counter hold one event each and the others are
  as the loader left them.
\<close>

definition ta_fresh :: "ta_state \<Rightarrow> bool" where
  "ta_fresh s \<longleftrightarrow> ta_wf s \<and> trace_id s \<le> 2048 \<and>
     (\<forall>k < nat (trace_id s). length (slot_events (as_host (dynamic_trace s ! k))) = 1) \<and>
     drop (nat (trace_id s)) (dynamic_trace s) = replicate (2048 - nat (trace_id s)) ta_use_zero"

definition ta_room :: "ta_state \<Rightarrow> nat" where
  "ta_room s = 2048 - nat (trace_id s)"

lemma as_host_zero [simp]: "as_host ta_use_zero = use_zero"
  by (rule use_t.equality) (simp_all add: use_zero_def ta_use_zero_def)

lemma ta_fresh_initial: "ta_fresh ta_initial"
  by (simp add: ta_fresh_def ta_wf_def ta_initial_def)

lemma ta_log_initial: "ta_log ta_initial = []"
  by (simp add: ta_log_def ta_initial_def)

lemma ta_fresh_log_take:
  assumes "ta_fresh s"
  shows "ta_log s = concat (map (slot_events \<circ> as_host) (take (nat (trace_id s)) (dynamic_trace s)))"
proof -
  let ?n = "nat (trace_id s)"
  have "dynamic_trace s = take ?n (dynamic_trace s) @ replicate (2048 - ?n) ta_use_zero"
    using assms append_take_drop_id [of ?n "dynamic_trace s"] by (simp add: ta_fresh_def)
  then have "ta_log s = concat (map (slot_events \<circ> as_host)
      (take ?n (dynamic_trace s) @ replicate (2048 - ?n) ta_use_zero))"
    unfolding ta_log_def by simp
  then show ?thesis by (simp add: o_def)
qed

lemma record_event_fresh:
  assumes "ta_fresh s" and "recordable e" and "0 < ta_room s"
  shows "\<exists>s'. record_event e s = Inr s' \<and> ta_fresh s' \<and> ta_log s' = ta_log s @ [e] \<and>
    ta_room s = Suc (ta_room s')"
proof -
  define n where "n = nat (trace_id s)"
  define t where "t = dynamic_trace s"
  have wf: "ta_wf s" and len: "length t = 2048" and pos: "0 \<le> trace_id s"
    using assms(1) by (auto simp: ta_fresh_def ta_wf_def t_def)
  have n: "n < 2048" and tid: "trace_id s = int n" "trace_id s < INT_MAX"
    using assms(3) pos by (auto simp: ta_room_def n_def INT_MAX_def)
  have idx: "slot_index s = n" using n by (simp add: slot_index_def tid)
  have rest: "drop n t = replicate (2048 - n) ta_use_zero"
    using assms(1) by (simp add: ta_fresh_def n_def t_def)
  have zero: "t ! n = ta_use_zero"
  proof -
    have "t ! n = drop n t ! 0" using n len by simp
    then show ?thesis using n by (simp add: rest)
  qed
  define s' where "s' = s\<lparr>dynamic_trace := t[n := event_write e ta_use_zero],
    trace_id := trace_id s + 1\<rparr>"
  have run: "record_event e s = Inr s'"
    using record_event_wf [OF wf tid(2)] by (simp add: s'_def idx t_def [symmetric] zero)
  have "drop (Suc n) t = tl (drop n t)" by (simp add: drop_Suc tl_drop)
  then have rest': "drop (Suc n) t = replicate (2048 - Suc n) ta_use_zero"
    using n by (cases "2048 - n") (auto simp: rest)
  have cells: "length (slot_events (as_host (t ! k))) = 1" if "k < n" for k
    using assms(1) that by (simp add: ta_fresh_def n_def t_def)
  have tid': "nat (trace_id s') = Suc n" by (simp add: s'_def tid)
  have fresh: "ta_fresh s'"
    using wf n len rest' cells
    by (auto simp: ta_fresh_def ta_wf_def tid' less_Suc_eq slot_events_fresh [OF assms(2)])
       (simp_all add: s'_def tid slot_events_fresh [OF assms(2)])
  have "ta_log s' = ta_log s @ [e]"
    unfolding ta_fresh_log_take [OF fresh] ta_fresh_log_take [OF assms(1)] tid' n_def [symmetric]
    using n len by (simp add: s'_def t_def [symmetric] take_Suc_update slot_events_fresh [OF assms(2)])
  moreover have "ta_room s = Suc (ta_room s')"
    using n by (simp add: ta_room_def tid' n_def [symmetric])
  ultimately show ?thesis using run fresh by blast
qed

text \<open>
  The trusted application implements the contract of a trace sink: before the ring wraps
  its log is the list of the events recorded, in order.
\<close>

interpretation ta_sink: trace_sink record_event ta_log ta_fresh recordable ta_room
  by unfold_locales (rule record_event_fresh)

section \<open>Flushing a cache\<close>

fun cache_events :: "use_t list \<Rightarrow> event list" where
  "cache_events [] = []"
| "cache_events (u # us) = (case entry_event u of None \<Rightarrow> [] | Some e \<Rightarrow> e # cache_events us)"

lemma flush_loop_Cons:
  "flush_loop (as_ta u # us) s =
     (case entry_event u of None \<Rightarrow> Inr s | Some e \<Rightarrow> cbind (record_event e s) (flush_loop us))"
  by (simp add: entry_event_def)

lemma flush_loop_run:
  "\<exists>u \<in> set us. entry_event u = None \<Longrightarrow>
     flush_loop (map as_ta us @ rest) s = c_run record_event (cache_events us) s"
proof (induction us arbitrary: s)
  case Nil
  then show ?case by simp
next
  case (Cons u us)
  then show ?case
    by (cases "entry_event u") (auto simp: flush_loop_Cons simp del: flush_loop.simps intro: cbind_cong)
qed

lemma cache_events_all: "list_all (\<lambda>u. entry_event u \<noteq> None) us \<Longrightarrow>
    cache_events (us @ vs) = map (the \<circ> entry_event) us @ cache_events vs"
  by (induction us) auto

lemma cache_events_length: "length (cache_events us) \<le> length us"
  by (induction us) (auto split: option.splits)

lemma log_cache_ok: "128 < length es \<Longrightarrow> log_cache es = Inr ()"
proof -
  assume len: "128 < length es"
  have "c_run (\<lambda>i _. cbind (c_read es i) (\<lambda>_. Inr ())) is () = Inr ()"
    if "\<forall>i \<in> set is. 0 \<le> i \<and> i \<le> 128" for "is"
    using that len by (induction "is") (simp_all add: c_read_def)
  then show ?thesis by (simp add: log_cache_def)
qed

lemma log_cache_short:
  assumes "length es \<le> 128"
  shows "log_cache es = Inl Out_Of_Bounds"
proof -
  have stuck: "c_run (\<lambda>i _. cbind (c_read es i) (\<lambda>_. Inr ())) is () = Inl Out_Of_Bounds"
    if "128 \<in> set is" for "is"
    using that assms by (induction "is") (auto simp: c_read_def)
  show ?thesis unfolding log_cache_def by (rule stuck) simp
qed

end
