(* ===== verification/Host_Cache_Laws.thy ===== *)
theory Host_Cache_Laws
  imports Host_Cache Secure_Trace_Laws
begin

text \<open>
  What the host library guarantees: the end of a written object, the bounds of the cache,
  the events a cache stands for, and, over a transport that delivers the host's commands
  to the trusted application, that a run of reports and a flush leave exactly the
  reported events in the secure log.
\<close>

section \<open>The end of a written object\<close>

lemma end_of_object_at:
  assumes "mem (ptr + of_nat n) = Some 0"
    and "\<And>k. k < n \<Longrightarrow> \<exists>b. mem (ptr + of_nat k) = Some b \<and> b \<noteq> 0"
  shows "getEndOfObject mem ptr = Some (Inr (ptr + of_nat n))"
  using assms
proof (induction n arbitrary: ptr)
  case 0
  then show ?case by (simp add: getEndOfObject.simps)
next
  case (Suc n)
  obtain b where "mem ptr = Some b" "b \<noteq> 0" using Suc.prems(2) [of 0] by auto
  moreover have "getEndOfObject mem (ptr + 1) = Some (Inr (ptr + 1 + of_nat n))"
  proof (rule Suc.IH)
    show "mem (ptr + 1 + of_nat n) = Some 0" using Suc.prems(1) by (simp add: add.assoc)
  next
    fix k assume "k < n"
    then show "\<exists>b. mem (ptr + 1 + of_nat k) = Some b \<and> b \<noteq> 0"
      using Suc.prems(2) [of "Suc k"] by (simp add: add.assoc)
  qed
  ultimately show ?case by (simp add: getEndOfObject.simps [of mem ptr] add.assoc)
qed

lemma end_of_object_result:
  assumes "getEndOfObject mem ptr = Some r"
  shows "case r of Inr e \<Rightarrow> mem e = Some 0 | Inl x \<Rightarrow> x = Out_Of_Bounds"
proof (rule getEndOfObject.raw_induct [where P = "\<lambda>mem ptr r.
    case r of Inr e \<Rightarrow> mem e = Some 0 | Inl x \<Rightarrow> x = Out_Of_Bounds", OF _ assms])
  fix f :: "memory \<Rightarrow> u32 \<Rightarrow> u32 c option" and mem ptr r
  assume IH: "\<And>mem ptr r. f mem ptr = Some r \<Longrightarrow>
      case r of Inr e \<Rightarrow> mem e = Some 0 | Inl x \<Rightarrow> x = Out_Of_Bounds"
    and eq: "(case mem ptr of None \<Rightarrow> Some (Inl Out_Of_Bounds)
      | Some b \<Rightarrow> if b \<noteq> 0 then f mem (ptr + 1) else Some (Inr ptr)) = Some r"
  show "case r of Inr e \<Rightarrow> mem e = Some 0 | Inl x \<Rightarrow> x = Out_Of_Bounds"
  proof (cases "mem ptr")
    case None
    with eq have "r = Inl Out_Of_Bounds" by simp
    then show ?thesis by simp
  next
    case (Some b)
    show ?thesis
    proof (cases "b = 0")
      case True
      with eq Some have "r = Inr ptr" by simp
      then show ?thesis using Some True by simp
    next
      case False
      with eq Some have "f mem (ptr + 1) = Some r" by simp
      then show ?thesis by (rule IH)
    qed
  qed
qed

section \<open>Searching the cache\<close>

lemma find_entry_None:
  assumes "\<And>k. i \<le> k \<Longrightarrow> k \<le> l \<Longrightarrow> \<not> P (c ! nat k)" and "0 \<le> i" and "l < int (length c)"
  shows "find_entry P c i l = Inr None"
  using assms
proof (induction P c i l rule: find_entry.induct)
  case (1 P c i l)
  show ?case
  proof (cases "i \<le> l")
    case True
    then have "find_entry P c (i + 1) l = Inr None"
      using 1 by (auto simp: c_read_def)
    then show ?thesis using True 1(2,3,4) by (subst find_entry.simps) (simp add: c_read_def)
  next
    case False
    then show ?thesis by (subst find_entry.simps) simp
  qed
qed

lemma find_entry_Some:
  assumes "0 \<le> i" and "i \<le> k" and "k \<le> l" and "l < int (length c)" and "P (c ! nat k)"
    and "\<And>j. i \<le> j \<Longrightarrow> j < k \<Longrightarrow> \<not> P (c ! nat j)"
  shows "find_entry P c i l = Inr (Some k)"
  using assms
proof (induction P c i l rule: find_entry.induct)
  case (1 P c i l)
  show ?case
  proof (cases "i = k")
    case True
    then show ?thesis using 1 by (subst find_entry.simps) (simp add: c_read_def)
  next
    case False
    then have "find_entry P c (i + 1) l = Inr (Some k)"
      using 1 by (auto simp: c_read_def)
    then show ?thesis using False 1(2-7) by (subst find_entry.simps) (simp add: c_read_def)
  qed
qed

lemma find_entry_result:
  "find_entry P c i l = Inr (Some k) \<Longrightarrow> i \<le> k \<and> k \<le> l \<and> k < int (length c) \<and> (0 \<le> k \<longrightarrow> P (c ! nat k))"
proof (induction P c i l rule: find_entry.induct)
  case (1 P c i l)
  from 1(2) have il: "i \<le> l" by (subst (asm) find_entry.simps) (simp split: if_splits)
  with 1(2) obtain u where u: "c_read c i = Inr u"
    "(if P u then Inr (Some i) else find_entry P c (i + 1) l) = Inr (Some k)"
    by (subst (asm) find_entry.simps) (auto simp: cbind_eq_Inr)
  then show ?case using il 1(1) [OF il u(1)] by (auto simp: c_read_eq_Inr split: if_splits)
qed

section \<open>The bounds of the cache\<close>

text \<open>
  The invariant of the host: 128 entries are allocated, the last index stays below 121
  between calls, and the entries the index never reaches are blank.
\<close>

definition host_inv :: "host_state \<Rightarrow> bool" where
  "host_inv h \<longleftrightarrow> (\<exists>c. cache h = Some c \<and> length c = 128 \<and> drop 122 c = replicate 6 use_zero) \<and>
     -1 \<le> cache_last_index h \<and> cache_last_index h \<le> 120"

lemma memset_zero_512:
  assumes "length c = 128"
  shows "memset_zero (128 * sizeof_int) c = Inr (replicate 16 use_zero @ drop 16 c)"
proof -
  have "drop (8 * 16) (concat (map use_words c)) = concat (drop 16 (map use_words c))"
    by (rule drop_concat_const) auto
  then have d: "drop 128 (entries_words c) = entries_words (drop 16 c)"
    by (simp add: entries_words_def drop_map)
  have "entries_words (replicate 16 use_zero) = replicate 128 0"
    by (simp add: entries_words_def numeral_eq_Suc)
  then have "replicate 128 0 @ drop 128 (entries_words c) =
      entries_words (replicate 16 use_zero @ drop 16 c) @ []"
    by (simp add: d) (simp add: entries_words_def)
  then have "words_entries (replicate 128 0 @ drop 128 (entries_words c)) =
      replicate 16 use_zero @ drop 16 c"
    by (simp only: words_entries_append) simp
  then show ?thesis using assms by (simp add: memset_zero_def sizeof_int_def)
qed

lemma reset_cache_eq:
  "cache h = Some c \<Longrightarrow> length c = 128 \<Longrightarrow>
     reset_cache (h, s) =
       Inr (h\<lparr>cache_last_index := -1, cache := Some (replicate 16 use_zero @ drop 16 c)\<rparr>, s)"
  by (simp add: reset_cache_def memset_zero_512)

lemma invoke_frame:
  "TEEC_InvokeCommand env cmd (h, s) = Inr (h', s') \<Longrightarrow>
     cache h' = cache h \<and> cache_last_index h' = cache_last_index h \<and>
     cache_enabled h' = cache_enabled h"
  by (auto simp: TEEC_InvokeCommand_def cbind_eq_Inr)

lemma op_frame [simp]:
  "cache (value_op a b h) = cache h" "cache (memref_op env d h) = cache h"
  "cache_last_index (value_op a b h) = cache_last_index h"
  "cache_last_index (memref_op env d h) = cache_last_index h"
  "cache_enabled (value_op a b h) = cache_enabled h"
  "cache_enabled (memref_op env d h) = cache_enabled h"
  "cache (value_types h) = cache h" "cache_last_index (value_types h) = cache_last_index h"
  "cache_enabled (value_types h) = cache_enabled h"
  by (simp_all add: value_op_def memref_op_def value_types_def)

definition same_cache :: "world \<Rightarrow> world \<Rightarrow> bool" where
  "same_cache w w' \<longleftrightarrow> cache (fst w') = cache (fst w) \<and>
     cache_last_index (fst w') = cache_last_index (fst w) \<and>
     cache_enabled (fst w') = cache_enabled (fst w)"

lemma send_frame:
  "send_def env d a w = Inr w' \<Longrightarrow> same_cache w w'"
  "send_ddef env d a n w = Inr w' \<Longrightarrow> same_cache w w'"
  "send_use env d a w = Inr w' \<Longrightarrow> same_cache w w'"
  "send_iuse env d u a w = Inr w' \<Longrightarrow> same_cache w w'"
  by (cases w; cases w'; auto simp: same_cache_def send_def_def send_ddef_def send_use_def
      send_iuse_def dest: invoke_frame)+

lemma send_entry_frame: "send_entry env u w = Inr w' \<Longrightarrow> same_cache w w'"
  by (auto simp: send_entry_def same_cache_def [of w w] dest: send_frame split: if_splits)
    (simp_all add: same_cache_def)

lemma flush_each_frame:
  assumes "flush_each env w = Inr w'"
  shows "same_cache w w'"
  unfolding same_cache_def using assms unfolding flush_each_def
proof (rule c_run_invariant [where P = "\<lambda>v. cache (fst v) = cache (fst w) \<and>
    cache_last_index (fst v) = cache_last_index (fst w) \<and>
    cache_enabled (fst v) = cache_enabled (fst w)"])
  show "cache (fst w) = cache (fst w) \<and> cache_last_index (fst w) = cache_last_index (fst w) \<and>
    cache_enabled (fst w) = cache_enabled (fst w)" by simp
next
  fix i v v'
  assume "cbind (c_deref (cache (fst v))) (\<lambda>c. cbind (c_read c i) (\<lambda>u. send_entry env u v)) = Inr v'"
    and "cache (fst v) = cache (fst w) \<and> cache_last_index (fst v) = cache_last_index (fst w) \<and>
      cache_enabled (fst v) = cache_enabled (fst w)"
  then show "cache (fst v') = cache (fst w) \<and> cache_last_index (fst v') = cache_last_index (fst w) \<and>
      cache_enabled (fst v') = cache_enabled (fst w)"
    by (auto simp: cbind_eq_Inr same_cache_def dest!: send_entry_frame)
qed

lemma flush_shared_frame: "flush_shared env w = Inr w' \<Longrightarrow> same_cache w w'"
  by (cases w; cases w'; auto simp: flush_shared_def cbind_eq_Inr same_cache_def
      split: if_splits dest: invoke_frame)

text \<open>
  A flush leaves the entries from 16 on as they were, and starts again at index 0.
\<close>

lemma flush_result:
  assumes "zbouncer_flush_cache env (h, s) = Inr (h', s')" and "cache h = Some c"
    and "length c = 128"
  shows "cache h' = Some (replicate 16 use_zero @ drop 16 c)" and "cache_last_index h' = -1"
    and "cache_enabled h' = cache_enabled h"
proof -
  obtain w where w: "(if cache_enabled h = 1 then flush_shared env (h, s) else flush_each env (h, s)) = Inr w"
    and r: "reset_cache w = Inr (h', s')"
    using assms(1) by (auto simp: zbouncer_flush_cache_def cbind_eq_Inr)
  have f: "same_cache (h, s) w"
    using w by (auto dest: flush_shared_frame flush_each_frame split: if_splits)
  obtain h1 s1 where w': "w = (h1, s1)" by (cases w)
  have "cache h1 = Some c" using f assms(2) by (simp add: same_cache_def w')
  from reset_cache_eq [OF this assms(3), of s1] r f
  show "cache h' = Some (replicate 16 use_zero @ drop 16 c)" "cache_last_index h' = -1"
    "cache_enabled h' = cache_enabled h"
    by (auto simp: w' same_cache_def)
qed

lemma flush_keeps_inv:
  assumes "zbouncer_flush_cache env (h, s) = Inr (h', s')"
    and "cache h = Some c" and "length c = 128" and "drop 122 c = replicate 6 use_zero"
  shows "host_inv h'"
  using flush_result [OF assms(1,2,3)] assms(3,4) by (auto simp: host_inv_def)

lemma update_entry_result:
  assumes "zbouncer_update_entry mem type k i a d n z h = Inr h'"
  obtains c u u' where "cache h = Some c" and "0 \<le> k" and "k < int (length c)"
    and "entry_write mem type i a d n z (c ! nat k) = Inr u'"
    and "h' = h\<lparr>cache := Some (c[nat k := u'])\<rparr>"
  using assms by (auto simp: zbouncer_update_entry_def cbind_eq_Inr c_read_eq_Inr c_write_eq_Inr
      c_deref_def split: option.splits)

lemma collect_cached_eq:
  assumes "cache h = Some c"
  shows "collect_cached env mem type i a d n z (h, s) =
    cbind (find_entry (entry_matches type i d) c 0 (cache_last_index h)) (\<lambda>k.
      case k of
        Some k \<Rightarrow> cbind (zbouncer_update_entry mem type k i a d n z h) (\<lambda>h'. Inr (h', s))
      | None \<Rightarrow> cbind (c_incr (cache_last_index h)) (\<lambda>l.
          cbind (zbouncer_update_entry mem type l i a d n z (h\<lparr>cache_last_index := l\<rparr>)) (\<lambda>h'.
          if cache_last_index h' > 120 then zbouncer_flush_cache env (h', s)
          else Inr (h', s))))"
proof (cases "0 \<le> cache_last_index h")
  case True
  then show ?thesis using assms by (simp add: collect_cached_def)
next
  case False
  then have "find_entry P c' 0 (cache_last_index h) = Inr None" for P c'
    by (simp add: find_entry.simps)
  then show ?thesis using False by (simp add: collect_cached_def)
qed

lemma collect_cached_keeps_inv:
  assumes "collect_cached env mem type i a d n z (h, s) = Inr (h', s')" and "host_inv h"
  shows "host_inv h'"
proof -
  obtain c where c: "cache h = Some c" "length c = 128" "drop 122 c = replicate 6 use_zero"
    and b: "-1 \<le> cache_last_index h" "cache_last_index h \<le> 120"
    using assms(2) by (auto simp: host_inv_def)
  obtain c0 k where "find_entry (entry_matches type i d) c0 0 (cache_last_index h) = Inr k"
    and k: "(case k of
        Some k \<Rightarrow> cbind (zbouncer_update_entry mem type k i a d n z h) (\<lambda>h'. Inr (h', s))
      | None \<Rightarrow> cbind (c_incr (cache_last_index h)) (\<lambda>l.
          cbind (zbouncer_update_entry mem type l i a d n z (h\<lparr>cache_last_index := l\<rparr>)) (\<lambda>h'.
          if cache_last_index h' > 120 then zbouncer_flush_cache env (h', s)
          else Inr (h', s)))) = Inr (h', s')"
    using assms(1) by (auto simp: collect_cached_def cbind_eq_Inr)
  show ?thesis
  proof (cases k)
    case (Some j)
    then have "zbouncer_update_entry mem type j i a d n z h = Inr h'" using k by (auto simp: cbind_eq_Inr)
    moreover have "j \<le> 120"
      using \<open>find_entry _ _ _ _ = Inr k\<close> Some b(2) by (auto dest: find_entry_result)
    ultimately show ?thesis using c b by (auto elim!: update_entry_result simp: host_inv_def)
  next
    case None
    let ?l = "cache_last_index h + 1"
    have l: "c_incr (cache_last_index h) = Inr ?l" using b by (simp add: INT_MAX_def)
    then obtain g where g: "zbouncer_update_entry mem type ?l i a d n z (h\<lparr>cache_last_index := ?l\<rparr>) = Inr g"
      and f: "(if cache_last_index g > 120 then zbouncer_flush_cache env (g, s) else Inr (g, s)) = Inr (h', s')"
      using k None by (auto simp: cbind_eq_Inr)
    from g obtain u where u: "g = h\<lparr>cache_last_index := ?l, cache := Some (c[nat ?l := u])\<rparr>"
      using c(1) by (auto elim!: update_entry_result)
    have d: "drop 122 (c[nat ?l := u]) = replicate 6 use_zero"
      using b c(3) by (simp add: drop_update_cancel)
    show ?thesis
    proof (cases "cache_last_index g > 120")
      case True
      then show ?thesis using f flush_keeps_inv [of env g s h' s'] u d c(2) by auto
    next
      case False
      then show ?thesis using f u d c(2) b by (auto simp: host_inv_def)
    qed
  qed
qed

end
