(* ===== verification/Cached_Session.thy ===== *)
theory Cached_Session
  imports Host_Cache_Laws
begin

text \<open>
  The two worlds together. An interface states what the host relies on from the TEE
  client library and the OP-TEE driver; over it, a run of reports followed by the final
  flush is shown to leave in the secure log the events an abstract cache holds.
\<close>

section \<open>Reports\<close>

text \<open>What the instrumented program calls for each kind of event.\<close>

fun report :: "optee \<Rightarrow> memory \<Rightarrow> event \<Rightarrow> world \<Rightarrow> world c" where
  "report env mem (Def i a) = zbouncer_collect_alloca env mem i a"
| "report env mem (Ddef i a n) = zbouncer_collect_alloca_dyn env mem i a n"
| "report env mem (Use i a) = zbouncer_use env mem i a"
| "report env mem (Iuse i d a) = zbouncer_iuse env mem i d a"

section \<open>The abstract cache\<close>

text \<open>
  The cache as a list of events: a definition that is already cached is replaced where it
  stands, any other event is appended.
\<close>

fun same_def :: "event \<Rightarrow> event \<Rightarrow> bool" where
  "same_def (Def i a) (Def j b) \<longleftrightarrow> i = j"
| "same_def (Ddef i a n) (Ddef j b m) \<longleftrightarrow> i = j"
| "same_def _ _ \<longleftrightarrow> False"

fun absorb :: "event list \<Rightarrow> event \<Rightarrow> event list" where
  "absorb [] e = [e]"
| "absorb (f # fs) e = (if same_def e f then e # fs else f # absorb fs e)"

lemma absorb_fresh: "(\<And>f. f \<in> set es \<Longrightarrow> \<not> same_def e f) \<Longrightarrow> absorb es e = es @ [e]"
  by (induction es) auto

lemma absorb_at:
  "k < length es \<Longrightarrow> same_def e (es ! k) \<Longrightarrow> (\<And>j. j < k \<Longrightarrow> \<not> same_def e (es ! j)) \<Longrightarrow>
     absorb es e = es[k := e]"
proof (induction es arbitrary: k)
  case Nil
  then show ?case by simp
next
  case (Cons f fs)
  show ?case
  proof (cases k)
    case 0
    then show ?thesis using Cons.prems by simp
  next
    case (Suc m)
    then have "\<not> same_def e f" using Cons.prems(3) [of 0] by simp
    moreover have "absorb fs e = fs[m := e]"
      using Cons.IH [of m] Cons.prems Suc by (metis Suc_less_eq length_Cons nth_Cons_Suc)
    ultimately show ?thesis using Suc by simp
  qed
qed

lemma least_same_def:
  assumes "\<exists>k < length es. same_def e (es ! k)"
  obtains k where "k = (LEAST k. k < length es \<and> same_def e (es ! k))"
    and "k < length es" and "same_def e (es ! k)" and "\<And>j. j < k \<Longrightarrow> \<not> same_def e (es ! j)"
proof -
  let ?P = "\<lambda>k. k < length es \<and> same_def e (es ! k)"
  define k where "k = (LEAST k. ?P k)"
  have k: "?P k" using assms unfolding k_def by (rule LeastI_ex)
  have "\<not> same_def e (es ! j)" if "j < k" for j
  proof -
    from that have "\<not> ?P j" unfolding k_def by (rule not_less_Least)
    then show ?thesis using that k by auto
  qed
  then show thesis using that [OF k_def] k by blast
qed

lemma absorb_cases:
  obtains (fresh) "absorb es e = es @ [e]" "\<And>f. f \<in> set es \<Longrightarrow> \<not> same_def e f"
  | (found) k where "k < length es" "same_def e (es ! k)" "\<And>j. j < k \<Longrightarrow> \<not> same_def e (es ! j)"
      "absorb es e = es[k := e]"
proof (cases "\<exists>k < length es. same_def e (es ! k)")
  case True
  then obtain k where k: "k < length es" "same_def e (es ! k)" "\<And>j. j < k \<Longrightarrow> \<not> same_def e (es ! j)"
    by (rule least_same_def) blast
  then show thesis using found absorb_at [OF k] by blast
next
  case False
  then have "\<And>f. f \<in> set es \<Longrightarrow> \<not> same_def e f" by (metis in_set_conv_nth)
  then show thesis using fresh absorb_fresh by blast
qed

lemma length_absorb: "length es \<le> length (absorb es e)"
  by (induction es) auto

lemma length_foldl_absorb: "length es \<le> length (foldl absorb es fs)"
proof (induction fs arbitrary: es)
  case (Cons f fs)
  then show ?case using length_absorb [of es f] le_trans by fastforce
qed simp

lemma set_absorb: "set (absorb es e) \<subseteq> insert e (set es)"
  by (induction es) auto

lemma set_foldl_absorb: "set (foldl absorb es fs) \<subseteq> set es \<union> set fs"
proof (induction fs arbitrary: es)
  case (Cons f fs)
  then show ?case using set_absorb [of es f] by fastforce
qed simp

lemma foldl_absorb_distinct:
  assumes "\<And>i j. i < j \<Longrightarrow> j < length fs \<Longrightarrow> \<not> same_def (fs ! j) (fs ! i)"
    and "\<And>e f. e \<in> set es \<Longrightarrow> f \<in> set fs \<Longrightarrow> \<not> same_def f e"
  shows "foldl absorb es fs = es @ fs"
  using assms
proof (induction fs arbitrary: es)
  case Nil
  then show ?case by simp
next
  case (Cons f fs)
  have "absorb es f = es @ [f]" using Cons.prems(2) by (intro absorb_fresh) auto
  moreover have "foldl absorb (es @ [f]) fs = (es @ [f]) @ fs"
  proof (rule Cons.IH)
    show "\<not> same_def (fs ! j) (fs ! i)" if "i < j" "j < length fs" for i j
      using Cons.prems(1) [of "Suc i" "Suc j"] that by simp
    show "\<not> same_def g e" if "e \<in> set (es @ [f])" and g: "g \<in> set fs" for e g
    proof (cases "e = f")
      case True
      obtain j where "j < length fs" "g = fs ! j" using g by (metis in_set_conv_nth)
      then show ?thesis using Cons.prems(1) [of 0 "Suc j"] True by simp
    next
      case False
      then show ?thesis using Cons.prems(2) [of e g] that by auto
    qed
  qed
  ultimately show ?case by simp
qed

text \<open>Every variable is defined once: nothing is replaced, and the cache holds what was reported.\<close>

definition defined_once :: "event list \<Rightarrow> bool" where
  "defined_once es \<longleftrightarrow> (\<forall>i j. i < j \<longrightarrow> j < length es \<longrightarrow> \<not> same_def (es ! j) (es ! i))"

lemma absorb_longer: "length (absorb es e) \<le> Suc (length es)"
  by (induction es) auto

lemma length_absorbed: "length (foldl absorb [] es) \<le> length es"
proof (induction es rule: rev_induct)
  case (snoc e es)
  then show ?case using absorb_longer [of "foldl absorb [] es" e] by simp
qed simp

lemma absorbed_once: "foldl absorb [] es = es \<longleftrightarrow> defined_once es"
proof
  show "foldl absorb [] es = es" if "defined_once es"
    using foldl_absorb_distinct [of es "[]"] that by (simp add: defined_once_def)
  show "defined_once es" if "foldl absorb [] es = es"
    using that
  proof (induction es rule: rev_induct)
    case (snoc e es)
    let ?c = "foldl absorb [] es"
    have eq: "absorb ?c e = es @ [e]" using snoc.prems by simp
    show ?case
    proof (cases rule: absorb_cases [of ?c e])
      case fresh
      then have "?c = es" using eq by simp
      then have "defined_once es" "\<And>f. f \<in> set es \<Longrightarrow> \<not> same_def e f" using snoc.IH fresh(2) by simp_all
      then show ?thesis by (auto simp: defined_once_def nth_append less_Suc_eq)
    next
      case (found k)
      then have "length (absorb ?c e) \<le> length es" using length_absorbed [of es] by simp
      then show ?thesis unfolding eq by simp
    qed
  qed (simp add: defined_once_def)
qed

section \<open>Entries and events\<close>

fun event_entry :: "event \<Rightarrow> use_t" where
  "event_entry (Def i a) = use_zero\<lparr>def := i, def_addr := a\<rparr>"
| "event_entry (Ddef i a n) = use_zero\<lparr>def := i, def_addr := a, def_size := n\<rparr>"
| "event_entry (Use i a) = use_zero\<lparr>use_id := i, use_addr := a\<rparr>"
| "event_entry (Iuse i d a) = use_zero\<lparr>i_use_use := i, i_use_def := d, i_use_addr := a\<rparr>"

text \<open>
  The events the cache can tell from a blank entry, and the discipline of identifiers the
  instrumentation keeps: one identifier belongs to one kind of event.
\<close>

fun cacheable :: "event \<Rightarrow> bool" where
  "cacheable (Def i a) \<longleftrightarrow> i \<noteq> 0"
| "cacheable (Ddef i a n) \<longleftrightarrow> i \<noteq> 0 \<and> n \<noteq> 0 \<and> n \<noteq> -1"
| "cacheable (Use i a) \<longleftrightarrow> i \<noteq> 0"
| "cacheable (Iuse i d a) \<longleftrightarrow> i \<noteq> 0 \<and> d \<noteq> 0"

fun kind :: "event \<Rightarrow> nat" where
  "kind (Def i a) = 0"
| "kind (Ddef i a n) = 1"
| "kind (Use i a) = 2"
| "kind (Iuse i d a) = 3"

definition agree_kind :: "event \<Rightarrow> event \<Rightarrow> bool" where
  "agree_kind e f \<longleftrightarrow> (ev_id e = ev_id f \<longrightarrow> kind e = kind f)"

definition one_kind :: "event list \<Rightarrow> bool" where
  "one_kind es \<longleftrightarrow> list_all cacheable es \<and> list_all (\<lambda>e. list_all (agree_kind e) es) es"

lemma one_kindD:
  "one_kind es \<Longrightarrow> e \<in> set es \<Longrightarrow> cacheable e"
  "one_kind es \<Longrightarrow> e \<in> set es \<Longrightarrow> f \<in> set es \<Longrightarrow> ev_id e = ev_id f \<Longrightarrow> kind e = kind f"
  unfolding one_kind_def list_all_iff agree_kind_def by blast+

lemma one_kind_subset: "set es \<subseteq> set fs \<Longrightarrow> one_kind fs \<Longrightarrow> one_kind es"
  unfolding one_kind_def list_all_iff by blast

lemma entry_event_entry: "cacheable e \<Longrightarrow> entry_event (event_entry e) = Some e"
  by (cases e) (simp_all add: entry_event_def use_zero_def)

lemma cacheable_recordable: "cacheable e \<Longrightarrow> recordable e"
  by (cases e) auto

fun ev_type :: "event \<Rightarrow> ENTRY_TYPE" where
  "ev_type (Def i a) = T_def"
| "ev_type (Ddef i a n) = T_dalloca"
| "ev_type (Use i a) = T_use"
| "ev_type (Iuse i d a) = T_iuse"

fun ev_def0 :: "event \<Rightarrow> u32" where
  "ev_def0 (Iuse i d a) = d"
| "ev_def0 _ = 0"

fun ev_size0 :: "event \<Rightarrow> u32" where
  "ev_size0 (Ddef i a n) = n"
| "ev_size0 _ = 0"

lemma report_cached:
  "cache_enabled h = 1 \<Longrightarrow> report env mem e (h, s) =
     collect_cached env mem (ev_type e) (ev_id e) (ev_addr e) (ev_def0 e) (ev_size0 e) 0 (h, s)"
  by (cases e) (simp_all add: zbouncer_collect_alloca_def zbouncer_collect_alloca_dyn_def
      zbouncer_use_def zbouncer_iuse_def)

lemma entry_matches_same_def:
  assumes "one_kind (e # es)" and "f \<in> set es"
  shows "entry_matches (ev_type e) (ev_id e) (ev_def0 e) (event_entry f) \<longleftrightarrow> same_def e f"
  using one_kindD(1) [OF assms(1), of e] one_kindD(2) [OF assms(1), of e f] assms(2)
  by (cases e; cases f) (auto simp: entry_matches_def use_zero_def)

lemma entry_write_blank:
  "entry_write mem (ev_type e) (ev_id e) (ev_addr e) (ev_def0 e) (ev_size0 e) 0 use_zero =
     Inr (event_entry e)"
  by (cases e) (simp_all add: entry_write_def)

lemma entry_write_same_def:
  "same_def e f \<Longrightarrow>
     entry_write mem (ev_type e) (ev_id e) (ev_addr e) (ev_def0 e) (ev_size0 e) 0 (event_entry f) =
       Inr (event_entry e)"
  by (cases e; cases f) (simp_all add: entry_write_def)

section \<open>One report\<close>

text \<open>The host's cache holds the events \<open>es\<close> of the abstract one.\<close>

definition cache_holds :: "event list \<Rightarrow> host_state \<Rightarrow> bool" where
  "cache_holds es h \<longleftrightarrow> cache_enabled h = 1 \<and> length es \<le> 128 \<and>
     cache h = Some (map event_entry es @ replicate (128 - length es) use_zero) \<and>
     cache_last_index h = int (length es) - 1"

lemma find_in_cache:
  assumes "one_kind (e # es)" and "length es \<le> 128"
  shows "find_entry (entry_matches (ev_type e) (ev_id e) (ev_def0 e))
      (map event_entry es @ replicate (128 - length es) use_zero) 0 (int (length es) - 1) =
    Inr (if \<exists>f \<in> set es. same_def e f
         then Some (int (LEAST k. k < length es \<and> same_def e (es ! k))) else None)"
    (is "find_entry ?P ?c 0 ?l = _")
proof -
  have at: "?P (?c ! k) \<longleftrightarrow> same_def e (es ! k)" if "k < length es" for k
    using that entry_matches_same_def [OF assms(1), of "es ! k"] by (simp add: nth_append)
  show ?thesis
  proof (cases "\<exists>f \<in> set es. same_def e f")
    case True
    then have "\<exists>k < length es. same_def e (es ! k)" by (auto simp: in_set_conv_nth)
    then obtain k where k: "k = (LEAST k. k < length es \<and> same_def e (es ! k))" "k < length es"
      "same_def e (es ! k)" and least: "\<And>j. j < k \<Longrightarrow> \<not> same_def e (es ! j)"
      by (rule least_same_def) blast
    have "find_entry ?P ?c 0 ?l = Inr (Some (int k))"
    proof (rule find_entry_Some)
      show "\<not> ?P (?c ! nat j)" if "0 \<le> j" "j < int k" for j
        using at [of "nat j"] least [of "nat j"] that k(2) by simp
      show "?P (?c ! nat (int k))" using at [of k] k(2,3) by simp
    qed (use k(2) assms(2) in simp_all)
    then show ?thesis using True by (simp add: k(1) [symmetric])
  next
    case False
    have "find_entry ?P ?c 0 ?l = Inr None"
    proof (rule find_entry_None)
      show "\<not> ?P (?c ! nat j)" if "0 \<le> j" "j \<le> ?l" for j
        using at [of "nat j"] False that by simp
    qed (use assms(2) in simp_all)
    then show ?thesis using False by simp
  qed
qed

lemma report_fresh:
  assumes holds: "cache_holds es h" and ids: "one_kind (e # es)" and n: "length es \<le> 121"
    and none: "\<And>f. f \<in> set es \<Longrightarrow> \<not> same_def e f"
  shows "\<exists>h'. cache_holds (es @ [e]) h' \<and> report env mem e (h, s) =
    (if length es = 121 then zbouncer_flush_cache env (h', s) else Inr (h', s))"
proof -
  let ?c = "map event_entry es @ replicate (128 - length es) use_zero"
  have h: "cache_enabled h = 1" "cache h = Some ?c" "cache_last_index h = int (length es) - 1"
    using holds by (auto simp: cache_holds_def)
  have "\<not> (\<exists>f \<in> set es. same_def e f)" using none by blast
  then have find: "find_entry (entry_matches (ev_type e) (ev_id e) (ev_def0 e)) ?c 0
      (int (length es) - 1) = Inr None"
    using find_in_cache [OF ids] n by simp
  have "?c ! length es = use_zero" using n by (simp add: nth_append)
  then have upd: "zbouncer_update_entry mem (ev_type e) (int (length es)) (ev_id e) (ev_addr e)
      (ev_def0 e) (ev_size0 e) 0 (h\<lparr>cache_last_index := int (length es)\<rparr>) =
      Inr (h\<lparr>cache_last_index := int (length es), cache := Some (?c[length es := event_entry e])\<rparr>)"
    using n h(2) by (simp add: zbouncer_update_entry_def entry_write_blank)
  have c': "?c[length es := event_entry e] =
      map event_entry (es @ [e]) @ replicate (128 - length (es @ [e])) use_zero"
    using n by (cases "128 - length es") (auto simp: list_update_append)
  show ?thesis
    using n h upd [unfolded c']
    by (intro exI [of _ "h\<lparr>cache_last_index := int (length es), cache :=
          Some (map event_entry (es @ [e]) @ replicate (128 - length (es @ [e])) use_zero)\<rparr>"])
       (simp add: report_cached collect_cached_eq [OF h(2)] find INT_MAX_def cache_holds_def
         del: map_append)
qed

lemma report_absorbs:
  assumes holds: "cache_holds es h" and ids: "one_kind (e # es)"
    and room: "length (absorb es e) \<le> 121"
  shows "\<exists>h'. report env mem e (h, s) = Inr (h', s) \<and> cache_holds (absorb es e) h'"
proof (cases rule: absorb_cases [of es e])
  case fresh
  then show ?thesis using report_fresh [OF holds ids _ fresh(2), of env mem s] room by auto
next
  case (found k)
  let ?c = "map event_entry es @ replicate (128 - length es) use_zero"
  have h: "cache_enabled h = 1" "cache h = Some ?c" "cache_last_index h = int (length es) - 1"
    and len: "length es \<le> 128"
    using holds by (auto simp: cache_holds_def)
  have some: "\<exists>f \<in> set es. same_def e f" using found(1,2) by auto
  have least: "(LEAST k. k < length es \<and> same_def e (es ! k)) = k"
    using found by (intro Least_equality) (auto simp: not_less [symmetric])
  have ck: "?c ! k = event_entry (es ! k)" using found(1) by (simp add: nth_append)
  have upd: "zbouncer_update_entry mem (ev_type e) (int k) (ev_id e) (ev_addr e)
      (ev_def0 e) (ev_size0 e) 0 h = Inr (h\<lparr>cache := Some (?c[k := event_entry e])\<rparr>)"
    using found(1,2) h(2) len by (simp add: zbouncer_update_entry_def ck entry_write_same_def)
  show ?thesis
    using found h upd some least len
    by (simp add: report_cached collect_cached_eq [OF h(2)] find_in_cache [OF ids len]
        cache_holds_def list_update_append map_update)
qed

lemma reports_absorb:
  assumes "cache_holds es h" and "one_kind (es @ fs)" and "length (foldl absorb es fs) \<le> 121"
  shows "\<exists>h'. c_run (report env mem) fs (h, s) = Inr (h', s) \<and> cache_holds (foldl absorb es fs) h'"
  using assms
proof (induction fs arbitrary: es h)
  case Nil
  then show ?case by auto
next
  case (Cons f fs)
  have "length (absorb es f) \<le> 121"
    using Cons.prems(3) length_foldl_absorb [of "absorb es f" fs] by simp
  moreover have "one_kind (f # es)" using Cons.prems(2) by (rule one_kind_subset [rotated]) auto
  ultimately obtain h1 where h1: "report env mem f (h, s) = Inr (h1, s)"
    "cache_holds (absorb es f) h1"
    using report_absorbs [OF Cons.prems(1)] by blast
  have "one_kind (absorb es f @ fs)"
    using Cons.prems(2) by (rule one_kind_subset [rotated]) (use set_absorb [of es f] in auto)
  then obtain h2 where "c_run (report env mem) fs (h1, s) = Inr (h2, s)"
    "cache_holds (foldl absorb (absorb es f) fs) h2"
    using Cons.IH [OF h1(2)] Cons.prems(3) by auto
  then show ?case using h1(1) by auto
qed

section \<open>Uses over stale entries\<close>

text \<open>
  A flush clears the first sixteen entries only. Uses reported after it are written over
  the definitions the other entries still hold.
\<close>

definition use_over :: "event \<Rightarrow> use_t \<Rightarrow> use_t" where
  "use_over e u = u\<lparr>use_id := ev_id e, use_addr := ev_addr e\<rparr>"

fun is_use :: "event \<Rightarrow> bool" where
  "is_use (Use i a) \<longleftrightarrow> i \<noteq> 0"
| "is_use _ \<longleftrightarrow> False"

lemma is_useD: "is_use e \<Longrightarrow> kind e = 2 \<and> ev_id e \<noteq> 0 \<and> e = Use (ev_id e) (ev_addr e)"
  by (cases e) auto

definition overlay :: "event list \<Rightarrow> use_t list \<Rightarrow> use_t list" where
  "overlay us base = map2 use_over us (take (length us) base) @ drop (length us) base"

lemma length_overlay [simp]: "length us \<le> length base \<Longrightarrow> length (overlay us base) = length base"
  by (simp add: overlay_def)

lemma overlay_nth:
  "k < length base \<Longrightarrow> length us \<le> length base \<Longrightarrow>
     overlay us base ! k = (if k < length us then use_over (us ! k) (base ! k) else base ! k)"
  by (simp add: overlay_def nth_append)

lemma overlay_append_long:
  "length b1 \<le> length us \<Longrightarrow> overlay us (b1 @ b2) =
     map2 use_over (take (length b1) us) b1 @ overlay (drop (length b1) us) b2"
  by (simp add: overlay_def zip_append2)

lemma overlay_append_short:
  "length us \<le> length b1 \<Longrightarrow> overlay us (b1 @ b2) = overlay us b1 @ b2"
  by (simp add: overlay_def)

lemma overlay_snoc:
  assumes "length us < length base"
  shows "overlay (us @ [e]) base = (overlay us base)[length us := use_over e (base ! length us)]"
  using assms by (intro nth_equalityI) (auto simp: overlay_nth nth_list_update nth_append less_Suc_eq)

lemma uses_overlay:
  assumes "cache_enabled h = 1" and "cache h = Some base" and "length base = 128"
    and "cache_last_index h = -1" and "list_all is_use us" and "length us \<le> 121"
    and "\<And>e u. e \<in> set us \<Longrightarrow> u \<in> set base \<Longrightarrow> def u \<noteq> ev_id e"
  shows "\<exists>h'. c_run (report env mem) us (h, s) = Inr (h', s) \<and> cache_enabled h' = 1 \<and>
    cache h' = Some (overlay us base) \<and> cache_last_index h' = int (length us) - 1"
  using assms(5,6,7)
proof (induction us rule: rev_induct)
  case Nil
  then show ?case using assms by (simp add: overlay_def)
next
  case (snoc e us)
  then obtain g where g: "c_run (report env mem) us (h, s) = Inr (g, s)" "cache_enabled g = 1"
    "cache g = Some (overlay us base)" "cache_last_index g = int (length us) - 1"
    by auto
  obtain i a where e: "e = Use i a" "i \<noteq> 0" using snoc.prems(1) is_useD [of e] by auto
  have len: "length us \<le> 120" "length us < length base" using snoc.prems(2) assms(3) by auto
  have "def (overlay us base ! k) \<noteq> i" if "k < length us" for k
    using snoc.prems(3) [of e "base ! k"] that len e by (simp add: overlay_nth use_over_def)
  then have find: "find_entry (entry_matches T_use i 0) (overlay us base) 0 (int (length us) - 1) = Inr None"
    using len assms(3) by (intro find_entry_None) (auto simp: entry_matches_def)
  have "zbouncer_update_entry mem T_use (int (length us)) i a 0 0 0 (g\<lparr>cache_last_index := int (length us)\<rparr>) =
      Inr (g\<lparr>cache_last_index := int (length us), cache := Some (overlay (us @ [e]) base)\<rparr>)"
    using g(3) len assms(3) e
    by (simp add: zbouncer_update_entry_def entry_write_def overlay_snoc overlay_nth use_over_def)
  then have "report env mem e (g, s) =
      Inr (g\<lparr>cache_last_index := int (length us), cache := Some (overlay (us @ [e]) base)\<rparr>, s)"
    using g len e by (simp add: zbouncer_use_def collect_cached_eq [OF g(3)] find INT_MAX_def)
  then show ?case using g(1,2) by (simp add: c_run_append)
qed

lemma overlay_uses_blank:
  "list_all is_use us \<Longrightarrow> cache_events (map2 use_over us (replicate (length us) use_zero) @ rest) =
     us @ cache_events rest"
proof (induction us)
  case (Cons e us)
  then show ?case by (cases e) (auto simp: use_over_def entry_event_def use_zero_def)
qed simp

lemma entry_event_use_over:
  "cacheable e \<Longrightarrow> kind e = 0 \<Longrightarrow> entry_event (use_over u (event_entry e)) = Some e"
  by (cases e) (auto simp: use_over_def entry_event_def use_zero_def)

end
