(* ===== verification/Transport.thy ===== *)
theory Transport
  imports Cached_Session
begin

text \<open>
  The interface between the host library and the trusted application. The TEE client
  library and the OP-TEE driver in between are not part of the repository; the locale
  states what the host relies on: a command with a value reaches the entry point as an
  in/out value, one with a whole shared buffer as an in/out memory reference whose page
  continues behind the buffer, and the result travels back.
\<close>

definition deliver ::
    "(tee_result \<Rightarrow> u32) \<Rightarrow> teec_operation \<Rightarrow> ta_result \<Rightarrow> (u32 \<times> teec_operation \<times> ta_state) c" where
  "deliver code oper r =
     cbind r (\<lambda>(e, p, s'). Inr (code e, oper\<lparr>params0 :=
       (case p of Value a b \<Rightarrow> TP_value a b
        | Memref d _ \<Rightarrow> TP_memref (Live d) (TEEC_MEM_INPUT OR TEEC_MEM_OUTPUT))\<rparr>, s'))"

abbreviation ta_value_types :: tee_ptypes where
  "ta_value_types \<equiv> TEE_PARAM_TYPES TEE_PARAM_TYPE_VALUE_INOUT TEE_PARAM_TYPE_NONE
     TEE_PARAM_TYPE_NONE TEE_PARAM_TYPE_NONE"

abbreviation ta_memref_types :: tee_ptypes where
  "ta_memref_types \<equiv> TEE_PARAM_TYPES TEE_PARAM_TYPE_MEMREF_INOUT TEE_PARAM_TYPE_NONE
     TEE_PARAM_TYPE_NONE TEE_PARAM_TYPE_NONE"

lemma cache_events_padded:
  assumes "\<And>e. e \<in> set fs \<Longrightarrow> cacheable e" and "0 < n"
  shows "cache_events (map event_entry fs @ replicate n use_zero) = fs"
proof -
  obtain m where "n = Suc m" using assms(2) by (cases n) auto
  then show ?thesis using assms(1) by (induction fs) (simp_all add: entry_event_entry)
qed

locale optee_transport =
  fixes env :: optee
    and code :: "tee_result \<Rightarrow> u32"
    and page :: "u32 list"
  assumes registers: "register_shm env data"
    and page_continues: "8 \<le> length page"
    and delivers_value:
      "paramTypes oper = 0x3 \<Longrightarrow> params0 oper = TP_value a b \<Longrightarrow>
         \<exists>now. invoke env cmd oper s =
           deliver code oper (TA_InvokeCommandEntryPoint now cmd ta_value_types (Value a b) s)"
    and delivers_any_value:
      "paramTypes oper = 0x3 \<Longrightarrow>
         \<exists>now a b. invoke env cmd oper s =
           deliver code oper (TA_InvokeCommandEntryPoint now cmd ta_value_types (Value a b) s)"
    and delivers_memref:
      "paramTypes oper = 0xC \<Longrightarrow> params0 oper = TP_memref (Live data) flags \<Longrightarrow>
         \<exists>now. invoke env cmd oper s =
           deliver code oper (TA_InvokeCommandEntryPoint now cmd ta_memref_types (Memref data page) s)"
    and opens:
      "paramTypes oper = 0x3 \<Longrightarrow> params0 oper = TP_value a b \<Longrightarrow>
         \<exists>now. open_session env oper s =
           deliver code oper (TA_OpenSessionEntryPoint now ta_value_types (Value a b) s)"
begin

lemmas op_defs = value_op_def memref_op_def teec_param_types_value teec_param_types_memref registers

lemma sends_def:
  assumes "record_event (Def d a) s = Inr s'"
  shows "\<exists>h'. send_def env d a (h, s) = Inr (h', s') \<and> same_cache (h, s) (h', s')"
proof -
  obtain now where "invoke env TA_ZBOUNCER_DEF (op (value_op d a h)) s = deliver code (op (value_op d a h))
      (TA_InvokeCommandEntryPoint now TA_ZBOUNCER_DEF ta_value_types (Value d a) s)"
    using delivers_value [of "op (value_op d a h)" d a TA_ZBOUNCER_DEF s] by (auto simp: op_defs)
  then show ?thesis using assms
    by (simp add: send_def_def TEEC_InvokeCommand_def TA_InvokeCommandEntryPoint_def command_ids
        zbouncer_def_ta_def deliver_def same_cache_def)
qed

lemma sends_use:
  assumes "record_event (Use u a) s = Inr s'"
  shows "\<exists>h'. send_use env u a (h, s) = Inr (h', s') \<and> same_cache (h, s) (h', s')"
proof -
  obtain now where "invoke env TA_ZBOUNCER_USE (op (value_op u a h)) s = deliver code (op (value_op u a h))
      (TA_InvokeCommandEntryPoint now TA_ZBOUNCER_USE ta_value_types (Value u a) s)"
    using delivers_value [of "op (value_op u a h)" u a TA_ZBOUNCER_USE s] by (auto simp: op_defs)
  then show ?thesis using assms
    by (simp add: send_use_def TEEC_InvokeCommand_def TA_InvokeCommandEntryPoint_def command_ids
        zbouncer_use_ta_def deliver_def same_cache_def)
qed

lemma sends_ddef:
  assumes "record_event (Ddef d a n) s = Inr s'"
  shows "\<exists>h'. send_ddef env d a n (h, s) = Inr (h', s') \<and> same_cache (h, s) (h', s')"
proof -
  let ?o = "op (memref_op env [d, a, n] h)"
  obtain now where "invoke env TA_ZBOUNCER_DDEF ?o s = deliver code ?o
      (TA_InvokeCommandEntryPoint now TA_ZBOUNCER_DDEF ta_memref_types (Memref [d, a, n] page) s)"
    using delivers_memref [of ?o "[d, a, n]" _ TA_ZBOUNCER_DDEF s] by (auto simp: op_defs)
  then show ?thesis using assms
    by (simp add: send_ddef_def TEEC_InvokeCommand_def TA_InvokeCommandEntryPoint_def command_ids
        zbouncer_ddef_ta_def deliver_def same_cache_def c_read_def)
qed

text \<open>
  The handler of indirect uses logs the slot by the bare counter: it works while the ring
  has not wrapped.
\<close>

lemma sends_iuse:
  assumes "ta_wf s" and "trace_id s < 2048"
  shows "\<exists>h' s'. record_event (Iuse u d a) s = Inr s' \<and>
    send_iuse env u d a (h, s) = Inr (h', s') \<and> same_cache (h, s) (h', s')"
proof -
  let ?o = "op (memref_op env [u, d, a] h)"
  obtain now where "invoke env TA_ZBOUNCER_IUSE ?o s = deliver code ?o
      (TA_InvokeCommandEntryPoint now TA_ZBOUNCER_IUSE ta_memref_types (Memref [u, d, a] page) s)"
    using delivers_memref [of ?o "[u, d, a]" _ TA_ZBOUNCER_IUSE s] by (auto simp: op_defs)
  then show ?thesis using assms
    by (simp add: send_iuse_def TEEC_InvokeCommand_def TA_InvokeCommandEntryPoint_def command_ids
        zbouncer_iuse_ta_def deliver_def same_cache_def c_read_def record_iuse_def
        update_slot_wf ta_wf_def next_trace_id_def INT_MAX_def)
qed

lemma count_flush_frame:
  assumes "ta_wf s"
  shows "\<exists>s'. count_flush s = Inr s' \<and> dynamic_trace s' = dynamic_trace s \<and> trace_id s' = trace_id s \<and>
    ta_wf s'"
  using assms by (simp add: count_flush_def c_read_def c_write_def ta_wf_def command_ids)

lemma flushes:
  assumes c: "cache h = Some c" "length c = 128" "\<exists>u \<in> set c. entry_event u = None"
    and wf: "ta_wf s" and run: "c_run record_event (cache_events c) s = Inr t"
  shows "\<exists>h' s'. flush_shared env (h, s) = Inr (h', s') \<and> same_cache (h, s) (h', s') \<and>
    dynamic_trace s' = dynamic_trace t \<and> trace_id s' = trace_id t \<and> ta_wf s'"
proof -
  let ?d = "entries_words c"
  let ?o = "op (memref_op env ?d h)"
  obtain now where inv: "invoke env TA_ZBOUNCER_FLUSH_CACHE ?o s = deliver code ?o
      (TA_InvokeCommandEntryPoint now TA_ZBOUNCER_FLUSH_CACHE ta_memref_types (Memref ?d page) s)"
    using delivers_memref [of ?o ?d _ TA_ZBOUNCER_FLUSH_CACHE s] by (auto simp: op_defs)
  have es: "words_ta_entries (?d @ page) = map as_ta c @ words_ta_entries page"
    by (rule words_ta_entries_of_host)
  have "0 < length (words_ta_entries page)"
    using page_continues by (simp add: words_ta_entries_def chunks.simps [of 8 page])
  then have log: "log_cache (map as_ta c @ words_ta_entries page) = Inr ()"
    using c(2) by (intro log_cache_ok) simp
  have loop: "flush_loop (map as_ta c @ words_ta_entries page) s = Inr t"
    using flush_loop_run [OF c(3)] run by simp
  have "ta_wf t" using flush_loop_keeps_wf [OF loop wf] .
  then obtain s' where "count_flush t = Inr s'" "dynamic_trace s' = dynamic_trace t"
    "trace_id s' = trace_id t" "ta_wf s'" using count_flush_frame by blast
  then show ?thesis using c(1,2) inv es log loop
    by (simp add: flush_shared_def TEEC_InvokeCommand_def TA_InvokeCommandEntryPoint_def command_ids
        zbouncer_flush_cache_ta_def deliver_def same_cache_def)
qed

text \<open>A flush of the cache appends the cache's events to the log, while the ring has room.\<close>

lemma flush_appends:
  assumes c: "cache h = Some c" "length c = 128" "\<exists>u \<in> set c. entry_event u = None"
    and en: "cache_enabled h = 1" and s: "ta_fresh s"
    and es: "list_all recordable (cache_events c)" "length (cache_events c) \<le> ta_room s"
  shows "\<exists>h' s'. zbouncer_flush_cache env (h, s) = Inr (h', s') \<and>
    cache h' = Some (replicate 16 use_zero @ drop 16 c) \<and> cache_last_index h' = -1 \<and>
    cache_enabled h' = 1 \<and>
    ta_fresh s' \<and> ta_log s' = ta_log s @ cache_events c \<and>
    ta_room s = length (cache_events c) + ta_room s'"
proof -
  obtain t where t: "c_run record_event (cache_events c) s = Inr t" "ta_fresh t"
    "ta_log t = ta_log s @ cache_events c" "ta_room s = length (cache_events c) + ta_room t"
    using ta_sink.run_appends [OF s es] by blast
  have "ta_wf s" using s by (simp add: ta_fresh_def)
  from flushes [OF c this t(1)] obtain h1 s1 where f: "flush_shared env (h, s) = Inr (h1, s1)"
    "same_cache (h, s) (h1, s1)" "dynamic_trace s1 = dynamic_trace t" "trace_id s1 = trace_id t"
    "ta_wf s1" by blast
  have "cache h1 = Some c" using f(2) c(1) by (simp add: same_cache_def)
  from reset_cache_eq [OF this c(2), of s1] f en t show ?thesis
    by (auto simp: zbouncer_flush_cache_def same_cache_def ta_fresh_def ta_log_def ta_room_def)
qed

lemma cache_events_holds:
  assumes "cache_holds es h" and "one_kind es" and "length es < 128" and "cache h = Some c"
  shows "cache_events c = es" and "length c = 128" and "\<exists>u \<in> set c. entry_event u = None"
proof -
  have c: "c = map event_entry es @ replicate (128 - length es) use_zero"
    using assms(1,4) by (simp add: cache_holds_def)
  have n: "0 < 128 - length es" using assms(3) by simp
  show "cache_events c = es"
    unfolding c by (rule cache_events_padded [OF _ n]) (rule one_kindD(1) [OF assms(2)])
  show "length c = 128" using assms(3) by (simp add: c)
  show "\<exists>u \<in> set c. entry_event u = None" using n by (auto simp: c)
qed

lemma recordable_all: "one_kind es \<Longrightarrow> list_all recordable es"
  by (auto simp: list_all_iff dest: one_kindD(1) intro: cacheable_recordable)

lemma flush_holds:
  assumes "cache_holds es h" and "one_kind es" and "length es < 128" and "ta_fresh s"
    and "length es \<le> ta_room s"
  shows "\<exists>h' s'. zbouncer_flush_cache env (h, s) = Inr (h', s') \<and> ta_fresh s' \<and>
    ta_log s' = ta_log s @ es"
proof -
  obtain c where c: "cache h = Some c" "cache_enabled h = 1"
    using assms(1) by (simp add: cache_holds_def)
  note e = cache_events_holds [OF assms(1-3) c(1)]
  show ?thesis
    using flush_appends [OF c(1) e(2,3) c(2) assms(4)] recordable_all [OF assms(2)] assms(5) e(1)
    by auto
qed

text \<open>The last two commands of zexit change neither the trace nor the counter.\<close>

lemma exit_command:
  assumes "ta_fresh s" and "cmd = TA_ZBOUNCER_TIME_GLOBAL \<or> cmd = TA_ZBOUNCER_FUNC_CTR"
  shows "\<exists>h' s'. TEEC_InvokeCommand env cmd (value_types h, s) = Inr (h', s') \<and> ta_fresh s' \<and>
    ta_log s' = ta_log s"
proof -
  let ?o = "op (value_types h)"
  have "paramTypes ?o = 0x3" by (simp add: value_types_def teec_param_types_value)
  then obtain now a b where inv: "invoke env cmd ?o s = deliver code ?o
      (TA_InvokeCommandEntryPoint now cmd ta_value_types (Value a b) s)"
    using delivers_any_value [of ?o cmd s] by blast
  have wf: "ta_wf s" using assms(1) by (simp add: ta_fresh_def)
  have "\<exists>p s'. TA_InvokeCommandEntryPoint now cmd ta_value_types (Value a b) s = Inr (TEE_SUCCESS, p, s') \<and>
      dynamic_trace s' = dynamic_trace s \<and> trace_id s' = trace_id s \<and> func_ctr s' = func_ctr s"
    using assms(2) wf
    by (auto simp: TA_InvokeCommandEntryPoint_def command_ids zbouncer_time_global_def Let_def
        zbouncer_func_ctr_def c_read_def ta_wf_def)
  then obtain p s' where "TA_InvokeCommandEntryPoint now cmd ta_value_types (Value a b) s =
      Inr (TEE_SUCCESS, p, s')" and f: "dynamic_trace s' = dynamic_trace s" "trace_id s' = trace_id s"
      "func_ctr s' = func_ctr s" by blast
  then have "\<exists>h'. TEEC_InvokeCommand env cmd (value_types h, s) = Inr (h', s')"
    using inv by (simp add: TEEC_InvokeCommand_def deliver_def)
  moreover have "ta_fresh s'" "ta_log s' = ta_log s"
    using assms(1) f by (simp_all add: ta_fresh_def ta_wf_def ta_log_def)
  ultimately show ?thesis by blast
qed

lemma exits:
  assumes "zbouncer_flush_cache env (h, s) = Inr (h1, s1)" and "ta_fresh s1"
  shows "\<exists>h' s'. zexit env (h, s) = Inr (h', s') \<and> ta_fresh s' \<and> ta_log s' = ta_log s1"
proof -
  obtain h2 s2 where 2: "TEEC_InvokeCommand env TA_ZBOUNCER_TIME_GLOBAL (value_types h1, s1) = Inr (h2, s2)"
    "ta_fresh s2" "ta_log s2 = ta_log s1"
    using exit_command [OF assms(2), of TA_ZBOUNCER_TIME_GLOBAL h1] by blast
  obtain h3 s3 where "TEEC_InvokeCommand env TA_ZBOUNCER_FUNC_CTR (value_types h2, s2) = Inr (h3, s3)"
    "ta_fresh s3" "ta_log s3 = ta_log s2"
    using exit_command [OF 2(2), of TA_ZBOUNCER_FUNC_CTR h2] by blast
  then show ?thesis using assms(1) 2 by (simp add: zexit_def)
qed

lemma inits:
  "\<exists>h s. zinit env (host_initial, ta_initial) = Inr (h, s) \<and> cache_holds [] h \<and> ta_fresh s \<and>
     ta_log s = [] \<and> ta_room s = 2048"
proof -
  let ?o = "(op host_initial)\<lparr>paramTypes := 0x3\<rparr>"
  obtain now where "open_session env ?o ta_initial =
      deliver code ?o (TA_OpenSessionEntryPoint now ta_value_types (Value 0 0) ta_initial)"
    using opens [of ?o 0 0 ta_initial] by (auto simp: host_initial_def)
  then show ?thesis
    by (simp add: zinit_def teec_param_types_value deliver_def TA_OpenSessionEntryPoint_def Let_def)
       (simp add: cache_holds_def host_initial_def ta_fresh_def ta_wf_def ta_initial_def ta_log_def
         ta_room_def)
qed

text \<open>
  A whole session that fits one round of the cache: whatever the program reports, the log
  after zexit is what the abstract cache holds.
\<close>

lemma session_log:
  assumes "one_kind es" and "length (foldl absorb [] es) \<le> 121"
  shows "\<exists>h s. cbind (zinit env (host_initial, ta_initial)) (\<lambda>w.
      cbind (c_run (report env mem) es w) (zexit env)) = Inr (h, s) \<and>
    ta_fresh s \<and> ta_log s = foldl absorb [] es"
proof -
  obtain h0 s0 where i: "zinit env (host_initial, ta_initial) = Inr (h0, s0)" "cache_holds [] h0"
    "ta_fresh s0" "ta_log s0 = []" "ta_room s0 = 2048"
    using inits by blast
  obtain h1 where r: "c_run (report env mem) es (h0, s0) = Inr (h1, s0)"
    "cache_holds (foldl absorb [] es) h1"
    using reports_absorb [OF i(2), of es env mem s0] assms by auto
  have "one_kind (foldl absorb [] es)"
    using set_foldl_absorb [of "[]" es] by (intro one_kind_subset [OF _ assms(1)]) simp
  then obtain h2 s2 where f: "zbouncer_flush_cache env (h1, s0) = Inr (h2, s2)" "ta_fresh s2"
    "ta_log s2 = foldl absorb [] es"
    using flush_holds [OF r(2), of s0] i(3,4,5) assms(2) by auto
  then obtain h3 s3 where "zexit env (h1, s0) = Inr (h3, s3)" "ta_fresh s3" "ta_log s3 = foldl absorb [] es"
    using exits [OF f(1,2)] by auto
  then show ?thesis using i(1) r(1) by auto
qed

text \<open>
  Two rounds of the cache. The first is filled by 122 definitions, which flushes it; the
  second brings uses. From the seventeenth on they land on entries the flush did not
  clear, and the final flush sends the old definitions there instead.
\<close>

lemma full_round:
  assumes ids: "one_kind ds" and len: "length ds = 122" and defs: "foldl absorb [] ds = ds"
    and h: "cache_holds [] h" and s: "ta_fresh s" and room: "122 \<le> ta_room s"
  shows "\<exists>h' s'. c_run (report env mem) ds (h, s) = Inr (h', s') \<and> cache_enabled h' = 1 \<and>
    cache h' = Some (replicate 16 use_zero @ map event_entry (drop 16 ds) @ replicate 6 use_zero) \<and>
    cache_last_index h' = -1 \<and> ta_fresh s' \<and> ta_log s' = ta_log s @ ds \<and>
    ta_room s = 122 + ta_room s'"
proof -
  obtain es e where ds: "ds = es @ [e]" using len by (cases ds rule: rev_cases) auto
  have le: "length es = 121" using len ds by simp
  have abs: "absorb (foldl absorb [] es) e = es @ [e]" using defs ds by simp
  have lf: "length (foldl absorb [] es) \<le> 122"
    using length_absorb [of "foldl absorb [] es" e] abs le by simp
  have "length (foldl absorb [] es) \<le> 121 \<and> foldl absorb [] es = es \<and> (\<forall>f \<in> set es. \<not> same_def e f)"
  proof (cases rule: absorb_cases [of "foldl absorb [] es" e])
    case fresh
    then show ?thesis using abs le by auto
  next
    case (found k)
    have fl: "length (foldl absorb [] gs) \<le> length gs" for gs
    proof (induction gs rule: rev_induct)
      case (snoc g gs)
      have "length (absorb xs g) \<le> Suc (length xs)" for xs by (induction xs) auto
      then show ?case using snoc le_trans by fastforce
    qed simp
    show ?thesis using found(4) abs le fl [of es] by (metis length_append_singleton length_list_update
        Suc_n_not_le_n)
  qed
  then have es: "foldl absorb [] es = es" "\<And>f. f \<in> set es \<Longrightarrow> \<not> same_def e f" by auto
  have k1: "one_kind es" and k2: "one_kind (e # es)"
    using ids by (auto intro: one_kind_subset [rotated] simp: ds)
  obtain h1 where r: "c_run (report env mem) es (h, s) = Inr (h1, s)" "cache_holds es h1"
    using reports_absorb [OF h, of es env mem s] k1 es(1) le by auto
  obtain h2 where h2: "cache_holds ds h2" "report env mem e (h1, s) = zbouncer_flush_cache env (h2, s)"
    using report_fresh [OF r(2) k2 _ es(2), of env mem s] le ds by auto
  have c: "cache h2 = Some (map event_entry ds @ replicate 6 use_zero)" "cache_enabled h2 = 1"
    using h2(1) len by (simp_all add: cache_holds_def)
  note e = cache_events_holds [OF h2(1) ids _ c(1)]
  obtain h3 s3 where "zbouncer_flush_cache env (h2, s) = Inr (h3, s3)"
    "cache h3 = Some (replicate 16 use_zero @ drop 16 (map event_entry ds @ replicate 6 use_zero))"
    "cache_last_index h3 = -1" "cache_enabled h3 = 1" "ta_fresh s3" "ta_log s3 = ta_log s @ ds"
    "ta_room s = 122 + ta_room s3"
    using flush_appends [OF c(1) e(2,3) c(2) s] e(1) recordable_all [OF ids] len room by auto
  then show ?thesis using r h2(2) len by (simp add: ds c_run_append drop_map)
qed

lemma two_rounds:
  assumes ids: "one_kind (ds @ us)" and ds: "length ds = 122" "list_all (\<lambda>e. kind e = 0) ds"
      "foldl absorb [] ds = ds"
    and us: "list_all is_use us" "16 \<le> length us" "length us \<le> 121"
  shows "\<exists>h s. cbind (zinit env (host_initial, ta_initial)) (\<lambda>w.
      cbind (c_run (report env mem) (ds @ us) w) (zexit env)) = Inr (h, s) \<and>
    ta_log s = ds @ take 16 us @ drop 16 ds"
proof -
  have k: "one_kind ds" using ids by (rule one_kind_subset [rotated]) simp
  obtain h0 s0 where i: "zinit env (host_initial, ta_initial) = Inr (h0, s0)" "cache_holds [] h0"
    "ta_fresh s0" "ta_log s0 = []" "ta_room s0 = 2048"
    using inits by blast
  let ?base = "replicate 16 use_zero @ map event_entry (drop 16 ds) @ replicate 6 use_zero"
  obtain h1 s1 where r: "c_run (report env mem) ds (h0, s0) = Inr (h1, s1)" "cache_enabled h1 = 1"
    "cache h1 = Some ?base" "cache_last_index h1 = -1" "ta_fresh s1" "ta_log s1 = ds"
    "ta_room s1 = 1926"
    using full_round [OF k ds(1) ds(3) i(2,3), of mem] i(4,5) by auto
  have base: "length ?base = 128" using ds(1) by simp
  have "def u \<noteq> ev_id e" if e: "e \<in> set us" and u: "u \<in> set ?base" for e u
  proof -
    have e': "cacheable e" "kind e = 2" "ev_id e \<noteq> 0"
      using us(1) e one_kindD(1) [OF ids, of e] is_useD [of e] by (auto simp: list_all_iff)
    from u consider "u = use_zero" | d where "d \<in> set ds" "u = event_entry d"
      by (auto dest: in_set_dropD)
    then show ?thesis
    proof cases
      case 1
      then show ?thesis using e'(3) by (simp add: use_zero_def)
    next
      case (2 d)
      have "kind d = 0" using ds(2) 2(1) by (simp add: list_all_iff)
      then have "ev_id d \<noteq> ev_id e" using one_kindD(2) [OF ids, of d e] 2(1) e e'(2) by auto
      then show ?thesis using \<open>kind d = 0\<close> 2(2) by (cases d) auto
    qed
  qed
  then obtain h2 where u: "c_run (report env mem) us (h1, s1) = Inr (h2, s1)" "cache_enabled h2 = 1"
    "cache h2 = Some (overlay us ?base)"
    using uses_overlay [OF r(2,3) base r(4) us(1,3)] by blast
  define ms where "ms = map2 use_over (drop 16 us) (map event_entry (take (length us - 16) (drop 16 ds)))"
  have split: "overlay us ?base = map2 use_over (take 16 us) (replicate 16 use_zero) @
      ms @ map event_entry (drop (length us) ds) @ replicate 6 use_zero"
    using us ds(1)
    by (simp add: overlay_append_long overlay_append_short)
       (simp add: overlay_def ms_def take_map drop_map)
  have d: "cacheable e \<and> kind e = 0" if "e \<in> set ds" for e
    using that ds(2) one_kindD(1) [OF k] by (auto simp: list_all_iff)
  have mid: "list_all (\<lambda>u. entry_event u \<noteq> None) ms"
    "map (the \<circ> entry_event) ms = take (length us - 16) (drop 16 ds)"
  proof -
    have lm: "length ms = length us - 16" using us ds(1) by (simp add: ms_def)
    have cell: "entry_event (ms ! j) = Some (drop 16 ds ! j)" if j: "j < length ms" for j
    proof -
      have "drop 16 ds ! j = ds ! (16 + j)" "16 + j < length ds" using j lm us ds(1) by auto
      then have "cacheable (drop 16 ds ! j)" "kind (drop 16 ds ! j) = 0"
        using d [of "ds ! (16 + j)"] by simp_all
      moreover have "ms ! j = use_over (drop 16 us ! j) (event_entry (drop 16 ds ! j))"
        using j lm us ds(1) by (simp add: ms_def)
      ultimately show ?thesis by (simp only: entry_event_use_over)
    qed
    then show "list_all (\<lambda>u. entry_event u \<noteq> None) ms" by (simp add: list_all_length)
    show "map (the \<circ> entry_event) ms = take (length us - 16) (drop 16 ds)"
      using cell lm us ds(1) by (intro nth_equalityI) simp_all
  qed
  have tail: "cache_events (map event_entry (drop (length us) ds) @ replicate 6 use_zero) = drop (length us) ds"
    using d by (intro cache_events_padded) (auto dest: in_set_dropD)
  have rejoin: "take (length us - 16) (drop 16 ds) @ drop (length us) ds = drop 16 ds"
    using us(2) append_take_drop_id [of "length us - 16" "drop 16 ds"] by simp
  have head: "cache_events (map2 use_over (take 16 us) (replicate 16 use_zero) @ rest) =
      take 16 us @ cache_events rest" for rest
  proof -
    have "list_all is_use (take 16 us)" using us(1) by (auto simp: list_all_iff dest: in_set_takeD)
    moreover have "length (take 16 us) = 16" using us(2) by simp
    ultimately show ?thesis using overlay_uses_blank [of "take 16 us" rest] by (simp only:)
  qed
  have ev: "cache_events (overlay us ?base) = take 16 us @ drop 16 ds"
    unfolding split head cache_events_all [OF mid(1)] mid(2) tail rejoin ..
  have blank: "\<exists>u \<in> set (overlay us ?base). entry_event u = None"
    unfolding split by (auto intro!: bexI [of _ use_zero])
  have "list_all recordable (take 16 us @ drop 16 ds)"
    using recordable_all [OF ids] by (auto simp: list_all_iff dest: in_set_takeD in_set_dropD)
  then obtain h3 s3 where f: "zbouncer_flush_cache env (h2, s1) = Inr (h3, s3)" "ta_fresh s3"
    "ta_log s3 = ds @ take 16 us @ drop 16 ds"
    using flush_appends [OF u(3) _ blank u(2) r(5)] ev r(6,7) us ds(1) base by auto
  then obtain h4 s4 where "zexit env (h2, s1) = Inr (h4, s4)" "ta_log s4 = ds @ take 16 us @ drop 16 ds"
    using exits [OF f(1,2)] by auto
  then show ?thesis using i(1) r(1) u(1) by (auto simp: c_run_append)
qed

end

section \<open>A direct transport\<close>

text \<open>
  The contract on the model's own trusted application: every command reaches its entry
  point directly, and the page continues with zero words.
\<close>

definition direct_code :: "tee_result \<Rightarrow> u32" where
  "direct_code e = (case e of TEE_SUCCESS \<Rightarrow> 0 | TEE_ERROR_BAD_PARAMETERS \<Rightarrow> 0xFFFF0006
     | TEE_ERROR_SECURITY \<Rightarrow> 0xFFFF000F)"

definition direct_invoke :: "tee_time \<Rightarrow> u32 \<Rightarrow> teec_operation \<Rightarrow> ta_state \<Rightarrow>
    (u32 \<times> teec_operation \<times> ta_state) c" where
  "direct_invoke now cmd oper s =
     (if paramTypes oper = 0x3
      then deliver direct_code oper (TA_InvokeCommandEntryPoint now cmd ta_value_types
             (case params0 oper of TP_value a b \<Rightarrow> Value a b | TP_memref _ _ \<Rightarrow> Value 0 0) s)
      else (case params0 oper of
          TP_memref (Live data) _ \<Rightarrow> deliver direct_code oper
            (TA_InvokeCommandEntryPoint now cmd ta_memref_types (Memref data (replicate 8 0)) s)
        | _ \<Rightarrow> Inr (0xFFFF0006, oper, s)))"

definition direct_optee :: "tee_time \<Rightarrow> optee" where
  "direct_optee now = \<lparr>register_shm = (\<lambda>_. True), invoke = direct_invoke now,
     open_session = (\<lambda>oper s. deliver direct_code oper (TA_OpenSessionEntryPoint now ta_value_types
       (case params0 oper of TP_value a b \<Rightarrow> Value a b | TP_memref _ _ \<Rightarrow> Value 0 0) s))\<rparr>"

interpretation direct: optee_transport "direct_optee now" direct_code "replicate 8 0" for now
proof unfold_locales
  fix oper :: teec_operation and cmd :: u32 and s a b data flags
  show "register_shm (direct_optee now) data" by (simp add: direct_optee_def)
  show "8 \<le> length (replicate 8 (0 :: u32))" by simp
  show "\<exists>now'. invoke (direct_optee now) cmd oper s =
      deliver direct_code oper (TA_InvokeCommandEntryPoint now' cmd ta_value_types (Value a b) s)"
    if "paramTypes oper = 0x3" "params0 oper = TP_value a b"
    using that by (auto simp: direct_optee_def direct_invoke_def)
  show "\<exists>now' a b. invoke (direct_optee now) cmd oper s =
      deliver direct_code oper (TA_InvokeCommandEntryPoint now' cmd ta_value_types (Value a b) s)"
    if "paramTypes oper = 0x3"
    using that by (cases "params0 oper") (auto simp: direct_optee_def direct_invoke_def)
  show "\<exists>now'. invoke (direct_optee now) cmd oper s = deliver direct_code oper
      (TA_InvokeCommandEntryPoint now' cmd ta_memref_types (Memref data (replicate 8 0)) s)"
    if "paramTypes oper = 0xC" "params0 oper = TP_memref (Live data) flags"
    using that by (auto simp: direct_optee_def direct_invoke_def)
  show "\<exists>now'. open_session (direct_optee now) oper s =
      deliver direct_code oper (TA_OpenSessionEntryPoint now' ta_value_types (Value a b) s)"
    if "paramTypes oper = 0x3" "params0 oper = TP_value a b"
    using that by (auto simp: direct_optee_def)
qed

end
