(* ===== verification/Secure_Trace_Props.thy ===== *)
theory Secure_Trace_Props
  imports Secure_Trace_Laws
begin

text \<open>
  The properties of the trusted application: what a command does on each branch of its
  handler, the invariant of the reachable states, the content of the ring after any
  number of events, and where the handlers leave the trace array.
\<close>

section \<open>Reachable states\<close>

text \<open>
  The secure world as a state machine: a session is opened, or a command is invoked, with
  whatever time, identifier and parameters the normal world chooses.
\<close>

inductive ta_step :: "ta_state \<Rightarrow> ta_state \<Rightarrow> bool" where
  opens: "TA_OpenSessionEntryPoint now ts p s = Inr (r, p', s') \<Longrightarrow> ta_step s s'"
| invokes: "TA_InvokeCommandEntryPoint now cmd ts p s = Inr (r, p', s') \<Longrightarrow> ta_step s s'"

inductive_cases ta_stepE: "ta_step s s'"

inductive ta_reachable :: "ta_state \<Rightarrow> bool" where
  start: "ta_reachable ta_initial"
| more: "ta_reachable s \<Longrightarrow> ta_step s s' \<Longrightarrow> ta_reachable s'"

lemma ta_step_keeps_wf: "ta_step s s' \<Longrightarrow> ta_wf s \<Longrightarrow> ta_wf s'"
  by (auto elim!: ta_stepE dest: session_keeps_wf invoke_keeps_wf)

lemma ta_reachable_wf: "ta_reachable s \<Longrightarrow> ta_wf s"
  by (induction rule: ta_reachable.induct) (auto intro: ta_wf_initial ta_step_keeps_wf)

section \<open>Commands\<close>

text \<open>How an event travels as a command: its identifier, parameter types and parameter.\<close>

fun event_command :: "event \<Rightarrow> u32 list \<Rightarrow> u32 \<times> tee_ptypes \<times> tee_param" where
  "event_command (Def i a) sl = (TA_ZBOUNCER_DEF,
     TEE_PARAM_TYPES TEE_PARAM_TYPE_VALUE_INOUT TEE_PARAM_TYPE_NONE TEE_PARAM_TYPE_NONE
       TEE_PARAM_TYPE_NONE, Value i a)"
| "event_command (Ddef i a n) sl = (TA_ZBOUNCER_DDEF,
     TEE_PARAM_TYPES TEE_PARAM_TYPE_MEMREF_INOUT TEE_PARAM_TYPE_NONE TEE_PARAM_TYPE_NONE
       TEE_PARAM_TYPE_NONE, Memref [i, a, n] sl)"
| "event_command (Use i a) sl = (TA_ZBOUNCER_USE,
     TEE_PARAM_TYPES TEE_PARAM_TYPE_VALUE_INOUT TEE_PARAM_TYPE_NONE TEE_PARAM_TYPE_NONE
       TEE_PARAM_TYPE_NONE, Value i a)"
| "event_command (Iuse i d a) sl = (TA_ZBOUNCER_IUSE,
     TEE_PARAM_TYPES TEE_PARAM_TYPE_MEMREF_INOUT TEE_PARAM_TYPE_NONE TEE_PARAM_TYPE_NONE
       TEE_PARAM_TYPE_NONE, Memref [i, d, a] sl)"

lemma c_read_cons [simp, c_simps]:
  "c_read (x # xs) 0 = Inr x" "c_read (x # y # xs) 1 = Inr y" "c_read (x # y # z # xs) 2 = Inr z"
  by (simp_all add: c_read_def)

lemma invoke_event:
  assumes "event_command e sl = (cmd, ts, p)" and "ta_wf s" and "trace_id s < 2048"
  shows "TA_InvokeCommandEntryPoint now cmd ts p s = cbind (record_event e s) (\<lambda>s'. Inr (TEE_SUCCESS, p, s'))"
proof -
  have t: "0 \<le> trace_id s" "length (dynamic_trace s) = 2048" using assms(2) by (auto simp: ta_wf_def)
  then have "c_read xs (trace_id s) = Inr (xs ! nat (trace_id s))" if "length xs = 2048" for xs :: "ta_use_t list"
    using that assms(3) by (simp add: c_read_def)
  then show ?thesis
    using assms t by (cases e) (auto simp: TA_InvokeCommandEntryPoint_def command_ids zbouncer_def_ta_def
        zbouncer_ddef_ta_def zbouncer_use_ta_def zbouncer_iuse_ta_def record_iuse_def
        update_slot_wf cbind_assoc)
qed

text \<open>The parameter types each command expects; a command the dispatch does not know expects none.\<close>

definition expects :: "u32 \<Rightarrow> tee_ptypes \<Rightarrow> bool" where
  "expects cmd ts \<longleftrightarrow>
     (cmd \<in> {TA_ZBOUNCER_DEF, TA_ZBOUNCER_USE, TA_ZBOUNCER_TIME_GLOBAL, TA_ZBOUNCER_FUNC_CTR} \<and>
        ts = TEE_PARAM_TYPES TEE_PARAM_TYPE_VALUE_INOUT TEE_PARAM_TYPE_NONE TEE_PARAM_TYPE_NONE
               TEE_PARAM_TYPE_NONE) \<or>
     (cmd \<in> {TA_ZBOUNCER_DDEF, TA_ZBOUNCER_IUSE, TA_ZBOUNCER_CMD_GOTVALUE, TA_ZBOUNCER_FLUSH_CACHE} \<and>
        ts = TEE_PARAM_TYPES TEE_PARAM_TYPE_MEMREF_INOUT TEE_PARAM_TYPE_NONE TEE_PARAM_TYPE_NONE
               TEE_PARAM_TYPE_NONE)"

section \<open>The ring\<close>

text \<open>The events that land on slot \<open>k\<close> of the ring, when the first event lands on slot \<open>n mod 2048\<close>.\<close>

fun slot_writes :: "nat \<Rightarrow> nat \<Rightarrow> event list \<Rightarrow> event list" where
  "slot_writes k n [] = []"
| "slot_writes k n (e # es) = (if n mod 2048 = k then [e] else []) @ slot_writes k (Suc n) es"

lemma run_ring:
  assumes "ta_wf s" and "trace_id s + int (length es) \<le> INT_MAX"
  shows "\<exists>s'. c_run record_event es s = Inr s' \<and> ta_wf s' \<and>
    trace_id s' = trace_id s + int (length es) \<and>
    (\<forall>k < 2048. dynamic_trace s' ! k =
       fold event_write (slot_writes k (nat (trace_id s)) es) (dynamic_trace s ! k))"
  using assms
proof (induction es arbitrary: s)
  case Nil
  then show ?case by simp
next
  case (Cons e es)
  let ?s = "s\<lparr>dynamic_trace :=
      (dynamic_trace s)[slot_index s := event_write e (dynamic_trace s ! slot_index s)],
      trace_id := trace_id s + 1\<rparr>"
  have pos: "0 \<le> trace_id s" and len: "length (dynamic_trace s) = 2048"
    using Cons.prems(1) by (auto simp: ta_wf_def)
  have run: "record_event e s = Inr ?s"
    using Cons.prems by (intro record_event_wf) auto
  have "ta_wf ?s" using Cons.prems(1) by (simp add: ta_wf_def)
  then obtain s' where s': "c_run record_event es ?s = Inr s'" "ta_wf s'"
    "trace_id s' = trace_id ?s + int (length es)"
    "\<And>k. k < 2048 \<Longrightarrow> dynamic_trace s' ! k =
       fold event_write (slot_writes k (nat (trace_id ?s)) es) (dynamic_trace ?s ! k)"
    using Cons.IH [of ?s] Cons.prems(2) by auto
  have next': "nat (trace_id ?s) = Suc (nat (trace_id s))" using pos by (simp add: nat_add_distrib)
  have "dynamic_trace s' ! k = fold event_write (slot_writes k (nat (trace_id s)) (e # es))
      (dynamic_trace s ! k)" if "k < 2048" for k
    using s'(4) [OF that] len that unfolding next' by (auto simp: slot_index_def)
  then show ?case using run s' by auto
qed

lemma slot_writes_append:
  "slot_writes k n (es @ fs) = slot_writes k n es @ slot_writes k (n + length es) fs"
  by (induction es arbitrary: n) simp_all

lemma slot_writes_none:
  "(\<And>j. j < length es \<Longrightarrow> (n + j) mod 2048 \<noteq> k) \<Longrightarrow> slot_writes k n es = []"
proof (induction es arbitrary: n)
  case (Cons e es)
  have "slot_writes k (Suc n) es = []"
  proof (rule Cons.IH)
    show "(Suc n + j) mod 2048 \<noteq> k" if "j < length es" for j
      using Cons.prems [of "Suc j"] that by simp
  qed
  then show ?case using Cons.prems [of 0] by simp
qed simp

text \<open>The time between two readings of the system clock.\<close>

definition elapsed_ms :: "tee_time \<Rightarrow> tee_time \<Rightarrow> int" where
  "elapsed_ms t0 t1 = (uint (seconds t1) * 1000 + uint (millis t1)) -
     (uint (seconds t0) * 1000 + uint (millis t0))"

lemma invoke_copy:
  assumes "ta_wf s" and "length us = 2048"
  shows "TA_InvokeCommandEntryPoint now TA_ZBOUNCER_CMD_GOTVALUE
      (TEE_PARAM_TYPES TEE_PARAM_TYPE_MEMREF_INOUT TEE_PARAM_TYPE_NONE TEE_PARAM_TYPE_NONE
        TEE_PARAM_TYPE_NONE) (Memref (entries_words us) sl) s =
    Inr (TEE_SUCCESS,
      Memref (entries_words (map as_host (take 1024 (dynamic_trace s)) @ drop 1024 us)) sl, s)"
proof -
  let ?src = "ta_entries_words (take 1024 (dynamic_trace s))"
  have len: "length ?src = 8192" using assms(1) by (simp add: ta_wf_def)
  have "drop (8 * 1024) (entries_words us) = entries_words (drop 1024 us)"
    unfolding entries_words_def drop_map [symmetric] by (rule drop_concat_const) auto
  then have "?src @ drop 8192 (entries_words us) =
      entries_words (map as_host (take 1024 (dynamic_trace s)) @ drop 1024 us)"
    by (simp add: entries_words_as_host [symmetric]) (simp add: entries_words_def)
  then show ?thesis using assms len
    by (simp add: TA_InvokeCommandEntryPoint_def command_ids copy_trace_def Let_def ta_wf_def)
qed

section \<open>Properties\<close>

text \<open>
  In every state the normal world can drive the trusted application into, the trace
  has its 2048 slots, the counters their 15 cells and the trace counter is not negative,
  so that the slot the next recording takes exists.
\<close>

theorem reachable_states_record:
  assumes "ta_reachable s"
  shows "ta_wf s \<and> update_slot f s \<noteq> Inl Out_Of_Bounds"
  using ta_reachable_wf [OF assms] by (simp add: update_slot_wf)

theorem reachable_states_record_witness:
  "ta_wf (ta_initial\<lparr>trace_id := 0, global_start := read_time \<lparr>seconds = 1, millis = 5\<rparr>\<rparr>) \<and>
   update_slot (\<lambda>u. u\<lparr>ta_def := 1\<rparr>)
     (ta_initial\<lparr>trace_id := 0, global_start := read_time \<lparr>seconds = 1, millis = 5\<rparr>\<rparr>) \<noteq> Inl Out_Of_Bounds"
proof (rule reachable_states_record)
  let ?s = "ta_initial\<lparr>trace_id := 0, global_start := read_time \<lparr>seconds = 1, millis = 5\<rparr>\<rparr>"
  have "TA_OpenSessionEntryPoint \<lparr>seconds = 1, millis = 5\<rparr> (TEE_PARAM_TYPES TEE_PARAM_TYPE_VALUE_INOUT
      TEE_PARAM_TYPE_NONE TEE_PARAM_TYPE_NONE TEE_PARAM_TYPE_NONE) (Value 0 0) ta_initial =
      Inr (TEE_SUCCESS, Value 0 0, ?s)"
    by (simp add: TA_OpenSessionEntryPoint_def Let_def)
  then show "ta_reachable ?s" by (intro ta_reachable.more [OF ta_reachable.start] ta_step.opens)
qed

text \<open>
  A command that carries an event, with the parameter types its handler expects,
  succeeds while the ring has not wrapped: it writes the fields of that event into the
  slot of the trace counter, leaves every other slot and field alone, and steps the
  counter.
\<close>

theorem command_records_event:
  assumes "event_command e sl = (cmd, ts, p)" and "ta_wf s" and "trace_id s < 2048"
  shows "TA_InvokeCommandEntryPoint now cmd ts p s = Inr (TEE_SUCCESS, p,
    s\<lparr>dynamic_trace := (dynamic_trace s)[nat (trace_id s) := event_write e (dynamic_trace s ! nat (trace_id s))],
      trace_id := trace_id s + 1\<rparr>)"
proof -
  have "0 \<le> trace_id s" using assms(2) by (simp add: ta_wf_def)
  then have "slot_index s = nat (trace_id s)" "trace_id s < INT_MAX"
    using assms(3) by (auto simp: slot_index_def INT_MAX_def)
  then show ?thesis by (simp add: invoke_event [OF assms] record_event_wf [OF assms(2)])
qed

theorem command_records_event_witness:
  "TA_InvokeCommandEntryPoint \<lparr>seconds = 0, millis = 0\<rparr> TA_ZBOUNCER_IUSE
     (TEE_PARAM_TYPES TEE_PARAM_TYPE_MEMREF_INOUT TEE_PARAM_TYPE_NONE TEE_PARAM_TYPE_NONE
       TEE_PARAM_TYPE_NONE) (Memref [3, 65536, 4096] []) ta_initial =
   Inr (TEE_SUCCESS, Memref [3, 65536, 4096] [],
     ta_initial\<lparr>dynamic_trace := (replicate 2048 ta_use_zero)
         [0 := ta_use_zero\<lparr>i_use := 3, i_def := 65536, i_addr := 4096\<rparr>], trace_id := 1\<rparr>)"
  using command_records_event [of "Iuse 3 65536 4096" "[]" _ _ _ ta_initial "\<lparr>seconds = 0, millis = 0\<rparr>"]
    ta_wf_initial
  by (simp add: ta_initial_def)

text \<open>
  A command whose parameter types are not the ones its handler expects, or whose
  identifier the dispatch does not know, is answered by the bad-parameters code and
  changes nothing, except that a flush is counted all the same.
\<close>

theorem unexpected_command_rejected:
  assumes "\<not> expects cmd ts" and "ta_wf s"
  shows "TA_InvokeCommandEntryPoint now cmd ts p s = Inr (TEE_ERROR_BAD_PARAMETERS, p,
    if cmd = TA_ZBOUNCER_FLUSH_CACHE
    then s\<lparr>func_ctr := (func_ctr s)[4 := func_ctr s ! 4 + 1]\<rparr> else s)"
  using assms
  by (auto simp: expects_def TA_InvokeCommandEntryPoint_def command_ids zbouncer_def_ta_def
      zbouncer_ddef_ta_def zbouncer_use_ta_def zbouncer_iuse_ta_def copy_trace_def
      zbouncer_time_global_def zbouncer_func_ctr_def zbouncer_flush_cache_ta_def count_flush_def
      ta_wf_def c_read_def c_write_def)

theorem unexpected_command_rejected_witness:
  "TA_InvokeCommandEntryPoint \<lparr>seconds = 0, millis = 0\<rparr> TA_ZBOUNCER_FLUSH_CACHE
     (TEE_PARAM_TYPES TEE_PARAM_TYPE_NONE TEE_PARAM_TYPE_NONE TEE_PARAM_TYPE_NONE
       TEE_PARAM_TYPE_NONE) (Value 0 0) ta_initial =
   Inr (TEE_ERROR_BAD_PARAMETERS, Value 0 0, ta_initial\<lparr>func_ctr := (replicate 15 0)[4 := 1]\<rparr>)"
  using unexpected_command_rejected [of TA_ZBOUNCER_FLUSH_CACHE "TEE_PARAM_TYPES TEE_PARAM_TYPE_NONE
      TEE_PARAM_TYPE_NONE TEE_PARAM_TYPE_NONE TEE_PARAM_TYPE_NONE" ta_initial] ta_wf_initial
  by (simp add: expects_def ta_initial_def)

text \<open>
  What the ring holds after any number of events the \<open>int\<close> counter can count: slot \<open>k\<close>
  holds the fields of the events number \<open>k\<close>, \<open>k + 2048\<close>, \<open>k + 4096\<close> and so on, each
  written over the ones before.
\<close>

theorem ring_content:
  assumes "int (length es) \<le> INT_MAX" and "k < 2048"
  shows "\<exists>s'. c_run record_event es ta_initial = Inr s' \<and> trace_id s' = int (length es) \<and>
    dynamic_trace s' ! k = fold event_write (slot_writes k 0 es) ta_use_zero"
  using run_ring [OF ta_wf_initial, of es] assms by (auto simp: ta_initial_def)

theorem ring_content_witness:
  "\<exists>s'. c_run record_event (replicate 2048 (Def 7 96) @ [Use 9 128]) ta_initial = Inr s' \<and>
     trace_id s' = 2049 \<and>
     dynamic_trace s' ! 5 = fold event_write
       (slot_writes 5 0 (replicate 2048 (Def 7 96) @ [Use 9 128])) ta_use_zero"
  using ring_content [of "replicate 2048 (Def 7 96) @ [Use 9 128]" 5] by (simp add: INT_MAX_def)



text \<open>
  Once the ring has wrapped a slot mixes rounds: a use recorded 2048 events after a
  definition shares its slot, and the slot stands for both, the definition of the earlier
  round included.
\<close>

theorem wrapped_slot_is_stale:
  assumes "d \<noteq> 0" and "u \<noteq> 0" and "length es = 2047"
  shows "\<exists>s'. c_run record_event (Def d a # es @ [Use u b]) ta_initial = Inr s' \<and>
    slot_events (as_host (dynamic_trace s' ! 0)) = [Def d a, Use u b]"
proof -
  have "slot_writes 0 (Suc 0) es = []" using assms(3) by (intro slot_writes_none) simp
  then have w: "slot_writes 0 0 (Def d a # es @ [Use u b]) = [Def d a, Use u b]"
    using assms(3) by (simp add: slot_writes_append)
  obtain s' where "c_run record_event (Def d a # es @ [Use u b]) ta_initial = Inr s'"
    "dynamic_trace s' ! 0 = fold event_write [Def d a, Use u b] ta_use_zero"
    using run_ring [OF ta_wf_initial, of "Def d a # es @ [Use u b]"] assms(3)
    by (auto simp: ta_initial_def INT_MAX_def w simp del: c_run.simps slot_writes.simps)
  then show ?thesis using assms(1,2) by (auto simp: slot_events_def ta_use_zero_def simp del: c_run.simps)
qed

theorem wrapped_slot_is_stale_witness:
  "\<exists>s'. c_run record_event (Def 65536 512 # replicate 2047 (Use 1 4) @ [Use 2 8]) ta_initial = Inr s' \<and>
    slot_events (as_host (dynamic_trace s' ! 0)) = [Def 65536 512, Use 2 8]"
  by (rule wrapped_slot_is_stale) simp_all

text \<open>
  C37. The handler of indirect uses logs the slot it has just written by the bare trace
  counter, without the remainder: from the 2049th event on it reads outside the trace
  array, whatever the request.
\<close>

theorem iuse_reads_beyond_ring:
  assumes "ta_wf s" and "2048 \<le> trace_id s"
  shows "TA_InvokeCommandEntryPoint now TA_ZBOUNCER_IUSE
      (TEE_PARAM_TYPES TEE_PARAM_TYPE_MEMREF_INOUT TEE_PARAM_TYPE_NONE TEE_PARAM_TYPE_NONE
        TEE_PARAM_TYPE_NONE) (Memref (u # d # a # ws) sl) s = Inl Out_Of_Bounds"
proof -
  have "length (dynamic_trace s) = 2048" using assms(1) by (simp add: ta_wf_def)
  then show ?thesis using assms
    by (simp add: TA_InvokeCommandEntryPoint_def command_ids zbouncer_iuse_ta_def update_slot_wf
        c_read_beyond)
qed

theorem iuse_reads_beyond_ring_witness:
  "TA_InvokeCommandEntryPoint \<lparr>seconds = 0, millis = 0\<rparr> TA_ZBOUNCER_IUSE
      (TEE_PARAM_TYPES TEE_PARAM_TYPE_MEMREF_INOUT TEE_PARAM_TYPE_NONE TEE_PARAM_TYPE_NONE
        TEE_PARAM_TYPE_NONE) (Memref [3, 65536, 4096] []) (ta_initial\<lparr>trace_id := 2048\<rparr>) =
   Inl Out_Of_Bounds"
  by (rule iuse_reads_beyond_ring) (simp_all add: ta_wf_def ta_initial_def)

text \<open>
  A flush records the events of the cache up to its first blank entry, in order, when
  the page of the buffer continues for one more entry behind the 128 of the cache; and it
  is counted.
\<close>

theorem flush_records_cache:
  assumes "length c = 128" and "\<exists>u \<in> set c. entry_event u = None" and "8 \<le> length sl"
  shows "TA_InvokeCommandEntryPoint now TA_ZBOUNCER_FLUSH_CACHE
      (TEE_PARAM_TYPES TEE_PARAM_TYPE_MEMREF_INOUT TEE_PARAM_TYPE_NONE TEE_PARAM_TYPE_NONE
        TEE_PARAM_TYPE_NONE) (Memref (entries_words c) sl) s =
    cbind (c_run record_event (cache_events c) s) (\<lambda>s1.
    cbind (count_flush s1) (\<lambda>s2. Inr (TEE_SUCCESS, Memref (entries_words c) sl, s2)))"
proof -
  have "0 < length (words_ta_entries sl)"
    using assms(3) by (simp add: words_ta_entries_def chunks.simps [of 8 sl])
  then have "log_cache (map as_ta c @ words_ta_entries sl) = Inr ()"
    using assms(1) by (intro log_cache_ok) simp
  then show ?thesis
    by (simp add: TA_InvokeCommandEntryPoint_def command_ids zbouncer_flush_cache_ta_def
        words_ta_entries_of_host flush_loop_run [OF assms(2)] cbind_assoc)
qed

theorem flush_records_cache_witness:
  "TA_InvokeCommandEntryPoint \<lparr>seconds = 0, millis = 0\<rparr> TA_ZBOUNCER_FLUSH_CACHE
      (TEE_PARAM_TYPES TEE_PARAM_TYPE_MEMREF_INOUT TEE_PARAM_TYPE_NONE TEE_PARAM_TYPE_NONE
        TEE_PARAM_TYPE_NONE)
      (Memref (entries_words (use_zero\<lparr>def := 65536, def_addr := 512\<rparr> # replicate 127 use_zero))
        (replicate 8 0)) ta_initial =
    cbind (c_run record_event
        (cache_events (use_zero\<lparr>def := 65536, def_addr := 512\<rparr> # replicate 127 use_zero)) ta_initial) (\<lambda>s1.
    cbind (count_flush s1) (\<lambda>s2. Inr (TEE_SUCCESS,
      Memref (entries_words (use_zero\<lparr>def := 65536, def_addr := 512\<rparr> # replicate 127 use_zero))
        (replicate 8 0), s2)))"
  by (rule flush_records_cache) simp_all

text \<open>
  The logging loop of a flush reads one entry more than the cache has: where the
  mapped memory ends with the buffer, a flush reads outside it and no event is recorded.
\<close>

theorem flush_logs_one_entry_too_many:
  assumes "length c = 128" and "length sl < 8"
  shows "TA_InvokeCommandEntryPoint now TA_ZBOUNCER_FLUSH_CACHE
      (TEE_PARAM_TYPES TEE_PARAM_TYPE_MEMREF_INOUT TEE_PARAM_TYPE_NONE TEE_PARAM_TYPE_NONE
        TEE_PARAM_TYPE_NONE) (Memref (entries_words c) sl) s = Inl Out_Of_Bounds"
  using assms
  by (simp add: TA_InvokeCommandEntryPoint_def command_ids zbouncer_flush_cache_ta_def
      words_ta_entries_of_host log_cache_short)

theorem flush_logs_one_entry_too_many_witness:
  "TA_InvokeCommandEntryPoint \<lparr>seconds = 0, millis = 0\<rparr> TA_ZBOUNCER_FLUSH_CACHE
      (TEE_PARAM_TYPES TEE_PARAM_TYPE_MEMREF_INOUT TEE_PARAM_TYPE_NONE TEE_PARAM_TYPE_NONE
        TEE_PARAM_TYPE_NONE) (Memref (entries_words (replicate 128 use_zero)) []) ta_initial =
    Inl Out_Of_Bounds"
  by (rule flush_logs_one_entry_too_many) simp_all

text \<open>
  The extraction command copies the first half of the ring only: of the 2048 entries
  of the host's buffer, the first 1024 become the slots' and the others stay as they were.
\<close>

theorem copy_takes_half_the_ring:
  assumes "ta_wf s" and "length us = 2048"
  shows "TA_InvokeCommandEntryPoint now TA_ZBOUNCER_CMD_GOTVALUE
      (TEE_PARAM_TYPES TEE_PARAM_TYPE_MEMREF_INOUT TEE_PARAM_TYPE_NONE TEE_PARAM_TYPE_NONE
        TEE_PARAM_TYPE_NONE) (Memref (entries_words us) sl) s =
    Inr (TEE_SUCCESS,
      Memref (entries_words (map as_host (take 1024 (dynamic_trace s)) @ drop 1024 us)) sl, s)"
  using assms by (rule invoke_copy)

theorem copy_takes_half_the_ring_witness:
  "TA_InvokeCommandEntryPoint \<lparr>seconds = 0, millis = 0\<rparr> TA_ZBOUNCER_CMD_GOTVALUE
      (TEE_PARAM_TYPES TEE_PARAM_TYPE_MEMREF_INOUT TEE_PARAM_TYPE_NONE TEE_PARAM_TYPE_NONE
        TEE_PARAM_TYPE_NONE) (Memref (entries_words (replicate 2048 use_zero)) []) ta_initial =
    Inr (TEE_SUCCESS,
      Memref (entries_words (map as_host (take 1024 (dynamic_trace ta_initial)) @
        drop 1024 (replicate 2048 use_zero))) [], ta_initial)"
  by (rule copy_takes_half_the_ring) (simp_all add: ta_wf_initial)

text \<open>
  The session's clock: the command for the times returns the millisecond counters of
  the session's start and of the call, and their difference is the elapsed time as long as
  that fits 32 bits, although each counter may have wrapped.
\<close>

theorem session_times:
  assumes "0 \<le> elapsed_ms t0 t1" and "elapsed_ms t0 t1 < 2 ^ 32"
  shows "\<exists>s1 a b. TA_OpenSessionEntryPoint t0 (TEE_PARAM_TYPES TEE_PARAM_TYPE_VALUE_INOUT
        TEE_PARAM_TYPE_NONE TEE_PARAM_TYPE_NONE TEE_PARAM_TYPE_NONE) (Value x y) s =
      Inr (TEE_SUCCESS, Value x y, s1) \<and>
    zbouncer_time_global t1 (TEE_PARAM_TYPES TEE_PARAM_TYPE_VALUE_INOUT
        TEE_PARAM_TYPE_NONE TEE_PARAM_TYPE_NONE TEE_PARAM_TYPE_NONE) (Value 0 0) s1 =
      Inr (TEE_SUCCESS, Value a b, s1\<lparr>global_end := b\<rparr>) \<and>
    a = read_time t0 \<and> b = read_time t1 \<and> uint (b - a) = elapsed_ms t0 t1"
proof -
  have rt: "read_time t = word_of_int (uint (seconds t) * 1000 + uint (millis t))" for t
    by (simp add: read_time_def)
  have "read_time t1 - read_time t0 = word_of_int (elapsed_ms t0 t1)"
    unfolding rt elapsed_ms_def by (simp del: of_int_add of_int_mult)
  then have "uint (read_time t1 - read_time t0) = elapsed_ms t0 t1"
    using assms by (simp add: uint_word_of_int)
  then show ?thesis by (simp add: TA_OpenSessionEntryPoint_def zbouncer_time_global_def Let_def)
qed

theorem session_times_witness:
  "\<exists>s1 a b. TA_OpenSessionEntryPoint \<lparr>seconds = 4294967, millis = 290\<rparr>
        (TEE_PARAM_TYPES TEE_PARAM_TYPE_VALUE_INOUT
        TEE_PARAM_TYPE_NONE TEE_PARAM_TYPE_NONE TEE_PARAM_TYPE_NONE) (Value 0 0) ta_initial =
      Inr (TEE_SUCCESS, Value 0 0, s1) \<and>
    zbouncer_time_global \<lparr>seconds = 4294968, millis = 0\<rparr> (TEE_PARAM_TYPES TEE_PARAM_TYPE_VALUE_INOUT
        TEE_PARAM_TYPE_NONE TEE_PARAM_TYPE_NONE TEE_PARAM_TYPE_NONE) (Value 0 0) s1 =
      Inr (TEE_SUCCESS, Value a b, s1\<lparr>global_end := b\<rparr>) \<and>
    a = read_time \<lparr>seconds = 4294967, millis = 290\<rparr> \<and> b = read_time \<lparr>seconds = 4294968, millis = 0\<rparr> \<and>
    uint (b - a) = elapsed_ms \<lparr>seconds = 4294967, millis = 290\<rparr> \<lparr>seconds = 4294968, millis = 0\<rparr>"
  by (rule session_times) (simp_all add: elapsed_ms_def)

end
