(* ===== verification/Host_Props.thy ===== *)
theory Host_Props
  imports Sessions
begin

text \<open>
  The properties of the host library and of whole sessions: the cache stays in its bounds
  and no call gets stuck on it, the search for the end of an object, what a flush clears,
  and what the secure log holds after a session.
\<close>

section \<open>Calls of the library\<close>

text \<open>The functions the instrumented program calls between zinit and its end.\<close>

datatype host_call =
    Collect_Entry ENTRY_TYPE u32 u32 u32 u32 u32
  | Collect_Alloca u32 u32
  | Collect_Alloca_Dyn u32 u32 u32
  | Report_Use u32 u32
  | Report_Luse u32 u32 u32
  | Report_Iuse u32 u32 u32
  | Report_Iluse u32 u32 u32 u32
  | Flush_Cache
  | Exit
  | Contextsw_Test

fun do_call :: "optee \<Rightarrow> memory \<Rightarrow> host_call \<Rightarrow> world \<Rightarrow> world c" where
  "do_call env mem (Collect_Entry type i a d n z) = zbouncer_collect_entry env mem type i a d n z"
| "do_call env mem (Collect_Alloca i a) = zbouncer_collect_alloca env mem i a"
| "do_call env mem (Collect_Alloca_Dyn i a n) = zbouncer_collect_alloca_dyn env mem i a n"
| "do_call env mem (Report_Use i a) = zbouncer_use env mem i a"
| "do_call env mem (Report_Luse i a z) = zbouncer_luse env mem i a z"
| "do_call env mem (Report_Iuse i d a) = zbouncer_iuse env mem i d a"
| "do_call env mem (Report_Iluse i d a z) = zbouncer_iluse env mem i d a z"
| "do_call env mem Flush_Cache = zbouncer_flush_cache env"
| "do_call env mem Exit = zexit env"
| "do_call env mem Contextsw_Test = contextsw_test env"

lemma host_inv_same_cache: "same_cache w w' \<Longrightarrow> host_inv (fst w) \<Longrightarrow> host_inv (fst w')"
  by (simp add: same_cache_def host_inv_def)

lemma send_keeps_inv:
  "send_def env d a w = Inr w' \<Longrightarrow> host_inv (fst w) \<Longrightarrow> host_inv (fst w')"
  "send_ddef env d a n w = Inr w' \<Longrightarrow> host_inv (fst w) \<Longrightarrow> host_inv (fst w')"
  "send_use env d a w = Inr w' \<Longrightarrow> host_inv (fst w) \<Longrightarrow> host_inv (fst w')"
  "send_iuse env d u a w = Inr w' \<Longrightarrow> host_inv (fst w) \<Longrightarrow> host_inv (fst w')"
  by (blast intro: host_inv_same_cache dest: send_frame)+

lemma collect_keeps_inv:
  "collect_cached env mem type i a d n z w = Inr w' \<Longrightarrow> host_inv (fst w) \<Longrightarrow> host_inv (fst w')"
  by (cases w; cases w') (auto dest: collect_cached_keeps_inv)

lemma reports_keep_inv:
  "zbouncer_collect_alloca env mem i a w = Inr w' \<Longrightarrow> host_inv (fst w) \<Longrightarrow> host_inv (fst w')"
  "zbouncer_collect_alloca_dyn env mem i a n w = Inr w' \<Longrightarrow> host_inv (fst w) \<Longrightarrow> host_inv (fst w')"
  "zbouncer_use env mem i a w = Inr w' \<Longrightarrow> host_inv (fst w) \<Longrightarrow> host_inv (fst w')"
  "zbouncer_iuse env mem i d a w = Inr w' \<Longrightarrow> host_inv (fst w) \<Longrightarrow> host_inv (fst w')"
  unfolding zbouncer_collect_alloca_def zbouncer_collect_alloca_dyn_def zbouncer_use_def
    zbouncer_iuse_def
  by (metis collect_keeps_inv send_keeps_inv)+

lemma library_reports_keep_inv:
  "zbouncer_luse env mem i a z w = Inr w' \<Longrightarrow> host_inv (fst w) \<Longrightarrow> host_inv (fst w')"
  "zbouncer_iluse env mem i d a z w = Inr w' \<Longrightarrow> host_inv (fst w) \<Longrightarrow> host_inv (fst w')"
  by (auto simp: zbouncer_luse_def zbouncer_iluse_def cbind_eq_Inr dest: reports_keep_inv)

lemma flush_keeps_host_inv:
  "zbouncer_flush_cache env w = Inr w' \<Longrightarrow> host_inv (fst w) \<Longrightarrow> host_inv (fst w')"
proof -
  assume f: "zbouncer_flush_cache env w = Inr w'" and "host_inv (fst w)"
  then obtain c where "cache (fst w) = Some c" "length c = 128" "drop 122 c = replicate 6 use_zero"
    by (auto simp: host_inv_def)
  then show "host_inv (fst w')" using f flush_keeps_inv [of env "fst w" "snd w" "fst w'" "snd w'"] by simp
qed

lemma value_command_keeps_inv:
  "TEEC_InvokeCommand env cmd w = Inr w' \<Longrightarrow> host_inv (fst w) \<Longrightarrow> host_inv (fst w')"
  by (cases w; cases w') (auto simp: host_inv_def dest!: invoke_frame)

lemma host_inv_op [simp]: "host_inv (value_types h) = host_inv h" "host_inv (value_op a b h) = host_inv h"
  by (simp_all add: host_inv_def)

lemma exit_keeps_inv: "zexit env w = Inr w' \<Longrightarrow> host_inv (fst w) \<Longrightarrow> host_inv (fst w')"
  by (auto simp: zexit_def cbind_eq_Inr dest!: flush_keeps_host_inv value_command_keeps_inv)

lemma collect_entry_keeps_inv:
  assumes "zbouncer_collect_entry env mem type i a d n z w = Inr w'" and "host_inv (fst w)"
  shows "host_inv (fst w')"
  using assms unfolding zbouncer_collect_entry_def
  by (auto split: if_splits ENTRY_TYPE.splits
      dest: collect_keeps_inv reports_keep_inv library_reports_keep_inv)

lemma call_keeps_inv: "do_call env mem f w = Inr w' \<Longrightarrow> host_inv (fst w) \<Longrightarrow> host_inv (fst w')"
proof (cases f)
  case Contextsw_Test
  then show "do_call env mem f w = Inr w' \<Longrightarrow> host_inv (fst w) \<Longrightarrow> host_inv (fst w')"
    by (auto simp: contextsw_test_def split: prod.splits dest!: value_command_keeps_inv)
qed (auto dest: collect_entry_keeps_inv reports_keep_inv library_reports_keep_inv
      flush_keeps_host_inv exit_keeps_inv)

lemma init_inv: "zinit env (host_initial, s) = Inr w \<Longrightarrow> host_inv (fst w)"
  by (auto simp: zinit_def Let_def cbind_eq_Inr host_inv_def host_initial_def)

section \<open>Progress\<close>

text \<open>
  A transport that always answers: the TEE client library returns from every command.
\<close>

definition answers :: "optee \<Rightarrow> bool" where
  "answers env \<longleftrightarrow> (\<forall>cmd oper s. \<exists>r. invoke env cmd oper s = Inr r)"

text \<open>The calls that do not look for the end of a string, or find one.\<close>

definition write_ends :: "memory \<Rightarrow> u32 \<Rightarrow> u32 \<Rightarrow> bool" where
  "write_ends mem a z \<longleftrightarrow> (\<exists>e. end_of_write mem a z = Inr e)"

fun call_ends :: "memory \<Rightarrow> host_call \<Rightarrow> bool" where
  "call_ends mem (Collect_Entry type i a d n z) \<longleftrightarrow>
     (type = T_libuse \<or> type = T_ilibuse \<longrightarrow> write_ends mem a z)"
| "call_ends mem (Report_Luse i a z) \<longleftrightarrow> write_ends mem a z"
| "call_ends mem (Report_Iluse i d a z) \<longleftrightarrow> write_ends mem a z"
| "call_ends mem _ \<longleftrightarrow> True"

lemma invoke_returns: "answers env \<Longrightarrow> \<exists>w'. TEEC_InvokeCommand env cmd w = Inr w'"
proof -
  assume "answers env"
  then obtain r o' s' where "invoke env cmd (op (fst w)) (snd w) = Inr (r, o', s')"
    unfolding answers_def by (metis prod_cases3)
  then show ?thesis by (cases w) (simp add: TEEC_InvokeCommand_def)
qed

lemma sends_return:
  assumes "answers env"
  shows "\<exists>w'. send_def env d a w = Inr w'" "\<exists>w'. send_ddef env d a n w = Inr w'"
    "\<exists>w'. send_use env d a w = Inr w'" "\<exists>w'. send_iuse env u d a w = Inr w'"
  using invoke_returns [OF assms]
  by (simp_all add: send_def_def send_ddef_def send_use_def send_iuse_def split: prod.splits)

lemma find_entry_returns:
  "0 \<le> i \<Longrightarrow> l < int (length c) \<Longrightarrow> \<exists>k. find_entry P c i l = Inr k"
proof (induction P c i l rule: find_entry.induct)
  case (1 P c i l)
  show ?case
  proof (cases "i \<le> l")
    case True
    then have "c_read c i = Inr (c ! nat i)" using 1(2,3) by (simp add: c_read_def)
    moreover from 1(1) [OF True this] obtain k where "P (c ! nat i) \<or> find_entry P c (i + 1) l = Inr k"
      using 1(2,3) by auto
    ultimately show ?thesis using True by (subst find_entry.simps) auto
  next
    case False
    then show ?thesis by (subst find_entry.simps) simp
  qed
qed

text \<open>What a flush needs of the cache: its entries, and a last index among them.\<close>

definition cache_ok :: "host_state \<Rightarrow> bool" where
  "cache_ok h \<longleftrightarrow> (\<exists>c. cache h = Some c \<and> length c = 128) \<and> cache_last_index h < 128"

lemma cache_ok_same_cache: "same_cache w w' \<Longrightarrow> cache_ok (fst w) \<Longrightarrow> cache_ok (fst w')"
  by (simp add: same_cache_def cache_ok_def)

lemma flush_each_returns:
  assumes "answers env" and "cache_ok (fst w)"
  shows "\<exists>w'. flush_each env w = Inr w'"
proof -
  have step: "\<exists>v'. send_entry env u v = Inr v'" for u v
    using sends_return [OF assms(1)] by (auto simp: send_entry_def)
  have run: "\<exists>v'. c_run (\<lambda>i hs. cbind (c_deref (cache (fst hs))) (\<lambda>c. cbind (c_read c i) (\<lambda>u. send_entry env u hs))) is v = Inr v'"
    if "set is \<subseteq> {0..127}" "cache_ok (fst v)" for "is" v
    using that
  proof (induction "is" arbitrary: v)
    case Nil
    then show ?case by simp
  next
    case (Cons i "is")
    obtain c where c: "cache (fst v) = Some c" "length c = 128"
      using Cons.prems(2) by (auto simp: cache_ok_def)
    have r: "c_read c i = Inr (c ! nat i)" using Cons.prems(1) c(2) by (simp add: c_read_def)
    obtain v1 where v1: "send_entry env (c ! nat i) v = Inr v1" using step by blast
    have "cache_ok (fst v1)"
      using cache_ok_same_cache [OF send_entry_frame [OF v1]] Cons.prems(2) by simp
    then show ?case using Cons.IH [of v1] Cons.prems(1) c r v1 by simp
  qed
  show ?thesis unfolding flush_each_def using assms(2) by (intro run) (auto simp: cache_ok_def)
qed

lemma reset_returns: "cache_ok (fst w) \<Longrightarrow> \<exists>w'. reset_cache w = Inr w'"
  by (cases w) (auto simp: cache_ok_def reset_cache_eq)

lemma flush_returns:
  assumes "answers env" and "cache_ok (fst w)"
  shows "\<exists>w'. zbouncer_flush_cache env w = Inr w'"
proof -
  obtain c where c: "cache (fst w) = Some c" "length c = 128" using assms(2) by (auto simp: cache_ok_def)
  have "\<exists>v. flush_shared env w = Inr v"
    using invoke_returns [OF assms(1)] c by (cases w) (simp add: flush_shared_def)
  moreover have "flush_shared env w = Inr v \<Longrightarrow> cache_ok (fst v)"
    "flush_each env w = Inr v \<Longrightarrow> cache_ok (fst v)" for v
    using assms(2) by (auto intro: cache_ok_same_cache dest: flush_shared_frame flush_each_frame)
  ultimately show ?thesis
    using flush_each_returns [OF assms] reset_returns by (auto simp: zbouncer_flush_cache_def)
qed

lemma entry_write_returns:
  assumes "type = T_libuse \<or> type = T_ilibuse \<longrightarrow> write_ends mem a z"
  shows "\<exists>u'. entry_write mem type i a d n z u = Inr u'"
  using assms by (cases type) (auto simp: entry_write_def write_ends_def)

lemma collect_returns:
  assumes "answers env" and "host_inv (fst w)"
    and "type = T_libuse \<or> type = T_ilibuse \<longrightarrow> write_ends mem a z"
  shows "\<exists>w'. collect_cached env mem type i a d n z w = Inr w'"
proof -
  obtain h s where w: "w = (h, s)" by (cases w)
  obtain c where c: "cache h = Some c" "length c = 128" and d: "drop 122 c = replicate 6 use_zero"
    and b: "-1 \<le> cache_last_index h" "cache_last_index h \<le> 120"
    using assms(2) by (auto simp: w host_inv_def)
  let ?l = "cache_last_index h"
  obtain k where k: "find_entry (entry_matches type i d) c 0 ?l = Inr k"
    using find_entry_returns [of 0 ?l c] b c(2) by auto
  have upd: "\<exists>u. zbouncer_update_entry mem type j i a d n z g = Inr (g\<lparr>cache := Some (c[nat j := u])\<rparr>)"
    if "0 \<le> j" "j < 128" "cache g = Some c" for j g
    using that c(2) entry_write_returns [OF assms(3), of i d n "c ! nat j"]
    by (auto simp: zbouncer_update_entry_def c_read_def c_write_def)
  show ?thesis
  proof (cases k)
    case None
    obtain g where g: "zbouncer_update_entry mem type (?l + 1) i a d n z (h\<lparr>cache_last_index := ?l + 1\<rparr>) = Inr g"
      "cache_ok g"
      using upd [of "?l + 1" "h\<lparr>cache_last_index := ?l + 1\<rparr>"] b c by (auto simp: cache_ok_def)
    then obtain w' where "zbouncer_flush_cache env (g, s) = Inr w'"
      using flush_returns [OF assms(1), of "(g, s)"] by auto
    then show ?thesis using k None g(1) b by (simp add: w collect_cached_eq [OF c(1)] INT_MAX_def)
  next
    case (Some j)
    then have "0 \<le> j" "j < 128" using k b by (auto dest: find_entry_result)
    then show ?thesis using upd [of j h] k Some c(1) by (auto simp: w collect_cached_eq [OF c(1)])
  qed
qed


lemma host_inv_ok: "host_inv h \<Longrightarrow> cache_ok h"
  by (auto simp: host_inv_def cache_ok_def)

lemma reports_return:
  assumes "answers env" and "host_inv (fst w)"
  shows "\<exists>w'. zbouncer_collect_alloca env mem i a w = Inr w'"
    "\<exists>w'. zbouncer_collect_alloca_dyn env mem i a n w = Inr w'"
    "\<exists>w'. zbouncer_use env mem i a w = Inr w'" "\<exists>w'. zbouncer_iuse env mem i d a w = Inr w'"
  using sends_return [OF assms(1)] collect_returns [OF assms]
  by (simp_all add: zbouncer_collect_alloca_def zbouncer_collect_alloca_dyn_def zbouncer_use_def
      zbouncer_iuse_def)

lemma library_reports_return:
  assumes "answers env" and "host_inv (fst w)" and "write_ends mem a z"
  shows "\<exists>w'. zbouncer_luse env mem i a z w = Inr w'" "\<exists>w'. zbouncer_iluse env mem i d a z w = Inr w'"
  using reports_return [OF assms(1,2)] assms(3)
  by (auto simp: zbouncer_luse_def zbouncer_iluse_def write_ends_def)

lemma call_returns:
  assumes "answers env" and "host_inv (fst w)" and "call_ends mem f"
  shows "\<exists>w'. do_call env mem f w = Inr w'"
proof (cases f)
  case (Collect_Entry type i a d n z)
  then show ?thesis
    using assms collect_returns [OF assms(1,2), of type mem a z i d n] reports_return [OF assms(1,2)]
      library_reports_return [OF assms(1,2)]
    by (auto simp: zbouncer_collect_entry_def split: ENTRY_TYPE.split)
next
  case Exit
  obtain h1 s1 where "zbouncer_flush_cache env w = Inr (h1, s1)"
    using flush_returns [OF assms(1) host_inv_ok [OF assms(2)]] by auto
  moreover obtain h2 s2 where "TEEC_InvokeCommand env TA_ZBOUNCER_TIME_GLOBAL (value_types h1, s1) = Inr (h2, s2)"
    using invoke_returns [OF assms(1)] by (metis surj_pair)
  ultimately show ?thesis using Exit invoke_returns [OF assms(1)] by (simp add: zexit_def)
next
  case Contextsw_Test
  then show ?thesis using invoke_returns [OF assms(1)] by (cases w) (simp add: contextsw_test_def)
qed (use assms reports_return [OF assms(1,2)] library_reports_return [OF assms(1,2)]
      flush_returns [OF assms(1) host_inv_ok [OF assms(2)]] in auto)

lemma calls_return:
  assumes "answers env" and "host_inv (fst w)" and "list_all (call_ends mem) fs"
  shows "\<exists>w'. c_run (do_call env mem) fs w = Inr w' \<and> host_inv (fst w')"
  using assms(2,3)
proof (induction fs arbitrary: w)
  case (Cons f fs)
  obtain v where v: "do_call env mem f w = Inr v"
    using call_returns [OF assms(1) Cons.prems(1), of mem f] Cons.prems(2) by (auto simp del: split_paired_Ex)
  then have "host_inv (fst v)" using call_keeps_inv Cons.prems(1) by blast
  then show ?case using Cons.IH v Cons.prems(2) by auto
qed simp

section \<open>Strings\<close>

lemma end_of_object_needs_zero:
  assumes "getEndOfObject mem ptr = Some r"
  shows "\<exists>p. mem p = None \<or> mem p = Some 0"
proof (rule getEndOfObject.raw_induct [where P = "\<lambda>mem ptr r. \<exists>p. mem p = None \<or> mem p = Some 0", OF _ assms])
  fix f :: "memory \<Rightarrow> u32 \<Rightarrow> u32 c option" and mem ptr r
  assume "\<And>mem ptr r. f mem ptr = Some r \<Longrightarrow> \<exists>p. mem p = None \<or> mem p = Some 0"
    and "(case mem ptr of None \<Rightarrow> Some (Inl Out_Of_Bounds)
      | Some b \<Rightarrow> if b \<noteq> 0 then f mem (ptr + 1) else Some (Inr ptr)) = Some r"
  then show "\<exists>p. mem p = None \<or> mem p = Some 0"
    by (cases "mem ptr") (auto split: if_splits)
qed


text \<open>A library whose commands always succeed without reaching the trusted application.\<close>

definition mute_optee :: optee where
  "mute_optee = \<lparr>register_shm = (\<lambda>_. False), invoke = (\<lambda>_ oper s. Inr (0, oper, s)),
     open_session = (\<lambda>oper s. Inr (0, oper, s))\<rparr>"

lemma mute_answers: "answers mute_optee"
  by (simp add: answers_def mute_optee_def)

text \<open>A program of 122 definitions and twenty uses, each with an identifier of its own.\<close>

definition sample_defs :: "event list" where
  "sample_defs = map (\<lambda>i. Def (of_nat (i + 1)) (of_nat (512 + 4 * i))) [0..<122]"

definition sample_uses :: "event list" where
  "sample_uses = map (\<lambda>i. Use (of_nat (i + 1000)) (of_nat (514 + 4 * i))) [0..<20]"

lemma small_word_eq: "i < 65536 \<Longrightarrow> j < 65536 \<Longrightarrow> (of_nat i :: u32) = of_nat j \<longleftrightarrow> i = j"
  by (simp add: word_of_nat_eq_iff take_bit_nat_eq_self)

lemma small_word_zero: "i < 65536 \<Longrightarrow> (of_nat i :: u32) = 0 \<longleftrightarrow> i = 0"
  using small_word_eq [of i 0] by simp

lemma sample_event:
  assumes "e \<in> set (sample_defs @ sample_uses)"
  obtains i where "ev_id e = of_nat i" and "i < 2000" and "cacheable e"
    and "(kind e = 0 \<and> i < 200) \<or> (kind e = 2 \<and> 200 < i)"
proof -
  from assms consider i where "i < 122" "e = Def (of_nat (i + 1)) (of_nat (512 + 4 * i))"
    | i where "i < 20" "e = Use (of_nat (i + 1000)) (of_nat (514 + 4 * i))"
    unfolding sample_defs_def sample_uses_def by auto
  then show thesis
  proof cases
    case (1 i)
    then show thesis using that [of "i + 1"] small_word_zero [of "i + 1"] by (simp del: of_nat_add)
  next
    case (2 i)
    then show thesis using that [of "i + 1000"] small_word_zero [of "i + 1000"] by (simp del: of_nat_add)
  qed
qed

lemma sample_one_kind: "one_kind (sample_defs @ sample_uses)"
proof -
  have "cacheable e \<and> agree_kind e f"
    if e: "e \<in> set (sample_defs @ sample_uses)" and f: "f \<in> set (sample_defs @ sample_uses)" for e f
  proof -
    obtain i where i: "ev_id e = of_nat i" "i < 2000" "cacheable e"
      "(kind e = 0 \<and> i < 200) \<or> (kind e = 2 \<and> 200 < i)" using sample_event [OF e] .
    obtain j where j: "ev_id f = of_nat j" "j < 2000"
      "(kind f = 0 \<and> j < 200) \<or> (kind f = 2 \<and> 200 < j)" using sample_event [OF f] .
    have "ev_id e = ev_id f \<longleftrightarrow> i = j" using i(1,2) j(1,2) by (simp add: small_word_eq)
    then show ?thesis using i(3,4) j(3) by (auto simp: agree_kind_def)
  qed
  then show ?thesis unfolding one_kind_def list_all_iff by blast
qed

lemma sample_distinct: "foldl absorb [] sample_defs = sample_defs"
proof -
  have "foldl absorb [] sample_defs = [] @ sample_defs"
  proof (rule foldl_absorb_distinct)
    fix i j assume ij: "i < j" "j < length sample_defs"
    then have "j < 122" by (simp add: sample_defs_def)
    then show "\<not> same_def (sample_defs ! j) (sample_defs ! i)"
      using ij small_word_eq [of "j + 1" "i + 1"]
      by (simp add: sample_defs_def del: of_nat_add of_nat_Suc)
  qed simp
  then show ?thesis by simp
qed

section \<open>Properties\<close>

text \<open>
  C36. Between calls of the library the cache has its 128 entries, its last index lies
  between -1 and 120, and the entries from 122 on are blank: whatever the program calls
  after zinit, in any order, keeps this.
\<close>

theorem calls_keep_cache_bounds:
  assumes "zinit env (host_initial, s0) = Inr w" and "c_run (do_call env mem) fs w = Inr (h, s)"
  shows "host_inv h"
  using c_run_invariant [where P = "\<lambda>w. host_inv (fst w)", OF assms(2) init_inv [OF assms(1)]]
    call_keeps_inv by fastforce

theorem calls_keep_cache_bounds_witness:
  "\<exists>w h s. zinit mute_optee (host_initial, ta_initial) = Inr w \<and>
     c_run (do_call mute_optee (\<lambda>_. Some 0)) [Collect_Alloca 65536 512, Report_Use 65537 516, Flush_Cache] w =
       Inr (h, s) \<and> host_inv h"
proof -
  obtain w where w: "zinit mute_optee (host_initial, ta_initial) = Inr w"
    by (simp add: zinit_def Let_def mute_optee_def)
  obtain v where "c_run (do_call mute_optee (\<lambda>_. Some 0))
      [Collect_Alloca 65536 512, Report_Use 65537 516, Flush_Cache] w = Inr v"
    using calls_return [OF mute_answers init_inv [OF w], of "\<lambda>_. Some 0"
        "[Collect_Alloca 65536 512, Report_Use 65537 516, Flush_Cache]"] by auto
  moreover obtain h s where "v = (h, s)" by (cases v)
  ultimately show ?thesis using w calls_keep_cache_bounds [OF w] by blast
qed

text \<open>
  No call of the library gets stuck on the cache: over a TEE client library that
  answers every command, with strings that end, any sequence of calls after zinit runs to
  its end.
\<close>

theorem calls_never_stuck:
  assumes "answers env" and "zinit env (host_initial, s0) = Inr w" and "list_all (call_ends mem) fs"
  shows "\<exists>w'. c_run (do_call env mem) fs w = Inr w'"
  using calls_return [OF assms(1) init_inv [OF assms(2)] assms(3)] by blast

theorem calls_never_stuck_witness:
  "\<exists>w w'. zinit mute_optee (host_initial, ta_initial) = Inr w \<and>
     c_run (do_call mute_optee (\<lambda>_. Some 0)) (replicate 300 (Report_Luse 7 512 0xDEADBEEF)) w = Inr w'"
proof -
  obtain w where w: "zinit mute_optee (host_initial, ta_initial) = Inr w"
    by (simp add: zinit_def Let_def mute_optee_def)
  have "list_all (call_ends (\<lambda>_. Some 0)) (replicate 300 (Report_Luse 7 512 0xDEADBEEF))"
    by (simp add: list_all_iff write_ends_def end_of_write_def end_of_object_def getEndOfObject.simps)
  then show ?thesis using calls_never_stuck [OF mute_answers w] w by blast
qed

text \<open>
  The search for the end of an object stops at the first zero byte, however far it
  is: with \<open>n\<close> mapped bytes other than zero before it, the result is \<open>n\<close> behind the
  start (modulo the 32-bit address space).
\<close>

theorem end_of_object_found:
  assumes "mem (ptr + of_nat n) = Some 0"
    and "\<And>k. k < n \<Longrightarrow> \<exists>b. mem (ptr + of_nat k) = Some b \<and> b \<noteq> 0"
  shows "getEndOfObject mem ptr = Some (Inr (ptr + of_nat n))"
  using assms by (rule end_of_object_at)

theorem end_of_object_found_witness:
  "getEndOfObject (\<lambda>a. if a = 515 then Some 0 else if 512 \<le> a \<and> a < 515 then Some 65 else None) 512 =
     Some (Inr 515)"
proof -
  have "getEndOfObject (\<lambda>a. if a = 515 then Some 0 else if 512 \<le> a \<and> a < 515 then Some 65 else None) 512 =
      Some (Inr (512 + of_nat 3))"
  proof (rule end_of_object_found)
    fix k :: nat assume "k < 3"
    then consider "k = 0" | "k = 1" | "k = 2" by linarith
    then show "\<exists>b. (if (512 :: u32) + of_nat k = 515 then Some 0
        else if (512 :: u32) \<le> 512 + of_nat k \<and> (512 :: u32) + of_nat k < 515 then Some 65 else None) =
        Some b \<and> b \<noteq> (0 :: u8)"
      by cases simp_all
  qed simp
  then show ?thesis by simp
qed

text \<open>
  The search has no bound of its own: over memory that is mapped everywhere and holds
  no zero byte it does not return.
\<close>

theorem end_of_object_diverges:
  assumes "\<And>p. \<exists>b. mem p = Some b \<and> b \<noteq> 0"
  shows "end_of_object mem ptr = Inl Diverges"
proof -
  have "getEndOfObject mem ptr = None"
  proof (cases "getEndOfObject mem ptr")
    case (Some r)
    then obtain p where "mem p = None \<or> mem p = Some 0" using end_of_object_needs_zero by blast
    then show ?thesis using assms [of p] by auto
  qed
  then show ?thesis by (simp add: end_of_object_def)
qed

theorem end_of_object_diverges_witness: "end_of_object (\<lambda>_. Some 7) 512 = Inl Diverges"
  by (rule end_of_object_diverges) simp

text \<open>
  The flush clears 512 bytes, the size of 128 enumeration constants, and not the 128
  entries: entries 16 to 127 survive it, with the cached or the direct way of sending.
\<close>

theorem flush_clears_sixteen_entries:
  assumes "zbouncer_flush_cache env (h, s) = Inr (h', s')" and "cache h = Some c" and "length c = 128"
  shows "cache h' = Some (replicate 16 use_zero @ drop 16 c) \<and> cache_last_index h' = -1"
  using flush_result [OF assms] by simp

theorem flush_clears_sixteen_entries_witness:
  "\<exists>h' s'. zbouncer_flush_cache mute_optee (host_initial\<lparr>cache :=
        Some (replicate 128 (use_zero\<lparr>def := 9\<rparr>))\<rparr>, ta_initial) = Inr (h', s') \<and>
     cache h' = Some (replicate 16 use_zero @ drop 16 (replicate 128 (use_zero\<lparr>def := 9\<rparr>))) \<and>
     cache_last_index h' = -1"
proof -
  obtain h' s' where "zbouncer_flush_cache mute_optee (host_initial\<lparr>cache :=
        Some (replicate 128 (use_zero\<lparr>def := 9\<rparr>))\<rparr>, ta_initial) = Inr (h', s')"
    using flush_returns [OF mute_answers, of "(host_initial\<lparr>cache :=
        Some (replicate 128 (use_zero\<lparr>def := 9\<rparr>))\<rparr>, ta_initial)"]
    by (auto simp: cache_ok_def host_initial_def)
  then show ?thesis using flush_clears_sixteen_entries [of mute_optee _ _ h' s'] by (auto simp: host_initial_def)
qed



text \<open>
  Without the cache every report reaches the trusted application as it happens: the
  log of the session is the list of the reported events, up to the size of the ring.
\<close>

theorem uncached_session_log:
  assumes "optee_transport env code page" and "list_all recordable es" and "length es \<le> 2048"
  shows "\<exists>h s. cbind (zinit env (host_initial\<lparr>cache_enabled := 0\<rparr>, ta_initial)) (\<lambda>w.
      cbind (c_run (report env mem) es w) (zexit env)) = Inr (h, s) \<and> ta_log s = es"
  using optee_transport.session_uncached [OF assms] .

theorem uncached_session_log_witness:
  "\<exists>h s. cbind (zinit (direct_optee \<lparr>seconds = 0, millis = 0\<rparr>) (host_initial\<lparr>cache_enabled := 0\<rparr>, ta_initial)) (\<lambda>w.
      cbind (c_run (report (direct_optee \<lparr>seconds = 0, millis = 0\<rparr>) (\<lambda>_. None))
        [Def 1 512, Use 2 516, Def 1 640, Iuse 3 1 644] w)
        (zexit (direct_optee \<lparr>seconds = 0, millis = 0\<rparr>))) = Inr (h, s) \<and>
    ta_log s = [Def 1 512, Use 2 516, Def 1 640, Iuse 3 1 644]"
  by (rule uncached_session_log [OF direct.optee_transport_axioms]) simp_all



text \<open>
  C22. A program that runs past one round of the cache loses reports: after 122 definitions
  and a flush, the uses that follow from the seventeenth on are written over entries the
  flush did not clear, and zexit sends the old definitions there, and all that follow, once more
  instead.
\<close>

theorem second_round_loses_uses:
  assumes "optee_transport env code page" and "one_kind (ds @ us)" and "length ds = 122"
    and "list_all (\<lambda>e. kind e = 0) ds" and "foldl absorb [] ds = ds"
    and "list_all is_use us" and "16 \<le> length us" and "length us \<le> 121"
  shows "\<exists>h s. cbind (zinit env (host_initial, ta_initial)) (\<lambda>w.
      cbind (c_run (report env mem) (ds @ us) w) (zexit env)) = Inr (h, s) \<and>
    ta_log s = ds @ take 16 us @ drop 16 ds"
  using optee_transport.two_rounds [OF assms] .

theorem second_round_loses_uses_witness:
  "\<exists>h s. cbind (zinit (direct_optee \<lparr>seconds = 0, millis = 0\<rparr>) (host_initial, ta_initial)) (\<lambda>w.
      cbind (c_run (report (direct_optee \<lparr>seconds = 0, millis = 0\<rparr>) (\<lambda>_. None)) (sample_defs @ sample_uses) w)
        (zexit (direct_optee \<lparr>seconds = 0, millis = 0\<rparr>))) = Inr (h, s) \<and>
    ta_log s = sample_defs @ take 16 sample_uses @ drop 16 sample_defs"
proof (rule second_round_loses_uses [OF direct.optee_transport_axioms sample_one_kind])
  show "length sample_defs = 122" "16 \<le> length sample_uses" "length sample_uses \<le> 121"
    by (simp_all add: sample_defs_def sample_uses_def)
  show "list_all (\<lambda>e. kind e = 0) sample_defs" by (simp add: sample_defs_def list_all_iff)
  show "list_all is_use sample_uses"
    using small_word_zero by (auto simp: sample_uses_def list_all_iff simp del: of_nat_add)
qed (rule sample_distinct)

end
