(* ===== verification/Extractor.thy ===== *)
theory Extractor
  imports Trace_File Host_Props
begin

text \<open>
  What leaves the device: the rounds of the extractor over a transport that delivers the
  extraction command, the text of a round, and a whole session read by the verifier.
\<close>

text \<open>The answers of a system on which everything works, and a wake-up with them.\<close>

definition all_well :: "os_answers \<Rightarrow> bool" where
  "all_well os \<longleftrightarrow> 0 \<le> socket_fd os \<and> 0 < inet_pton_result os \<and> 0 \<le> connect_result os \<and>
     writable os \<and> readable os"

definition well_answers :: os_answers where
  "well_answers = \<lparr>socket_fd = 3, inet_pton_result = 1, connect_result = 0, writable = True, readable = True\<rparr>"

lemma open_socket_well: "all_well os \<Longrightarrow> open_socket os = socket_fd os \<and> 0 \<le> socket_fd os"
  by (simp add: all_well_def open_socket_def)

lemma write_round:
  assumes "all_well os" and "length us = 2048"
  shows "write_trace_to_file os us Line_Null =
      Inr (Some (map c_string (text_lines (trace_text (concat (map slot_events us)))) @ [infoline], Line_Freed))"
    and "write_trace_to_file os us Line_Freed = Inl Use_After_Free"
  using assms open_socket_well [OF assms(1)]
  by (simp_all add: write_trace_to_file_def write_file send_trace_to_verifier_def all_well_def)

context optee_transport
begin

lemma extracts:
  assumes "ta_wf s" and "paramTypes oper = 0xC" and "length us = 2048"
    and "params0 oper = TP_memref (Live (entries_words us)) fl"
  shows "\<exists>r. invoke env TA_ZBOUNCER_CMD_GOTVALUE oper s = Inr (r, oper\<lparr>params0 := TP_memref
      (Live (entries_words (map as_host (take 1024 (dynamic_trace s)) @ drop 1024 us)))
      (TEEC_MEM_INPUT OR TEEC_MEM_OUTPUT)\<rparr>, s)"
  using delivers_memref [OF assms(2,4), of TA_ZBOUNCER_CMD_GOTVALUE s]
    invoke_copy [OF assms(1,3), of _ page] by (auto simp: deliver_def)

lemma extractor_op_live:
  "paramTypes (extractor_op env) = 0xC"
  "params0 (extractor_op env) = TP_memref (Live (entries_words (replicate 2048 use_zero)))
     (TEEC_MEM_INPUT OR TEEC_MEM_OUTPUT)"
proof -
  have "entries_words (replicate n use_zero) = replicate (8 * n) 0" for n
    by (induction n) (simp_all add: entries_words_def replicate_add [symmetric])
  from this [of 2048]
  show "params0 (extractor_op env) = TP_memref (Live (entries_words (replicate 2048 use_zero)))
     (TEEC_MEM_INPUT OR TEEC_MEM_OUTPUT)"
    by (simp add: extractor_op_def TRACE_SIZE_def registers Let_def)
  show "paramTypes (extractor_op env) = 0xC" by (simp add: extractor_op_def teec_param_types_memref Let_def)
qed

lemma first_round:
  assumes "ta_wf (secure w)" and "all_well (answers_os w)"
  defines "us \<equiv> map as_host (take 1024 (dynamic_trace (secure w))) @ replicate 1024 use_zero"
  defines "msgs \<equiv> map c_string (text_lines (trace_text (concat (map slot_events us)))) @ [infoline]"
  shows "\<exists>oper. z_extractor env (w # ws) = (if parent_gone w then Inr [msgs]
      else cbind (poll env oper Line_Freed ws) (\<lambda>rest. Inr (msgs # rest))) \<and>
    paramTypes oper = 0xC \<and> params0 oper = TP_memref (Live (entries_words us)) (TEEC_MEM_INPUT OR TEEC_MEM_OUTPUT)"
proof -
  have len: "length us = 2048" using assms(1) by (simp add: us_def ta_wf_def)
  have "us = map as_host (take 1024 (dynamic_trace (secure w))) @ drop 1024 (replicate 2048 use_zero)"
    by (simp add: us_def)
  then obtain r where "invoke env TA_ZBOUNCER_CMD_GOTVALUE (extractor_op env) (secure w) =
      Inr (r, (extractor_op env)\<lparr>params0 := TP_memref (Live (entries_words us))
        (TEEC_MEM_INPUT OR TEEC_MEM_OUTPUT)\<rparr>, secure w)"
    using extracts [OF assms(1) extractor_op_live(1) length_replicate extractor_op_live(2)] by auto
  moreover define oper where "oper = (extractor_op env)\<lparr>params0 := TP_memref (Live (entries_words us))
        (TEEC_MEM_INPUT OR TEEC_MEM_OUTPUT)\<rparr>"
  ultimately have inv: "invoke env TA_ZBOUNCER_CMD_GOTVALUE (extractor_op env) (secure w) = Inr (r, oper, secure w)"
    and oper: "paramTypes oper = 0xC" "params0 oper = TP_memref (Live (entries_words us)) (TEEC_MEM_INPUT OR TEEC_MEM_OUTPUT)"
    using extractor_op_live(1) by simp_all
  have "extractor_buffer oper = Inr us"
    using words_entries_append [of us "[]"] by (simp add: extractor_buffer_def oper(2))
  then show ?thesis using inv oper write_round(1) [OF assms(2) len]
    by (auto simp: z_extractor_def msgs_def)
qed

lemma second_round_stuck:
  assumes "ta_wf (secure v)" and "all_well (answers_os v)" and "paramTypes oper = 0xC" and "length us = 2048"
    and "params0 oper = TP_memref (Live (entries_words us)) fl"
  shows "poll env oper Line_Freed (v # ws) = Inl Use_After_Free"
proof -
  let ?us = "map as_host (take 1024 (dynamic_trace (secure v))) @ drop 1024 us"
  obtain r where inv: "invoke env TA_ZBOUNCER_CMD_GOTVALUE oper (secure v) = Inr (r, oper\<lparr>params0 := TP_memref
      (Live (entries_words ?us)) (TEEC_MEM_INPUT OR TEEC_MEM_OUTPUT)\<rparr>, secure v)"
    using extracts [OF assms(1,3,4,5)] by blast
  have "length ?us = 2048" using assms(1,4) by (simp add: ta_wf_def)
  then show ?thesis
    using write_round(2) [OF assms(2)] words_entries_append [of ?us "[]"]
    by (simp add: inv extractor_buffer_def)
qed

end

lemma fresh_log_half:
  assumes "ta_fresh s" and "length (ta_log s) \<le> 1024"
  shows "concat (map slot_events (map as_host (take 1024 (dynamic_trace s)) @ replicate 1024 use_zero)) = ta_log s"
proof -
  let ?n = "nat (trace_id s)" and ?ev = "slot_events \<circ> as_host"
  have t: "length (dynamic_trace s) = 2048" "?n \<le> 2048" using assms(1) by (auto simp: ta_fresh_def ta_wf_def)
  have one: "length (?ev u) = 1" if "u \<in> set (take ?n (dynamic_trace s))" for u
    using that assms(1) t by (auto simp: ta_fresh_def in_set_conv_nth)
  have "length (ta_log s) = sum_list (map (length \<circ> ?ev) (take ?n (dynamic_trace s)))"
    by (simp add: ta_fresh_log_take [OF assms(1)] length_concat o_def)
  also have "map (length \<circ> ?ev) (take ?n (dynamic_trace s)) = map (\<lambda>_. 1) (take ?n (dynamic_trace s))"
    using one by (intro map_cong) auto
  also have "sum_list \<dots> = ?n" using t by (simp add: sum_list_triv)
  finally have n: "?n \<le> 1024" using assms(2) by simp
  have "drop ?n (take 1024 (dynamic_trace s)) = take (1024 - ?n) (drop ?n (dynamic_trace s))"
    by (simp add: drop_take)
  also have "\<dots> = replicate (1024 - ?n) ta_use_zero"
    using assms(1) n by (simp add: ta_fresh_def min_def)
  finally have "take 1024 (dynamic_trace s) = take ?n (dynamic_trace s) @ replicate (1024 - ?n) ta_use_zero"
    using append_take_drop_id [of ?n "take 1024 (dynamic_trace s)"] n by (simp add: min_def)
  then show ?thesis by (simp add: ta_fresh_log_take [OF assms(1)] o_def)
qed

section \<open>Properties\<close>

text \<open>
  One round of the extractor with the parent gone: the bytes the verifier receives are
  the lines of the events of the first 1024 slots, in slot order, and the end marker.
\<close>

theorem extractor_sends_half_the_ring:
  assumes "optee_transport env code page" and "ta_wf (secure w)" and "all_well (answers_os w)"
    and "parent_gone w"
  shows "\<exists>msgs. z_extractor env (w # ws) = Inr [msgs] \<and>
    concat msgs = trace_text (concat (map (slot_events \<circ> as_host) (take 1024 (dynamic_trace (secure w))))) @ infoline"
proof -
  let ?us = "map as_host (take 1024 (dynamic_trace (secure w))) @ replicate 1024 use_zero"
  have "concat (map slot_events ?us) =
      concat (map (slot_events \<circ> as_host) (take 1024 (dynamic_trace (secure w))))"
    by (simp add: o_def)
  then show ?thesis
    using optee_transport.first_round [OF assms(1-3), of ws] assms(4) sent_text [of "concat (map slot_events ?us)"]
    by auto
qed

theorem extractor_sends_half_the_ring_witness:
  "\<exists>msgs. z_extractor (direct_optee \<lparr>seconds = 0, millis = 0\<rparr>)
      [\<lparr>parent_gone = True, answers_os = well_answers, secure = ta_initial\<rparr>] = Inr [msgs] \<and>
    concat msgs = trace_text (concat (map (slot_events \<circ> as_host) (take 1024 (dynamic_trace ta_initial)))) @ infoline"
  using extractor_sends_half_the_ring [OF direct.optee_transport_axioms,
      of "\<lparr>parent_gone = True, answers_os = well_answers, secure = ta_initial\<rparr>" _ "[]"]
  by (simp add: ta_wf_initial all_well_def well_answers_def)

text \<open>
  C40. The second round of the extractor hands the line buffer that the first one freed to
  \<open>getline\<close>: as long as the program runs, only one trace is ever sent.
\<close>

theorem second_extraction_uses_freed_line:
  assumes "optee_transport env code page" and "ta_wf (secure v)" and "ta_wf (secure w)"
    and "all_well (answers_os v)" and "all_well (answers_os w)" and "\<not> parent_gone v"
  shows "z_extractor env (v # w # ws) = Inl Use_After_Free"
proof -
  obtain oper where o: "z_extractor env (v # w # ws) = cbind (poll env oper Line_Freed (w # ws)) (\<lambda>rest.
      Inr ((map c_string (text_lines (trace_text (concat (map slot_events (map as_host
        (take 1024 (dynamic_trace (secure v))) @ replicate 1024 use_zero))))) @ [infoline]) # rest))"
    "paramTypes oper = 0xC" "params0 oper = TP_memref (Live (entries_words (map as_host
        (take 1024 (dynamic_trace (secure v))) @ replicate 1024 use_zero))) (TEEC_MEM_INPUT OR TEEC_MEM_OUTPUT)"
    using optee_transport.first_round [OF assms(1,2,4), of "w # ws"] assms(6) by auto
  have "length (map as_host (take 1024 (dynamic_trace (secure v))) @ replicate 1024 use_zero) = 2048"
    using assms(2) by (simp add: ta_wf_def)
  from optee_transport.second_round_stuck [OF assms(1,3,5) o(2) this o(3), of ws]
  show ?thesis by (simp add: o(1))
qed

theorem second_extraction_uses_freed_line_witness:
  "z_extractor (direct_optee \<lparr>seconds = 0, millis = 0\<rparr>)
     [\<lparr>parent_gone = False, answers_os = well_answers, secure = ta_initial\<rparr>,
      \<lparr>parent_gone = True, answers_os = well_answers, secure = ta_initial\<rparr>] = Inl Use_After_Free"
  by (rule second_extraction_uses_freed_line [OF direct.optee_transport_axioms])
     (simp_all add: ta_wf_initial all_well_def well_answers_def)

text \<open>
  The text format is a faithful encoding: cut into lines and fields the way the
  verifier does it, the text of any events gives back the printed fields of each event, in
  order, and the end marker.
\<close>

theorem trace_text_roundtrip:
  "py_entries (trace_text es @ infoline) = map event_fields es @ [[''INFO'']]"
  by (rule entries_of_trace)

text \<open>
  The numbers survive the text: Python reads the padded decimal and hexadecimal fields
  as the unsigned values printed, but the two identifiers of an indirect use, printed with
  \<open>%05d\<close>, as signed ones.
\<close>

theorem printed_numbers_read_back:
  "py_int 10 (fmt_05u w) = Some (uint w) \<and> py_int 16 (fmt_08x w) = Some (uint w) \<and>
   py_int 10 (fmt_05d w) = Some (sint w)"
  using py_int_fmt by blast



end
