(* ===== verification/Verifier_Laws.thy ===== *)
theory Verifier_Laws
  imports Verifier Extractor
begin

text \<open>
  What the verifier guarantees: the invariant of its store, the effect of each printed
  event, when an alarm is raised, and the whole way from a program's reports to the
  verdict.
\<close>

section \<open>The store\<close>

text \<open>
  Every entry of \<open>def_map\<close> lists definitions of that identifier, children are nodes, and a
  definition has a default length.
\<close>

definition defs_listed :: "(int \<rightharpoonup> nat list) \<Rightarrow> trace_line list \<Rightarrow> bool" where
  "defs_listed dm ns \<longleftrightarrow> (\<forall>i ks. dm i = Some ks \<longrightarrow> ks \<noteq> [] \<and> (\<forall>k \<in> set ks. k < length ns \<and>
     tl_id (ns ! k) = i \<and> py_in ''DEF'' (tl_type (ns ! k))))"

definition node_ok :: "(int \<rightharpoonup> nat list) \<Rightarrow> nat \<Rightarrow> nat \<Rightarrow> trace_line \<Rightarrow> bool" where
  "node_ok dm n k t \<longleftrightarrow> (\<forall>j \<in> set (tl_children t). j < n) \<and>
     (py_in ''DEF'' (tl_type t) \<longrightarrow> tl_length t 0 \<noteq> None \<and> (\<exists>ks. dm (tl_id t) = Some ks \<and> k \<in> set ks))"

definition ver_wf :: "verifier \<Rightarrow> bool" where
  "ver_wf v \<longleftrightarrow> defs_listed (def_map v) (nodes v) \<and>
     (\<forall>k < length (nodes v). node_ok (def_map v) (length (nodes v)) k (nodes v ! k))"

lemma ver_wf_initial: "ver_wf verifier_initial"
  by (simp add: ver_wf_def verifier_initial_def defs_listed_def)

lemma update_all_length [simp]: "length (update_all f ks ns) = length ns"
  by (induction ks arbitrary: ns) (simp_all add: update_all_def)

lemma update_all_nth:
  assumes "\<And>t. f (f t) = f t"
  shows "k < length ns \<Longrightarrow> update_all f ks ns ! k = (if k \<in> set ks then f (ns ! k) else ns ! k)"
proof (induction ks arbitrary: ns)
  case (Cons j ks)
  then have "update_all f ks (ns[j := f (ns ! j)]) ! k =
      (if k \<in> set ks then f (ns[j := f (ns ! j)] ! k) else ns[j := f (ns ! j)] ! k)" by simp
  then show ?case using Cons.prems assms by (cases "j = k") (simp_all add: update_all_def)
qed (simp add: update_all_def)

text \<open>The fields the checks navigate by; an update of addresses and lengths keeps them.\<close>

definition same_shape :: "trace_line \<Rightarrow> trace_line \<Rightarrow> bool" where
  "same_shape t u \<longleftrightarrow> tl_id u = tl_id t \<and> tl_type u = tl_type t \<and> tl_children u = tl_children t \<and>
     tl_cls u = tl_cls t \<and> (tl_length t 0 \<noteq> None \<longrightarrow> tl_length u 0 \<noteq> None)"

lemma updates_idem: "set_address g a (set_address g a t) = set_address g a t"
  "set_dynamic g a n (set_dynamic g a n t) = set_dynamic g a n t"
  by (auto simp: set_address_def set_dynamic_def fun_eq_iff intro!: trace_line.equality)

lemma updates_shape: "same_shape t (set_address g a t)" "same_shape t (set_dynamic g a n t)"
  by (simp_all add: same_shape_def set_address_def set_dynamic_def)

lemma wf_same_shape:
  assumes "ver_wf v" and "length ns = length (nodes v)"
    and "\<And>k. k < length ns \<Longrightarrow> same_shape (nodes v ! k) (ns ! k)"
    and "def_map w = def_map v" and "nodes w = ns"
  shows "ver_wf w"
  using assms unfolding ver_wf_def same_shape_def defs_listed_def node_ok_def by auto

lemma wf_update:
  assumes "ver_wf v" and "\<And>t. f (f t) = f t" and "\<And>t. same_shape t (f t)"
  shows "ver_wf (v\<lparr>nodes := update_all f ks (nodes v)\<rparr>)"
proof (rule wf_same_shape [OF assms(1)])
  show "same_shape (nodes v ! k) (update_all f ks (nodes v) ! k)" if "k < length (update_all f ks (nodes v))" for k
    using that assms(2,3) by (simp add: update_all_nth) (simp add: same_shape_def)
qed simp_all

lemma count_entry_frame [simp]:
  "nodes (count_entry e v) = nodes v" "def_map (count_entry e v) = def_map v"
  by (simp_all add: count_entry_def Let_def)

lemma count_entry_navigation [simp]:
  "used_def (count_entry e v) u = used_def v u" "through_ddef (count_entry e v) k = through_ddef v k"
  "resolve (count_entry e v) d = resolve v d"
  unfolding used_def_def through_ddef_def resolve_def count_entry_frame by (rule refl)+

lemma do_def_wf: "do_def e v = Inr v' \<Longrightarrow> ver_wf v \<Longrightarrow> ver_wf v'"
  by (auto simp: do_def_def get_id_var_def cbind_eq_Inr intro!: wf_update updates_idem updates_shape)

lemma do_ddef_wf: "do_ddef e v = Inr v' \<Longrightarrow> ver_wf v \<Longrightarrow> ver_wf v'"
  by (auto simp: do_ddef_def get_id_var_def cbind_eq_Inr intro!: wf_update updates_idem updates_shape)

lemma wf_count: "ver_wf (count_entry e v) \<longleftrightarrow> ver_wf v"
  by (simp add: ver_wf_def)

lemma wf_current_trace [simp]: "ver_wf (v\<lparr>current_trace := x\<rparr>) \<longleftrightarrow> ver_wf v"
  by (simp add: ver_wf_def)

lemma verify_entry_wf:
  assumes "verify_entry e (loc, al, v) = Inr (loc', al', v')" and "ver_wf v"
  shows "ver_wf v'"
proof -
  obtain v1 v3 g l where v1: "(if hd e = ''TRACE''
       then cbind (py_nth e 1) (\<lambda>x. Inr (v\<lparr>current_trace := Some x\<rparr>)) else Inr v) = Inr v1"
    and v3: "(if hd e = ''DEF'' then do_def e (count_entry e v1)
       else if hd e = ''DDEF'' then do_ddef e (count_entry e v1) else Inr (count_entry e v1)) = Inr v3"
    and r: "(if py_in ''USE'' (hd e) then (case l of None \<Rightarrow> Inl UnboundLocalError
        | Some (d, u, end_addr) \<Rightarrow> cbind (check_use (resolve v3 d) end_addr g) (\<lambda>bad.
            Inr (l, if bad then al @ [(u, resolve v3 d)] else al, v3)))
      else Inr (l, al, v3)) = Inr (loc', al', v')"
    using assms(1) unfolding verify_entry_def Let_def by (auto simp: cbind_eq_Inr)
  have "ver_wf v1" using v1 assms(2) by (auto simp: cbind_eq_Inr split: if_splits)
  then have "ver_wf v3" using v3 do_def_wf do_ddef_wf by (auto simp: wf_count split: if_splits)
  moreover have "v' = v3" using r by (auto simp: cbind_eq_Inr split: if_splits option.splits)
  ultimately show ?thesis by simp
qed

lemma attributes_frame:
  "def_attributes evals vs t = Inr u \<Longrightarrow> tl_children u = tl_children t \<and> tl_type u = tl_type t \<and>
     tl_id u = tl_id t \<and> tl_father u = tl_father t \<and>
     (py_in ''DEF'' (tl_type u) \<longrightarrow> tl_length u 0 \<noteq> None)"
  "use_attributes vs t = Inr u \<Longrightarrow> tl_children u = tl_children t \<and> tl_type u = tl_type t \<and>
     tl_id u = tl_id t \<and> tl_father u = tl_father t \<and> tl_length u = tl_length t"
  by (auto simp: def_attributes_def use_attributes_def Let_def cbind_eq_Inr split: if_splits)

lemma Trace_line_result:
  assumes "Trace_line evals s = Inr t"
  shows "tl_children t = [] \<and> (py_in ''DEF'' (tl_type t) \<longrightarrow> tl_length t 0 \<noteq> None)"
  using assms unfolding Trace_line_def Let_def
  by (auto simp: cbind_eq_Inr dest!: attributes_frame)

lemma find_in: "find P xs = Some x \<Longrightarrow> x \<in> set xs \<and> P x"
  by (induction xs) (auto split: if_splits)

lemma node_with_less: "node_with i ns = Inr k \<Longrightarrow> k < length ns \<and> Some (tl_id (ns ! k)) = i"
  by (auto simp: node_with_def py_next_def split: option.splits dest: find_in)

text \<open>Reading the static trace builds a store that satisfies the invariant.\<close>

lemma node_ok_mono:
  "node_ok dm n k t \<Longrightarrow> n \<le> m \<Longrightarrow> (\<And>i ks. dm i = Some ks \<Longrightarrow> \<exists>ls. dm' i = Some ls \<and> set ks \<subseteq> set ls) \<Longrightarrow>
     node_ok dm' m k t"
  unfolding node_ok_def by (meson le_trans less_le_trans subsetD)

lemma defs_listed_append: "defs_listed dm ns \<Longrightarrow> defs_listed dm (ns @ ms)"
  unfolding defs_listed_def by (simp add: nth_append) (meson trans_less_add1)

definition list_def :: "int \<Rightarrow> nat \<Rightarrow> (int \<rightharpoonup> nat list) \<Rightarrow> (int \<rightharpoonup> nat list)" where
  "list_def i k dm = dm(i \<mapsto> (case dm i of Some ks \<Rightarrow> ks @ [k] | None \<Rightarrow> [k]))"

lemma list_def_mono: "dm i = Some ks \<Longrightarrow> \<exists>ls. list_def j k dm i = Some ls \<and> set ks \<subseteq> set ls"
  by (auto simp: list_def_def)

lemma defs_listed_new:
  assumes "defs_listed dm ns" and "py_in ''DEF'' (tl_type t)"
  shows "defs_listed (list_def (tl_id t) (length ns) dm) (ns @ [t])"
  using defs_listed_append [OF assms(1), of "[t]"] assms(2)
  unfolding defs_listed_def list_def_def by (auto split: option.splits if_splits)

lemma wf_add_node:
  assumes "ver_wf v" and t: "tl_children t = []" "py_in ''DEF'' (tl_type t) \<longrightarrow> tl_length t 0 \<noteq> None"
    and w: "nodes w = nodes v @ [t]"
      "def_map w = (if py_in ''DEF'' (tl_type t) then list_def (tl_id t) (length (nodes v)) (def_map v) else def_map v)"
  shows "ver_wf w"
proof -
  let ?n = "length (nodes v)"
  have v: "defs_listed (def_map v) (nodes v)" "\<And>k. k < ?n \<Longrightarrow> node_ok (def_map v) ?n k (nodes v ! k)"
    using assms(1) by (auto simp: ver_wf_def)
  have mono: "\<exists>ls. def_map w i = Some ls \<and> set ks \<subseteq> set ls" if "def_map v i = Some ks" for i ks
    using that list_def_mono by (auto simp: w(2))
  have "node_ok (def_map w) (Suc ?n) ?n t"
    using t by (auto simp: node_ok_def w(2) list_def_def split: option.splits)
  then have "node_ok (def_map w) (length (nodes w)) k (nodes w ! k)" if "k < length (nodes w)" for k
    using that node_ok_mono [OF v(2) _ mono, of k "Suc ?n"] by (auto simp: w(1) nth_append less_Suc_eq)
  moreover have "defs_listed (def_map w) (nodes w)"
    using defs_listed_append [OF v(1)] defs_listed_new [OF v(1)] by (simp add: w)
  ultimately show ?thesis by (simp add: ver_wf_def)
qed

lemma wf_add_child:
  assumes "ver_wf v" and "f < length (nodes v)" and "k < length (nodes v)"
  shows "ver_wf (v\<lparr>nodes := add_child f k (nodes v)\<rparr>)"
  using assms unfolding ver_wf_def defs_listed_def node_ok_def add_child_def
  by (auto simp: nth_list_update)

lemma parse_line_wf:
  assumes "parse_line evals line v = Inr w" and "ver_wf v"
  shows "ver_wf w"
proof -
  obtain t where t: "Trace_line evals (py_strip line) = Inr t" using assms(1) by (auto simp: parse_line_def cbind_eq_Inr)
  define k where "k = length (nodes v)"
  define u where "u = (if py_in ''DEF'' (tl_type t)
      then v\<lparr>nodes := nodes v @ [t], def_map := list_def (tl_id t) k (def_map v)\<rparr>
      else v\<lparr>nodes := nodes v @ [t]\<rparr>)"
  have u: "ver_wf u" "length (nodes u) = Suc k"
    using wf_add_node [OF assms(2), of t u] Trace_line_result [OF t] by (auto simp: u_def k_def)
  have "(if tl_father t = Some (-1) then Inr (u\<lparr>static_trace := static_trace u @ [k]\<rparr>)
     else cbind (node_with (tl_father t) (nodes u)) (\<lambda>f. Inr (u\<lparr>nodes := add_child f k (nodes u)\<rparr>))) = Inr w"
    using assms(1) t by (simp add: parse_line_def Let_def u_def k_def list_def_def split: if_splits)
  moreover have "ver_wf (u\<lparr>static_trace := x\<rparr>)" for x using u(1) by (simp add: ver_wf_def)
  ultimately show ?thesis
    using wf_add_child [OF u(1)] u(2) by (auto simp: cbind_eq_Inr dest!: node_with_less split: if_splits)
qed

lemma trace_parser_wf: "trace_parser evals s v = Inr w \<Longrightarrow> ver_wf v \<Longrightarrow> ver_wf w"
  unfolding trace_parser_def by (erule c_run_invariant) (auto intro: parse_line_wf)

lemma verify_input_wf: "verify_input s v = Inr (al, w) \<Longrightarrow> ver_wf v \<Longrightarrow> ver_wf w"
proof -
  assume "verify_input s v = Inr (al, w)" and wf: "ver_wf v"
  then obtain loc where r: "c_run verify_entry (py_entries s) (None, [], v) = Inr (loc, al, w)"
    by (auto simp: verify_input_def cbind_eq_Inr)
  have "ver_wf (snd (snd (loc, al, w)))"
    using r by (rule c_run_invariant) (use wf verify_entry_wf in \<open>auto\<close>)
  then show ?thesis by simp
qed

section \<open>Events\<close>

lemma fields_nth:
  "py_nth (x # xs) 0 = Inr x" "py_nth (x # y # xs) (Suc 0) = Inr y" "py_nth (x # y # z # xs) 2 = Inr z"
  "py_nth (x # y # z # w # xs) 3 = Inr w"
  by (simp_all add: py_nth_def)

lemma fields_number:
  "py_number 10 (fmt_05u w) = Inr (uint w)" "py_number 16 (fmt_08x w) = Inr (uint w)"
  "py_number 10 (fmt_05d w) = Inr (sint w)"
  by (simp_all add: py_number_def py_int_fmt)

lemma tags: "\<not> py_in ''USE'' ''DEF''" "\<not> py_in ''USE'' ''DDEF''" "py_in ''USE'' ''USE''" "py_in ''USE'' ''I-USE''"
  "\<not> py_in ''USE'' ''INFO''"
  by simp_all

lemmas entry_simps = fields_nth fields_number tags get_id_var_def

lemma verify_def:
  "verify_entry (event_fields (Def i a)) (loc, al, v) =
     cbind (py_key (def_map v) (uint i div 65536)) (\<lambda>ks. Inr (loc, al,
       (count_entry (event_fields (Def i a)) v)\<lparr>nodes :=
          update_all (set_address (uint i mod 65536) (uint a)) ks (nodes v)\<rparr>))"
  by (cases "def_map v (uint i div 65536)")
     (simp_all add: verify_entry_def do_def_def py_key_def entry_simps Let_def del: py_in.simps)

lemma verify_ddef:
  "verify_entry (event_fields (Ddef i a n)) (loc, al, v) =
     cbind (py_key (def_map v) (uint i div 65536)) (\<lambda>ks. Inr (loc, al,
       (count_entry (event_fields (Ddef i a n)) v)\<lparr>nodes :=
          update_all (set_dynamic (uint i mod 65536) (uint a) (uint n)) ks (nodes v)\<rparr>))"
  by (cases "def_map v (uint i div 65536)")
     (simp_all add: verify_entry_def do_ddef_def py_key_def entry_simps Let_def del: py_in.simps)

lemma verify_use:
  "verify_entry (event_fields (Use i e)) (loc, al, v) =
     cbind (node_with (Some (uint i div 65536)) (nodes v)) (\<lambda>u.
     cbind (used_def v u) (\<lambda>k.
     cbind (through_ddef v k) (\<lambda>d.
     let v' = count_entry (event_fields (Use i e)) v in
     cbind (check_use (resolve v d) (uint e) (Some (uint i mod 65536))) (\<lambda>bad.
     Inr (Some (d, u, uint e), if bad then al @ [(u, resolve v d)] else al, v')))))"
  by (simp add: verify_entry_def do_use_def entry_simps cbind_assoc Let_def cong: if_cong del: py_in.simps)

lemma verify_iuse:
  "verify_entry (event_fields (Iuse i d e)) (loc, al, v) =
     cbind (node_with (Some (sint i div 65536)) (nodes v)) (\<lambda>u.
     cbind (py_key (def_map v) (sint d div 65536)) (\<lambda>ks.
     cbind (py_nth ks 0) (\<lambda>k.
     cbind (through_ddef v k) (\<lambda>r.
     let v' = count_entry (event_fields (Iuse i d e)) v in
     cbind (check_use (resolve v r) (uint e) (Some (sint d mod 65536))) (\<lambda>bad.
     Inr (Some (r, u, uint e), if bad then al @ [(u, resolve v r)] else al, v'))))))"
  by (simp add: verify_entry_def do_iuse_def entry_simps cbind_assoc Let_def cong: if_cong del: py_in.simps)

lemma verify_info:
  "verify_entry [''INFO''] (loc, al, v) = Inr (loc, al, count_entry [''INFO''] v)"
  by (simp add: verify_entry_def tags del: py_in.simps)

section \<open>One definition and its use\<close>

text \<open>
  Definitions of a whole object whose size is known: the static analysis writes ADEF for
  local and GDEF for global variables, and other names for dynamic objects and fields.
\<close>

definition object_def :: "trace_line \<Rightarrow> bool" where
  "object_def t \<longleftrightarrow> py_in ''DEF'' (tl_type t) \<and> tl_type t \<noteq> ''DDEF'' \<and> tl_type t \<noteq> ''SDEF''"

lemma object_def_shape: "same_shape t u \<Longrightarrow> object_def u = object_def t"
  by (simp add: same_shape_def object_def_def)

text \<open>
  In the store \<open>v\<close> node \<open>k\<close> is a definition of an object, of identifier \<open>i\<close> and length \<open>n\<close>, and
  the node of the use \<open>j\<close> is \<open>u\<close>, with that definition as its only child.
\<close>

definition checks_def :: "verifier \<Rightarrow> int \<Rightarrow> nat \<Rightarrow> int \<Rightarrow> int \<Rightarrow> nat \<Rightarrow> bool" where
  "checks_def v i k n j u \<longleftrightarrow> ver_wf v \<and> k < length (nodes v) \<and> object_def (nodes v ! k) \<and>
     tl_id (nodes v ! k) = i \<and> tl_length (nodes v ! k) = [0 \<mapsto> n] \<and>
     node_with (Some j) (nodes v) = Inr u \<and> u < length (nodes v) \<and> tl_children (nodes v ! u) = [k]"

lemma node_with_same_shape:
  assumes "length ns = length ms" and "\<And>k. k < length ms \<Longrightarrow> tl_id (ns ! k) = tl_id (ms ! k)"
  shows "node_with i ns = node_with i ms"
proof -
  have same: "find (\<lambda>k. Some (tl_id (ns ! k)) = i) xs = find (\<lambda>k. Some (tl_id (ms ! k)) = i) xs"
    if "set xs \<subseteq> {..<length ms}" for xs
    using that assms(2) by (induction xs) auto
  have "set [0..<length ms] \<subseteq> {..<length ms}" by auto
  from same [OF this] show ?thesis using assms(1) by (simp add: node_with_def py_next_def)
qed

lemma nodes_after_def:
  assumes "k < length (nodes v)"
  shows "update_all (set_address g a) ks (nodes v) ! k =
    (if k \<in> set ks then set_address g a (nodes v ! k) else nodes v ! k)"
  using assms by (simp add: update_all_nth updates_idem)

lemma def_then_use:
  assumes c: "checks_def v (uint d div 65536) k n (uint i div 65536) u"
    and frame: "uint i mod 65536 = uint d mod 65536"
  shows "\<exists>loc' w. cbind (verify_entry (event_fields (Def d a)) (loc, al, v)) (verify_entry (event_fields (Use i e))) =
      Inr (loc', (if uint e - uint a > n then al @ [(u, nodes w ! k)] else al), w) \<and>
    nodes w = update_all (set_address (uint d mod 65536) (uint a)) (the (def_map v (uint d div 65536))) (nodes v)"
proof -
  let ?g = "uint d mod 65536"
  obtain ks where ks: "def_map v (uint d div 65536) = Some ks" "k \<in> set ks"
    using c by (auto simp: checks_def_def ver_wf_def node_ok_def object_def_def)
  let ?w = "(count_entry (event_fields (Def d a)) v)\<lparr>nodes := update_all (set_address ?g (uint a)) ks (nodes v)\<rparr>"
  have shape: "tl_id (nodes ?w ! j) = tl_id (nodes v ! j)" "tl_children (nodes ?w ! j) = tl_children (nodes v ! j)"
    if "j < length (nodes v)" for j
    using that by (simp_all add: nodes_after_def set_address_def)
  have u: "node_with (Some (uint i div 65536)) (nodes ?w) = Inr u"
    using c node_with_same_shape [of "nodes ?w" "nodes v"] shape by (simp add: checks_def_def)
  have "used_def ?w u = Inr k"
    using c shape(2) [of u] by (simp add: checks_def_def used_def_def py_nth_def)
  moreover have k: "nodes ?w ! k = set_address ?g (uint a) (nodes v ! k)"
    using c ks(2) by (simp add: checks_def_def nodes_after_def)
  then have "through_ddef ?w k = Inr (Direct k)"
    using c by (simp add: through_ddef_def set_address_def checks_def_def object_def_def)
  moreover have "check_use (nodes ?w ! k) (uint e) (Some (uint i mod 65536)) = Inr (uint e - uint a > n)"
    using c unfolding k frame
    by (simp add: check_use_def get_base_def get_len_def set_address_def checks_def_def object_def_def)
  ultimately show ?thesis
    using verify_def [of d a loc al v] verify_use [of i e loc al ?w] u ks(1)
    by (simp add: py_key_def resolve_def Let_def)
qed

text \<open>The same for a dynamic definition: node \<open>k\<close> has type DDEF and node \<open>c\<close> as its first child.\<close>

definition checks_ddef :: "verifier \<Rightarrow> int \<Rightarrow> nat \<Rightarrow> nat \<Rightarrow> int \<Rightarrow> int \<Rightarrow> nat \<Rightarrow> bool" where
  "checks_ddef v i k c n j u \<longleftrightarrow> ver_wf v \<and> k < length (nodes v) \<and> tl_type (nodes v ! k) = ''DDEF'' \<and>
     tl_id (nodes v ! k) = i \<and> tl_children (nodes v ! k) = [c] \<and> c < length (nodes v) \<and>
     object_def (nodes v ! c) \<and> tl_id (nodes v ! c) \<noteq> i \<and> tl_length (nodes v ! c) = [0 \<mapsto> n] \<and>
     node_with (Some j) (nodes v) = Inr u \<and> u < length (nodes v) \<and> tl_children (nodes v ! u) = [k]"

lemma nodes_after_ddef:
  assumes "k < length (nodes v)"
  shows "update_all (set_dynamic g a n) ks (nodes v) ! k =
    (if k \<in> set ks then set_dynamic g a n (nodes v ! k) else nodes v ! k)"
  using assms by (simp add: update_all_nth updates_idem)

lemma ddef_then_use:
  assumes c: "checks_ddef v (uint d div 65536) k c n (uint i div 65536) u"
    and frame: "uint i mod 65536 = uint d mod 65536"
  shows "\<exists>loc' w t. cbind (verify_entry (event_fields (Ddef d a m)) (loc, al, v)) (verify_entry (event_fields (Use i e))) =
      Inr (loc', (if uint e - uint a > n then al @ [(u, t)] else al), w)"
proof -
  let ?g = "uint d mod 65536"
  obtain ks where ks: "def_map v (uint d div 65536) = Some ks" "k \<in> set ks"
    using c by (auto simp: checks_ddef_def ver_wf_def node_ok_def)
  have "c \<notin> set ks" using c ks(1) by (auto simp: checks_ddef_def ver_wf_def defs_listed_def)
  let ?w = "(count_entry (event_fields (Ddef d a m)) v)\<lparr>nodes :=
      update_all (set_dynamic ?g (uint a) (uint m)) ks (nodes v)\<rparr>"
  have shape: "tl_id (nodes ?w ! j) = tl_id (nodes v ! j)" "tl_children (nodes ?w ! j) = tl_children (nodes v ! j)"
    if "j < length (nodes v)" for j
    using that by (simp_all add: nodes_after_ddef set_dynamic_def)
  have u: "node_with (Some (uint i div 65536)) (nodes ?w) = Inr u"
    using c node_with_same_shape [of "nodes ?w" "nodes v"] shape by (simp add: checks_ddef_def)
  have "used_def ?w u = Inr k"
    using c shape(2) [of u] by (simp add: checks_ddef_def used_def_def py_nth_def)
  moreover have k: "nodes ?w ! k = set_dynamic ?g (uint a) (uint m) (nodes v ! k)"
    using c ks(2) by (simp add: checks_ddef_def nodes_after_ddef)
  moreover have c': "nodes ?w ! c = nodes v ! c"
    using c \<open>c \<notin> set ks\<close> by (simp add: checks_ddef_def nodes_after_ddef)
  ultimately have d: "through_ddef ?w k = Inr (Copied (nodes v ! c) k)"
    using c by (simp add: through_ddef_def set_dynamic_def checks_ddef_def py_nth_def)
  have "check_use (resolve ?w (Copied (nodes v ! c) k)) (uint e) (Some (uint i mod 65536)) =
      Inr (uint e - uint a > n)"
    using c k unfolding frame
    by (simp add: check_use_def get_base_def get_len_def set_dynamic_def checks_ddef_def resolve_def object_def_def)
  then show ?thesis
    using verify_ddef [of d a m loc al v] verify_use [of i e loc al ?w] u ks(1) d \<open>used_def ?w u = Inr k\<close>
    by (auto simp: py_key_def Let_def)
qed

lemma sint_large:
  assumes "2 ^ 31 \<le> uint (d :: u32)"
  shows "sint d = uint d - 2 ^ 32"
proof -
  have u: "uint d < 4294967296" using uint_lt2p [of d] by simp
  have "(uint d + 2147483648) mod 4294967296 = uint d - 2147483648"
  proof -
    have "uint d + 2147483648 = (uint d - 2147483648) + 4294967296" by simp
    then have "(uint d + 2147483648) mod 4294967296 = (uint d - 2147483648) mod 4294967296"
      by (simp only: mod_add_self2)
    also have "\<dots> = uint d - 2147483648" using u assms by (intro mod_pos_pos_trivial) auto
    finally show ?thesis .
  qed
  then show ?thesis
    by (simp add: sint_uint signed_take_bit_eq_take_bit_shift take_bit_eq_mod)
qed
lemma c_run_single: "c_run f [x] s = f x s"
  by (cases "f x s") simp_all

lemma verify_text:
  "verify_input (trace_text es @ infoline) v =
     cbind (c_run verify_entry (map event_fields es) (None, [], v)) (\<lambda>(loc, al, w).
     Inr (al, count_entry [''INFO''] w))"
proof -
  have "cbind (cbind (c_run verify_entry (map event_fields es) s) (verify_entry [''INFO''])) f =
      cbind (c_run verify_entry (map event_fields es) s) (\<lambda>(loc, al, w). f (loc, al, count_entry [''INFO''] w))"
    for s :: loop_state and f :: "loop_state \<Rightarrow> (alarm list \<times> verifier) py"
    unfolding cbind_assoc by (rule cbind_cong [OF refl]) (auto simp: verify_info split: prod.split)
  moreover have "c_run verify_entry [[''INFO'']] = verify_entry [''INFO'']"
    by (rule ext) (rule c_run_single)
  ultimately show ?thesis
    unfolding verify_input_def entries_of_trace c_run_append by (simp add: split_def)
qed

end
