(* ===== verification/Verifier_Props.thy ===== *)
theory Verifier_Props
  imports Verifier_Laws
begin

text \<open>
  The properties of the verifier: the consistency of its store, when a use raises an alarm,
  from the program's reports to the verdict, and the inputs that stop it.
\<close>

section \<open>A static trace\<close>

definition sample_text :: string where
  "sample_text = ''9;SUSE;-1;main;write'' @ [nl] @ ''4;ADEF;9;BASE;16;buf''"
definition sample_store :: verifier where
  "sample_store = verifier_initial\<lparr>nodes :=
    [\<lparr>tl_id = 9, tl_type = ''SUSE'', tl_father = Some (-1), tl_info = ''write'', tl_cls = None,
      tl_length = Map.empty, tl_offset = 0, tl_fun = Some ''main'', tl_children = [1], tl_address = Map.empty\<rparr>,
     \<lparr>tl_id = 4, tl_type = ''ADEF'', tl_father = Some 9, tl_info = ''buf'', tl_cls = Some ''BASE'',
      tl_length = [0 \<mapsto> 16], tl_offset = 0, tl_fun = None, tl_children = [], tl_address = Map.empty\<rparr>],
    def_map := [4 \<mapsto> [1]], static_trace := [0]\<rparr>"
lemma sample_lines: "py_split nl (py_strip sample_text) = [''9;SUSE;-1;main;write'', ''4;ADEF;9;BASE;16;buf'']"
  by (simp add: sample_text_def py_strip_def py_space_def nl_def)
lemma sample_use_line:
  "Trace_line e (py_strip ''9;SUSE;-1;main;write'') = Inr ((nodes sample_store ! 0)\<lparr>tl_children := []\<rparr>)"
  by (simp add: Trace_line_def py_strip_def py_space_def py_nth_def py_number_def py_int_def py_prefix_def digit_val_def
    def_attributes_def use_attributes_def sample_store_def)
lemma sample_def_line: "Trace_line e (py_strip ''4;ADEF;9;BASE;16;buf'') = Inr (nodes sample_store ! 1)"
  by (simp add: Trace_line_def py_strip_def py_space_def py_nth_def py_number_def py_int_def py_prefix_def digit_val_def
    def_attributes_def use_attributes_def sample_store_def)
lemma sample_parses: "trace_parser e sample_text verifier_initial = Inr sample_store"
  unfolding trace_parser_def sample_lines
  by (simp add: parse_line_def sample_use_line sample_def_line)
   (simp add: parse_line_def sample_def_line sample_store_def verifier_initial_def Let_def node_with_def py_next_def add_child_def)
lemma sample_wf: "ver_wf sample_store"
  using trace_parser_wf [OF sample_parses ver_wf_initial] .

lemma sample_checks: "checks_def sample_store 4 1 16 9 0"
  unfolding checks_def_def using sample_wf by (simp add: object_def_def sample_store_def node_with_def py_next_def)

lemma sample_verdict:
  "\<exists>alarms w. verify_input (trace_text [Def 262144 512, Use 589824 e] @ infoline) sample_store = Inr (alarms, w)"
proof -
  obtain loc' w where "cbind (verify_entry (event_fields (Def 262144 512)) (None, [], sample_store))
      (verify_entry (event_fields (Use 589824 e))) =
      Inr (loc', (if uint e - uint (512 :: u32) > 16 then [] @ [(0, nodes w ! 1)] else []), w)"
    using def_then_use [of sample_store 262144 1 16 589824 0 512 None "[]" e] sample_checks by fastforce
  then show ?thesis unfolding verify_text by (auto simp: cbind_eq_Inr)
qed

text \<open>A store with a dynamic definition of a buffer whose static type has 16 bytes.\<close>

definition sample_dynamic_store :: verifier where
  "sample_dynamic_store = verifier_initial\<lparr>nodes :=
    [\<lparr>tl_id = 9, tl_type = ''SUSE'', tl_father = Some (-1), tl_info = ''write'', tl_cls = None,
      tl_length = Map.empty, tl_offset = 0, tl_fun = Some ''main'', tl_children = [1], tl_address = Map.empty\<rparr>,
     \<lparr>tl_id = 4, tl_type = ''DDEF'', tl_father = Some 9, tl_info = ''malloc'', tl_cls = Some ''BASE'',
      tl_length = [0 \<mapsto> -1], tl_offset = 0, tl_fun = None, tl_children = [2], tl_address = Map.empty\<rparr>,
     \<lparr>tl_id = 5, tl_type = ''ADEF'', tl_father = Some 4, tl_info = ''buf'', tl_cls = Some ''BASE'',
      tl_length = [0 \<mapsto> 16], tl_offset = 0, tl_fun = None, tl_children = [], tl_address = Map.empty\<rparr>],
    def_map := [4 \<mapsto> [1], 5 \<mapsto> [2]], static_trace := [0]\<rparr>"

lemma all_less_3: "(\<forall>k < 3. P k) \<longleftrightarrow> P 0 \<and> P 1 \<and> P (2 :: nat)"
  by (auto simp: less_Suc_eq numeral_eq_Suc)

lemma sample_dynamic_checks: "checks_ddef sample_dynamic_store 4 1 2 16 9 0"
proof -
  have "length (nodes sample_dynamic_store) = 3" by (simp add: sample_dynamic_store_def)
  then have "ver_wf sample_dynamic_store"
    unfolding ver_wf_def by (simp add: all_less_3 node_ok_def defs_listed_def)
      (simp add: sample_dynamic_store_def verifier_initial_def)
  then show ?thesis
    unfolding checks_ddef_def by (simp add: object_def_def sample_dynamic_store_def node_with_def py_next_def)
qed

section \<open>Properties\<close>

text \<open>
  C38. The store the verifier builds from a static trace, and keeps while it checks dynamic
  traces, is consistent: a definition is listed under its own identifier, children exist,
  and every definition has a default length, so that a length is never missing.
\<close>

theorem verifier_store_consistent:
  assumes "trace_parser evals static_text verifier_initial = Inr v" and "verify_input trace v = Inr (alarms, w)"
  shows "ver_wf v \<and> ver_wf w"
  using trace_parser_wf [OF assms(1) ver_wf_initial] verify_input_wf [OF assms(2)] by blast

theorem verifier_store_consistent_witness:
  "\<exists>alarms w. verify_input (trace_text [Def 262144 512, Use 589824 520] @ infoline) sample_store = Inr (alarms, w) \<and>
     ver_wf sample_store \<and> ver_wf w"
proof -
  obtain alarms w where "verify_input (trace_text [Def 262144 512, Use 589824 520] @ infoline) sample_store = Inr (alarms, w)"
    using sample_verdict [of 520] by blast
  then show ?thesis using verifier_store_consistent [OF sample_parses] by blast
qed

text \<open>
  End to end, from the program to the verdict: a session that defines a variable of
  static length \<open>n\<close> at address \<open>a\<close> and then writes up to address \<open>e\<close> raises an alarm at the
  verifier exactly when the write ends behind the variable.
\<close>

theorem overflow_detected:
  assumes "optee_transport env code page" and "all_well os" and "d \<noteq> 0" and "i \<noteq> 0" and "d \<noteq> i"
    and "checks_def v (uint d div 65536) k n (uint i div 65536) u" and "uint i mod 65536 = uint d mod 65536"
  shows "\<exists>h s msgs alarms w. cbind (zinit env (host_initial, ta_initial)) (\<lambda>w.
      cbind (c_run (report env mem) [Def d a, Use i e] w) (zexit env)) = Inr (h, s) \<and>
    z_extractor env [\<lparr>parent_gone = True, answers_os = os, secure = s\<rparr>] = Inr [msgs] \<and>
    verify_input (concat msgs) v = Inr (alarms, w) \<and> (alarms \<noteq> [] \<longleftrightarrow> uint a + n < uint e)"
proof -
  have "one_kind [Def d a, Use i e]" using assms(3-5) by (simp add: one_kind_def agree_kind_def)
  then obtain h s where s: "cbind (zinit env (host_initial, ta_initial)) (\<lambda>w.
      cbind (c_run (report env mem) [Def d a, Use i e] w) (zexit env)) = Inr (h, s)"
    "ta_fresh s" "ta_log s = [Def d a, Use i e]"
    using optee_transport.session_log [OF assms(1), of "[Def d a, Use i e]" mem] by auto
  let ?w = "\<lparr>parent_gone = True, answers_os = os, secure = s\<rparr>"
  have "ta_wf (secure ?w)" "all_well (answers_os ?w)" using s(2) assms(2) by (simp_all add: ta_fresh_def)
  from optee_transport.first_round [OF assms(1) this, of "[]"]
  have z: "z_extractor env [?w] = Inr [map c_string (text_lines (trace_text (ta_log s))) @ [infoline]]"
    using fresh_log_half [OF s(2)] s(3) by auto
  obtain loc' w where "cbind (verify_entry (event_fields (Def d a)) (None, [], v)) (verify_entry (event_fields (Use i e))) =
      Inr (loc', (if uint e - uint a > n then [(u, nodes w ! k)] else []), w)"
    using def_then_use [OF assms(6,7), of a None "[]" e] by auto
  then have "verify_input (trace_text [Def d a, Use i e] @ infoline) v =
      Inr (if uint e - uint a > n then [(u, nodes w ! k)] else [], count_entry [''INFO''] w)"
    unfolding verify_text by (auto simp: cbind_eq_Inr)
  then show ?thesis using s(1) z s(3) sent_text by fastforce
qed

theorem overflow_detected_witness:
  "\<exists>h s msgs alarms w. cbind (zinit (direct_optee \<lparr>seconds = 0, millis = 0\<rparr>) (host_initial, ta_initial)) (\<lambda>w.
      cbind (c_run (report (direct_optee \<lparr>seconds = 0, millis = 0\<rparr>) (\<lambda>_. None)) [Def 262144 512, Use 589824 529] w)
        (zexit (direct_optee \<lparr>seconds = 0, millis = 0\<rparr>))) = Inr (h, s) \<and>
    z_extractor (direct_optee \<lparr>seconds = 0, millis = 0\<rparr>)
      [\<lparr>parent_gone = True, answers_os = well_answers, secure = s\<rparr>] = Inr [msgs] \<and>
    verify_input (concat msgs) sample_store = Inr (alarms, w) \<and> (alarms \<noteq> [] \<longleftrightarrow> True)"
  using overflow_detected [OF direct.optee_transport_axioms, of well_answers 262144 589824 sample_store 1 16 0 _
      "\<lambda>_. None" 512 529] sample_checks
  by (simp add: all_well_def well_answers_def)

text \<open>
  The size of a dynamic definition that the program reports never takes part in the
  check: the copy it is checked through keeps the length of the static child, because the
  reported lengths go to an attribute with a misspelt name.
\<close>

theorem dynamic_length_ignored:
  assumes "checks_ddef v (uint d div 65536) k c n (uint i div 65536) u"
    and "uint i mod 65536 = uint d mod 65536"
  shows "\<exists>alarms w. verify_input (trace_text [Ddef d a m, Use i e] @ infoline) v = Inr (alarms, w) \<and>
    (alarms \<noteq> [] \<longleftrightarrow> uint a + n < uint e)"
proof -
  obtain loc' w t where "cbind (verify_entry (event_fields (Ddef d a m)) (None, [], v)) (verify_entry (event_fields (Use i e))) =
      Inr (loc', (if uint e - uint a > n then [] @ [(u, t)] else []), w)"
    using ddef_then_use [OF assms, of a m None "[]" e] by blast
  then have "verify_input (trace_text [Ddef d a m, Use i e] @ infoline) v =
      Inr (if uint e - uint a > n then [(u, t)] else [], count_entry [''INFO''] w)"
    unfolding verify_text by (auto simp: cbind_eq_Inr)
  then show ?thesis by auto
qed

theorem dynamic_length_ignored_witness:
  "\<exists>alarms w. verify_input (trace_text [Ddef 262144 512 8, Use 589824 524] @ infoline) sample_dynamic_store =
      Inr (alarms, w) \<and> (alarms \<noteq> [] \<longleftrightarrow> False)"
  using dynamic_length_ignored [of sample_dynamic_store 262144 1 2 16 589824 0 512 8 524] sample_dynamic_checks
  by simp

text \<open>
  A definition of an identifier the static trace does not have stops the verifier: the
  exception is not caught, and no later entry is checked.
\<close>

theorem unknown_definition_stops_verifier:
  assumes "def_map v (uint d div 65536) = None"
  shows "verify_input (trace_text (Def d a # es) @ infoline) v = Inl KeyError"
  unfolding verify_text using assms by (simp add: verify_def py_key_def del: event_fields.simps)

theorem unknown_definition_stops_verifier_witness:
  "verify_input (trace_text (Def 327680 512 # [Use 589824 529]) @ infoline) sample_store = Inl KeyError"
  by (rule unknown_definition_stops_verifier) (simp add: sample_store_def)

text \<open>
  An indirect use whose definition has an identifier of \<open>32768\<close> or more is printed with
  a sign: the verifier reads a negative identifier, which no definition of the static
  trace has, and stops.
\<close>

theorem large_indirect_definition_stops_verifier:
  assumes "2 ^ 31 \<le> uint d" and "\<And>j. j < 0 \<Longrightarrow> def_map v j = None"
    and "node_with (Some (sint i div 65536)) (nodes v) = Inr u"
  shows "verify_input (trace_text (Iuse i d e # es) @ infoline) v = Inl KeyError"
proof -
  have "sint d = uint d - 2 ^ 32" using assms(1) by (rule sint_large)
  then have "sint d div 65536 < 0" using uint_lt2p [of d] by simp
  then show ?thesis
    unfolding verify_text using assms(2,3) by (simp add: verify_iuse py_key_def del: event_fields.simps)
qed

theorem large_indirect_definition_stops_verifier_witness:
  "verify_input (trace_text (Iuse 589824 2147483648 520 # []) @ infoline) sample_store = Inl KeyError"
  by (rule large_indirect_definition_stops_verifier [where u = 0])
     (simp_all add: sample_store_def node_with_def py_next_def)

text \<open>
  An identifier and a frame counter packed into a word the way the instrumentation
  does it are the pair the verifier unpacks, as far as each fits its half.
\<close>

theorem packed_identifier_unpacked:
  "get_id_var (uint (push_bit 16 i OR (frame AND 0xFFFF) :: u32)) = (uint i mod 65536, uint frame mod 65536)"
proof -
  let ?w = "push_bit 16 i OR (frame AND 0xFFFF) :: u32"
  have F: "(0xFFFF :: u32) = mask 16" by (simp add: mask_eq_exp_minus_1)
  have "drop_bit 16 ?w = take_bit 16 i" "take_bit 16 ?w = take_bit 16 frame"
    unfolding F by (rule bit_word_eqI; auto simp: bit_simps)+
  moreover have "uint (drop_bit 16 w) = uint w div 65536" for w :: u32
    by (subst unsigned_drop_bit_eq) (simp add: drop_bit_eq_div take_bit_int_eq_self uint_lt2p [of w, simplified])
  moreover have "uint (take_bit 16 w) = uint w mod 65536" for w :: u32
    by (subst unsigned_take_bit_eq) (simp add: take_bit_eq_mod)
  ultimately show ?thesis unfolding get_id_var_def by (metis (no_types))
qed

end
