(* ===== verification/Verifier_Report_Props.thy ===== *)
theory Verifier_Report_Props
  imports Verifier_Report Verifier_Props
begin

text \<open>
  Properties of what the verifier does with messages and alarms: how a trace is cut into
  messages does not matter, the report of an alarm adds a line and nothing else, and what it
  finds depends on the digits of an identifier only.
\<close>

section \<open>Entries\<close>

lemma verify_entry_alarms:
  "verify_entry e (loc, al, v) = cbind (verify_entry e (loc, [], v)) (\<lambda>(l, al', v'). Inr (l, al @ al', v'))"
  unfolding verify_entry_def Let_def prod.case cbind_assoc
  by (intro cbind_cong refl) (auto simp: cbind_assoc split: prod.splits option.splits intro!: cbind_cong)

text \<open>An entry that has its own use, or none to check.\<close>

definition known_tag :: "string list \<Rightarrow> bool" where
  "known_tag e \<longleftrightarrow> (py_in ''USE'' (hd e) \<longrightarrow> hd e \<in> {''USE'', ''I-USE''})"

definition agree :: "'e + 'l \<times> 'a \<Rightarrow> 'e + 'l \<times> 'a \<Rightarrow> bool" where
  "agree r s \<longleftrightarrow> rel_sum (=) (\<lambda>x y. snd x = snd y) r s"

lemma entry_locals: "known_tag e \<Longrightarrow> agree (verify_entry e (loc, al, v)) (verify_entry e (loc', al, v))"
proof (cases "py_in ''USE'' (hd e)")
  case True
  assume "known_tag e"
  then have "hd e \<in> {''USE'', ''I-USE''}" using True by (simp add: known_tag_def)
  then have "verify_entry e (loc, al, v) = verify_entry e (loc', al, v)" by (auto simp: verify_entry_def)
  then show ?thesis by (cases "verify_entry e (loc', al, v)") (simp_all add: agree_def)
next
  case False
  then have tags: "hd e \<noteq> ''USE''" "hd e \<noteq> ''I-USE''" using tags(3,4) by metis+
  define X where "X = cbind (if hd e = ''TRACE'' then cbind (py_nth e 1) (\<lambda>x. Inr (v\<lparr>current_trace := Some x\<rparr>)) else Inr v)
    (\<lambda>w. if hd e = ''DEF'' then do_def e (count_entry e w)
      else if hd e = ''DDEF'' then do_ddef e (count_entry e w) else Inr (count_entry e w))"
  have "verify_entry e (loc, al, v) = cbind X (\<lambda>w. Inr (loc, al, w))" for loc
    using False tags by (simp add: X_def verify_entry_def Let_def cbind_assoc del: py_in.simps cong: if_cong)
  then show ?thesis by (cases X) (simp_all add: agree_def)
qed

text \<open>The effect of an entry without the locals of the loop, which no known entry needs.\<close>

definition entry_step :: "llvm_text \<Rightarrow> string list \<Rightarrow> verifier \<Rightarrow> (string list \<times> alarm list \<times> verifier) py" where
  "entry_step M e v = cbind (report_entry M e ((None, [], v), [])) (\<lambda>((l, al, w), out). Inr (out, al, w))"

definition add_entry ::
    "llvm_text \<Rightarrow> string list \<Rightarrow> string list \<times> alarm list \<times> verifier \<Rightarrow> (string list \<times> alarm list \<times> verifier) py" where
  "add_entry M e st = (case st of (out, al, v) \<Rightarrow>
     cbind (entry_step M e v) (\<lambda>(out', al', w). Inr (out @ out', al @ al', w)))"

lemma report_entry_step:
  assumes "known_tag e"
  shows "cbind (report_entry M e ((loc, al, v), out)) (\<lambda>((l, al, w), out). Inr (out, al, w)) = add_entry M e (out, al, v)"
proof (cases "verify_entry e (None, [], v)")
  case (Inl x)
  then have "verify_entry e (loc, [], v) = Inl x"
    using entry_locals [OF assms, of loc "[]" v None] by (cases "verify_entry e (loc, [], v)") (simp_all add: agree_def)
  then have "verify_entry e (loc, al, v) = Inl x" using verify_entry_alarms [of e loc al v] by simp
  then show ?thesis using Inl by (simp add: report_entry_def add_entry_def entry_step_def)
next
  case (Inr r)
  obtain l al' w where r: "r = (l, al', w)" by (cases r)
  obtain l' where "verify_entry e (loc, [], v) = Inr (l', al', w)"
    using entry_locals [OF assms, of loc "[]" v None] Inr r by (cases "verify_entry e (loc, [], v)") (auto simp: agree_def)
  then have "verify_entry e (loc, al, v) = Inr (l', al @ al', w)" using verify_entry_alarms [of e loc al v] by simp
  then show ?thesis
    using Inr r by (cases "al' = []"; cases "report_alarm M w (last al')")
      (simp_all add: report_entry_def add_entry_def entry_step_def)
qed

lemma report_entries:
  assumes "\<forall>e \<in> set es. known_tag e"
  shows "cbind (c_run (report_entry M) es ((loc, al, v), out)) (\<lambda>((l, al, w), out). Inr (out, al, w)) =
    c_run (add_entry M) es (out, al, v)"
  using assms
proof (induction es arbitrary: loc al v out)
  case (Cons e es)
  note step = report_entry_step [of e M loc al v out]
  show ?case
  proof (cases "report_entry M e ((loc, al, v), out)")
    case (Inl x)
    then have "add_entry M e (out, al, v) = Inl x" using step Cons.prems by simp
    then show ?thesis using Inl by simp
  next
    case (Inr r)
    obtain l al' w out' where r: "r = ((l, al', w), out')" by (cases r) auto
    then have "add_entry M e (out, al, v) = Inr (out', al', w)" using step Inr Cons.prems by simp
    then show ?thesis using Inr r Cons by simp
  qed
qed simp

lemma reporting_entries:
  "\<forall>e \<in> set (py_entries t). known_tag e \<Longrightarrow> verify_reporting M t v = c_run (add_entry M) (py_entries t) ([], [], v)"
  using report_entries [of "py_entries t" M None "[]" v "[]"] by (simp add: verify_reporting_def)

lemma add_entries_shift:
  "c_run (add_entry M) es (out, al, v) =
    cbind (c_run (add_entry M) es ([], [], v)) (\<lambda>(out', al', w). Inr (out @ out', al @ al', w))"
proof (induction es arbitrary: out al v)
  case (Cons e es)
  show ?case
  proof (cases "entry_step M e v")
    case (Inr r)
    obtain out1 al1 v1 where r: "r = (out1, al1, v1)" by (cases r)
    then have "add_entry M e (out, al, v) = Inr (out @ out1, al @ al1, v1)" "add_entry M e ([], [], v) = Inr (out1, al1, v1)"
      using Inr by (simp_all add: add_entry_def)
    then show ?thesis
      using Cons.IH [of "out @ out1" "al @ al1" v1] Cons.IH [of out1 al1 v1]
      by (cases "c_run (add_entry M) es ([], [], v1)") auto
  qed (simp add: add_entry_def)
qed simp

section \<open>Messages\<close>

text \<open>A message that holds whole lines and ends with a line break, as those of the host do.\<close>

definition whole_lines :: "string \<Rightarrow> bool" where
  "whole_lines m \<longleftrightarrow> m \<noteq> [] \<and> last m = nl \<and> butlast m \<noteq> [] \<and> \<not> py_space (hd m) \<and> \<not> py_space (last (butlast m))"

lemma nl_space: "py_space nl"
  by (simp add: py_space_def nl_def)

lemma whole_strip: "whole_lines m \<Longrightarrow> py_strip m = butlast m"
proof -
  assume m: "whole_lines m"
  then have "m = butlast m @ [nl]" unfolding whole_lines_def by (metis append_butlast_last_id)
  moreover have "hd (butlast m) = hd m" using m by (cases m) (auto simp: whole_lines_def split: if_splits)
  ultimately show ?thesis
    using strip_ends [of "butlast m" "[]" "[nl]"] m nl_space by (simp add: whole_lines_def)
qed

lemma split_at: "py_split c (a @ c # b) = py_split c a @ py_split c b"
proof (induction a)
  case (Cons x a)
  then show ?case by (cases "py_split c a") (auto split: list.splits)
qed simp

lemma entries_cons:
  assumes "whole_lines m" and "ms \<noteq> []" and "\<forall>m \<in> set ms. whole_lines m"
  shows "py_entries (m @ concat ms) = py_entries m @ py_entries (concat ms)"
proof -
  have last: "whole_lines (concat ms)" if "ms \<noteq> []" "\<forall>m \<in> set ms. whole_lines m" for ms
    using that
  proof (induction ms)
    case (Cons m ms)
    show ?case
    proof (cases "ms = []")
      case False
      then have "whole_lines (concat ms)" using Cons by simp
      moreover have "whole_lines m" using Cons.prems by simp
      ultimately show ?thesis by (auto simp: whole_lines_def butlast_append)
    qed (use Cons.prems in simp)
  qed simp
  let ?r = "concat ms"
  have r: "whole_lines ?r" by (rule last [OF assms(2,3)])
  have m: "m = butlast m @ [nl]" using assms(1) unfolding whole_lines_def by (metis append_butlast_last_id)
  have "whole_lines (m @ ?r)" using assms(1) r by (auto simp: whole_lines_def butlast_append)
  then have "py_strip (m @ ?r) = butlast m @ nl # butlast ?r"
    using whole_strip [of "m @ ?r"] r m by (metis append.assoc append_Cons append_Nil butlast_append whole_lines_def)
  then show ?thesis
    by (simp add: py_entries_def split_at whole_strip assms(1) r)
qed

lemma entries_concat: "\<forall>m \<in> set ms. whole_lines m \<Longrightarrow> py_entries (concat ms) = concat (map py_entries ms)"
proof (induction ms)
  case Nil
  then show ?case by (simp add: py_entries_def py_strip_def)
next
  case (Cons m ms)
  then show ?case using entries_cons [of m ms] by (cases "ms = []") simp_all
qed

lemma serve_entries:
  assumes "\<forall>ds \<in> set conns. \<forall>e \<in> set (py_entries (received ds)). known_tag e"
  shows "c_run (\<lambda>ds (out, al, v). cbind (verify_reporting M (received ds) v) (\<lambda>(out', al', w). Inr (out @ out', al @ al', w))) conns (out, al, v) =
    c_run (add_entry M) (concat (map (\<lambda>ds. py_entries (received ds)) conns)) (out, al, v)"
  using assms
proof (induction conns arbitrary: out al v)
  case (Cons ds conns)
  have r: "verify_reporting M (received ds) v = c_run (add_entry M) (py_entries (received ds)) ([], [], v)"
    by (rule reporting_entries) (use Cons.prems in simp)
  show ?case
    unfolding list.map concat.simps c_run_append c_run.simps add_entries_shift [of M "py_entries (received ds)" out al v] r prod.case
    using Cons by (auto simp: cbind_assoc intro!: cbind_cong split: prod.splits)
qed simp

section \<open>Reports\<close>

text \<open>Verifying changes addresses and lengths; what the report of an alarm looks at stays.\<close>

definition same_program :: "verifier \<Rightarrow> verifier \<Rightarrow> bool" where
  "same_program v w \<longleftrightarrow> def_map w = def_map v \<and> length (nodes w) = length (nodes v) \<and>
     (\<forall>k < length (nodes v). tl_id (nodes w ! k) = tl_id (nodes v ! k) \<and> tl_type (nodes w ! k) = tl_type (nodes v ! k) \<and>
        tl_info (nodes w ! k) = tl_info (nodes v ! k) \<and> tl_fun (nodes w ! k) = tl_fun (nodes v ! k))"

lemma same_program_refl: "same_program v v"
  by (simp add: same_program_def)

lemma same_program_trans: "same_program u v \<Longrightarrow> same_program v w \<Longrightarrow> same_program u w"
  by (simp add: same_program_def)

lemma same_program_frame [simp]:
  "same_program v (count_entry e w) = same_program v w" "same_program v (w\<lparr>current_trace := x\<rparr>) = same_program v w"
  by (simp_all add: same_program_def)

lemma same_program_update:
  assumes "\<And>t. f (f t) = f t" and "\<And>t. tl_id (f t) = tl_id t \<and> tl_type (f t) = tl_type t \<and> tl_info (f t) = tl_info t \<and> tl_fun (f t) = tl_fun t"
  shows "same_program v (v\<lparr>nodes := update_all f ks (nodes v)\<rparr>)"
  using assms by (simp add: same_program_def update_all_nth)

lemma do_def_program: "do_def e v = Inr w \<Longrightarrow> same_program v w"
  by (auto simp: do_def_def get_id_var_def cbind_eq_Inr set_address_def intro!: same_program_update)

lemma do_ddef_program: "do_ddef e v = Inr w \<Longrightarrow> same_program v w"
  by (auto simp: do_ddef_def get_id_var_def cbind_eq_Inr set_dynamic_def fun_eq_iff intro!: same_program_update trace_line.equality)

lemma verify_entry_result:
  assumes "verify_entry e (loc, al, v) = Inr (loc', al', w)"
  shows "same_program v w \<and> (al' = al \<or> (\<exists>a. al' = al @ [a]))"
proof -
  obtain v1 v3 g l where v1: "(if hd e = ''TRACE''
       then cbind (py_nth e 1) (\<lambda>x. Inr (v\<lparr>current_trace := Some x\<rparr>)) else Inr v) = Inr v1"
    and v3: "(if hd e = ''DEF'' then do_def e (count_entry e v1)
       else if hd e = ''DDEF'' then do_ddef e (count_entry e v1) else Inr (count_entry e v1)) = Inr v3"
    and r: "(if py_in ''USE'' (hd e) then (case l of None \<Rightarrow> Inl UnboundLocalError
        | Some (d, u, end_addr) \<Rightarrow> cbind (check_use (resolve v3 d) end_addr g) (\<lambda>bad.
            Inr (l, if bad then al @ [(u, resolve v3 d)] else al, v3)))
      else Inr (l, al, v3)) = Inr (loc', al', w)"
    using assms unfolding verify_entry_def Let_def by (auto simp: cbind_eq_Inr)
  have a: "same_program v v1" using v1 by (auto simp: cbind_eq_Inr same_program_refl split: if_splits)
  have "same_program (count_entry e v1) v3"
    using v3 do_def_program do_ddef_program by (auto simp: same_program_refl split: if_splits)
  then have "same_program v1 v3" by (simp add: same_program_def)
  moreover have "w = v3 \<and> (al' = al \<or> (\<exists>a. al' = al @ [a]))"
    using r by (auto simp: cbind_eq_Inr split: if_splits option.splits)
  ultimately show ?thesis using same_program_trans [OF a] by blast
qed

lemma report_fails: "report_alarm M v a = Inl e \<Longrightarrow> e = AttributeError"
  by (auto simp: report_alarm_def violation_text_def split: prod.splits if_splits option.splits)

lemma reporting_run:
  "(case c_run (report_entry M) es ((loc, al, v), out) of
      Inl e \<Rightarrow> c_run verify_entry es (loc, al, v) = Inl e \<or> e = AttributeError
    | Inr ((loc', al', w), out') \<Rightarrow> c_run verify_entry es (loc, al, v) = Inr (loc', al', w) \<and>
        (\<exists>ts bs. out' = out @ ts \<and> al' = al @ bs \<and>
           list_all2 (\<lambda>text a. \<exists>u. same_program v u \<and> report_alarm M u a = Inr text) ts bs))"
proof (induction es arbitrary: loc al v out)
  case (Cons e es)
  show ?case
  proof (cases "verify_entry e (loc, al, v)")
    case (Inl x)
    then show ?thesis by (simp add: report_entry_def)
  next
    case (Inr r)
    obtain loc1 al1 v1 where r: "r = (loc1, al1, v1)" by (cases r)
    have v1: "same_program v v1" "al1 = al \<or> (\<exists>a. al1 = al @ [a])" using verify_entry_result Inr r by blast+
    have weaker: "list_all2 (\<lambda>text a. \<exists>u. same_program v u \<and> report_alarm M u a = Inr text) ts bs"
      if "list_all2 (\<lambda>text a. \<exists>u. same_program v1 u \<and> report_alarm M u a = Inr text) ts bs" for ts bs
      using that by (rule list_all2_mono) (use same_program_trans [OF v1(1)] in blast)
    from v1(2) show ?thesis
    proof
      assume "al1 = al"
      then have "c_run (report_entry M) (e # es) ((loc, al, v), out) = c_run (report_entry M) es ((loc1, al, v1), out)"
        using Inr r by (simp add: report_entry_def)
      then show ?thesis
        using Cons.IH [of loc1 al v1 out] Inr r \<open>al1 = al\<close> weaker by (auto split: sum.splits prod.splits)
    next
      assume "\<exists>a. al1 = al @ [a]"
      then obtain a where a: "al1 = al @ [a]" ..
      show ?thesis
      proof (cases "report_alarm M v1 a")
        case (Inl x)
        then show ?thesis using Inr r a report_fails [OF Inl] by (simp add: report_entry_def)
      next
        case ok: (Inr t)
        then have run: "c_run (report_entry M) (e # es) ((loc, al, v), out) = c_run (report_entry M) es ((loc1, al @ [a], v1), out @ [t])"
          using Inr r a by (simp add: report_entry_def)
        show ?thesis
        proof (cases "c_run (report_entry M) es ((loc1, al @ [a], v1), out @ [t])")
          case Inl': (Inl x)
          then show ?thesis using Cons.IH [of loc1 "al @ [a]" v1 "out @ [t]"] run Inr r a by simp
        next
          case Inr': (Inr s)
          obtain loc' al' w out' where s: "s = ((loc', al', w), out')" by (cases s) auto
          obtain ts bs where "c_run verify_entry es (loc1, al @ [a], v1) = Inr (loc', al', w)" "out' = (out @ [t]) @ ts"
            "al' = (al @ [a]) @ bs" "list_all2 (\<lambda>text a. \<exists>u. same_program v1 u \<and> report_alarm M u a = Inr text) ts bs"
            using Cons.IH [of loc1 "al @ [a]" v1 "out @ [t]"] Inr' s by auto
          then show ?thesis
            using run Inr r a Inr' s ok v1(1) weaker by (auto intro!: exI [of _ "t # ts"] exI [of _ "a # bs"])
        qed
      qed
    qed
  qed
qed simp

section \<open>Searching by digits\<close>

lemma py_in_iff: "py_in s t \<longleftrightarrow> (\<exists>a b. t = a @ s @ b)"
proof (induction t)
  case Nil
  then show ?case by simp
next
  case (Cons x t)
  have "take (length s) (x # t) = s \<longleftrightarrow> (\<exists>b. x # t = s @ b)"
    by (metis append_eq_conv_conj append_take_drop_id)
  then show ?case using Cons
    by (auto simp: Cons_eq_append_conv)
qed

lemma py_in_trans: "py_in a b \<Longrightarrow> py_in b c \<Longrightarrow> py_in a c"
  unfolding py_in_iff by (metis append.assoc)

lemma defines_digits: "py_in (int_text i) (int_text j) \<Longrightarrow> defines_id j ref x \<Longrightarrow> defines_id i ref x"
  unfolding defines_id_def using py_in_trans by blast

lemma tagged_digits:
  assumes "py_in (int_text i) (int_text j)" and "tagged_with M j l"
  shows "tagged_with M i l"
proof -
  obtain name ref x where name: "name \<in> set metadata_types" "metadata_ref l name = Some ref"
    and x: "x \<in> set (lt_lines M)" "defines_id j ref x"
    using assms(2) unfolding tagged_with_def list_ex_iff by (auto split: option.splits)
  have "list_ex (defines_id i ref) (lt_lines M)"
    using x defines_digits [OF assms(1)] unfolding list_ex_iff by blast
  then show ?thesis unfolding tagged_with_def list_ex_iff by (intro bexI [OF _ name(1)]) (simp add: name(2) list_ex_iff)
qed

lemma first_some_None: "first_some f xs = None \<longleftrightarrow> (\<forall>x \<in> set xs. f x = None)"
  by (induction xs) (simp_all split: option.splits)

lemma find_digits:
  assumes "py_in (int_text i) (int_text j)" and "find_instr M i = None"
  shows "find_instr M j = None"
proof -
  note less = tagged_digits [OF assms(1), of M]
  have g: "find (tagged_with M i) (lt_globals M) = None"
    and f: "\<forall>f \<in> set (lt_functions M). \<forall>l \<in> set (lf_lines f). find_in_line M i f l = None"
    using assms(2) by (auto simp: find_instr_def first_some_None split: option.splits)
  have "find (tagged_with M j) (lt_globals M) = None" using g less unfolding find_None_iff by blast
  moreover have "find_in_line M j f l = None" if "f \<in> set (lt_functions M)" "l \<in> set (lf_lines f)" for f l
    using f that less [of l] by (fastforce simp: find_in_line_def split: if_splits)
  ultimately show ?thesis by (simp add: find_instr_def first_some_None)
qed


section \<open>Properties\<close>

lemma concat_pieces: "concat (concat pss) = concat (map concat pss)"
  by (induction pss) simp_all

lemma nth_beyond: "length xs \<le> k \<Longrightarrow> xs ! k = [] ! (k - length xs)"
proof (induction xs arbitrary: k)
  case (Cons x xs)
  then show ?case by (cases k) simp_all
qed simp

lemma same_fields:
  assumes "same_program v u"
  shows "tl_id (nodes u ! k) = tl_id (nodes v ! k)" "tl_info (nodes u ! k) = tl_info (nodes v ! k)"
    "tl_fun (nodes u ! k) = tl_fun (nodes v ! k)"
  using assms nth_beyond [of "nodes u" k] nth_beyond [of "nodes v" k]
  by (cases "k < length (nodes v)"; simp add: same_program_def)+

lemma same_order:
  assumes "same_program v u"
  shows "dict_order u = dict_order v"
proof -
  have pairs: "map (\<lambda>t. (tl_id t, tl_type t)) (nodes u) = map (\<lambda>t. (tl_id t, tl_type t)) (nodes v)"
    using assms by (intro nth_equalityI) (simp_all add: same_program_def)
  have ids: "map tl_id (filter (\<lambda>t. py_in ''DEF'' (tl_type t)) ts) =
      map fst (filter (\<lambda>p. py_in ''DEF'' (snd p)) (map (\<lambda>t. (tl_id t, tl_type t)) ts))" for ts
    by (simp add: filter_map comp_def)
  show ?thesis using assms unfolding dict_order_def ids pairs by (simp add: same_program_def)
qed

lemma same_report: "same_program v u \<Longrightarrow> report_alarm M u a = report_alarm M v a"
proof -
  assume same: "same_program v u"
  then have "find_def M u = find_def M v" by (intro ext) (simp add: find_def_def same_fields same_order cong: if_cong)
  then show ?thesis using same by (cases a) (simp add: report_alarm_def same_fields cong: if_cong option.case_cong)
qed

lemma same_reports:
  "list_all2 (\<lambda>text a. \<exists>u. same_program v u \<and> report_alarm M u a = Inr text) out al \<Longrightarrow>
    map (report_alarm M v) al = map Inr out"
  by (induction rule: list_all2_induct) (auto simp: same_report)

text \<open>A module with the buffer and the use of the sample, and the two messages of an overflow.\<close>

definition sample_module :: llvm_text where
  "sample_module = \<lparr>lt_lines = [''@buf = global [16 x i8] 0, !zdef !7'', ''call void @write(), !zsuse !8'', ''!7 = !{!4}'', ''!8 = !{!9}''],
     lt_globals = [''@buf = global [16 x i8] 0, !zdef !7''],
     lt_functions = [\<lparr>lf_name = ''main'', lf_lines = [''call void @write(), !zsuse !8''],
       lf_instrs = [[''call void @write(), !zsuse !8'']]\<rparr>]\<rparr>"

definition sample_pieces :: "string list list" where
  "sample_pieces = [[''DEF|2621'', ''44|200'' @ [nl]], [''USE|589824|211'' @ [nl]]]"

text \<open>
  Reporting does not interfere with verifying: as long as every report can be written,
  the alarms and the state are those of verifying alone, and what is printed are the
  reports of the alarms in their order, read off the program the verifier started with. The
  only new way to stop is the report of an alarm that fails.
\<close>

theorem reporting_adds_lines:
  "case verify_reporting M trace v of
     Inl e \<Rightarrow> verify_input trace v = Inl e \<or> e = AttributeError
   | Inr (out, alarms, w) \<Rightarrow> verify_input trace v = Inr (alarms, w) \<and> map (report_alarm M v) alarms = map Inr out"
  using reporting_run [where M = M and es = "py_entries trace" and loc = None and al = "[]" and v = v and out = "[]"]
  by (auto simp: verify_reporting_def verify_input_def same_reports split: sum.splits)

text \<open>
  C39. How a trace is cut does not matter: whatever non-empty pieces the connection delivers,
  and however many messages of whole lines the host sends, as long as every tag that
  contains USE is USE or I-USE, the verifier prints, raises and keeps what it does for the
  whole trace in one message.
\<close>

theorem messages_joined:
  assumes "\<forall>ps \<in> set pss. [] \<notin> set ps \<and> whole_lines (concat ps) \<and> (\<forall>e \<in> set (py_entries (concat ps)). known_tag e)"
  shows "serve M (map (\<lambda>ps. ps @ [[]]) pss) v = verify_reporting M (concat (concat pss)) v"
proof -
  have whole: "received (ps @ [[]]) = concat ps" if "[] \<notin> set ps" for ps
  proof -
    have "takeWhile (\<lambda>d. d \<noteq> []) (ps @ [[]]) = ps"
      using that by (subst takeWhile_append2) auto
    then show ?thesis by (simp add: received_def)
  qed
  have parts: "map (\<lambda>ds. py_entries (received ds)) (map (\<lambda>ps. ps @ [[]]) pss) = map py_entries (map concat pss)"
    using assms whole by simp
  have all: "py_entries (concat (concat pss)) = concat (map py_entries (map concat pss))"
    using entries_concat [of "map concat pss"] assms by (simp add: concat_pieces)
  have "serve M (map (\<lambda>ps. ps @ [[]]) pss) v = c_run (add_entry M) (concat (map py_entries (map concat pss))) ([], [], v)"
    unfolding serve_def parts [symmetric] by (rule serve_entries) (use assms whole in auto)
  also have "\<dots> = verify_reporting M (concat (concat pss)) v"
    unfolding all [symmetric] by (rule reporting_entries [symmetric]) (use all assms in auto)
  finally show ?thesis .
qed

theorem messages_joined_witness:
  "serve sample_module (map (\<lambda>ps. ps @ [[]]) sample_pieces) sample_store =
     verify_reporting sample_module (concat (concat sample_pieces)) sample_store"
  by (rule messages_joined) code_simp

text \<open>
  The identifier of an instruction is searched as a run of digits: whenever the digits of
  one identifier are part of another's, an instruction that carries the other is enough for
  the first to be found, whether any instruction carries the first or not.
\<close>

theorem search_by_digits:
  assumes "py_in (int_text i) (int_text j)" and "find_instr M j \<noteq> None"
  shows "find_instr M i \<noteq> None"
  using find_digits [OF assms(1), of M] assms(2) by metis

theorem search_by_digits_witness:
  "find_instr (sample_module\<lparr>lt_lines := [''!7 = !{!12}'']\<rparr>) 1 \<noteq> None"
  by (rule search_by_digits [of 1 12]) code_simp+

end
