(* ===== verification/Call_Chain.thy ===== *)
theory Call_Chain
  imports TEE_Types
begin

text \<open>
  The call-chain application libzbouncer/ta/libzbouncer_ta.c: a linked stack of return
  addresses in the trusted application's heap, with a command for the entry and one for
  the exit of a function. The heap is the list of the nodes allocated so far (a node's
  address is its index): the code never releases one, since it clears the pointer before
  it calls \<open>free\<close>. How many nodes fit the heap is the argument \<open>cap\<close>.
\<close>

section \<open>State\<close>

record node_t =
  lbr :: u32
  nd_next :: "nat option"

record stack_t =
  st_top :: "nat option"
  st_size :: int

text \<open>A line of the log: its format and its arguments.\<close>

type_synonym imsg = "string \<times> u32 list"

record cc_state =
  calls :: "stack_t option"
  nodes :: "node_t list"
  cc_log :: "imsg list"

definition cc_initial :: cc_state where
  "cc_initial = \<lparr>calls = None, nodes = [], cc_log = []\<rparr>"

definition imsg :: "string \<Rightarrow> u32 list \<Rightarrow> cc_state \<Rightarrow> cc_state" where
  "imsg fmt args s = s\<lparr>cc_log := cc_log s @ [(fmt, args)]\<rparr>"

definition node_at :: "cc_state \<Rightarrow> nat option \<Rightarrow> node_t c" where
  "node_at s p = cbind (c_deref p) (\<lambda>a. c_read (nodes s) (int a))"

section \<open>The stack\<close>

definition stack_init :: "cc_state \<Rightarrow> cc_state c" where
  "stack_init s = cbind (c_deref (calls s)) (\<lambda>st.
     Inr (s\<lparr>calls := Some (st\<lparr>st_top := None, st_size := 0\<rparr>)\<rparr>))"

definition stack_push :: "nat \<Rightarrow> u32 \<Rightarrow> cc_state \<Rightarrow> cc_state c" where
  "stack_push cap data s =
     cbind (c_deref (calls s)) (\<lambda>st.
     if length (nodes s) < cap
     then let node = \<lparr>lbr = data, nd_next = (if st_top st = None then None else st_top st)\<rparr> in
          cbind (c_incr (st_size st)) (\<lambda>n.
          Inr (s\<lparr>nodes := nodes s @ [node],
                 calls := Some (st\<lparr>st_top := Some (length (nodes s)), st_size := n\<rparr>)\<rparr>))
     else Inl Null_Deref)"

definition c_decr :: "int \<Rightarrow> int c" where
  "c_decr i = (if - INT_MAX - 1 < i then Inr (i - 1) else Inl Signed_Overflow)"

text \<open>
  The pop clears the link of the node it takes off and leaves it allocated. The function
  has no return statement on any path.
\<close>

definition stack_pop :: "cc_state \<Rightarrow> cc_state c" where
  "stack_pop s =
     cbind (c_deref (calls s)) (\<lambda>st.
     if st_size st \<noteq> 0
     then cbind (c_deref (st_top st)) (\<lambda>a.
          cbind (c_read (nodes s) (int a)) (\<lambda>tmp.
          cbind (c_write (nodes s) (int a) (tmp\<lparr>nd_next := None\<rparr>)) (\<lambda>ns.
          cbind (c_decr (st_size st)) (\<lambda>n.
          Inr (s\<lparr>nodes := ns, calls := Some (st\<lparr>st_top := nd_next tmp, st_size := n\<rparr>)\<rparr>)))))
     else Inr s)"

definition stack_head :: "cc_state \<Rightarrow> nat option c" where
  "stack_head s = cbind (c_deref (calls s)) (\<lambda>st. Inr (st_top st))"

partial_function (option) walk_nodes :: "nat option \<Rightarrow> cc_state \<Rightarrow> cc_state c option" where
  "walk_nodes n s =
     (case n of
        None \<Rightarrow> Some (Inr s)
      | Some a \<Rightarrow>
          (case c_read (nodes s) (int a) of
             Inl e \<Rightarrow> Some (Inl e)
           | Inr nd \<Rightarrow> walk_nodes (nd_next nd) (imsg ''0x%08x'' [lbr nd] s)))"

definition print_nodes :: "nat option \<Rightarrow> cc_state \<Rightarrow> cc_state c" where
  "print_nodes n s = (case walk_nodes n s of None \<Rightarrow> Inl Diverges | Some r \<Rightarrow> r)"

definition print_stack :: "cc_state \<Rightarrow> cc_state c" where
  "print_stack s =
     cbind (c_deref (calls s)) (\<lambda>st.
     cbind (if st_top st \<noteq> None
            then print_nodes (st_top st) (imsg ''--- call chain: %d ---'' [word_of_int (st_size st)] s)
            else Inr (imsg ''Stack empty'' [] (imsg ''--- call chain: %d ---'' [word_of_int (st_size st)] s)))
       (\<lambda>s'. Inr (imsg ''----------------------'' [] s')))"

definition violation :: "u32 \<Rightarrow> u32 \<Rightarrow> cc_state \<Rightarrow> cc_state c" where
  "violation right wrong s =
     (let s1 = imsg ''***********************'' [] (imsg ''****** VIOLATION ******'' []
                 (imsg ''***********************'' [] s));
          s2 = imsg ''RA mismatch, the function is trying to return to 0x%x instead of 0x%x''
                 [wrong, right] s1 in
      cbind (print_stack s2) (\<lambda>s3. Inr (imsg ''Halt'' [] s3)))"

section \<open>Entry points\<close>

text \<open>
  Opening a session allocates a new stack. \<open>room\<close> says whether the allocation succeeds; its
  result is not checked. An open session's stack, if there was one, is forgotten.
\<close>

type_synonym cc_result = "(tee_result \<times> tee_param \<times> cc_state) c"

definition cc_open_session :: "bool \<Rightarrow> tee_ptypes \<Rightarrow> tee_param \<Rightarrow> cc_state \<Rightarrow> cc_result" where
  "cc_open_session room param_types p s =
     (if param_types \<noteq> TEE_PARAM_TYPES TEE_PARAM_TYPE_NONE TEE_PARAM_TYPE_NONE
           TEE_PARAM_TYPE_NONE TEE_PARAM_TYPE_NONE
      then Inr (TEE_ERROR_BAD_PARAMETERS, p, s)
      else cbind (stack_init (s\<lparr>calls := (if room then Some \<lparr>st_top = None, st_size = 0\<rparr> else None)\<rparr>))
             (\<lambda>s'. Inr (TEE_SUCCESS, p, s')))"

definition zbouncer_entry :: "nat \<Rightarrow> tee_ptypes \<Rightarrow> tee_param \<Rightarrow> cc_state \<Rightarrow> cc_result" where
  "zbouncer_entry cap param_types p s =
     (if param_types \<noteq> TEE_PARAM_TYPES TEE_PARAM_TYPE_VALUE_INOUT TEE_PARAM_TYPE_NONE
           TEE_PARAM_TYPE_NONE TEE_PARAM_TYPE_NONE
      then Inr (TEE_ERROR_BAD_PARAMETERS, p, s)
      else cbind (get_value p) (\<lambda>(a, b).
           cbind (stack_push cap a s) (\<lambda>s'.
           Inr (TEE_SUCCESS, p, imsg ''[Entry] Get entry point: %x from NW'' [a] s'))))"

text \<open>
  The exit compares the caller's return address with the top of the stack. It then tests
  the value of \<open>stack_pop\<close>, which returns none: \<open>pop_value\<close> is what the compiled code finds
  there (whether it differs from NULL).
\<close>

definition zbouncer_exit :: "bool \<Rightarrow> tee_ptypes \<Rightarrow> tee_param \<Rightarrow> cc_state \<Rightarrow> cc_result" where
  "zbouncer_exit pop_value param_types p s =
     (if param_types \<noteq> TEE_PARAM_TYPES TEE_PARAM_TYPE_VALUE_INOUT TEE_PARAM_TYPE_NONE
           TEE_PARAM_TYPE_NONE TEE_PARAM_TYPE_NONE
      then Inr (TEE_ERROR_BAD_PARAMETERS, p, s)
      else
        cbind (stack_head s) (\<lambda>head.
        if head = None
        then Inr (TEE_ERROR_SECURITY, p, imsg ''head is NULL'' [] s)
        else
          cbind (node_at s head) (\<lambda>nd.
          let ra = lbr nd in
          cbind (get_value p) (\<lambda>(a, b).
          if a = lbr nd
          then cbind (stack_pop s) (\<lambda>s1.
               if pop_value
               then Inr (TEE_SUCCESS, p, imsg
                 ''[Exit] Call-returned securely | on-stack-ra: 0x%x | stored-ra: 0x%x'' [a, ra] s1)
               else cbind (node_at s1 head) (\<lambda>nd1.
                    cbind (violation (lbr nd1) a (imsg
                      ''[Violation] Has been triggered a return but the stack is empty'' [] s1)) (\<lambda>s2.
                    Inr (TEE_SUCCESS, Value a 0xFFFFFFFF, s2))))
          else cbind (violation (lbr nd) a (imsg
                 ''[Violation] An invalid exit path has been triggered'' [] s)) (\<lambda>s1.
               Inr (TEE_SUCCESS, Value a 0xFFFFFFFF, s1))))))"

definition zbouncer_dump :: "tee_ptypes \<Rightarrow> tee_param \<Rightarrow> cc_state \<Rightarrow> cc_result" where
  "zbouncer_dump param_types p s =
     (if param_types \<noteq> TEE_PARAM_TYPES TEE_PARAM_TYPE_VALUE_INOUT TEE_PARAM_TYPE_NONE
           TEE_PARAM_TYPE_NONE TEE_PARAM_TYPE_NONE
      then Inr (TEE_ERROR_BAD_PARAMETERS, p, s)
      else cbind (get_value p) (\<lambda>(a, b).
           Inr (TEE_SUCCESS, p, imsg ''[Dump] reading maps of pid: %d'' [b] s)))"

definition zbouncer_loop_exit :: "tee_ptypes \<Rightarrow> tee_param \<Rightarrow> cc_state \<Rightarrow> cc_result" where
  "zbouncer_loop_exit param_types p s =
     (if param_types \<noteq> TEE_PARAM_TYPES TEE_PARAM_TYPE_VALUE_INOUT TEE_PARAM_TYPE_NONE
           TEE_PARAM_TYPE_NONE TEE_PARAM_TYPE_NONE
      then Inr (TEE_ERROR_BAD_PARAMETERS, p, s)
      else cbind (get_value p) (\<lambda>(a, b).
           Inr (TEE_SUCCESS, p, imsg ''[LOOP] i=0x%x i=%d'' [a, a] s)))"

definition zbouncer_wmemcpy :: "tee_ptypes \<Rightarrow> tee_param \<Rightarrow> cc_state \<Rightarrow> cc_result" where
  "zbouncer_wmemcpy param_types p s =
     (if param_types \<noteq> TEE_PARAM_TYPES TEE_PARAM_TYPE_VALUE_INOUT TEE_PARAM_TYPE_NONE
           TEE_PARAM_TYPE_NONE TEE_PARAM_TYPE_NONE
      then Inr (TEE_ERROR_BAD_PARAMETERS, p, s)
      else Inr (TEE_SUCCESS, p, imsg ''[wmemcpy]'' [] s))"

definition TA_ZBOUNCER_CMD_ENTRY :: u32 where "TA_ZBOUNCER_CMD_ENTRY = 0"
definition TA_ZBOUNCER_CMD_EXIT :: u32 where "TA_ZBOUNCER_CMD_EXIT = 1"
definition TA_ZBOUNCER_CMD_DUMP :: u32 where "TA_ZBOUNCER_CMD_DUMP = 2"

lemmas cc_command_ids = TA_ZBOUNCER_CMD_ENTRY_def TA_ZBOUNCER_CMD_EXIT_def TA_ZBOUNCER_CMD_DUMP_def

text \<open>
  The identifiers of the last two commands are defined nowhere in the repository: they are
  the arguments \<open>loop_exit\<close> and \<open>wmemcpy\<close>.
\<close>

definition cc_invoke ::
    "nat \<Rightarrow> bool \<Rightarrow> u32 \<Rightarrow> u32 \<Rightarrow> u32 \<Rightarrow> tee_ptypes \<Rightarrow> tee_param \<Rightarrow> cc_state \<Rightarrow> cc_result" where
  "cc_invoke cap pop_value loop_exit wmemcpy cmd_id param_types p s0 =
     (let s = imsg ''strange switch: %d'' [cmd_id] s0 in
      if cmd_id = TA_ZBOUNCER_CMD_ENTRY then zbouncer_entry cap param_types p s
      else if cmd_id = TA_ZBOUNCER_CMD_EXIT then zbouncer_exit pop_value param_types p s
      else if cmd_id = TA_ZBOUNCER_CMD_DUMP then zbouncer_dump param_types p s
      else if cmd_id = loop_exit then zbouncer_loop_exit param_types p s
      else if cmd_id = wmemcpy then zbouncer_wmemcpy param_types p s
      else Inr (TEE_ERROR_BAD_PARAMETERS, p, s))"

end
