(* ===== verification/Call_Chain_Laws.thy ===== *)
theory Call_Chain_Laws
  imports Call_Chain
begin

text \<open>
  The call-chain application as a shadow stack: the linked nodes represent a list of
  return addresses, the commands refine pushing and checking on that list, and a program
  whose calls are properly nested runs without a violation, while a return to another
  address is reported.
\<close>

section \<open>Interface\<close>

datatype cc_event = Enter u32 | Leave u32

definition call_step ::
    "(u32 \<Rightarrow> 's \<Rightarrow> 's c) \<Rightarrow> (u32 \<Rightarrow> 's \<Rightarrow> (bool \<times> 's) c) \<Rightarrow> cc_event \<Rightarrow> bool \<times> 's \<Rightarrow> (bool \<times> 's) c" where
  "call_step enter leave e w =
     (case e of
        Enter a \<Rightarrow> cbind (enter a (snd w)) (\<lambda>s'. Inr (fst w, s'))
      | Leave a \<Rightarrow> cbind (leave a (snd w)) (\<lambda>(v, s'). Inr (fst w \<and> v, s')))"

lemma call_step_simps:
  "call_step enter leave (Enter a) w = cbind (enter a (snd w)) (\<lambda>s'. Inr (fst w, s'))"
  "call_step enter leave (Leave a) w = cbind (leave a (snd w)) (\<lambda>(v, s'). Inr (fst w \<and> v, s'))"
  by (simp_all add: call_step_def)

text \<open>A call with the calls it makes, as the events it reports.\<close>

datatype call_tree = Call u32 "call_tree list"

fun call_events :: "call_tree \<Rightarrow> cc_event list" where
  "call_events (Call a ts) = Enter a # concat (map call_events ts) @ [Leave a]"

fun call_count :: "call_tree \<Rightarrow> nat" where
  "call_count (Call a ts) = Suc (sum_list (map call_count ts))"

text \<open>What a return to the right address says is a parameter of the interface.\<close>

locale shadow_stack =
  fixes enter :: "u32 \<Rightarrow> 's \<Rightarrow> 's c"
    and leave :: "u32 \<Rightarrow> 's \<Rightarrow> (bool \<times> 's) c"
    and holds :: "'s \<Rightarrow> u32 list \<Rightarrow> bool"
    and room :: "'s \<Rightarrow> nat"
    and fine :: bool
  assumes enter_pushes:
      "holds s xs \<Longrightarrow> 0 < room s \<Longrightarrow>
         \<exists>s'. enter a s = Inr s' \<and> holds s' (a # xs) \<and> room s = Suc (room s')"
    and leave_pops:
      "holds s (a # xs) \<Longrightarrow> \<exists>s'. leave a s = Inr (fine, s') \<and> holds s' xs \<and> room s' = room s"
    and leave_reports:
      "holds s (b # xs) \<Longrightarrow> a \<noteq> b \<Longrightarrow>
         \<exists>s'. leave a s = Inr (False, s') \<and> holds s' (b # xs) \<and> room s' = room s"
begin

lemma nested_call:
  "holds s xs \<Longrightarrow> call_count t \<le> room s \<Longrightarrow>
     \<exists>s'. c_run (call_step enter leave) (call_events t) (ok, s) = Inr (ok \<and> fine, s') \<and> holds s' xs \<and>
       room s = call_count t + room s'"
proof (induction t arbitrary: s xs ok rule: call_events.induct)
  case (1 a ts)
  have inner: "\<exists>u. c_run (call_step enter leave) (concat (map call_events us)) (ok, v) = Inr (ok \<and> (fine \<or> us = []), u) \<and>
      holds u ys \<and> room v = sum_list (map call_count us) + room u"
    if "set us \<subseteq> set ts" "holds v ys" "sum_list (map call_count us) \<le> room v" for us v ys ok
    using that
  proof (induction us arbitrary: v ok)
    case (Cons t us)
    obtain u where u: "c_run (call_step enter leave) (call_events t) (ok, v) = Inr (ok \<and> fine, u)" "holds u ys"
      "room v = call_count t + room u"
      using 1(1) [of t v ys ok] Cons.prems by auto
    obtain u' where "c_run (call_step enter leave) (concat (map call_events us)) (ok \<and> fine, u) = Inr ((ok \<and> fine) \<and> (fine \<or> us = []), u')"
      "holds u' ys" "room u = sum_list (map call_count us) + room u'"
      using Cons.IH [of u "ok \<and> fine"] Cons.prems u by auto
    then show ?case using u by (auto simp: c_run_append)
  qed simp
  obtain s1 where s1: "enter a s = Inr s1" "holds s1 (a # xs)" "room s = Suc (room s1)"
    using enter_pushes [OF 1(2), of a] 1(3) by auto
  obtain s2 where s2: "c_run (call_step enter leave) (concat (map call_events ts)) (ok, s1) = Inr (ok \<and> (fine \<or> ts = []), s2)"
    "holds s2 (a # xs)" "room s1 = sum_list (map call_count ts) + room s2"
    using inner [of ts s1 "a # xs" ok] s1 1(3) by auto
  obtain s3 where "leave a s2 = Inr (fine, s3)" "holds s3 xs" "room s3 = room s2"
    using leave_pops [OF s2(2)] by blast
  then show ?case using s1 s2 by (auto simp: call_step_simps c_run_append)
qed

lemma nested_calls:
  "holds s xs \<Longrightarrow> sum_list (map call_count ts) \<le> room s \<Longrightarrow>
     \<exists>s'. c_run (call_step enter leave) (concat (map call_events ts)) (ok, s) = Inr (ok \<and> (fine \<or> ts = []), s') \<and> holds s' xs \<and>
       room s = sum_list (map call_count ts) + room s'"
proof (induction ts arbitrary: s ok)
  case (Cons t ts)
  obtain u where u: "c_run (call_step enter leave) (call_events t) (ok, s) = Inr (ok \<and> fine, u)" "holds u xs"
    "room s = call_count t + room u"
    using nested_call [OF Cons.prems(1), of t ok] Cons.prems(2) by auto
  obtain u' where "c_run (call_step enter leave) (concat (map call_events ts)) (ok \<and> fine, u) = Inr ((ok \<and> fine) \<and> (fine \<or> ts = []), u')"
    "holds u' xs" "room u = sum_list (map call_count ts) + room u'"
    using Cons.IH [of u "ok \<and> fine"] Cons.prems(2) u by auto
  then show ?case using u by (auto simp: c_run_append)
qed simp

text \<open>A function that returns to another address than its own is reported.\<close>

lemma hijacked_return:
  assumes "holds s xs" and "Suc (sum_list (map call_count ts)) \<le> room s" and "a \<noteq> b"
  shows "\<exists>s'. c_run (call_step enter leave) (Enter b # concat (map call_events ts) @ [Leave a]) (True, s) =
      Inr (False, s') \<and> holds s' (b # xs)"
proof -
  obtain s1 where s1: "enter b s = Inr s1" "holds s1 (b # xs)" "room s = Suc (room s1)"
    using enter_pushes [OF assms(1), of b] assms(2) by auto
  obtain s2 where s2: "c_run (call_step enter leave) (concat (map call_events ts)) (True, s1) = Inr (fine \<or> ts = [], s2)"
    "holds s2 (b # xs)"
    using nested_calls [OF s1(2), of ts True] s1(3) assms(2) by auto
  obtain s3 where "leave a s2 = Inr (False, s3)" "holds s3 (b # xs)"
    using leave_reports [OF s2(2) assms(3)] by blast
  then show ?thesis using s1(1) s2(1) by (auto simp: call_step_simps c_run_append)
qed

end

section \<open>The linked list\<close>

text \<open>The nodes from \<open>p\<close> on, by their addresses and their return addresses.\<close>

fun path :: "node_t list \<Rightarrow> nat option \<Rightarrow> nat list \<Rightarrow> u32 list \<Rightarrow> bool" where
  "path ns p [] xs \<longleftrightarrow> p = None \<and> xs = []"
| "path ns p (a # as) xs \<longleftrightarrow> p = Some a \<and> a < length ns \<and>
     (case xs of [] \<Rightarrow> False | x # xs' \<Rightarrow> lbr (ns ! a) = x \<and> path ns (nd_next (ns ! a)) as xs')"

lemma path_extend: "path ns p as xs \<Longrightarrow> path (ns @ ms) p as xs"
  by (induction as arbitrary: p xs) (auto simp: nth_append split: list.splits)

lemma path_update: "a \<notin> set as \<Longrightarrow> path (ns[a := nd]) p as xs = path ns p as xs"
  by (induction as arbitrary: p xs) (auto split: list.splits)

lemma path_less: "path ns p as xs \<Longrightarrow> a \<in> set as \<Longrightarrow> a < length ns"
  by (induction as arbitrary: p xs) (auto split: list.splits)

definition cc_holds :: "cc_state \<Rightarrow> u32 list \<Rightarrow> bool" where
  "cc_holds s xs \<longleftrightarrow> (\<exists>st as. calls s = Some st \<and> path (nodes s) (st_top st) as xs \<and> distinct as \<and>
     st_size st = int (length xs))"

definition with_log :: "imsg list \<Rightarrow> cc_state \<Rightarrow> cc_state" where
  "with_log l s = s\<lparr>cc_log := cc_log s @ l\<rparr>"

lemma imsg_with_log: "imsg f args s = with_log [(f, args)] s"
  by (simp add: imsg_def with_log_def)

lemma with_log_simps [simp]:
  "with_log l (with_log k s) = with_log (k @ l) s" "calls (with_log l s) = calls s"
  "nodes (with_log l s) = nodes s" "cc_holds (with_log l s) xs = cc_holds s xs"
  by (simp_all add: with_log_def cc_holds_def)

lemma walk_path:
  "path (nodes s) p as xs \<Longrightarrow> walk_nodes p s = Some (Inr (with_log (map (\<lambda>x. (''0x%08x'', [x])) xs) s))"
proof (induction as arbitrary: p xs s)
  case Nil
  then show ?case by (simp add: walk_nodes.simps with_log_def)
next
  case (Cons a as)
  then obtain x xs' where x: "xs = x # xs'" "p = Some a" "a < length (nodes s)" "lbr (nodes s ! a) = x"
    "path (nodes s) (nd_next (nodes s ! a)) as xs'" by (auto split: list.splits)
  then have "path (nodes (with_log [(''0x%08x'', [x])] s)) (nd_next (nodes s ! a)) as xs'" by simp
  from Cons.IH [OF this] x show ?case by (simp add: walk_nodes.simps [of "Some a" s] imsg_with_log)
qed

lemma print_stack_holds: "cc_holds s xs \<Longrightarrow> \<exists>l. print_stack s = Inr (with_log l s)"
proof -
  assume "cc_holds s xs"
  then obtain st as where st: "calls s = Some st" "path (nodes s) (st_top st) as xs" by (auto simp: cc_holds_def)
  then have "path (nodes (with_log l s)) (st_top st) as xs" for l by simp
  note walk_path [OF this]
  then show ?thesis using st(1) by (auto simp: print_stack_def print_nodes_def imsg_with_log)
qed

lemma violation_holds:
  assumes "cc_holds s xs"
  shows "\<exists>l. violation r w s = Inr (with_log l s)"
proof -
  let ?k = "[(''***********************'', []), (''****** VIOLATION ******'', []), (''***********************'', []),
    (''RA mismatch, the function is trying to return to 0x%x instead of 0x%x'', [w, r])]"
  have "cc_holds (with_log ?k s) xs" using assms by simp
  then obtain l where "print_stack (with_log ?k s) = Inr (with_log (?k @ l) s)"
    using print_stack_holds by fastforce
  then have "violation r w s = Inr (with_log (?k @ l @ [(''Halt'', [])]) s)"
    by (simp add: violation_def imsg_with_log)
  then show ?thesis by (rule exI)
qed

lemma push_holds:
  assumes "cc_holds s xs" and "length (nodes s) < cap" and "int (length xs) < INT_MAX"
  shows "\<exists>s'. stack_push cap a s = Inr s' \<and> cc_holds s' (a # xs) \<and> length (nodes s') = Suc (length (nodes s))"
proof -
  obtain st as where st: "calls s = Some st" "path (nodes s) (st_top st) as xs" "distinct as"
    "st_size st = int (length xs)" using assms(1) by (auto simp: cc_holds_def)
  let ?a = "length (nodes s)"
  let ?nd = "\<lparr>lbr = a, nd_next = st_top st\<rparr>"
  let ?s = "s\<lparr>nodes := nodes s @ [?nd], calls := Some (st\<lparr>st_top := Some ?a, st_size := st_size st + 1\<rparr>)\<rparr>"
  have nd: "(if st_top st = None then None else st_top st) = st_top st" by simp
  have "stack_push cap a s = Inr ?s"
    using st assms(2,3) by (simp add: stack_push_def Let_def nd del: if_cancel)
  moreover have "?a \<notin> set as" using path_less [OF st(2)] by auto
  then have "cc_holds ?s (a # xs)"
    unfolding cc_holds_def using st path_extend [OF st(2), of "[?nd]"]
    by (intro exI [of _ "st\<lparr>st_top := Some ?a, st_size := st_size st + 1\<rparr>"] exI [of _ "?a # as"]) simp
  ultimately show ?thesis by auto
qed

lemma head_holds:
  assumes "cc_holds s (x # xs)"
  obtains a where "stack_head s = Inr (Some a)" and "node_at s (Some a) = Inr (nodes s ! a)"
    and "lbr (nodes s ! a) = x"
proof -
  obtain st as where st: "calls s = Some st" "path (nodes s) (st_top st) as (x # xs)"
    using assms by (auto simp: cc_holds_def)
  then obtain a as' where "as = a # as'" by (cases as) auto
  then show thesis using st that [of a] by (auto simp: stack_head_def node_at_def)
qed

lemma head_empty: "cc_holds s [] \<Longrightarrow> stack_head s = Inr None"
proof -
  assume "cc_holds s []"
  then obtain st as where st: "calls s = Some st" "path (nodes s) (st_top st) as []" by (auto simp: cc_holds_def)
  then show ?thesis by (cases as) (auto simp: stack_head_def)
qed

lemma pop_holds:
  assumes "cc_holds s (x # xs)" and "stack_head s = Inr (Some a)"
  shows "\<exists>s'. stack_pop s = Inr s' \<and> cc_holds s' xs \<and>
    nodes s' = (nodes s)[a := (nodes s ! a)\<lparr>nd_next := None\<rparr>] \<and> cc_log s' = cc_log s"
proof -
  obtain st as where st: "calls s = Some st" "path (nodes s) (st_top st) as (x # xs)" "distinct as"
    "st_size st = int (length (x # xs))" using assms(1) by (auto simp: cc_holds_def)
  obtain as' where as: "as = a # as'" "st_top st = Some a" "a < length (nodes s)"
    using st(1,2) assms(2) by (cases as) (auto simp: stack_head_def)
  have p: "path (nodes s) (nd_next (nodes s ! a)) as' xs" using st(2) as by simp
  let ?s = "s\<lparr>nodes := (nodes s)[a := (nodes s ! a)\<lparr>nd_next := None\<rparr>],
      calls := Some (st\<lparr>st_top := nd_next (nodes s ! a), st_size := st_size st - 1\<rparr>)\<rparr>"
  have "stack_pop s = Inr ?s"
    using st as by (simp add: stack_pop_def c_decr_def INT_MAX_def)
  moreover have "cc_holds ?s xs"
    unfolding cc_holds_def using st as p path_update [of a as' "nodes s"]
    by (intro exI [of _ "st\<lparr>st_top := nd_next (nodes s ! a), st_size := st_size st - 1\<rparr>"] exI [of _ as']) simp
  ultimately show ?thesis by auto
qed

section \<open>The commands\<close>

abbreviation cc_value_types :: tee_ptypes where
  "cc_value_types \<equiv> TEE_PARAM_TYPES TEE_PARAM_TYPE_VALUE_INOUT TEE_PARAM_TYPE_NONE
     TEE_PARAM_TYPE_NONE TEE_PARAM_TYPE_NONE"

text \<open>What the instrumented function sees of the two commands.\<close>

definition cc_enter :: "nat \<Rightarrow> bool \<Rightarrow> u32 \<Rightarrow> cc_state \<Rightarrow> cc_state c" where
  "cc_enter cap pv a s =
     cbind (cc_invoke cap pv 3 4 TA_ZBOUNCER_CMD_ENTRY cc_value_types (Value a 0) s) (\<lambda>(r, p, s'). Inr s')"

definition cc_leave :: "nat \<Rightarrow> bool \<Rightarrow> u32 \<Rightarrow> cc_state \<Rightarrow> (bool \<times> cc_state) c" where
  "cc_leave cap pv a s =
     cbind (cc_invoke cap pv 3 4 TA_ZBOUNCER_CMD_EXIT cc_value_types (Value a 0) s) (\<lambda>(r, p, s').
     Inr (r = TEE_SUCCESS \<and> p = Value a 0, s'))"

definition cc_room :: "nat \<Rightarrow> cc_state \<Rightarrow> nat" where
  "cc_room cap s = cap - length (nodes s)"

text \<open>
  The stack is never longer than the heap, and the heap is far below the range of \<open>int\<close>.
\<close>

definition cc_small :: "nat \<Rightarrow> cc_state \<Rightarrow> u32 list \<Rightarrow> bool" where
  "cc_small cap s xs \<longleftrightarrow> cc_holds s xs \<and> length (nodes s) \<le> cap \<and> int cap < INT_MAX"

lemma path_length:
  assumes "path ns p as xs" and "distinct as"
  shows "length xs \<le> length ns"
proof -
  have "length xs = length as" using assms(1) by (induction as arbitrary: p xs) (auto split: list.splits)
  moreover have "card (set as) \<le> card {..<length ns}"
    using path_less [OF assms(1)] by (intro card_mono) auto
  ultimately show ?thesis using distinct_card [OF assms(2)] by simp
qed

lemma holds_length: "cc_holds s xs \<Longrightarrow> length xs \<le> length (nodes s)"
  using path_length by (auto simp: cc_holds_def)

lemma enter_holds:
  assumes "cc_small cap s xs" and "0 < cc_room cap s"
  shows "\<exists>s'. cc_enter cap pv a s = Inr s' \<and> cc_small cap s' (a # xs) \<and> cc_room cap s = Suc (cc_room cap s')"
proof -
  let ?s = "with_log [(''strange switch: %d'', [0])] s"
  have len: "length (nodes s) < cap" using assms(2) by (simp add: cc_room_def)
  moreover have "int (length xs) < INT_MAX"
    using holds_length [of s xs] len assms(1) by (simp add: cc_small_def)
  ultimately obtain s' where "stack_push cap a ?s = Inr s'" "cc_holds s' (a # xs)"
    "length (nodes s') = Suc (length (nodes s))"
    using push_holds [of ?s xs cap a] assms(1) by (auto simp: cc_small_def)
  then show ?thesis using len assms(1)
    by (auto simp: cc_enter_def cc_invoke_def cc_command_ids zbouncer_entry_def imsg_with_log cc_room_def
        cc_small_def)
qed

lemma leave_holds:
  assumes "cc_small cap s (x # xs)"
  shows "\<exists>s'. cc_leave cap True x s = Inr (True, s') \<and> cc_small cap s' xs \<and> cc_room cap s' = cc_room cap s"
proof -
  let ?s = "with_log [(''strange switch: %d'', [1])] s"
  have h: "cc_holds ?s (x # xs)" using assms by (simp add: cc_small_def)
  then obtain a where a: "stack_head ?s = Inr (Some a)" "node_at ?s (Some a) = Inr (nodes ?s ! a)"
    "lbr (nodes ?s ! a) = x" by (rule head_holds)
  obtain s' where "stack_pop ?s = Inr s'" "cc_holds s' xs" "length (nodes s') = length (nodes s)"
    using pop_holds [OF h a(1)] by fastforce
  then show ?thesis using a assms
    by (auto simp: cc_leave_def cc_invoke_def cc_command_ids zbouncer_exit_def imsg_with_log cc_room_def
        cc_small_def)
qed

lemma leave_holds_bad:
  assumes "cc_small cap s (x # xs)" and "y \<noteq> x"
  shows "\<exists>s'. cc_leave cap pv y s = Inr (False, s') \<and> cc_small cap s' (x # xs) \<and> cc_room cap s' = cc_room cap s"
proof -
  let ?s = "with_log [(''strange switch: %d'', [1])] s"
  have h: "cc_holds ?s (x # xs)" using assms by (simp add: cc_small_def)
  then obtain a where a: "stack_head ?s = Inr (Some a)" "node_at ?s (Some a) = Inr (nodes ?s ! a)"
    "lbr (nodes ?s ! a) = x" by (rule head_holds)
  have "cc_holds (with_log [(''[Violation] An invalid exit path has been triggered'', [])] ?s) (x # xs)"
    using h by simp
  from violation_holds [OF this, of x y] obtain l where
    "violation x y (with_log [(''[Violation] An invalid exit path has been triggered'', [])] ?s) = Inr (with_log l s)"
    by auto
  then show ?thesis using a assms
    by (auto simp: cc_leave_def cc_invoke_def cc_command_ids zbouncer_exit_def imsg_with_log cc_room_def
        cc_small_def)
qed

lemma leave_undefined_pop:
  assumes "cc_small cap s (x # xs)"
  shows "\<exists>s'. cc_leave cap False x s = Inr (False, s') \<and> cc_small cap s' xs \<and> cc_room cap s' = cc_room cap s"
proof -
  let ?s = "with_log [(''strange switch: %d'', [1])] s"
  have h: "cc_holds ?s (x # xs)" using assms by (simp add: cc_small_def)
  then obtain a where a: "stack_head ?s = Inr (Some a)" "node_at ?s (Some a) = Inr (nodes ?s ! a)"
    "lbr (nodes ?s ! a) = x" by (rule head_holds)
  obtain s1 where s1: "stack_pop ?s = Inr s1" "cc_holds s1 xs"
    "nodes s1 = (nodes ?s)[a := (nodes ?s ! a)\<lparr>nd_next := None\<rparr>]" using pop_holds [OF h a(1)] by auto
  have "a < length (nodes s)" using a(2) by (auto simp: node_at_def c_read_def split: if_splits)
  then have n: "node_at s1 (Some a) = Inr ((nodes s ! a)\<lparr>nd_next := None\<rparr>)"
    using s1(3) by (simp add: node_at_def)
  have "cc_holds (with_log [(''[Violation] Has been triggered a return but the stack is empty'', [])] s1) xs"
    using s1(2) by simp
  from violation_holds [OF this, of x x] obtain l where
    "violation x x (with_log [(''[Violation] Has been triggered a return but the stack is empty'', [])] s1) =
      Inr (with_log l s1)" by auto
  then show ?thesis using a s1 n assms
    by (auto simp: cc_leave_def cc_invoke_def cc_command_ids zbouncer_exit_def imsg_with_log cc_small_def cc_room_def)
qed

text \<open>
  The application implements the contract of a shadow stack, whatever value the handler
  finds after the pop, which returns none: a return to the right address is accepted exactly
  if that value is not NULL.
\<close>

interpretation cc: shadow_stack "cc_enter cap pv" "cc_leave cap pv" "cc_small cap" "cc_room cap" pv for cap pv
proof unfold_locales
  show "\<exists>s'. cc_enter cap pv a s = Inr s' \<and> cc_small cap s' (a # xs) \<and> cc_room cap s = Suc (cc_room cap s')"
    if "cc_small cap s xs" "0 < cc_room cap s" for s xs a using enter_holds [OF that] .
  show "\<exists>s'. cc_leave cap pv a s = Inr (pv, s') \<and> cc_small cap s' xs \<and> cc_room cap s' = cc_room cap s"
    if "cc_small cap s (a # xs)" for s xs a using leave_holds [OF that] leave_undefined_pop [OF that] by (cases pv) auto
  show "\<exists>s'. cc_leave cap pv a s = Inr (False, s') \<and> cc_small cap s' (b # xs) \<and> cc_room cap s' = cc_room cap s"
    if "cc_small cap s (b # xs)" "a \<noteq> b" for s xs a b using leave_holds_bad [OF that] .
qed

text \<open>The state after a session has been opened.\<close>

definition cc_opened :: cc_state where
  "cc_opened = cc_initial\<lparr>calls := Some \<lparr>st_top = None, st_size = 0\<rparr>\<rparr>"

lemma cc_opens:
  "cc_open_session True (TEE_PARAM_TYPES TEE_PARAM_TYPE_NONE TEE_PARAM_TYPE_NONE TEE_PARAM_TYPE_NONE
     TEE_PARAM_TYPE_NONE) p cc_initial = Inr (TEE_SUCCESS, p, cc_opened)"
  by (simp add: cc_open_session_def stack_init_def cc_initial_def cc_opened_def)

lemma cc_opened_holds: "int cap < INT_MAX \<Longrightarrow> cc_small cap cc_opened [] \<and> cc_room cap cc_opened = cap"
  by (auto simp: cc_small_def cc_holds_def cc_opened_def cc_initial_def cc_room_def intro!: exI [of _ "[]"])

section \<open>Properties\<close>

text \<open>
  C34. A program whose calls are properly nested, however deep, leaves the stack as it found
  it, as long as the heap has a node for every call made; each call costs one node for good.
  The exit handler tests the value of a function without a return statement: if the
  compiled code finds something other than NULL there (at every return), no return of the
  program is reported as a violation, and if it finds NULL, a program that makes a call is
  accused.
\<close>

theorem nested_calls_accepted:
  assumes "int cap < INT_MAX" and "sum_list (map call_count ts) \<le> cap"
  shows "\<exists>s. c_run (call_step (cc_enter cap pv) (cc_leave cap pv)) (concat (map call_events ts))
      (True, cc_opened) = Inr (pv \<or> ts = [], s) \<and> cc_holds s [] \<and>
    length (nodes s) = sum_list (map call_count ts)"
  using cc.nested_calls [of cap cc_opened "[]" ts pv True] cc_opened_holds [OF assms(1)] assms(2)
  by (auto simp: cc_small_def cc_room_def)

theorem nested_calls_accepted_witness:
  "\<exists>s s'. c_run (call_step (cc_enter 10 True) (cc_leave 10 True))
      (concat (map call_events [Call 5 [Call 7 [], Call 10 [Call 2 [Call 9 []], Call 11 [Call 12 []]]]]))
      (True, cc_opened) = Inr (True, s) \<and> cc_holds s [] \<and> length (nodes s) = 7 \<and>
    c_run (call_step (cc_enter 10 False) (cc_leave 10 False)) (concat (map call_events [Call 5 []]))
      (True, cc_opened) = Inr (False, s') \<and> cc_holds s' [] \<and> length (nodes s') = 1"
  using nested_calls_accepted [of 10 "[Call 5 [Call 7 [], Call 10 [Call 2 [Call 9 []], Call 11 [Call 12 []]]]]" True]
    nested_calls_accepted [of 10 "[Call 5 []]" False]
  by (simp add: INT_MAX_def eval_nat_numeral)

text \<open>
  C35. A function that, after any nested calls, returns to another address than the one of
  its entry is reported as a violation, and the stack keeps the address that was expected.
\<close>

theorem hijacked_return_reported:
  assumes "int cap < INT_MAX" and "sum_list (map call_count ts) < cap" and "a \<noteq> b"
  shows "\<exists>s. c_run (call_step (cc_enter cap True) (cc_leave cap True))
      (Enter b # concat (map call_events ts) @ [Leave a]) (True, cc_opened) = Inr (False, s) \<and>
    cc_holds s [b]"
  using cc.hijacked_return [of cap cc_opened "[]" ts a b] cc_opened_holds [OF assms(1)] assms(2,3)
  by (auto simp: cc_small_def)

theorem hijacked_return_reported_witness:
  "\<exists>s. c_run (call_step (cc_enter 10 True) (cc_leave 10 True))
      (Enter 10 # concat (map call_events [Call 2 [Call 9 []], Call 11 []]) @ [Leave 9]) (True, cc_opened) =
      Inr (False, s) \<and> cc_holds s [10]"
  by (rule hijacked_return_reported) (simp_all add: INT_MAX_def)

text \<open>
  The exit handler tests the value of a function that returns none. Where the compiled
  code finds NULL there, a correct return is reported as a violation, although the address
  has been popped.
\<close>

theorem undefined_pop_value_accuses:
  assumes "int cap < INT_MAX" and "0 < cap"
  shows "\<exists>s s'. cc_enter cap False x cc_opened = Inr s \<and> cc_leave cap False x s = Inr (False, s') \<and>
    cc_holds s' []"
proof -
  obtain s where s: "cc_enter cap False x cc_opened = Inr s" "cc_small cap s [x]"
    using enter_holds [of cap cc_opened "[]" False x] cc_opened_holds [OF assms(1)] assms(2) by auto
  then show ?thesis using leave_undefined_pop [OF s(2)] by (auto simp: cc_small_def)
qed

theorem undefined_pop_value_accuses_witness:
  "\<exists>s s'. cc_enter 10 False 4096 cc_opened = Inr s \<and> cc_leave 10 False 4096 s = Inr (False, s') \<and>
    cc_holds s' []"
  by (rule undefined_pop_value_accuses) (simp_all add: INT_MAX_def)

text \<open>
  A return when the stack is empty is refused with the security error, and nothing but
  the log changes.
\<close>

theorem return_on_empty_stack:
  assumes "cc_holds s []"
  shows "\<exists>l. cc_invoke cap pv li wi TA_ZBOUNCER_CMD_EXIT cc_value_types p s =
    Inr (TEE_ERROR_SECURITY, p, with_log l s)"
  using head_empty [of "with_log [(''strange switch: %d'', [1])] s"] assms
  by (auto simp: cc_invoke_def cc_command_ids zbouncer_exit_def imsg_with_log)

theorem return_on_empty_stack_witness:
  "\<exists>l. cc_invoke 10 True 3 4 TA_ZBOUNCER_CMD_EXIT cc_value_types (Value 5 0) cc_opened =
    Inr (TEE_ERROR_SECURITY, Value 5 0, with_log l cc_opened)"
  by (rule return_on_empty_stack)
     (auto simp: cc_holds_def cc_opened_def cc_initial_def intro!: exI [of _ "[]"])

text \<open>
  Nothing is ever given back to the heap: after a sequence of calls and returns that
  makes as many calls as the heap has nodes, the stack is empty and the next call still
  dereferences the NULL of a failed allocation.
\<close>

theorem finished_calls_exhaust_heap:
  assumes "int cap < INT_MAX" and "sum_list (map call_count ts) = cap"
  shows "\<exists>s. c_run (call_step (cc_enter cap True) (cc_leave cap True)) (concat (map call_events ts))
      (True, cc_opened) = Inr (True, s) \<and> cc_holds s [] \<and> cc_enter cap True a s = Inl Null_Deref"
proof -
  obtain s where s: "c_run (call_step (cc_enter cap True) (cc_leave cap True)) (concat (map call_events ts))
      (True, cc_opened) = Inr (True, s)" "cc_holds s []" "cc_room cap s = 0"
    using cc.nested_calls [of cap cc_opened "[]" ts True] cc_opened_holds [OF assms(1)] assms(2)
    by (auto simp: cc_small_def)
  then have "cc_enter cap True a s = Inl Null_Deref"
    by (auto simp: cc_enter_def cc_invoke_def cc_command_ids zbouncer_entry_def stack_push_def cc_room_def
        cc_holds_def imsg_def)
  then show ?thesis using s by blast
qed

theorem finished_calls_exhaust_heap_witness:
  "\<exists>s. c_run (call_step (cc_enter 3 True) (cc_leave 3 True))
      (concat (map call_events [Call 5 [Call 7 []], Call 9 []]))
      (True, cc_opened) = Inr (True, s) \<and> cc_holds s [] \<and> cc_enter 3 True 11 s = Inl Null_Deref"
  by (rule finished_calls_exhaust_heap) (simp_all add: INT_MAX_def)

end
