(* ===== verification/SVF_Graph.thy ===== *)
theory SVF_Graph
  imports EW_Prelude
begin

text \<open>
  What the static analysis (SVF/tools/Example) uses of LLVM and of the SVF library, which
  are not part of the repository: types, values and the program assignment graph are data
  that the model takes as arguments. A node of a graph is named by its address, in whose
  order a \<open>std::set\<close> of pointers is kept.
\<close>

section \<open>Types and values\<close>

text \<open>A struct type is named; its fields are in the module.\<close>

datatype llvm_type =
    VoidTy
  | FloatTy nat
  | FunctionTy
  | IntegerTy nat
  | PointerTy llvm_type
  | ArrayTy nat llvm_type
  | StructTy string

text \<open>
  The values the analysis tells apart, each with a number for its identity. An alloca has
  its allocated type, a global (a variable, or another one such as a function) its value type, a call the name of the function called (none
  for an indirect call) and of the function it stands in, a store its pointer operand and
  its function, a getelementptr its source type and operands (constants or not).
\<close>

datatype llvm_value =
    AllocaInst nat llvm_type
  | GlobalVariable nat llvm_type
  | OtherGlobal nat llvm_type
  | CallInst nat "string option" string
  | StoreInst nat llvm_value string
  | GetElementPtrInst nat llvm_type "int option list"
  | OtherValue nat

text \<open>
  A module: the fields of its structs, the sizes its data layout gives, and the type of a
  value.
\<close>

record llvm_module =
  struct_elements :: "string \<Rightarrow> llvm_type list"
  store_size :: "llvm_type \<Rightarrow> nat"
  alloc_size :: "llvm_type \<Rightarrow> nat"
  type_of_value :: "llvm_value \<Rightarrow> llvm_type"

section \<open>Graphs\<close>

datatype edge_kind = Addr_Edge | Store_Edge | Other_Edge

record pag_edge =
  edge_kind :: edge_kind
  edge_src :: nat
  edge_dst :: nat
  edge_value :: "llvm_value option"

text \<open>
  The graphs. Of the assignment graph: the edges of a node in the order they are kept,
  whether the node is a dummy, its identifier, its text (\<open>toString\<close>) and its value, and the
  node of a value. Of the sparse value-flow graph: the other ends of the incoming and
  outgoing edges, the value (or none), the text, and whether a node is a store. Of the
  control-flow graph: the text and the call of a call node.
\<close>

record graphs =
  in_edges :: "nat \<Rightarrow> pag_edge list"
  out_edges :: "nat \<Rightarrow> pag_edge list"
  is_dummy :: "nat \<Rightarrow> bool"
  node_id :: "nat \<Rightarrow> int"
  node_text :: "nat \<Rightarrow> string"
  node_value :: "nat \<Rightarrow> llvm_value option"
  value_node :: "llvm_value \<Rightarrow> nat"
  svfg_in :: "nat \<Rightarrow> nat list"
  svfg_out :: "nat \<Rightarrow> nat list"
  svfg_value :: "nat \<Rightarrow> llvm_value option"
  svfg_text :: "nat \<Rightarrow> string"
  svfg_store :: "nat \<Rightarrow> bool"
  call_text :: "nat \<Rightarrow> string"
  call_site :: "nat \<Rightarrow> llvm_value"

definition edges_of :: "edge_kind \<Rightarrow> pag_edge list \<Rightarrow> pag_edge list" where
  "edges_of k es = filter (\<lambda>e. edge_kind e = k) es"

end
