(* ===== verification/Visits.thy ===== *)
theory Visits
  imports SVF_Graph
begin

text \<open>
  The searches of SVF/tools/Example/visits.cpp over the program assignment graph: a
  worklist that is a stack, a list of visited nodes and a set of results, driven by a
  selection function. A search that does not end is \<open>Diverges\<close>. Log output is left out,
  except that printing what a null pointer points to is stuck.
\<close>

section \<open>The worklist\<close>

record visit =
  worklist :: "nat list"
  visited :: "nat list"
  ret :: "nat set"

definition push :: "nat \<Rightarrow> visit \<Rightarrow> visit" where
  "push n w = w\<lparr>worklist := worklist w @ [n]\<rparr>"

definition pop :: "visit \<Rightarrow> visit" where
  "pop w = w\<lparr>worklist := butlast (worklist w)\<rparr>"

text \<open>
  A selection function changes the three of them, or is stuck. Most are never stuck:
  \<open>never_stuck\<close> makes them selection functions.
\<close>

type_synonym select = "nat \<Rightarrow> visit \<Rightarrow> visit c"

definition never_stuck :: "(nat \<Rightarrow> visit \<Rightarrow> visit) \<Rightarrow> select" where
  "never_stuck f n w = Inr (f n w)"

partial_function (option) visit_loop :: "select \<Rightarrow> visit \<Rightarrow> (nat set c) option" where
  "visit_loop select w =
     (if worklist w = [] then Some (Inr (ret w))
      else case select (last (worklist w)) (pop w) of
        Inl e \<Rightarrow> Some (Inl e)
      | Inr w' \<Rightarrow> visit_loop select w')"

definition visit_from :: "nat \<Rightarrow> visit" where
  "visit_from start = \<lparr>worklist = [start], visited = [], ret = {}\<rparr>"

definition visitAndSelectPagNodes :: "nat \<Rightarrow> select \<Rightarrow> nat list c" where
  "visitAndSelectPagNodes start select =
     (case visit_loop select (visit_from start) of
        None \<Rightarrow> Inl Diverges
      | Some r \<Rightarrow> cbind r (\<lambda>r. Inr (sorted_list_of_set r)))"

section \<open>All definitions behind a node\<close>

text \<open>
  The copy of the search that the use-after-free analysis has (SVF/tools/Uaf/visits.cpp)
  prints nothing and is never stuck.
\<close>

definition quiet_selectDefs_edge :: "graphs \<Rightarrow> pag_edge \<Rightarrow> visit \<Rightarrow> visit" where
  "quiet_selectDefs_edge g e w =
     (if is_dummy g (edge_src e) then w
      else if edge_kind e = Addr_Edge then w\<lparr>ret := insert (edge_src e) (ret w)\<rparr>
      else if edge_src e \<notin> set (visited w)
      then (push (edge_src e) w)\<lparr>visited := visited w @ [edge_src e]\<rparr>
      else w)"

definition quiet_selectDefs :: "graphs \<Rightarrow> nat \<Rightarrow> visit \<Rightarrow> visit" where
  "quiet_selectDefs g current w =
     (let w' = fold (quiet_selectDefs_edge g) (in_edges g current) w in
      w'\<lparr>visited := visited w' @ [current]\<rparr>)"

definition quiet_getDefNodes :: "graphs \<Rightarrow> nat \<Rightarrow> nat list c" where
  "quiet_getDefNodes g pgn = visitAndSelectPagNodes pgn (never_stuck (quiet_selectDefs g))"

text \<open>
  The one of the overflow analysis prints the value of an object whose address is not the
  only thing that flows to the node: an object without a value is dereferenced there.
\<close>

definition selectDefs_edge :: "graphs \<Rightarrow> nat \<Rightarrow> pag_edge \<Rightarrow> visit \<Rightarrow> visit c" where
  "selectDefs_edge g current e w =
     (if is_dummy g (edge_src e) then Inr w
      else if edge_kind e = Addr_Edge
      then cbind (if length (in_edges g current) > 1
                  then cbind (c_deref (node_value g (edge_src e))) (\<lambda>_. Inr ()) else Inr ()) (\<lambda>_.
           Inr (w\<lparr>ret := insert (edge_src e) (ret w)\<rparr>))
      else if edge_src e \<notin> set (visited w)
      then Inr ((push (edge_src e) w)\<lparr>visited := visited w @ [edge_src e]\<rparr>)
      else Inr w)"

definition selectDefs :: "graphs \<Rightarrow> select" where
  "selectDefs g current w =
     cbind (c_run (selectDefs_edge g current) (in_edges g current) w) (\<lambda>w'.
     Inr (w'\<lparr>visited := visited w' @ [current]\<rparr>))"

definition getDefNodes :: "graphs \<Rightarrow> nat \<Rightarrow> nat list c" where
  "getDefNodes g pgn = visitAndSelectPagNodes pgn (selectDefs g)"

text \<open>
  The destination of the last Addr edge decides; without such an edge the pointer is read
  uninitialised.
\<close>

definition isDominatorNode :: "graphs \<Rightarrow> nat \<Rightarrow> bool c" where
  "isDominatorNode g pn =
     (case edges_of Addr_Edge (out_edges g pn) of
        [] \<Rightarrow> Inl Indeterminate_Value
      | es \<Rightarrow> Inr (length (in_edges g (edge_dst (last es))) > 1))"

text \<open>
  The definitions a store writes to: the search starts at the source of the edge the
  target is the value of, if there is one, and the start itself is added when it is an
  object. The value of every edge looked at is printed first, so one without a value is
  dereferenced.
\<close>

fun edge_of_value :: "llvm_value \<Rightarrow> pag_edge list \<Rightarrow> pag_edge option c" where
  "edge_of_value v [] = Inr None"
| "edge_of_value v (e # es) =
     cbind (c_deref (edge_value e)) (\<lambda>x. if x = v then Inr (Some e) else edge_of_value v es)"

definition store_start :: "graphs \<Rightarrow> llvm_value \<Rightarrow> nat c" where
  "store_start g target =
     (let start = value_node g target in
      cbind (edge_of_value target (in_edges g start)) (\<lambda>pagEdge.
      Inr (case pagEdge of None \<Rightarrow> start | Some e \<Rightarrow> edge_src e)))"

definition findDefNodesFromStore :: "graphs \<Rightarrow> llvm_value \<Rightarrow> nat list c" where
  "findDefNodesFromStore g target =
     cbind (store_start g target) (\<lambda>start.
     cbind (getDefNodes g start) (\<lambda>r.
     Inr (if edges_of Addr_Edge (out_edges g start) \<noteq> [] then r @ [start] else r)))"

section \<open>The first store and the first dominator\<close>

fun selectFirstStore_edges :: "graphs \<Rightarrow> pag_edge list \<Rightarrow> visit \<Rightarrow> visit" where
  "selectFirstStore_edges g [] w = w"
| "selectFirstStore_edges g (e # es) w =
     (if is_dummy g (edge_src e) then selectFirstStore_edges g es w
      else if edge_kind e = Store_Edge then w\<lparr>ret := insert (edge_dst e) (ret w), worklist := []\<rparr>
      else selectFirstStore_edges g es (push (edge_dst e) w))"

definition selectFirstStore :: "graphs \<Rightarrow> nat \<Rightarrow> visit \<Rightarrow> visit" where
  "selectFirstStore g current w = selectFirstStore_edges g (out_edges g current) w"

text \<open>Both return the result of lowest address, or a null pointer.\<close>

definition first_result :: "nat list \<Rightarrow> nat option" where
  "first_result r = (case r of [] \<Rightarrow> None | n # _ \<Rightarrow> Some n)"

definition findFirstStore :: "graphs \<Rightarrow> nat \<Rightarrow> nat option c" where
  "findFirstStore g from_node = cbind (visitAndSelectPagNodes from_node (never_stuck (selectFirstStore g))) (\<lambda>r. Inr (first_result r))"

fun selectFirstDominator_edges :: "graphs \<Rightarrow> pag_edge list \<Rightarrow> visit \<Rightarrow> visit" where
  "selectFirstDominator_edges g [] w = w"
| "selectFirstDominator_edges g (e # es) w =
     (if is_dummy g (edge_src e) then selectFirstDominator_edges g es w
      else if edge_kind e = Addr_Edge then w\<lparr>ret := insert (edge_src e) (ret w), worklist := []\<rparr>
      else selectFirstDominator_edges g es (push (edge_src e) w))"

definition selectFirstDominator :: "graphs \<Rightarrow> nat \<Rightarrow> visit \<Rightarrow> visit" where
  "selectFirstDominator g current w = selectFirstDominator_edges g (in_edges g current) w"

definition findFirstDominator :: "graphs \<Rightarrow> nat \<Rightarrow> nat option c" where
  "findFirstDominator g from_node = cbind (visitAndSelectPagNodes from_node (never_stuck (selectFirstDominator g))) (\<lambda>r. Inr (first_result r))"

text \<open>
  The object the result of a dynamic allocation is stored to: the first incoming store of
  the first store node that is not from a dummy. The value of the edge is cast to a store;
  a failed cast is a null pointer.
\<close>

fun store_target :: "llvm_value option \<Rightarrow> llvm_value c" where
  "store_target (Some (StoreInst i p f)) = Inr p"
| "store_target _ = Inl Null_Deref"

definition findTargetOfCall :: "graphs \<Rightarrow> nat \<Rightarrow> nat option c" where
  "findTargetOfCall g callNode =
     cbind (findFirstStore g callNode) (\<lambda>s.
     cbind (c_deref s) (\<lambda>storeNode.
     case find (\<lambda>e. \<not> is_dummy g (edge_src e)) (edges_of Store_Edge (in_edges g storeNode)) of
       None \<Rightarrow> Inr None
     | Some e \<Rightarrow> cbind (store_target (edge_value e)) (\<lambda>target.
         findFirstDominator g (value_node g target))))"

section \<open>The value-flow graph\<close>

text \<open>All calls whose result may flow to a node; the nodes a node flows to; their stores.\<close>

definition selectCallBlockNodes :: "graphs \<Rightarrow> nat \<Rightarrow> visit \<Rightarrow> visit" where
  "selectCallBlockNodes g current w =
     (let w1 = w\<lparr>visited := visited w @ [current]\<rparr>;
          w2 = (case svfg_value g current of
                  Some (CallInst i callee f) \<Rightarrow> w1\<lparr>ret := insert current (ret w1)\<rparr>
                | _ \<Rightarrow> w1) in
      fold (\<lambda>s w. if s \<in> set (visited w) then w else push s w) (svfg_in g current) w2)"

definition visitAndSelectSVFGNodes :: "nat \<Rightarrow> select \<Rightarrow> nat list c" where
  "visitAndSelectSVFGNodes start select =
     (case visit_loop select (visit_from start) of
        None \<Rightarrow> Inl Diverges
      | Some r \<Rightarrow> cbind r (\<lambda>r. Inr (sorted_list_of_set r)))"

text \<open>
  Paths to the nodes of a value, depth first: the visited nodes and the paths found are
  threaded through the calls. The fuel bounds the depth; it runs out in no call with more
  fuel than there are nodes.
\<close>

type_synonym paths = "nat list \<times> nat list list"

fun concreteGetPathFromTo :: "nat \<Rightarrow> graphs \<Rightarrow> nat \<Rightarrow> llvm_value \<Rightarrow> nat list \<Rightarrow> paths \<Rightarrow> paths c" where
  "concreteGetPathFromTo 0 g from_node t path st = Inl Diverges"
| "concreteGetPathFromTo (Suc fuel) g from_node t path (vis, ps) =
     (if from_node \<in> set vis then Inr (vis, ps)
      else c_run (\<lambda>d (vis, ps).
             concreteGetPathFromTo fuel g d t (path @ [d])
               (vis, if svfg_value g d = Some t then ps @ [path @ [d]] else ps))
           (svfg_out g from_node) (vis @ [from_node], ps))"

definition getPathFromTo :: "nat \<Rightarrow> graphs \<Rightarrow> nat \<Rightarrow> llvm_value \<Rightarrow> nat list list c" where
  "getPathFromTo fuel g from_node t =
     cbind (concreteGetPathFromTo fuel g from_node t [] ([], [])) (\<lambda>(vis, ps). Inr ps)"

end
