(* ===== verification/Static_Trace.thy ===== *)
theory Static_Trace
  imports Visits Text_Format
begin

text \<open>
  The entities of the static trace (SVF/tools/Example/trace.h and trace.cpp): definitions,
  uses and inputs with their identifiers, sizes and lines of text, the casts between them,
  and the builder of definitions. Objects are never changed after the trace is built, so
  an entity is the value of its object; a null pointer is \<open>None\<close>.
\<close>

section \<open>Entities\<close>

datatype TraceEntityType =
    TT_trace_entity | TT_def | TT_use | TT_adef | TT_gdef | TT_ddef | TT_sdef | TT_suse | TT_luse | TT_in

text \<open>
  Every entity starts with its identifier. A definition has its node; ADef, GDef and SDef
  know whether it is a dominator. A use has its target parameter, which is set later, and
  its target definitions; an input its call, set later as well, and its sub-objects.
\<close>

datatype entity =
    TraceEntity (getId: int)
  | SDef (getId: int) nat llvm_type "int list" int bool
  | ADef (getId: int) nat llvm_value bool
  | GDef (getId: int) nat llvm_value bool
  | DDef (getId: int) nat llvm_value "entity option"
  | SUse (getId: int) nat llvm_value "llvm_value option" "entity option list"
  | LUse (getId: int) nat "llvm_value option" "entity option list"
  | In (getId: int) nat "nat option" "entity option list"

fun getEntityType :: "entity \<Rightarrow> TraceEntityType" where
  "getEntityType (TraceEntity i) = TT_trace_entity"
| "getEntityType (SDef i n t fs off dmn) = TT_sdef"
| "getEntityType (ADef i n a dmn) = TT_adef"
| "getEntityType (GDef i n v dmn) = TT_gdef"
| "getEntityType (DDef i n v target) = TT_ddef"
| "getEntityType (SUse i n s param ds) = TT_suse"
| "getEntityType (LUse i n param ds) = TT_luse"
| "getEntityType (In i n call subs) = TT_in"

text \<open>The cast compares the types for equality, so a base class is never matched.\<close>

definition trace_entity_dynamic_cast :: "TraceEntityType \<Rightarrow> entity option \<Rightarrow> entity option c" where
  "trace_entity_dynamic_cast t base =
     cbind (c_deref base) (\<lambda>e. Inr (if t = getEntityType e then Some e else None))"

definition isUse :: "entity option \<Rightarrow> bool c" where
  "isUse te =
     cbind (trace_entity_dynamic_cast TT_luse te) (\<lambda>l.
     cbind (trace_entity_dynamic_cast TT_suse te) (\<lambda>s.
     Inr (l \<noteq> None \<or> s \<noteq> None)))"

definition asUse :: "entity option \<Rightarrow> entity option c" where
  "asUse te =
     cbind (isUse te) (\<lambda>u.
     if u
     then cbind (trace_entity_dynamic_cast TT_luse te) (\<lambda>l.
          if l \<noteq> None then Inr l else trace_entity_dynamic_cast TT_suse te)
     else Inr None)"

definition isDef :: "entity option \<Rightarrow> bool c" where
  "isDef te =
     cbind (trace_entity_dynamic_cast TT_adef te) (\<lambda>a.
     cbind (trace_entity_dynamic_cast TT_gdef te) (\<lambda>g.
     cbind (trace_entity_dynamic_cast TT_ddef te) (\<lambda>d.
     cbind (trace_entity_dynamic_cast TT_sdef te) (\<lambda>s.
     Inr (a \<noteq> None \<or> g \<noteq> None \<or> d \<noteq> None \<or> s \<noteq> None)))))"

definition asDef :: "entity option \<Rightarrow> entity option c" where
  "asDef te =
     cbind (isDef te) (\<lambda>u.
     if u
     then cbind (trace_entity_dynamic_cast TT_adef te) (\<lambda>a. if a \<noteq> None then Inr a else
          cbind (trace_entity_dynamic_cast TT_ddef te) (\<lambda>d. if d \<noteq> None then Inr d else
          cbind (trace_entity_dynamic_cast TT_gdef te) (\<lambda>g. if g \<noteq> None then Inr g else
          trace_entity_dynamic_cast TT_sdef te)))
     else Inr None)"

section \<open>Types and sizes\<close>

datatype TargetType = store_t | alloca_t

definition evaluateSizeDL :: "llvm_module \<Rightarrow> TargetType \<Rightarrow> llvm_type option \<Rightarrow> u32 c" where
  "evaluateSizeDL m tt t =
     cbind (c_deref t) (\<lambda>ty. Inr (of_nat (case tt of store_t \<Rightarrow> store_size m ty | alloca_t \<Rightarrow> alloc_size m ty)))"

fun evaluateBaseType :: "llvm_type \<Rightarrow> llvm_type option" where
  "evaluateBaseType (ArrayTy n t) = Some (ArrayTy n t)"
| "evaluateBaseType (StructTy s) = Some (StructTy s)"
| "evaluateBaseType (IntegerTy n) = Some (IntegerTy n)"
| "evaluateBaseType (PointerTy t) = evaluateBaseType t"
| "evaluateBaseType VoidTy = None"
| "evaluateBaseType (FloatTy n) = None"
| "evaluateBaseType FunctionTy = None"

text \<open>The type a use writes to; values that are no address computation have their own type.\<close>

fun getValueType :: "llvm_module \<Rightarrow> llvm_value \<Rightarrow> llvm_type option" where
  "getValueType m (GetElementPtrInst i t ops) = evaluateBaseType t"
| "getValueType m (AllocaInst i t) = evaluateBaseType t"
| "getValueType m v = Some (type_of_value m v)"

fun use_target_type :: "llvm_module \<Rightarrow> entity \<Rightarrow> llvm_type option c" where
  "use_target_type m (SUse i n (StoreInst j p f) param ds) = Inr (getValueType m p)"
| "use_target_type m (LUse i n (Some p) ds) = Inr (getValueType m p)"
| "use_target_type m (LUse i n None ds) = Inl Indeterminate_Value"
| "use_target_type m _ = Inl Null_Deref"

definition getTotalBytesOfBaseType :: "llvm_module \<Rightarrow> entity \<Rightarrow> u32 c" where
  "getTotalBytesOfBaseType m use = cbind (use_target_type m use) (evaluateSizeDL m store_t)"

text \<open>
  The type and size of a definition. A dynamic one has no static size, and the type of its
  target; the size of the others is an \<open>unsigned int\<close> returned as \<open>int\<close>.
\<close>

definition SDef_getBytes :: "llvm_module \<Rightarrow> llvm_type \<Rightarrow> int c" where
  "SDef_getBytes m field_type = cbind (evaluateSizeDL m alloca_t (Some field_type)) (\<lambda>n. Inr (sint n))"

fun getAllocatedType :: "llvm_value \<Rightarrow> llvm_type option" where
  "getAllocatedType (AllocaInst i t) = Some t"
| "getAllocatedType _ = None"

definition ADef_getBytes :: "llvm_module \<Rightarrow> llvm_value \<Rightarrow> int c" where
  "ADef_getBytes m a = cbind (evaluateSizeDL m alloca_t (getAllocatedType a)) (\<lambda>n. Inr (sint n))"

fun getGlobalType :: "llvm_value \<Rightarrow> llvm_type option" where
  "getGlobalType (GlobalVariable i t) = Some t"
| "getGlobalType (OtherGlobal i t) = Some t"
| "getGlobalType _ = None"

definition GDef_getBytes :: "llvm_module \<Rightarrow> llvm_value \<Rightarrow> int c" where
  "GDef_getBytes m v = cbind (evaluateSizeDL m alloca_t (getGlobalType v)) (\<lambda>n. Inr (sint n))"

definition DDef_getBytes :: int where
  "DDef_getBytes = -1"

fun getType :: "entity \<Rightarrow> llvm_type option c" where
  "getType (SDef i n t fs off dmn) = Inr (Some t)"
| "getType (ADef i n a dmn) = Inr (getAllocatedType a)"
| "getType (GDef i n v dmn) = Inr (getGlobalType v)"
| "getType (DDef i n v (Some target)) = getType target"
| "getType _ = Inl Null_Deref"

fun getBytes :: "llvm_module \<Rightarrow> entity \<Rightarrow> int c" where
  "getBytes m (SDef i n t fs off dmn) = SDef_getBytes m t"
| "getBytes m (ADef i n a dmn) = ADef_getBytes m a"
| "getBytes m (GDef i n v dmn) = GDef_getBytes m v"
| "getBytes m (DDef i n v target) = Inr DDef_getBytes"
| "getBytes m e = Inl Null_Deref"

lemmas getBytes_defs = SDef_getBytes_def ADef_getBytes_def GDef_getBytes_def DDef_getBytes_def

fun getTarget :: "entity \<Rightarrow> llvm_value c" where
  "getTarget (SUse i n s (Some v) ds) = Inr v"
| "getTarget (LUse i n (Some v) ds) = Inr v"
| "getTarget (SUse i n s None ds) = Inl Indeterminate_Value"
| "getTarget (LUse i n None ds) = Inl Indeterminate_Value"
| "getTarget _ = Inl Null_Deref"

fun isDominator :: "entity \<Rightarrow> bool" where
  "isDominator (SDef i n t fs off dmn) = dmn"
| "isDominator (ADef i n a dmn) = dmn"
| "isDominator (GDef i n v dmn) = dmn"
| "isDominator _ = False"

fun targetObjects :: "entity \<Rightarrow> entity option list" where
  "targetObjects (SUse i n s param ds) = ds"
| "targetObjects (LUse i n param ds) = ds"
| "targetObjects _ = []"

fun addTargetObject :: "entity option \<Rightarrow> entity \<Rightarrow> entity" where
  "addTargetObject d (SUse i n s param ds) = SUse i n s param (ds @ [d])"
| "addTargetObject d (LUse i n param ds) = LUse i n param (ds @ [d])"
| "addTargetObject d e = e"

fun entityInsert :: "entity option \<Rightarrow> entity \<Rightarrow> entity" where
  "entityInsert te (In i n call subs) = In i n call (subs @ [te])"
| "entityInsert te e = e"

section \<open>Lines\<close>

definition one_line :: "string \<Rightarrow> string" where
  "one_line s = map (\<lambda>x. if x = CHR 0x0A then CHR '' '' else x) s"

fun commas :: "int list \<Rightarrow> string" where
  "commas [] = ''''"
| "commas [f] = int_text f"
| "commas (f # fs) = int_text f @ '','' @ commas fs"

definition semi :: "string list \<Rightarrow> string" where
  "semi fs = concat (map (\<lambda>f. f @ '';'') (butlast fs)) @ last fs @ [CHR 0x0A]"

definition dominator_text :: "bool \<Rightarrow> string" where
  "dominator_text dmn = (if dmn then ''DOMINATOR'' else ''BASE'')"

text \<open>The function a store or a call stands in.\<close>

fun function_name :: "llvm_value \<Rightarrow> string" where
  "function_name (StoreInst i p f) = f"
| "function_name (CallInst i callee f) = f"
| "function_name _ = ''''"

definition SDef_traceLine :: "graphs \<Rightarrow> llvm_module \<Rightarrow> int \<Rightarrow> int \<Rightarrow> nat \<Rightarrow> llvm_type \<Rightarrow> int list \<Rightarrow> int \<Rightarrow> bool \<Rightarrow> string c" where
  "SDef_traceLine g m father i n t field_vec offset dmn =
     (let s = ''['' @ commas field_vec @ '']'' in
      cbind (SDef_getBytes m t) (\<lambda>bytes.
      Inr (semi [int_text i, ''SDEF'', int_text father, dominator_text dmn, int_text bytes,
        int_text offset, s, one_line (node_text g n)])))"

definition ADef_traceLine :: "graphs \<Rightarrow> llvm_module \<Rightarrow> int \<Rightarrow> int \<Rightarrow> nat \<Rightarrow> llvm_value \<Rightarrow> bool \<Rightarrow> string c" where
  "ADef_traceLine g m father i n a dmn =
     cbind (ADef_getBytes m a) (\<lambda>bytes.
     Inr (semi [int_text i, ''ADEF'', int_text father, dominator_text dmn, int_text bytes, one_line (node_text g n)]))"

definition GDef_traceLine :: "graphs \<Rightarrow> llvm_module \<Rightarrow> int \<Rightarrow> int \<Rightarrow> nat \<Rightarrow> llvm_value \<Rightarrow> bool \<Rightarrow> string c" where
  "GDef_traceLine g m father i n v dmn =
     cbind (GDef_getBytes m v) (\<lambda>bytes.
     Inr (semi [int_text i, ''GDEF'', int_text father, dominator_text dmn, int_text bytes, one_line (node_text g n)]))"

definition DDef_traceLine :: "graphs \<Rightarrow> int \<Rightarrow> int \<Rightarrow> nat \<Rightarrow> string" where
  "DDef_traceLine g father i n =
     semi [int_text i, ''DDEF'', int_text father, ''BASE'', int_text DDef_getBytes, one_line (node_text g n)]"

definition SUse_traceLine :: "graphs \<Rightarrow> int \<Rightarrow> int \<Rightarrow> nat \<Rightarrow> llvm_value \<Rightarrow> string" where
  "SUse_traceLine g father i n storeUse =
     semi [int_text i, ''SUSE'', int_text father, function_name storeUse, one_line (svfg_text g n)]"

definition LUse_traceLine :: "graphs \<Rightarrow> int \<Rightarrow> int \<Rightarrow> nat \<Rightarrow> string" where
  "LUse_traceLine g father i n =
     semi [int_text i, ''LUSE'', int_text father, function_name (call_site g n), one_line (call_text g n)]"

definition In_traceLine :: "graphs \<Rightarrow> int \<Rightarrow> int \<Rightarrow> nat option \<Rightarrow> string c" where
  "In_traceLine g father i blacklistedCall =
     (case blacklistedCall of
        None \<Rightarrow> Inl Indeterminate_Value
      | Some call \<Rightarrow> Inr (semi [int_text i, ''IN'', int_text father, one_line (call_text g call)]))"

fun traceLine :: "graphs \<Rightarrow> llvm_module \<Rightarrow> int \<Rightarrow> entity \<Rightarrow> string c" where
  "traceLine g m father (TraceEntity i) = Inr (semi [int_text i, ''TRACE.ENTITY'', int_text father])"
| "traceLine g m father (SDef i n t fs off dmn) = SDef_traceLine g m father i n t fs off dmn"
| "traceLine g m father (ADef i n a dmn) = ADef_traceLine g m father i n a dmn"
| "traceLine g m father (GDef i n v dmn) = GDef_traceLine g m father i n v dmn"
| "traceLine g m father (DDef i n v target) = Inr (DDef_traceLine g father i n)"
| "traceLine g m father (SUse i n s param ds) = Inr (SUse_traceLine g father i n s)"
| "traceLine g m father (LUse i n param ds) = Inr (LUse_traceLine g father i n)"
| "traceLine g m father (In i n call subs) = In_traceLine g father i call"

lemmas traceLine_defs = SDef_traceLine_def ADef_traceLine_def GDef_traceLine_def DDef_traceLine_def
  SUse_traceLine_def LUse_traceLine_def In_traceLine_def

section \<open>Building and finding definitions\<close>

text \<open>
  The constructors take the next identifier first (the counter is an \<open>int\<close>); the ones of
  ADef, GDef and SDef then ask whether the node is a dominator. A use or an input is made
  without its parameter, its call and its objects, which are set later.
\<close>

definition new_id :: "int \<Rightarrow> (int \<times> int) c" where
  "new_id idCount = cbind (c_incr idCount) (\<lambda>next_id. Inr (idCount, next_id))"

definition new_SDef :: "graphs \<Rightarrow> nat \<Rightarrow> llvm_type \<Rightarrow> int list \<Rightarrow> int \<Rightarrow> int \<Rightarrow> (entity option \<times> int) c" where
  "new_SDef g n t field_list offset idCount =
     cbind (new_id idCount) (\<lambda>(i, next_id).
     cbind (isDominatorNode g n) (\<lambda>dmn. Inr (Some (SDef i n t field_list offset dmn), next_id)))"

definition new_ADef :: "graphs \<Rightarrow> nat \<Rightarrow> llvm_value \<Rightarrow> int \<Rightarrow> (entity option \<times> int) c" where
  "new_ADef g n a idCount =
     cbind (new_id idCount) (\<lambda>(i, next_id).
     cbind (isDominatorNode g n) (\<lambda>dmn. Inr (Some (ADef i n a dmn), next_id)))"

definition new_GDef :: "graphs \<Rightarrow> nat \<Rightarrow> llvm_value \<Rightarrow> int \<Rightarrow> (entity option \<times> int) c" where
  "new_GDef g n v idCount =
     cbind (new_id idCount) (\<lambda>(i, next_id).
     cbind (isDominatorNode g n) (\<lambda>dmn. Inr (Some (GDef i n v dmn), next_id)))"

definition new_DDef :: "nat \<Rightarrow> llvm_value \<Rightarrow> entity option \<Rightarrow> int \<Rightarrow> (entity option \<times> int) c" where
  "new_DDef n call target idCount =
     cbind (new_id idCount) (\<lambda>(i, next_id). Inr (Some (DDef i n call target), next_id))"

definition new_SUse :: "nat \<Rightarrow> llvm_value \<Rightarrow> int \<Rightarrow> (entity \<times> int) c" where
  "new_SUse n store idCount = cbind (new_id idCount) (\<lambda>(i, next_id). Inr (SUse i n store None [], next_id))"

definition new_LUse :: "nat \<Rightarrow> int \<Rightarrow> (entity \<times> int) c" where
  "new_LUse n idCount = cbind (new_id idCount) (\<lambda>(i, next_id). Inr (LUse i n None [], next_id))"

definition new_In :: "nat \<Rightarrow> int \<Rightarrow> (entity \<times> int) c" where
  "new_In n idCount = cbind (new_id idCount) (\<lambda>(i, next_id). Inr (In i n None [], next_id))"

definition dynamicFunctions :: "string list" where
  "dynamicFunctions = [''malloc'', ''calloc'']"

text \<open>The target of a dynamic definition is built first; building a null node is stuck.\<close>

partial_function (option) build_loop :: "graphs \<Rightarrow> nat \<Rightarrow> int \<Rightarrow> (entity option \<times> int) c option" where
  "build_loop g defNode idCount =
     (case node_value g defNode of
        None \<Rightarrow> Some (Inl Null_Deref)
      | Some v \<Rightarrow> (case v of
          AllocaInst i t \<Rightarrow> Some (new_ADef g defNode v idCount)
        | GlobalVariable i t \<Rightarrow> Some (new_GDef g defNode v idCount)
        | OtherGlobal i t \<Rightarrow> Some (new_GDef g defNode v idCount)
        | CallInst i callee f \<Rightarrow> (case callee of
            None \<Rightarrow> Some (Inl Null_Deref)
          | Some name \<Rightarrow>
              (if name \<in> set dynamicFunctions
               then (case findTargetOfCall g defNode of
                   Inl err \<Rightarrow> Some (Inl err)
                 | Inr None \<Rightarrow> Some (Inl Null_Deref)
                 | Inr (Some t) \<Rightarrow> Option.bind (build_loop g t idCount) (\<lambda>r. Some (cbind r (\<lambda>(target, k). new_DDef defNode v target k))))
               else Some (Inr (None, idCount))))
        | _ \<Rightarrow> Some (Inl Assertion_Failure)))"

definition buildDef :: "graphs \<Rightarrow> nat \<Rightarrow> int \<Rightarrow> (entity option \<times> int) c" where
  "buildDef g defNode idCount = (case build_loop g defNode idCount of None \<Rightarrow> Inl Diverges | Some r \<Rightarrow> r)"

text \<open>Struct fields are not compared.\<close>

fun def_is_node :: "graphs \<Rightarrow> nat \<Rightarrow> entity \<Rightarrow> bool c" where
  "def_is_node g pn (ADef i n a dmn) = Inr (node_id g pn = node_id g n)"
| "def_is_node g pn (GDef i n v dmn) = Inr (node_id g pn = node_id g n)"
| "def_is_node g pn (DDef i n v target) =
     (if node_id g pn = node_id g n then Inr True
      else (case target of None \<Rightarrow> Inl Null_Deref | Some t \<Rightarrow> def_is_node g pn t))"
| "def_is_node g pn e = Inr False"

definition defNodeCompare :: "graphs \<Rightarrow> entity option \<Rightarrow> nat \<Rightarrow> bool c" where
  "defNodeCompare g d pn = cbind (c_deref d) (def_is_node g pn)"

fun getDefWithID :: "entity option list \<Rightarrow> int \<Rightarrow> entity option c" where
  "getDefWithID [] i = Inr None"
| "getDefWithID (d # ds) i =
     cbind (c_deref d) (\<lambda>e. if getId e = i then Inr (Some e) else getDefWithID ds i)"

text \<open>The instruction of a use.\<close>

definition getUseInstruction :: "graphs \<Rightarrow> entity \<Rightarrow> llvm_value option" where
  "getUseInstruction g use = (case use of
     LUse i n param ds \<Rightarrow> Some (call_site g n)
   | SUse i n s param ds \<Rightarrow> Some s
   | _ \<Rightarrow> None)"

end
