(* ===== verification/Static_Export.thy ===== *)
theory Static_Export
  imports Static_Trace "HOL-Library.Sublist"
begin

text \<open>
  Writing the static trace (exportEntity, getTagValue, updateValueMap and exportTrace of
  SVF/tools/Example/svf-ex.cpp): the text the verifier reads, and the metadata that tells
  the instrumentation which values to report.
\<close>

section \<open>The text\<close>

definition tabs :: "nat \<Rightarrow> string" where
  "tabs n = replicate n (CHR 0x09)"

text \<open>A dynamic definition is followed by its target, as its child.\<close>

fun export_entity :: "graphs \<Rightarrow> llvm_module \<Rightarrow> entity \<Rightarrow> int \<Rightarrow> nat \<Rightarrow> string c" where
  "export_entity g m (DDef i n v (Some t)) father ident =
     cbind (traceLine g m father (DDef i n v (Some t))) (\<lambda>l.
     cbind (export_entity g m t i (Suc ident)) (\<lambda>s. Inr (tabs ident @ l @ s)))"
| "export_entity g m (DDef i n v None) father ident = Inl Null_Deref"
| "export_entity g m e father ident = cbind (traceLine g m father e) (\<lambda>l. Inr (tabs ident @ l))"

definition exportEntity :: "graphs \<Rightarrow> llvm_module \<Rightarrow> entity option \<Rightarrow> int \<Rightarrow> nat \<Rightarrow> string c" where
  "exportEntity g m te father ident = cbind (c_deref te) (\<lambda>e. export_entity g m e father ident)"

section \<open>The value map\<close>

text \<open>The value the metadata of an entity goes to; inputs and plain entities have none.\<close>

fun getTagValue :: "graphs \<Rightarrow> entity \<Rightarrow> llvm_value option" where
  "getTagValue g (ADef i n a dmn) = Some a"
| "getTagValue g (GDef i n v dmn) = Some v"
| "getTagValue g (DDef i n v target) = Some v"
| "getTagValue g (SDef i n t fs off dmn) = node_value g n"
| "getTagValue g (LUse i n param ds) = Some (call_site g n)"
| "getTagValue g (SUse i n s param ds) = Some s"
| "getTagValue g e = None"

text \<open>
  For each entity, by its address, the strings for definitions, stores and library calls.
  An entity is the object with its identifier.
\<close>

record tags =
  def_tag :: string
  store_tag :: string
  lib_tag :: string

type_synonym value_map = "(entity \<times> tags) list"

definition no_tags :: tags where
  "no_tags = \<lparr>def_tag = '''', store_tag = '''', lib_tag = ''''\<rparr>"

definition append_tag :: "string \<Rightarrow> string \<Rightarrow> string" where
  "append_tag text s = (if sublist text s then s else s @ ''_'' @ text)"

text \<open>An entity that is not in the map is inserted, one that is there has the text appended.\<close>

definition put_tag :: "entity \<Rightarrow> (tags \<Rightarrow> tags) \<Rightarrow> (tags \<Rightarrow> tags) \<Rightarrow> value_map \<Rightarrow> value_map" where
  "put_tag e fresh again vm =
     (if \<exists>x \<in> set vm. getId (fst x) = getId e
      then map (\<lambda>(d, t). if getId d = getId e then (d, again t) else (d, t)) vm
      else vm @ [(e, fresh no_tags)])"

definition update_tags :: "entity \<Rightarrow> value_map \<Rightarrow> value_map" where
  "update_tags e vm =
     (let text = int_text (getId e) in
      case getEntityType e of
        TT_suse \<Rightarrow> put_tag e (store_tag_update (\<lambda>_. text)) (store_tag_update (append_tag text)) vm
      | TT_luse \<Rightarrow> put_tag e (lib_tag_update (\<lambda>_. text)) (lib_tag_update (append_tag text)) vm
      | TT_adef \<Rightarrow> put_tag e (def_tag_update (\<lambda>_. text)) (def_tag_update (append_tag text)) vm
      | TT_gdef \<Rightarrow> put_tag e (def_tag_update (\<lambda>_. text)) (def_tag_update (append_tag text)) vm
      | TT_ddef \<Rightarrow> put_tag e (def_tag_update (\<lambda>_. text)) (def_tag_update (append_tag text)) vm
      | TT_sdef \<Rightarrow> put_tag e (def_tag_update (\<lambda>_. text)) (def_tag_update (append_tag text)) vm
      | _ \<Rightarrow> vm)"

definition updateValueMap :: "entity option \<Rightarrow> value_map \<Rightarrow> value_map c" where
  "updateValueMap te vm = cbind (c_deref te) (\<lambda>e. Inr (update_tags e vm))"

section \<open>The whole trace\<close>

text \<open>One entity is written and entered into the map; then the next.\<close>

definition export_one ::
    "graphs \<Rightarrow> llvm_module \<Rightarrow> int \<Rightarrow> nat \<Rightarrow> entity option \<Rightarrow> string \<times> value_map \<Rightarrow> (string \<times> value_map) c" where
  "export_one g m father ident te st = (case st of (text, vm) \<Rightarrow>
     cbind (exportEntity g m te father ident) (\<lambda>s.
     cbind (updateValueMap te vm) (\<lambda>vm'. Inr (text @ s, vm'))))"

definition export_sub ::
    "graphs \<Rightarrow> llvm_module \<Rightarrow> int \<Rightarrow> entity option \<Rightarrow> string \<times> value_map \<Rightarrow> (string \<times> value_map) c" where
  "export_sub g m father te st =
     cbind (export_one g m father 1 te st) (\<lambda>st'.
     cbind (asUse te) (\<lambda>u. case u of
         None \<Rightarrow> Inr st'
       | Some use \<Rightarrow> c_run (export_one g m (getId use) 2) (targetObjects use) st'))"

definition export_top ::
    "graphs \<Rightarrow> llvm_module \<Rightarrow> entity option \<Rightarrow> string \<times> value_map \<Rightarrow> (string \<times> value_map) c" where
  "export_top g m te st =
     cbind (export_one g m (-1) 0 te st) (\<lambda>st'.
     cbind (trace_entity_dynamic_cast TT_in te) (\<lambda>i. case i of
         Some (In k n call subs) \<Rightarrow> c_run (export_sub g m k) subs st'
       | _ \<Rightarrow> Inr st'))"

definition export_entities :: "graphs \<Rightarrow> llvm_module \<Rightarrow> entity option list \<Rightarrow> (string \<times> value_map) c" where
  "export_entities g m trace = c_run (export_top g m) trace ('''', [])"

text \<open>
  The metadata: setting it again replaces it. The map is walked in the order of the
  addresses of its entities, which \<open>order\<close> stands for.
\<close>

type_synonym metadata = "llvm_value \<Rightarrow> string \<Rightarrow> string option"

definition setMetadata :: "llvm_value \<Rightarrow> string \<Rightarrow> string \<Rightarrow> metadata \<Rightarrow> metadata" where
  "setMetadata v name text md = md(v := (md v)(name \<mapsto> text))"

fun is_instruction :: "llvm_value \<Rightarrow> bool" where
  "is_instruction (GlobalVariable i t) = False"
| "is_instruction (OtherGlobal i t) = False"
| "is_instruction (OtherValue i) = False"
| "is_instruction v = True"

fun is_global :: "llvm_value \<Rightarrow> bool" where
  "is_global (GlobalVariable i t) = True"
| "is_global v = False"

definition tag_entity :: "graphs \<Rightarrow> entity \<times> tags \<Rightarrow> metadata \<Rightarrow> metadata c" where
  "tag_entity g x md =
     cbind (c_deref (getTagValue g (fst x))) (\<lambda>v.
     let t = snd x;
         md1 = (if def_tag t \<noteq> '''' \<and> (is_instruction v \<or> is_global v) then setMetadata v ''zdef'' (def_tag t) md else md);
         md2 = (if store_tag t \<noteq> '''' \<and> is_instruction v then setMetadata v ''zsuse'' (store_tag t) md1 else md1) in
     Inr (if lib_tag t \<noteq> '''' \<and> is_instruction v then setMetadata v ''zluse'' (lib_tag t) md2 else md2))"

definition exportTrace ::
    "graphs \<Rightarrow> llvm_module \<Rightarrow> (value_map \<Rightarrow> value_map) \<Rightarrow> entity option list \<Rightarrow> metadata \<Rightarrow> (string \<times> metadata) c" where
  "exportTrace g m order trace md =
     cbind (export_entities g m trace) (\<lambda>(text, vm).
     cbind (c_run (tag_entity g) (order vm) md) (\<lambda>md'. Inr (text, md')))"

end
