(* ===== verification/Static_Export_Laws.thy ===== *)
theory Static_Export_Laws
  imports Static_Export Verifier_Laws
begin

text \<open>
  What the exported trace means to the verifier: the text is a list of lines, one for each
  entity with the identifier of its father; each line is read back as that entity; and the
  store has the children where the fathers say.
\<close>

section \<open>Lines of the text\<close>

fun entity_items :: "int \<Rightarrow> entity \<Rightarrow> (int \<times> entity) list" where
  "entity_items f (DDef i n v (Some t)) = (f, DDef i n v (Some t)) # entity_items i t"
| "entity_items f e = [(f, e)]"

definition use_items :: "entity \<Rightarrow> (int \<times> entity) list" where
  "use_items e = concat (map (\<lambda>d. entity_items (getId e) (the d)) (targetObjects e))"

definition sub_items :: "int \<Rightarrow> entity option \<Rightarrow> (int \<times> entity) list" where
  "sub_items f te = entity_items f (the te) @ use_items (the te)"

fun sub_objects :: "entity \<Rightarrow> entity option list" where
  "sub_objects (In i n call subs) = subs"
| "sub_objects e = []"

definition top_items :: "entity option \<Rightarrow> (int \<times> entity) list" where
  "top_items te = entity_items (-1) (the te) @ concat (map (sub_items (getId (the te))) (sub_objects (the te)))"

definition trace_items :: "entity option list \<Rightarrow> (int \<times> entity) list" where
  "trace_items trace = concat (map top_items trace)"

text \<open>A text that is made of the lines of items, each behind some tabulators.\<close>

definition is_text :: "graphs \<Rightarrow> llvm_module \<Rightarrow> (int \<times> entity) list \<Rightarrow> string \<Rightarrow> bool" where
  "is_text g m its s \<longleftrightarrow> (\<exists>ps. s = concat (map (\<lambda>(k, x). tabs k @ x) ps) \<and>
     list_all2 (\<lambda>(k, x) (f, e). traceLine g m f e = Inr x) ps its)"

lemma is_text_Nil: "is_text g m [] s \<longleftrightarrow> s = ''''"
  by (auto simp: is_text_def)

lemma is_text_append:
  assumes "is_text g m xs s" and "is_text g m ys t"
  shows "is_text g m (xs @ ys) (s @ t)"
proof -
  obtain ps qs where "s = concat (map (\<lambda>(k, x). tabs k @ x) ps)" "t = concat (map (\<lambda>(k, x). tabs k @ x) qs)"
    "list_all2 (\<lambda>(k, x) (f, e). traceLine g m f e = Inr x) ps xs"
    "list_all2 (\<lambda>(k, x) (f, e). traceLine g m f e = Inr x) qs ys"
    using assms by (auto simp: is_text_def)
  then show ?thesis unfolding is_text_def
    by (intro exI [of _ "ps @ qs"]) (simp add: list_all2_appendI)
qed

lemma is_text_one: "traceLine g m f e = Inr x \<Longrightarrow> is_text g m [(f, e)] (tabs k @ x)"
  unfolding is_text_def by (intro exI [of _ "[(k, x)]"]) simp

lemma is_text_Cons:
  "traceLine g m f e = Inr x \<Longrightarrow> is_text g m its t \<Longrightarrow> is_text g m ((f, e) # its) (tabs k @ x @ t)"
  using is_text_append [OF is_text_one] by fastforce

lemma export_entity_text: "export_entity g m e f k = Inr s \<Longrightarrow> is_text g m (entity_items f e) s"
  by (induction g m e f k arbitrary: s rule: export_entity.induct)
    (fastforce simp: cbind_eq_Inr intro: is_text_Cons is_text_one)+

lemma export_one_text:
  "export_one g m f k te (s, vm) = Inr (t, vm') \<Longrightarrow> \<exists>u. t = s @ u \<and> is_text g m (entity_items f (the te)) u"
  by (auto simp: export_one_def exportEntity_def c_deref_def cbind_eq_Inr dest: export_entity_text split: option.splits)

text \<open>A run that appends the text of each element appends the text of the whole.\<close>

lemma run_text:
  assumes "\<And>x s vm t vm'. f x (s, vm) = Inr (t, vm') \<Longrightarrow> \<exists>u. t = s @ u \<and> is_text g m (its x) u"
  shows "c_run f xs (s, vm) = Inr (t, vm') \<Longrightarrow> \<exists>u. t = s @ u \<and> is_text g m (concat (map its xs)) u"
proof (induction xs arbitrary: s vm)
  case Nil
  then show ?case by (simp add: is_text_Nil)
next
  case (Cons x xs)
  then obtain s1 vm1 where one: "f x (s, vm) = Inr (s1, vm1)" "c_run f xs (s1, vm1) = Inr (t, vm')"
    by (auto simp: cbind_eq_Inr)
  from assms [OF one(1)] Cons.IH [OF one(2)] show ?case
    by (auto intro: is_text_append)
qed

lemma asUse_Inr: "asUse te = Inr u \<Longrightarrow> te \<noteq> None \<and>
    u = (if getEntityType (the te) \<in> {TT_luse, TT_suse} then te else None)"
  by (cases te) (auto simp: asUse_def isUse_def trace_entity_dynamic_cast_def split: if_splits)

lemma no_targets: "getEntityType e \<notin> {TT_luse, TT_suse} \<Longrightarrow> targetObjects e = []"
  by (cases e) auto

lemma export_sub_text:
  assumes "export_sub g m f te (s, vm) = Inr (t, vm')"
  shows "\<exists>u. t = s @ u \<and> is_text g m (sub_items f te) u"
proof -
  obtain s1 vm1 u where one: "export_one g m f 1 te (s, vm) = Inr (s1, vm1)" and u: "asUse te = Inr u"
    and r: "(case u of None \<Rightarrow> Inr (s1, vm1) | Some use \<Rightarrow> c_run (export_one g m (getId use) 2) (targetObjects use) (s1, vm1)) = Inr (t, vm')"
    using assms by (auto simp: export_sub_def cbind_eq_Inr)
  obtain a where a: "s1 = s @ a" "is_text g m (entity_items f (the te)) a" using export_one_text [OF one] by blast
  have "\<exists>b. t = s1 @ b \<and> is_text g m (use_items (the te)) b"
  proof (cases u)
    case None
    then have "use_items (the te) = []" using asUse_Inr [OF u] no_targets by (auto simp: use_items_def split: if_splits)
    then show ?thesis using r None by (simp add: is_text_Nil)
  next
    case (Some e)
    then have "the te = e" using asUse_Inr [OF u] by (auto split: if_splits)
    then show ?thesis
      using r Some run_text [where f = "export_one g m (getId e) 2" and its = "\<lambda>d. entity_items (getId e) (the d)"]
        export_one_text by (auto simp: use_items_def)
  qed
  then show ?thesis using a is_text_append by (auto simp: sub_items_def)
qed

lemma export_top_text:
  assumes "export_top g m te (s, vm) = Inr (t, vm')"
  shows "\<exists>u. t = s @ u \<and> is_text g m (top_items te) u"
proof -
  obtain s1 vm1 i where one: "export_one g m (-1) 0 te (s, vm) = Inr (s1, vm1)"
    and i: "trace_entity_dynamic_cast TT_in te = Inr i"
    and r: "(case i of Some (In k n call subs) \<Rightarrow> c_run (export_sub g m k) subs (s1, vm1) | _ \<Rightarrow> Inr (s1, vm1)) = Inr (t, vm')"
    using assms by (auto simp: export_top_def cbind_eq_Inr)
  obtain a where a: "s1 = s @ a" "is_text g m (entity_items (-1) (the te)) a" using export_one_text [OF one] by blast
  obtain e where e: "te = Some e" "i = (if getEntityType e = TT_in then Some e else None)"
    using i by (cases te) (auto simp: trace_entity_dynamic_cast_def)
  have "\<exists>b. t = s1 @ b \<and> is_text g m (concat (map (sub_items (getId e)) (sub_objects e))) b"
    using r e run_text [where f = "export_sub g m (getId e)" and its = "sub_items (getId e)"] export_sub_text
    by (cases e) (auto simp: is_text_Nil)
  then show ?thesis using a is_text_append e by (auto simp: top_items_def)
qed

lemma export_entities_text: "export_entities g m trace = Inr (s, vm) \<Longrightarrow> is_text g m (trace_items trace) s"
  using run_text [where f = "export_top g m" and its = top_items and s = "''''" and xs = trace, OF export_top_text]
  by (auto simp: export_entities_def trace_items_def)

end
