(* ===== verification/Static_Readback.thy ===== *)
theory Static_Readback
  imports Static_Export_Laws
begin

text \<open>
  Reading the exported trace back: what the verifier's line parser makes of each line.
\<close>

section \<open>Numbers\<close>

lemma int_text_read: "py_number 10 (int_text z) = Inr z"
  using py_int_pad0 [of 10 0] by (simp add: py_number_def int_text_def pad0_def)

definition plain :: "string \<Rightarrow> bool" where
  "plain s \<longleftrightarrow> CHR '';'' \<notin> set s \<and> nl \<notin> set s"

lemma plain_append [simp]: "plain (s @ t) \<longleftrightarrow> plain s \<and> plain t"
  by (auto simp: plain_def)

lemma plain_simps [simp]: "plain []" "plain (x # s) \<longleftrightarrow> x \<noteq> CHR '';'' \<and> x \<noteq> nl \<and> plain s"
  by (auto simp: plain_def)

lemma digit_char_no_semi: "d < 16 \<Longrightarrow> digit_char d \<noteq> CHR '';''"
proof -
  assume "d < 16"
  then have "digit_val (digit_char d) = Some d" by (rule digit_val_char)
  moreover have "digit_val (CHR '';'') = None" by (simp add: digit_val_def)
  ultimately show ?thesis by auto
qed

lemma number_text_char: "x \<in> set (number_text 10 n) \<Longrightarrow> \<exists>d < 16. x = digit_char d"
  using digits_less [of 10 _ n] unfolding number_text_def by (fastforce intro: exI less_trans)

lemma int_text_char: "x \<in> set (int_text z) \<Longrightarrow> \<not> py_space x \<and> x \<noteq> CHR '';'' \<and> x \<noteq> nl"
  using number_text_char digit_char_plain digit_char_no_semi
  by (fastforce simp: int_text_def nl_def py_space_def split: if_splits)

lemma int_text_plain [simp]: "plain (int_text z)"
  using int_text_char by (auto simp: plain_def)

lemma int_text_not_Nil [simp]: "int_text z \<noteq> []"
  by (simp add: int_text_def number_text_def)

lemma commas_plain [simp]: "plain (commas fs)"
  by (induction fs rule: commas.induct) (simp_all add: nl_def)

section \<open>Splitting the text\<close>

definition rstrip :: "string \<Rightarrow> string" where
  "rstrip s = rev (dropWhile py_space (rev s))"

abbreviation lstrip :: "string \<Rightarrow> string" where
  "lstrip \<equiv> dropWhile py_space"

definition has_text :: "string \<Rightarrow> bool" where
  "has_text s \<longleftrightarrow> (\<exists>x \<in> set s. \<not> py_space x)"

lemma py_strip_rstrip: "py_strip s = rstrip (lstrip s)"
  by (simp add: py_strip_def rstrip_def)

lemma lstrip_append: "has_text a \<Longrightarrow> lstrip (a @ b) = lstrip a @ b"
  by (auto simp: has_text_def)

lemma rstrip_append: "has_text b \<Longrightarrow> rstrip (a @ b) = a @ rstrip b"
  by (auto simp: has_text_def rstrip_def)

lemma rstrip_last: "a \<noteq> [] \<Longrightarrow> \<not> py_space (last a) \<Longrightarrow> rstrip (a @ b) = a @ rstrip b"
proof (cases "has_text b")
  case False
  assume a: "a \<noteq> []" "\<not> py_space (last a)"
  have b: "\<forall>x \<in> set (rev b). py_space x" using False by (auto simp: has_text_def)
  have "dropWhile py_space (rev a) = rev a" using a by (cases a rule: rev_cases) auto
  then show ?thesis using drop_spaces(2) [of b "rev a"] drop_spaces(2) [of b "[]"] b by (simp add: rstrip_def)
qed (simp add: rstrip_append)

lemma has_text_strip: "has_text s \<Longrightarrow> has_text (lstrip s)" "has_text s \<Longrightarrow> has_text (rstrip s)"
proof -
  have "has_text (lstrip s)" if "has_text s" for s
    using that unfolding has_text_def by (induction s) auto
  moreover have "has_text (rev s) = has_text s" for s by (simp add: has_text_def)
  ultimately show "has_text s \<Longrightarrow> has_text (lstrip s)" "has_text s \<Longrightarrow> has_text (rstrip s)"
    unfolding rstrip_def by metis+
qed

lemma lstrip_lstrip [simp]: "lstrip (lstrip s) = lstrip s"
  by (induction s) auto

lemma rstrip_rstrip: "rstrip (rstrip s) = rstrip s"
  by (simp add: rstrip_def)

lemma strip_commute:
  assumes "has_text s"
  shows "lstrip (rstrip s) = rstrip (lstrip s)"
proof -
  obtain a x b where s: "s = a @ x # b" "\<forall>y \<in> set a. py_space y" "\<not> py_space x"
    using split_list_first_prop [of s "\<lambda>x. \<not> py_space x"] assms unfolding has_text_def by metis
  have x: "rstrip (x # b) = x # rstrip b" using s(3) rstrip_last [of "[x]" b] by simp
  have "has_text (x # b)" using s(3) by (simp add: has_text_def)
  then have "rstrip s = a @ x # rstrip b" using rstrip_append x by (simp add: s(1))
  moreover have "lstrip (a @ x # c) = x # c" for c using s(2,3) by (simp add: drop_spaces(1))
  ultimately show ?thesis using x by (simp add: s(1))
qed

lemma strip_idem: "py_strip (lstrip s) = py_strip s" "has_text s \<Longrightarrow> py_strip (rstrip s) = py_strip s"
  by (simp_all add: py_strip_rstrip strip_commute rstrip_rstrip)

definition lines_text :: "string list \<Rightarrow> string" where
  "lines_text ls = concat (map (\<lambda>l. l @ [nl]) ls)"

lemma split_lines: "(\<And>l. l \<in> set ls \<Longrightarrow> nl \<notin> set l) \<Longrightarrow> py_split nl (lines_text ls @ s) = ls @ py_split nl s"
  by (induction ls) (simp_all add: lines_text_def py_split_append)

lemma rstrip_lines: "has_text l \<Longrightarrow> rstrip (lines_text (ls @ [l])) = lines_text ls @ rstrip l"
proof -
  assume l: "has_text l"
  have "rstrip (l @ [nl]) = rstrip l" by (simp add: rstrip_def nl_def py_space_def)
  moreover have "rstrip (lines_text ls @ (l @ [nl])) = lines_text ls @ rstrip (l @ [nl])"
    using l by (intro rstrip_append) (auto simp: has_text_def)
  ultimately show ?thesis by (simp add: lines_text_def)
qed

lemma stripped_lines:
  assumes "ls \<noteq> []" and "\<And>l. l \<in> set ls \<Longrightarrow> has_text l \<and> nl \<notin> set l"
  shows "map py_strip (py_split nl (py_strip (lines_text ls))) = map py_strip ls"
proof -
  obtain x xs where ls: "ls = x # xs" using assms(1) by (cases ls) auto
  obtain ys y where ys: "lstrip x # xs = ys @ [y]" by (cases "lstrip x # xs" rule: rev_cases) auto
  have "set (lstrip x) \<subseteq> set x" by (auto dest: set_dropWhileD)
  then have ok: "has_text l \<and> nl \<notin> set l" if "l \<in> set (lstrip x # xs)" for l
    using that assms(2) has_text_strip(1) by (auto simp: ls)
  have "lstrip (lines_text ls) = lines_text (ys @ [y])"
    unfolding ys [symmetric] using assms(2) lstrip_append [of x] by (simp add: ls lines_text_def)
  then have "py_strip (lines_text ls) = lines_text ys @ rstrip y"
    using ok [of y] rstrip_lines unfolding ys by (simp add: py_strip_rstrip)
  moreover have "nl \<notin> set (rstrip y)" using ok [of y] unfolding ys by (auto simp: rstrip_def dest: set_dropWhileD)
  moreover have "nl \<notin> set l" if "l \<in> set ys" for l using ok [of l] that unfolding ys by simp
  ultimately have "py_split nl (py_strip (lines_text ls)) = ys @ [rstrip y]"
    using split_lines [of ys "rstrip y"] by (simp add: py_split_plain)
  then have "map py_strip (py_split nl (py_strip (lines_text ls))) = map py_strip (lstrip x # xs)"
    using strip_idem(2) [of y] ok [of y] unfolding ys by simp
  then show ?thesis by (simp add: ls strip_idem(1))
qed

section \<open>One line\<close>

text \<open>The name of an entity's type, the fields before the last one, and the last one.\<close>

fun type_name :: "entity \<Rightarrow> string" where
  "type_name (TraceEntity i) = ''TRACE.ENTITY''"
| "type_name (SDef i n t fs off dmn) = ''SDEF''"
| "type_name (ADef i n a dmn) = ''ADEF''"
| "type_name (GDef i n v dmn) = ''GDEF''"
| "type_name (DDef i n v target) = ''DDEF''"
| "type_name (SUse i n s param ds) = ''SUSE''"
| "type_name (LUse i n param ds) = ''LUSE''"
| "type_name (In i n call subs) = ''IN''"

fun use_function :: "graphs \<Rightarrow> entity \<Rightarrow> string" where
  "use_function g (SUse i n s param ds) = function_name s"
| "use_function g (LUse i n param ds) = function_name (call_site g n)"
| "use_function g e = ''''"

definition def_bytes :: "llvm_module \<Rightarrow> entity \<Rightarrow> int" where
  "def_bytes m e = projr (getBytes m e)"

fun more_fields :: "graphs \<Rightarrow> llvm_module \<Rightarrow> entity \<Rightarrow> string list" where
  "more_fields g m (SDef i n t fs off dmn) =
     [dominator_text dmn, int_text (def_bytes m (SDef i n t fs off dmn)), int_text off, ''['' @ commas fs @ '']'']"
| "more_fields g m (ADef i n a dmn) = [dominator_text dmn, int_text (def_bytes m (ADef i n a dmn))]"
| "more_fields g m (GDef i n v dmn) = [dominator_text dmn, int_text (def_bytes m (GDef i n v dmn))]"
| "more_fields g m (DDef i n v target) = [''BASE'', int_text (def_bytes m (DDef i n v target))]"
| "more_fields g m (SUse i n s param ds) = [function_name s]"
| "more_fields g m (LUse i n param ds) = [function_name (call_site g n)]"
| "more_fields g m e = []"

definition head_fields :: "graphs \<Rightarrow> llvm_module \<Rightarrow> int \<Rightarrow> entity \<Rightarrow> string list" where
  "head_fields g m f e = [int_text (getId e), type_name e, int_text f] @ more_fields g m e"

fun info_text :: "graphs \<Rightarrow> entity \<Rightarrow> string" where
  "info_text g (SUse i n s param ds) = one_line (svfg_text g n)"
| "info_text g (LUse i n param ds) = one_line (call_text g n)"
| "info_text g (In i n (Some call) subs) = one_line (call_text g call)"
| "info_text g (SDef i n t fs off dmn) = one_line (node_text g n)"
| "info_text g (ADef i n a dmn) = one_line (node_text g n)"
| "info_text g (GDef i n v dmn) = one_line (node_text g n)"
| "info_text g (DDef i n v target) = one_line (node_text g n)"
| "info_text g e = ''''"

text \<open>
  The entities the analysis makes, with function names the format allows, and field lists
  that Python evaluates.
\<close>

definition item_ok :: "(string \<Rightarrow> bool) \<Rightarrow> graphs \<Rightarrow> entity \<Rightarrow> bool" where
  "item_ok evals g e \<longleftrightarrow> getEntityType e \<noteq> TT_trace_entity \<and> plain (use_function g e) \<and>
     (case e of SDef i n t fs off dmn \<Rightarrow> evals (''['' @ commas fs @ '']'') | _ \<Rightarrow> True)"

definition line_of :: "string list \<Rightarrow> string \<Rightarrow> string" where
  "line_of hs info = concat (map (\<lambda>f. f @ '';'') hs) @ info"

lemma semi_line: "semi (hs @ [info]) = line_of hs info @ [nl]"
  by (simp add: semi_def line_of_def nl_def)

lemma traceLine_line:
  assumes "traceLine g m f e = Inr x" and "item_ok evals g e"
  shows "x = line_of (head_fields g m f e) (info_text g e) @ [nl]"
proof -
  have "x = semi (head_fields g m f e @ [info_text g e])"
  proof (cases e)
    case (In i n call subs)
    then show ?thesis using assms by (cases call) (simp_all add: head_fields_def traceLine_defs)
  qed (use assms in \<open>auto simp: head_fields_def cbind_eq_Inr def_bytes_def item_ok_def traceLine_defs Let_def\<close>)
  then show ?thesis by (simp add: semi_line)
qed

lemma head_fields_plain: "item_ok evals g e \<Longrightarrow> h \<in> set (head_fields g m f e) \<Longrightarrow> plain h"
  by (cases e) (auto simp: head_fields_def item_ok_def dominator_text_def nl_def split: if_splits)

lemma one_line_plain: "nl \<notin> set (one_line s)"
  by (auto simp: one_line_def nl_def)

lemma info_text_plain: "nl \<notin> set (info_text g e)"
  by (cases "(g, e)" rule: info_text.cases) (simp_all add: one_line_plain)

lemma line_plain:
  assumes "item_ok evals g e"
  shows "nl \<notin> set (line_of (head_fields g m f e) (info_text g e))"
    and "has_text (line_of (head_fields g m f e) (info_text g e))"
  using head_fields_plain [OF assms] info_text_plain [of g e]
  by (auto simp: line_of_def plain_def nl_def has_text_def py_space_def head_fields_def)

lemma split_fields:
  "(\<And>h. h \<in> set hs \<Longrightarrow> CHR '';'' \<notin> set h) \<Longrightarrow> py_split (CHR '';'') (line_of hs info) = hs @ py_split (CHR '';'') info"
  by (induction hs) (simp_all add: line_of_def py_split_append)

lemma strip_line:
  assumes "hs \<noteq> []" and "hd hs \<noteq> []" and "\<not> py_space (hd (hd hs))"
  shows "py_strip (tabs k @ line_of hs info) = line_of hs (rstrip info)"
proof -
  let ?a = "concat (map (\<lambda>f. f @ '';'') hs)"
  have "\<forall>x \<in> set (tabs k). py_space x" by (auto simp: tabs_def py_space_def)
  moreover have "lstrip (line_of hs info) = line_of hs info"
    using assms by (intro drop_nothing) (cases hs; auto simp: line_of_def)
  ultimately have "lstrip (tabs k @ line_of hs info) = ?a @ info"
    by (simp add: drop_spaces(1) line_of_def)
  moreover have "last ?a = CHR '';''" "?a \<noteq> []" using assms(1) by (cases hs rule: rev_cases; simp)+
  then have "rstrip (?a @ info) = ?a @ rstrip info" by (intro rstrip_last) (simp_all add: py_space_def)
  ultimately show ?thesis by (simp add: py_strip_rstrip line_of_def)
qed

definition described :: "graphs \<Rightarrow> llvm_module \<Rightarrow> int \<times> entity \<Rightarrow> trace_line \<Rightarrow> bool" where
  "described g m x t \<longleftrightarrow> (case x of (f, e) \<Rightarrow>
     tl_id t = getId e \<and> tl_type t = type_name e \<and> tl_father t = Some f \<and>
     (py_in ''DEF'' (type_name e) \<longrightarrow> tl_length t = [0 \<mapsto> def_bytes m e] \<and> tl_cls t = Some (dominator_text (isDominator e))) \<and>
     (py_in ''USE'' (type_name e) \<longrightarrow> tl_fun t = Some (use_function g e)) \<and>
     (case e of SDef i n ty fs off dmn \<Rightarrow> tl_offset t = off | _ \<Rightarrow> tl_offset t = 0))"

lemma fields_described:
  assumes "py_split (CHR '';'') s = head_fields g m f e @ r # rs" and "item_ok evals g e"
  shows "\<exists>t. Trace_line evals s = Inr t \<and> described g m (f, e) t \<and> tl_children t = []"
  using assms
  by (cases e) (simp_all add: Trace_line_def Let_def head_fields_def py_nth_def int_text_read def_attributes_def
      use_attributes_def described_def item_ok_def dominator_text_def)

lemma line_described:
  assumes ok: "item_ok evals g e"
  shows "\<exists>t. Trace_line evals (py_strip (tabs k @ line_of (head_fields g m f e) (info_text g e))) = Inr t \<and>
    described g m (f, e) t \<and> tl_children t = []"
proof -
  let ?hs = "head_fields g m f e"
  have "?hs \<noteq> []" "hd ?hs = int_text (getId e)" by (simp_all add: head_fields_def)
  moreover have "\<not> py_space (hd (int_text (getId e)))" using int_text_char [of _ "getId e"] by simp
  ultimately have "py_strip (tabs k @ line_of ?hs (info_text g e)) = line_of ?hs (rstrip (info_text g e))"
    by (intro strip_line) simp_all
  moreover have "py_split (CHR '';'') (line_of ?hs (rstrip (info_text g e))) = ?hs @ py_split (CHR '';'') (rstrip (info_text g e))"
    using head_fields_plain [OF ok] by (intro split_fields) (simp add: plain_def)
  moreover obtain r rs where "py_split (CHR '';'') (rstrip (info_text g e)) = r # rs"
    using py_split_not_Nil by (metis list.exhaust)
  ultimately have v: "py_split (CHR '';'') (py_strip (tabs k @ line_of ?hs (info_text g e))) = ?hs @ r # rs" by simp
  then show ?thesis using ok by (rule fields_described)
qed

end
