(* ===== verification/Static_Store.thy ===== *)
theory Static_Store
  imports Static_Readback
begin

text \<open>
  The store the verifier builds from an exported trace: one node for each line, in the
  order of the lines, with the children the fathers say. A father is looked up by its
  identifier, so that the first line with the identifier has the children of all.
\<close>

section \<open>Lines of an exported text\<close>

definition item_line :: "graphs \<Rightarrow> llvm_module \<Rightarrow> nat \<times> int \<times> entity \<Rightarrow> string" where
  "item_line g m x = (case x of (k, f, e) \<Rightarrow> tabs k @ line_of (head_fields g m f e) (info_text g e))"

definition items_ok :: "(string \<Rightarrow> bool) \<Rightarrow> graphs \<Rightarrow> (int \<times> entity) list \<Rightarrow> bool" where
  "items_ok evals g its \<longleftrightarrow> (\<forall>x \<in> set its. item_ok evals g (snd x))"

lemma text_lines_of_items:
  assumes "is_text g m its s" and "items_ok evals g its"
  shows "\<exists>ks. length ks = length its \<and> s = lines_text (map (item_line g m) (zip ks its))"
proof -
  obtain ps where ps: "s = concat (map (\<lambda>(k, x). tabs k @ x) ps)"
    "list_all2 (\<lambda>(k, x) (f, e). traceLine g m f e = Inr x) ps its"
    using assms(1) by (auto simp: is_text_def)
  have "concat (map (\<lambda>(k, x). tabs k @ x) ps) = lines_text (map (item_line g m) (zip (map fst ps) its))"
    using ps(2) assms(2)
  proof (induction rule: list_all2_induct)
    case Nil
    then show ?case by (simp add: lines_text_def)
  next
    case (Cons p ps x its)
    then show ?case using traceLine_line [of g m "fst x" "snd x" "snd p" evals]
      by (auto simp: lines_text_def item_line_def items_ok_def split: prod.splits)
  qed
  then show ?thesis using ps list_all2_lengthD [OF ps(2)] by (intro exI [of _ "map fst ps"]) simp
qed

lemma parse_line_strip:
  "py_strip l = py_strip l' \<Longrightarrow> parse_line evals l v = parse_line evals l' v"
  by (simp add: parse_line_def)

lemma parse_lines_strip:
  "map py_strip ls = map py_strip ls' \<Longrightarrow> c_run (parse_line evals) ls v = c_run (parse_line evals) ls' v"
proof (induction ls arbitrary: ls' v)
  case (Cons l ls)
  then obtain l' ks where l': "ls' = l' # ks" "py_strip l = py_strip l'" "map py_strip ls = map py_strip ks"
    by (cases ls') auto
  then have "parse_line evals l v = parse_line evals l' v" by (intro parse_line_strip)
  then show ?case using Cons.IH [OF l'(3)] by (cases "parse_line evals l' v") (simp_all add: l'(1))
qed simp

lemma item_line_plain:
  assumes "items_ok evals g its" and "l \<in> set (map (item_line g m) (zip ks its))"
  shows "has_text l \<and> nl \<notin> set l"
proof -
  obtain k f e where l: "l = tabs k @ line_of (head_fields g m f e) (info_text g e)" "(f, e) \<in> set its"
    using assms(2) by (auto simp: item_line_def dest!: set_zip_rightD)
  then have "item_ok evals g e" using assms(1) by (auto simp: items_ok_def)
  from line_plain [OF this, where f = f and m = m] show ?thesis by (auto simp: l(1) has_text_def tabs_def nl_def)
qed

lemma trace_parser_items:
  assumes "is_text g m its s" and "items_ok evals g its" and "its \<noteq> []"
  shows "\<exists>ks. length ks = length its \<and>
    trace_parser evals s v = c_run (parse_line evals) (map (item_line g m) (zip ks its)) v"
proof -
  obtain ks where ks: "length ks = length its" "s = lines_text (map (item_line g m) (zip ks its))"
    using text_lines_of_items [OF assms(1,2)] by blast
  then have "map (item_line g m) (zip ks its) \<noteq> []" using assms(3) by auto
  then have "map py_strip (py_split nl (py_strip (lines_text (map (item_line g m) (zip ks its))))) =
      map py_strip (map (item_line g m) (zip ks its))"
    by (rule stripped_lines) (rule item_line_plain [OF assms(2)])
  then have "trace_parser evals s v = c_run (parse_line evals) (map (item_line g m) (zip ks its)) v"
    unfolding trace_parser_def ks(2) by (rule parse_lines_strip)
  then show ?thesis using ks(1) by blast
qed

section \<open>Fathers\<close>

definition father_of :: "(int \<times> entity) list \<Rightarrow> nat \<Rightarrow> nat option" where
  "father_of its j =
     (if fst (its ! j) = -1 then None
      else find (\<lambda>i. getId (snd (its ! i)) = fst (its ! j)) [0..<Suc j])"

fun fathered :: "int set \<Rightarrow> (int \<times> entity) list \<Rightarrow> bool" where
  "fathered S [] = True"
| "fathered S ((f, e) # its) = ((f = -1 \<or> f \<in> S) \<and> fathered (insert (getId e) S) its)"

definition ids :: "(int \<times> entity) list \<Rightarrow> int set" where
  "ids its = getId ` snd ` set its"

lemma fathered_append: "fathered S (xs @ ys) \<longleftrightarrow> fathered S xs \<and> fathered (S \<union> ids xs) ys"
  by (induction S xs rule: fathered.induct) (simp_all add: ids_def insert_commute Un_commute)

lemma fathered_mono: "fathered S xs \<Longrightarrow> S \<subseteq> T \<Longrightarrow> fathered T xs"
  by (induction S xs arbitrary: T rule: fathered.induct) (simp_all, blast)

lemma fathered_concat: "(\<And>x. x \<in> set xs \<Longrightarrow> fathered S (h x)) \<Longrightarrow> fathered S (concat (map h xs))"
  by (induction xs) (auto simp: fathered_append intro: fathered_mono)

lemma fathered_entity: "f = -1 \<or> f \<in> S \<Longrightarrow> fathered S (entity_items f e)"
  by (induction f e arbitrary: S rule: entity_items.induct) auto

lemma entity_in_items: "getId e \<in> ids (entity_items f e)"
  by (cases "(f, e)" rule: entity_items.cases) (auto simp: ids_def)

lemma fathered_trace: "fathered {} (trace_items trace)"
proof -
  have uses: "fathered (insert (getId e) S) (use_items e)" for e S
    unfolding use_items_def by (intro fathered_concat fathered_entity) simp
  have "fathered S (sub_items f te)" if "f \<in> S" for f te S
    using that uses [of "the te" "S \<union> ids (entity_items f (the te))"] entity_in_items [of "the te" f]
    by (simp add: sub_items_def fathered_append fathered_entity insert_absorb)
  then have "fathered (insert (getId (the te)) S) (concat (map (sub_items (getId (the te))) (sub_objects (the te))))" for te S
    by (intro fathered_concat) simp
  then have "fathered {} (top_items te)" for te
    using entity_in_items [of "the te" "-1"]
    by (simp add: top_items_def fathered_append fathered_entity) (metis insert_absorb)
  then show ?thesis unfolding trace_items_def by (intro fathered_concat)
qed

lemma find_Some_iff: "find P xs \<noteq> None \<longleftrightarrow> (\<exists>x \<in> set xs. P x)"
  by (auto simp: find_None_iff)

lemma fathered_father_of:
  assumes "fathered {} its" and "j < length its" and "fst (its ! j) \<noteq> -1"
  shows "father_of its j \<noteq> None"
proof -
  have "its = take j its @ (its ! j) # drop (Suc j) its" using assms(2) by (rule id_take_nth_drop)
  then have "fathered (ids (take j its)) ((its ! j) # drop (Suc j) its)"
    using assms(1) fathered_append [of "{}" "take j its"] by (metis Un_empty_left)
  then have "fst (its ! j) \<in> ids (take j its)" using assms(3) by (cases "its ! j") simp
  then obtain i where "i < j" "getId (snd (its ! i)) = fst (its ! j)"
    using assms(2) by (auto simp: ids_def in_set_conv_nth)
  then have "\<exists>i \<in> set [0..<Suc j]. getId (snd (its ! i)) = fst (its ! j)" by auto
  then show ?thesis using assms(3) unfolding father_of_def find_Some_iff [symmetric] by simp
qed

section \<open>The store\<close>

definition children_of :: "(int \<times> entity) list \<Rightarrow> nat \<Rightarrow> nat list" where
  "children_of its k = filter (\<lambda>j. father_of its j = Some k) [0..<length its]"

definition store_of :: "graphs \<Rightarrow> llvm_module \<Rightarrow> (int \<times> entity) list \<Rightarrow> verifier \<Rightarrow> bool" where
  "store_of g m its v \<longleftrightarrow> length (nodes v) = length its \<and>
     (\<forall>k < length its. described g m (its ! k) (nodes v ! k) \<and> tl_children (nodes v ! k) = children_of its k)"

lemma father_of_append: "j < length its \<Longrightarrow> father_of (its @ [x]) j = father_of its j"
proof -
  assume j: "j < length its"
  have "find (\<lambda>i. getId (snd ((its @ [x]) ! i)) = f) ks = find (\<lambda>i. getId (snd (its ! i)) = f) ks"
    if "\<forall>i \<in> set ks. i < length its" for f ks
    using that by (induction ks) (auto simp: nth_append)
  then show ?thesis using j by (auto simp: father_of_def nth_append less_Suc_eq)
qed

lemma father_of_less: "father_of its j = Some k \<Longrightarrow> k < Suc j"
  by (auto simp: father_of_def split: if_splits dest!: find_in)

lemma children_of_append:
  "children_of (its @ [x]) k = children_of its k @ (if father_of (its @ [x]) (length its) = Some k then [length its] else [])"
proof -
  have "filter (\<lambda>j. father_of (its @ [x]) j = Some k) [0..<length its] = filter (\<lambda>j. father_of its j = Some k) [0..<length its]"
    by (intro filter_cong) (simp_all add: father_of_append)
  then show ?thesis by (simp add: children_of_def)
qed

lemma children_of_new: "children_of its (length its) = []"
proof -
  have "father_of its j \<noteq> Some (length its)" if "j < length its" for j
    using father_of_less [of its j "length its"] that by auto
  then show ?thesis by (auto simp: children_of_def filter_empty_conv)
qed

lemma described_children: "described g m x (t\<lparr>tl_children := cs\<rparr>) = described g m x t"
  by (auto simp: described_def split: prod.split entity.split)

lemma store_step:
  assumes st: "store_of g m its v" and ok: "item_ok evals g e"
    and father: "fst x \<noteq> -1 \<Longrightarrow> father_of (its @ [x]) (length its) \<noteq> None" and x: "x = (f, e)"
  shows "\<exists>w. parse_line evals (item_line g m (k, x)) v = Inr w \<and> store_of g m (its @ [x]) w"
proof -
  let ?n = "length its"
  obtain t where t: "Trace_line evals (py_strip (item_line g m (k, x))) = Inr t" "described g m x t" "tl_children t = []"
    using line_described [OF ok, where k = k and f = f and m = m] unfolding item_line_def x by auto
  have n: "length (nodes v) = ?n" using st by (simp add: store_of_def)
  let ?ns = "nodes v @ [t]"
  obtain u where u: "nodes u = ?ns" and r: "parse_line evals (item_line g m (k, x)) v =
      (if tl_father t = Some (-1) then Inr (u\<lparr>static_trace := static_trace u @ [?n]\<rparr>)
       else cbind (node_with (tl_father t) (nodes u)) (\<lambda>f. Inr (u\<lparr>nodes := add_child f ?n (nodes u)\<rparr>)))"
    by (rule that [of "if py_in ''DEF'' (tl_type t) then v\<lparr>nodes := ?ns, def_map := (def_map v)(tl_id t \<mapsto>
          (case def_map v (tl_id t) of Some ks \<Rightarrow> ks @ [?n] | None \<Rightarrow> [?n]))\<rparr> else v\<lparr>nodes := ?ns\<rparr>"])
      (simp_all add: parse_line_def t(1) Let_def n)
  have tf: "tl_father t = Some (fst x)" using t(2) by (auto simp: described_def split: prod.splits)
  have old: "described g m ((its @ [x]) ! j) (?ns ! j)" "tl_children (?ns ! j) = children_of its j" if "j < Suc ?n" for j
    using that st t(2,3) children_of_new [of its] by (auto simp: nth_append n store_of_def less_Suc_eq)
  show ?thesis
  proof (cases "fst x = -1")
    case True
    then have "father_of (its @ [x]) ?n = None" by (simp add: father_of_def)
    then show ?thesis using True r tf old by (simp add: store_of_def u n children_of_append)
  next
    case False
    then obtain j where j: "father_of (its @ [x]) ?n = Some j" using father by auto
    have same: "tl_id (?ns ! i) = getId (snd ((its @ [x]) ! i))" if "i < Suc ?n" for i
      using old(1) [OF that] by (auto simp: described_def split: prod.splits)
    have "find (\<lambda>i. Some (tl_id (?ns ! i)) = Some (fst x)) ks = find (\<lambda>i. getId (snd ((its @ [x]) ! i)) = fst x) ks"
      if "\<forall>i \<in> set ks. i < Suc ?n" for ks
      using that same by (induction ks) auto
    then have "node_with (tl_father t) ?ns = Inr j"
      using j False by (simp add: node_with_def py_next_def tf n father_of_def nth_append split: option.splits)
    moreover have "j < Suc ?n" using father_of_less [OF j] .
    ultimately show ?thesis
      using False r tf old j by (auto simp: store_of_def u n children_of_append add_child_def nth_list_update described_children)
  qed
qed

lemma store_built:
  assumes "items_ok evals g its" and "fathered {} its" and "length ks = length its"
  shows "\<exists>v. c_run (parse_line evals) (map (item_line g m) (zip ks its)) verifier_initial = Inr v \<and> store_of g m its v"
  using assms
proof (induction its arbitrary: ks rule: rev_induct)
  case Nil
  then show ?case by (simp add: store_of_def verifier_initial_def)
next
  case (snoc x its)
  obtain ls k where ks: "ks = ls @ [k]" "length ls = length its" using snoc.prems(3) by (cases ks rule: rev_cases) auto
  obtain v where v: "c_run (parse_line evals) (map (item_line g m) (zip ls its)) verifier_initial = Inr v" "store_of g m its v"
    using snoc.IH [of ls] snoc.prems ks by (auto simp: items_ok_def fathered_append)
  have "father_of (its @ [x]) (length its) \<noteq> None" if "fst x \<noteq> -1"
    using fathered_father_of [OF snoc.prems(2), of "length its"] that by simp
  then obtain w where "parse_line evals (item_line g m (k, x)) v = Inr w" "store_of g m (its @ [x]) w"
    using store_step [OF v(2), of evals "snd x" x "fst x" k] snoc.prems(1) by (auto simp: items_ok_def)
  then show ?case using v(1) ks by (simp add: c_run_append)
qed

lemma exported_store:
  assumes "export_entities g m trace = Inr (s, vm)" and "items_ok evals g (trace_items trace)" and "trace \<noteq> []"
  shows "\<exists>v. trace_parser evals s verifier_initial = Inr v \<and> store_of g m (trace_items trace) v"
proof -
  have "entity_items f e \<noteq> []" for f e by (cases "(f, e)" rule: entity_items.cases) simp_all
  then have "trace_items trace \<noteq> []" using assms(3) by (cases trace) (simp_all add: trace_items_def top_items_def)
  from trace_parser_items [OF export_entities_text [OF assms(1)] assms(2) this]
  obtain ks where "length ks = length (trace_items trace)" "trace_parser evals s verifier_initial =
      c_run (parse_line evals) (map (item_line g m) (zip ks (trace_items trace))) verifier_initial" by blast
  with store_built [OF assms(2) fathered_trace] show ?thesis by metis
qed

end
