(* ===== verification/Visits_Laws.thy ===== *)
theory Visits_Laws
  imports Visits
begin

text \<open>
  The search for definitions returns, on every finite graph, exactly the objects whose
  address flows to the start; the searches for the first store and the first dominator keep
  no list of visited nodes and do not return on a cycle.
\<close>

section \<open>All definitions behind a node\<close>

inductive flows_to :: "graphs \<Rightarrow> nat \<Rightarrow> nat \<Rightarrow> bool" for g start where
  start: "flows_to g start start"
| via: "flows_to g start n \<Longrightarrow> e \<in> set (in_edges g n) \<Longrightarrow> edge_kind e \<noteq> Addr_Edge \<Longrightarrow>
    \<not> is_dummy g (edge_src e) \<Longrightarrow> flows_to g start (edge_src e)"

text \<open>The sources of edges that the search collects, and those it goes on to.\<close>

definition addrs :: "graphs \<Rightarrow> pag_edge list \<Rightarrow> nat set" where
  "addrs g es = edge_src ` {e \<in> set es. edge_kind e = Addr_Edge \<and> \<not> is_dummy g (edge_src e)}"

definition values_of :: "graphs \<Rightarrow> pag_edge list \<Rightarrow> nat set" where
  "values_of g es = edge_src ` {e \<in> set es. edge_kind e \<noteq> Addr_Edge \<and> \<not> is_dummy g (edge_src e)}"

definition definitions_behind :: "graphs \<Rightarrow> nat \<Rightarrow> nat set" where
  "definitions_behind g start = (\<Union>n \<in> {n. flows_to g start n}. addrs g (in_edges g n))"

lemma addrs_Cons: "addrs g (e # es) = (if edge_kind e = Addr_Edge \<and> \<not> is_dummy g (edge_src e)
    then insert (edge_src e) (addrs g es) else addrs g es)"
  and values_of_Cons: "values_of g (e # es) = (if edge_kind e \<noteq> Addr_Edge \<and> \<not> is_dummy g (edge_src e)
    then insert (edge_src e) (values_of g es) else values_of g es)"
  by (auto simp: addrs_def values_of_def)

lemma edges_step:
  "\<exists>new. worklist (fold (quiet_selectDefs_edge g) es w) = worklist w @ new \<and>
    visited (fold (quiet_selectDefs_edge g) es w) = visited w @ new \<and> distinct new \<and>
    set new = values_of g es - set (visited w) \<and> ret (fold (quiet_selectDefs_edge g) es w) = ret w \<union> addrs g es"
proof (induction es rule: rev_induct)
  case Nil
  then show ?case by (simp add: addrs_def values_of_def)
next
  case (snoc e es)
  then obtain new where new: "worklist (fold (quiet_selectDefs_edge g) es w) = worklist w @ new"
    "visited (fold (quiet_selectDefs_edge g) es w) = visited w @ new" "distinct new"
    "set new = values_of g es - set (visited w)" "ret (fold (quiet_selectDefs_edge g) es w) = ret w \<union> addrs g es"
    by blast
  have app: "addrs g (es @ [e]) = addrs g es \<union> addrs g [e]" "values_of g (es @ [e]) = values_of g es \<union> values_of g [e]"
    by (auto simp: addrs_def values_of_def)
  let ?w = "fold (quiet_selectDefs_edge g) es w" and ?s = "edge_src e"
  consider "is_dummy g ?s" | "\<not> is_dummy g ?s" "edge_kind e = Addr_Edge"
    | "\<not> is_dummy g ?s" "edge_kind e \<noteq> Addr_Edge" "?s \<in> set (visited ?w)"
    | "\<not> is_dummy g ?s" "edge_kind e \<noteq> Addr_Edge" "?s \<notin> set (visited ?w)" by blast
  then show ?case
  proof cases
    case 4
    then have "quiet_selectDefs_edge g e ?w = ?w\<lparr>worklist := worklist ?w @ [?s], visited := visited ?w @ [?s]\<rparr>"
      by (simp add: quiet_selectDefs_edge_def push_def)
    then show ?thesis unfolding app using new 4
      by (intro exI [of _ "new @ [?s]"]) (auto simp: addrs_Cons values_of_Cons addrs_def [of g "[]"] values_of_def [of g "[]"])
  qed (use new in \<open>intro exI [of _ new]; auto simp: app quiet_selectDefs_edge_def [of g e] addrs_Cons values_of_Cons
      addrs_def [of g "[]"] values_of_def [of g "[]"]\<close>)+
qed

text \<open>
  The invariant of the search: what is waiting or visited flows to the start, the results
  are the sources of the nodes taken so far, and what flows to those is visited.
\<close>

definition search_inv :: "graphs \<Rightarrow> nat \<Rightarrow> nat set \<Rightarrow> visit \<Rightarrow> bool" where
  "search_inv g start taken w \<longleftrightarrow>
     set (worklist w) \<union> set (visited w) \<union> taken \<subseteq> {n. flows_to g start n} \<and>
     start \<in> taken \<union> set (worklist w) \<and>
     set (visited w) \<subseteq> taken \<union> set (worklist w) \<and>
     (\<forall>n \<in> taken. values_of g (in_edges g n) \<subseteq> set (visited w)) \<and>
     ret w = (\<Union>n \<in> taken. addrs g (in_edges g n))"

lemma search_step:
  assumes inv: "search_inv g start taken w" and ne: "worklist w \<noteq> []"
  shows "search_inv g start (insert (last (worklist w)) taken) (quiet_selectDefs g (last (worklist w)) (pop w))"
    (is "search_inv g start ?taken ?w")
proof -
  let ?c = "last (worklist w)"
  obtain new where new: "worklist ?w = butlast (worklist w) @ new" "visited ?w = visited w @ new @ [?c]"
    "set new = values_of g (in_edges g ?c) - set (visited w)" "ret ?w = ret w \<union> addrs g (in_edges g ?c)"
    using edges_step [of g "in_edges g ?c" "pop w"]
    by (auto simp: quiet_selectDefs_def Let_def pop_def)
  have wl: "set (worklist w) = insert ?c (set (butlast (worklist w)))"
    using ne by (metis append_butlast_last_id list.set(1) list.simps(15) set_append Un_insert_right sup_bot_right)
  have c: "flows_to g start ?c" using inv wl by (auto simp: search_inv_def)
  have "values_of g (in_edges g ?c) \<subseteq> {n. flows_to g start n}"
    using flows_to.via [OF c] by (auto simp: values_of_def)
  then show ?thesis
    using inv c unfolding search_inv_def new wl by (auto simp: new(3))
qed

lemma search_taken:
  assumes "search_inv g start taken w" and "worklist w = []"
  shows "taken = {n. flows_to g start n}"
proof -
  have "n \<in> taken" if "flows_to g start n" for n
    using that
  proof induction
    case start
    then show ?case using assms by (simp add: search_inv_def)
  next
    case (via n e)
    then have "edge_src e \<in> values_of g (in_edges g n)" by (auto simp: values_of_def)
    moreover have "values_of g (in_edges g n) \<subseteq> set (visited w)" "set (visited w) \<subseteq> taken"
      using via.IH assms by (simp_all add: search_inv_def)
    ultimately show ?case by blast
  qed
  then show ?thesis using assms by (auto simp: search_inv_def)
qed

lemma search_end:
  assumes "search_inv g start taken w" and "worklist w = []"
  shows "ret w = definitions_behind g start"
  using assms(1) search_taken [OF assms] by (simp add: search_inv_def definitions_behind_def)

lemma search_measure:
  assumes inv: "search_inv g start taken w" and ne: "worklist w \<noteq> []" and fin: "finite {n. flows_to g start n}"
  shows "card ({n. flows_to g start n} - set (visited (quiet_selectDefs g (last (worklist w)) (pop w)))) +
      length (worklist (quiet_selectDefs g (last (worklist w)) (pop w))) <
    card ({n. flows_to g start n} - set (visited w)) + length (worklist w)"
proof -
  let ?c = "last (worklist w)" and ?w = "quiet_selectDefs g (last (worklist w)) (pop w)" and ?R = "{n. flows_to g start n}"
  obtain new where new: "worklist ?w = butlast (worklist w) @ new" "visited ?w = visited w @ new @ [?c]"
    "distinct new" "set new = values_of g (in_edges g ?c) - set (visited w)"
    using edges_step [of g "in_edges g ?c" "pop w"]
    by (auto simp: quiet_selectDefs_def Let_def pop_def)
  have sub: "set new \<subseteq> ?R - set (visited w)"
    using search_step [OF inv ne] new(4) unfolding search_inv_def new(1,2) by auto
  have "card (?R - set (visited ?w)) \<le> card ((?R - set (visited w)) - set new)"
    using fin unfolding new(2) by (intro card_mono) auto
  also have "\<dots> = card (?R - set (visited w)) - length new"
    using sub fin new(3) by (subst card_Diff_subset) (auto simp: distinct_card intro: finite_subset)
  finally have "card (?R - set (visited ?w)) + length new \<le> card (?R - set (visited w))"
    using card_mono [OF _ sub] fin distinct_card [OF new(3)] by simp
  moreover have "length (butlast (worklist w)) < length (worklist w)" using ne by simp
  ultimately show ?thesis by (simp add: new(1))
qed

text \<open>
  The search of the overflow analysis is stuck at a node that it prints a null pointer at,
  and otherwise does the same.
\<close>

definition unprintable :: "graphs \<Rightarrow> nat \<Rightarrow> bool" where
  "unprintable g n \<longleftrightarrow> length (in_edges g n) > 1 \<and> (\<exists>e \<in> set (in_edges g n).
     edge_kind e = Addr_Edge \<and> \<not> is_dummy g (edge_src e) \<and> node_value g (edge_src e) = None)"

lemma selectDefs_edge_quiet:
  "selectDefs_edge g n e w =
    (if length (in_edges g n) > 1 \<and> edge_kind e = Addr_Edge \<and> \<not> is_dummy g (edge_src e) \<and> node_value g (edge_src e) = None
     then Inl Null_Deref else Inr (quiet_selectDefs_edge g e w))"
  by (cases "node_value g (edge_src e)") (auto simp: selectDefs_edge_def quiet_selectDefs_edge_def)

lemma selectDefs_edges:
  "c_run (selectDefs_edge g n) es w =
    (if length (in_edges g n) > 1 \<and> (\<exists>e \<in> set es. edge_kind e = Addr_Edge \<and> \<not> is_dummy g (edge_src e) \<and>
         node_value g (edge_src e) = None)
     then Inl Null_Deref else Inr (fold (quiet_selectDefs_edge g) es w))"
  by (induction es arbitrary: w) (auto simp: selectDefs_edge_quiet)

lemma selectDefs_quiet: "selectDefs g n w = (if unprintable g n then Inl Null_Deref else Inr (quiet_selectDefs g n w))"
  by (simp add: selectDefs_def quiet_selectDefs_def selectDefs_edges unprintable_def Let_def del: length_greater_0_conv)

text \<open>
  A selection function that takes the nodes the quiet one takes, and is stuck with one
  error at those of a set.
\<close>

definition stuck_at :: "(nat \<Rightarrow> bool) \<Rightarrow> graphs \<Rightarrow> select" where
  "stuck_at bad g n w = (if bad n then Inl Null_Deref else Inr (quiet_selectDefs g n w))"

lemma search_result:
  assumes "finite {n. flows_to g start n}" and "search_inv g start taken w" and "\<forall>n \<in> taken. \<not> bad n"
  shows "visit_loop (stuck_at bad g) w =
    Some (if \<exists>n. flows_to g start n \<and> bad n then Inl Null_Deref else Inr (definitions_behind g start))"
  using assms(2,3)
proof (induction "card ({n. flows_to g start n} - set (visited w)) + length (worklist w)" arbitrary: taken w rule: less_induct)
  case less
  show ?case
  proof (cases "worklist w = []")
    case True
    then have "\<not> bad n" if "flows_to g start n" for n
      using search_taken [OF less.prems(1) True] less.prems(2) that by auto
    then show ?thesis using search_end [OF less.prems(1) True] True by (auto simp: visit_loop.simps)
  next
    case False
    let ?c = "last (worklist w)"
    show ?thesis
    proof (cases "bad ?c")
      case True
      moreover have "flows_to g start ?c"
        using less.prems(1) last_in_set [OF False] by (auto simp: search_inv_def)
      ultimately show ?thesis using False by (subst visit_loop.simps) (auto simp: stuck_at_def)
    next
      case ok: False
      have "visit_loop (stuck_at bad g) w = visit_loop (stuck_at bad g) (quiet_selectDefs g ?c (pop w))"
        using False ok by (subst visit_loop.simps) (simp add: stuck_at_def)
      then show ?thesis
        using less.hyps [OF search_measure [OF less.prems(1) False assms(1)] search_step [OF less.prems(1) False]] less.prems(2) ok
        by simp
    qed
  qed
qed

lemma search_initial: "search_inv g pgn {} (visit_from pgn)"
  by (simp add: search_inv_def visit_from_def flows_to.start)

lemma getDefNodes_result:
  assumes "finite {n. flows_to g pgn n}"
  shows "getDefNodes g pgn = (if \<exists>n. flows_to g pgn n \<and> unprintable g n then Inl Null_Deref
    else Inr (sorted_list_of_set (definitions_behind g pgn)))"
proof -
  have "selectDefs g = stuck_at (unprintable g) g" by (intro ext) (simp add: selectDefs_quiet stuck_at_def)
  then show ?thesis using search_result [OF assms search_initial, of "unprintable g"]
    by (simp add: getDefNodes_def visitAndSelectPagNodes_def)
qed

lemma quiet_getDefNodes_result:
  assumes "finite {n. flows_to g pgn n}"
  shows "quiet_getDefNodes g pgn = Inr (sorted_list_of_set (definitions_behind g pgn))"
proof -
  have "never_stuck (quiet_selectDefs g) = stuck_at (\<lambda>_. False) g" by (intro ext) (simp add: never_stuck_def stuck_at_def)
  then show ?thesis using search_result [OF assms search_initial, of "\<lambda>_. False"]
    by (simp add: quiet_getDefNodes_def visitAndSelectPagNodes_def)
qed

lemma finite_definitions: "finite {n. flows_to g start n} \<Longrightarrow> finite (definitions_behind g start)"
  by (auto simp: definitions_behind_def addrs_def)

lemma findDefNodesFromStore_result:
  assumes "store_start g target = Inr start" and "finite {n. flows_to g start n}"
    and "\<And>n. flows_to g start n \<Longrightarrow> \<not> unprintable g n"
  shows "findDefNodesFromStore g target = Inr (sorted_list_of_set (definitions_behind g start) @
    (if edges_of Addr_Edge (out_edges g start) \<noteq> [] then [start] else []))"
proof -
  have "getDefNodes g start = Inr (sorted_list_of_set (definitions_behind g start))"
    using getDefNodes_result [OF assms(2)] assms(3) by auto
  then show ?thesis using assms(1) by (simp add: findDefNodesFromStore_def)
qed

section \<open>The first store\<close>

lemma first_store_pushes:
  assumes "\<forall>e \<in> set es. \<not> is_dummy g (edge_src e) \<and> edge_kind e \<noteq> Store_Edge"
  shows "selectFirstStore_edges g es w = w\<lparr>worklist := worklist w @ map edge_dst es\<rparr>"
  using assms by (induction es arbitrary: w) (simp_all add: push_def)

text \<open>
  A region that the search cannot leave and that has no store, with a part of it that
  every node of the part has a successor in: a cycle.
\<close>

definition trapped :: "graphs \<Rightarrow> nat set \<Rightarrow> nat set \<Rightarrow> bool" where
  "trapped g region cycle \<longleftrightarrow> cycle \<subseteq> region \<and>
     (\<forall>n \<in> region. \<forall>e \<in> set (out_edges g n). \<not> is_dummy g (edge_src e) \<and> edge_kind e \<noteq> Store_Edge \<and> edge_dst e \<in> region) \<and>
     (\<forall>n \<in> cycle. \<exists>e \<in> set (out_edges g n). edge_dst e \<in> cycle)"

lemma trapped_step:
  assumes t: "trapped g region cycle" and ne: "worklist w \<noteq> []"
    and inv: "set (worklist w) \<subseteq> region" "set (worklist w) \<inter> cycle \<noteq> {}"
  shows "set (worklist (selectFirstStore g (last (worklist w)) (pop w))) \<subseteq> region"
    and "set (worklist (selectFirstStore g (last (worklist w)) (pop w))) \<inter> cycle \<noteq> {}"
proof -
  let ?c = "last (worklist w)"
  have c: "?c \<in> region" using inv(1) ne by auto
  have wl: "worklist (selectFirstStore g ?c (pop w)) = butlast (worklist w) @ map edge_dst (out_edges g ?c)"
    using t c by (subst selectFirstStore_def, subst first_store_pushes) (auto simp: trapped_def pop_def)
  have split: "set (worklist w) = insert ?c (set (butlast (worklist w)))"
    using ne by (metis append_butlast_last_id list.set(1) list.simps(15) set_append Un_insert_right sup_bot_right)
  show "set (worklist (selectFirstStore g ?c (pop w))) \<subseteq> region"
    using inv(1) t c unfolding wl by (auto simp: trapped_def dest: in_set_butlastD)
  show "set (worklist (selectFirstStore g ?c (pop w))) \<inter> cycle \<noteq> {}"
  proof (cases "set (butlast (worklist w)) \<inter> cycle = {}")
    case True
    then have "?c \<in> cycle" using inv(2) split by auto
    then show ?thesis using t unfolding wl by (fastforce simp: trapped_def)
  qed (auto simp: wl)
qed

lemma visit_loop_diverges:
  assumes "I w" and "\<And>w. I w \<Longrightarrow> worklist w \<noteq> [] \<and> I (f (last (worklist w)) (pop w))"
  shows "visit_loop (never_stuck f) w = None"
proof -
  let ?P = "\<lambda>s w r. s = never_stuck f \<longrightarrow> \<not> I w"
  have "?P s w r" if "visit_loop s w = Some r" for s r w
  proof (rule visit_loop.raw_induct [where P = ?P, OF _ that])
    fix loop :: "select \<Rightarrow> visit \<Rightarrow> (nat set c) option" and select w y
    assume ih: "\<And>s w y. loop s w = Some y \<Longrightarrow> s = never_stuck f \<longrightarrow> \<not> I w"
      and body: "(if worklist w = [] then Some (Inr (ret w))
        else case select (last (worklist w)) (pop w) of Inl e \<Rightarrow> Some (Inl e) | Inr w' \<Rightarrow> loop select w') = Some y"
    show "select = never_stuck f \<longrightarrow> \<not> I w"
      using body assms(2) [of w] ih [of select] by (auto simp: never_stuck_def split: if_splits)
  qed
  then show ?thesis using assms(1) by (cases "visit_loop (never_stuck f) w") auto
qed

lemma first_store_trapped:
  assumes "trapped g region cycle" and "t0 \<in> cycle"
  shows "findFirstStore g t0 = Inl Diverges"
proof -
  have "visit_loop (never_stuck (selectFirstStore g)) (visit_from t0) = None"
  proof (rule visit_loop_diverges [where I = "\<lambda>w. set (worklist w) \<subseteq> region \<and> set (worklist w) \<inter> cycle \<noteq> {}"])
    show "set (worklist (visit_from t0)) \<subseteq> region \<and>
        set (worklist (visit_from t0)) \<inter> cycle \<noteq> {}"
      using assms by (auto simp: trapped_def visit_from_def)
    show "worklist w \<noteq> [] \<and> set (worklist (selectFirstStore g (last (worklist w)) (pop w))) \<subseteq> region \<and>
        set (worklist (selectFirstStore g (last (worklist w)) (pop w))) \<inter> cycle \<noteq> {}"
      if "set (worklist w) \<subseteq> region \<and> set (worklist w) \<inter> cycle \<noteq> {}" for w
    proof -
      have ne: "worklist w \<noteq> []" using that by auto
      then show ?thesis using trapped_step [OF assms(1) ne] that by blast
    qed
  qed
  then show ?thesis by (simp add: findFirstStore_def visitAndSelectPagNodes_def)
qed

text \<open>The nearest case: a store among the edges of the start is found at once.\<close>

lemma first_store_found:
  assumes "out_edges g t0 = es @ e # fs" and "\<forall>x \<in> set es. is_dummy g (edge_src x) \<or> edge_kind x \<noteq> Store_Edge"
    and "\<not> is_dummy g (edge_src e)" and "edge_kind e = Store_Edge"
  shows "findFirstStore g t0 = Inr (Some (edge_dst e))"
proof -
  have "selectFirstStore_edges g (es @ e # fs) w = (w\<lparr>worklist := [], ret := insert (edge_dst e) (ret w)\<rparr>)" for w
    using assms(2-4) by (induction es arbitrary: w) (auto simp: push_def)
  then have "visit_loop (never_stuck (selectFirstStore g)) (visit_from t0) = Some (Inr {edge_dst e})"
    by (subst visit_loop.simps) (simp add: selectFirstStore_def assms(1) pop_def never_stuck_def visit_from_def visit_loop.simps)
  then show ?thesis by (simp add: findFirstStore_def visitAndSelectPagNodes_def first_result_def)
qed

end
