(* ===== verification/Static_Props.thy ===== *)
theory Static_Props
  imports Static_Store Visits_Laws
begin

text \<open>
  The properties of the static side: the searches over the value-flow graphs, the exported
  trace as the verifier reads it, and the metadata left for the instrumentation.
\<close>

section \<open>The searches\<close>

text \<open>
  C9. On every graph in which finitely many nodes flow to the start, the search for
  definitions ends, cycles or not. Edges from dummy nodes are ignored. If some node that
  flows to the start has more than one incoming edge and, among them, the address of an
  object without a value, the search dereferences a null pointer where it prints the object;
  otherwise it returns exactly the objects whose address flows to the start, each once and
  ordered by address.
\<close>

theorem definitions_found:
  assumes "finite {n. flows_to g start n}"
  shows "if \<exists>n e. flows_to g start n \<and> length (in_edges g n) > 1 \<and> e \<in> set (in_edges g n) \<and> edge_kind e = Addr_Edge \<and>
       \<not> is_dummy g (edge_src e) \<and> node_value g (edge_src e) = None
    then getDefNodes g start = Inl Null_Deref
    else \<exists>ds. getDefNodes g start = Inr ds \<and> distinct ds \<and> sorted ds \<and>
      (\<forall>d. d \<in> set ds \<longleftrightarrow> (\<exists>n e. flows_to g start n \<and> e \<in> set (in_edges g n) \<and> edge_kind e = Addr_Edge \<and>
         \<not> is_dummy g (edge_src e) \<and> edge_src e = d))"
proof (cases "\<exists>n. flows_to g start n \<and> unprintable g n")
  case True
  then show ?thesis using getDefNodes_result [OF assms] by (auto simp: unprintable_def)
next
  case False
  moreover from this have "getDefNodes g start = Inr (sorted_list_of_set (definitions_behind g start))"
    using getDefNodes_result [OF assms] by simp
  ultimately show ?thesis using finite_definitions [OF assms]
    by (auto simp: unprintable_def definitions_behind_def addrs_def)
qed

text \<open>
  A graph with a cycle of two nodes, and an object whose address flows to one of them. The
  values of the edges are those of the object.
\<close>

definition edge :: "edge_kind \<Rightarrow> nat \<Rightarrow> nat \<Rightarrow> pag_edge" where
  "edge k s d = \<lparr>edge_kind = k, edge_src = s, edge_dst = d, edge_value = Some (AllocaInst 7 (IntegerTy 32))\<rparr>"

definition no_graphs :: graphs where
  "no_graphs = \<lparr>in_edges = \<lambda>_. [], out_edges = \<lambda>_. [], is_dummy = \<lambda>_. False, node_id = int, node_text = \<lambda>_. ''buf'',
     node_value = \<lambda>_. None, value_node = \<lambda>_. 0, svfg_in = \<lambda>_. [], svfg_out = \<lambda>_. [], svfg_value = \<lambda>_. None,
     svfg_text = \<lambda>_. ''store'', svfg_store = \<lambda>_. True, call_text = \<lambda>_. ''call'',
     call_site = \<lambda>_. CallInst 0 (Some ''wrapper_scanf'') ''main''\<rparr>"

definition cyclic_valued :: "(nat \<Rightarrow> llvm_value option) \<Rightarrow> graphs" where
  "cyclic_valued vs = no_graphs
     \<lparr>in_edges := (\<lambda>n. if n = 1 then [edge Other_Edge 2 1] else if n = 2 then [edge Other_Edge 1 2, edge Addr_Edge 3 2] else []),
      out_edges := (\<lambda>n. if n = 1 then [edge Other_Edge 1 2] else if n = 2 then [edge Other_Edge 2 1] else []),
      node_value := vs\<rparr>"

definition cyclic_graphs :: graphs where
  "cyclic_graphs = cyclic_valued (\<lambda>_. Some (AllocaInst 7 (IntegerTy 32)))"

lemma cyclic_fields:
  "in_edges (cyclic_valued vs) n = (if n = 1 then [edge Other_Edge 2 1]
     else if n = 2 then [edge Other_Edge 1 2, edge Addr_Edge 3 2] else [])"
  "out_edges (cyclic_valued vs) n = (if n = 1 then [edge Other_Edge 1 2] else if n = 2 then [edge Other_Edge 2 1] else [])"
  "is_dummy (cyclic_valued vs) n = False" "node_value (cyclic_valued vs) = vs"
  by (simp_all add: cyclic_valued_def no_graphs_def)

lemma cyclic_flows: "flows_to (cyclic_valued vs) 1 n \<longleftrightarrow> n \<in> {1, 2}"
proof
  show "n \<in> {1, 2}" if "flows_to (cyclic_valued vs) 1 n"
    using that by induction (auto simp: cyclic_fields edge_def split: if_splits)
  have "flows_to (cyclic_valued vs) 1 (edge_src (edge Other_Edge 2 1))"
    by (rule flows_to.via [OF flows_to.start]) (simp_all add: cyclic_fields edge_def)
  then show "flows_to (cyclic_valued vs) 1 n" if "n \<in> {1, 2}"
    using that flows_to.start by (auto simp: edge_def)
qed

theorem definitions_found_witness:
  "(\<exists>ds. getDefNodes cyclic_graphs 1 = Inr ds \<and> distinct ds \<and> sorted ds \<and> 3 \<in> set ds \<and> 1 \<notin> set ds) \<and>
   getDefNodes (cyclic_valued (\<lambda>_. None)) 1 = Inl Null_Deref"
proof -
  let ?v = "\<lambda>_ :: nat. Some (AllocaInst 7 (IntegerTy 32))" and ?n = "\<lambda>_ :: nat. None :: llvm_value option"
  have f: "finite {n. flows_to (cyclic_valued vs) 1 n}" for vs by (simp only: cyclic_flows) simp
  note found = definitions_found [OF f, unfolded cyclic_flows cyclic_fields]
  obtain ds where ds: "getDefNodes (cyclic_valued ?v) 1 = Inr ds" "distinct ds" "sorted ds"
    and d: "\<And>d. d \<in> set ds \<longleftrightarrow> (\<exists>(n :: nat) e. n \<in> {1, 2} \<and>
      e \<in> set (if n = 1 then [edge Other_Edge 2 1] else if n = 2 then [edge Other_Edge 1 2, edge Addr_Edge 3 2] else []) \<and>
      edge_kind e = Addr_Edge \<and> edge_src e = d)"
    using found [of ?v] by auto
  have "d \<in> set ds \<longleftrightarrow> d = 3" for d
    unfolding d by (auto simp: edge_def conj_disj_distribR ex_disj_distrib)
  moreover have "getDefNodes (cyclic_valued ?n) 1 = Inl Null_Deref"
    using found [of ?n] by (auto simp: edge_def conj_disj_distribR ex_disj_distrib split: if_splits)
  ultimately show ?thesis using ds by (simp add: cyclic_graphs_def)
qed

text \<open>
  The search for the first store keeps no record of visited nodes: from a node on a
  cycle that leads to no store it does not return, and so neither does the search for the
  target of a dynamic allocation.
\<close>

theorem first_store_diverges_on_cycle:
  assumes "trapped g region cycle" and "n \<in> cycle"
  shows "findFirstStore g n = Inl Diverges \<and> findTargetOfCall g n = Inl Diverges"
  using first_store_trapped [OF assms] by (simp add: findTargetOfCall_def)

theorem first_store_diverges_on_cycle_witness:
  "findFirstStore cyclic_graphs 1 = Inl Diverges \<and> findTargetOfCall cyclic_graphs 1 = Inl Diverges"
  by (rule first_store_diverges_on_cycle [of cyclic_graphs "{1, 2}" "{1, 2}"])
    (auto simp: trapped_def cyclic_graphs_def cyclic_fields edge_def)

section \<open>The exported trace\<close>

text \<open>
  C8. The static trace that the analysis exports is read back by the verifier line by
  line: one node for each entity, with its identifier, type, father, class, length, offset
  and function, the children where the fathers say, and a consistent store. The texts of
  the graph nodes may be anything.
\<close>

theorem exported_trace_read_back:
  assumes "exportTrace g m order trace md = Inr (text, md')" and "trace \<noteq> []"
    and "items_ok evals g (trace_items trace)"
  shows "\<exists>v. trace_parser evals text verifier_initial = Inr v \<and> ver_wf v \<and>
    length (nodes v) = length (trace_items trace) \<and>
    (\<forall>k < length (trace_items trace). described g m (trace_items trace ! k) (nodes v ! k) \<and>
       tl_children (nodes v ! k) = filter (\<lambda>j. father_of (trace_items trace) j = Some k) [0..<length (trace_items trace)])"
proof -
  obtain vm where "export_entities g m trace = Inr (text, vm)"
    using assms(1) by (auto simp: exportTrace_def cbind_eq_Inr)
  from exported_store [OF this assms(3,2)] show ?thesis
    using trace_parser_wf [OF _ ver_wf_initial] by (auto simp: store_of_def children_of_def)
qed

text \<open>An input whose library call writes to a buffer of 16 bytes.\<close>

definition sample_module :: llvm_module where
  "sample_module = \<lparr>struct_elements = \<lambda>_. [], store_size = \<lambda>_. 16, alloc_size = \<lambda>_. 16, type_of_value = \<lambda>_. VoidTy\<rparr>"

definition sample_buffer :: entity where
  "sample_buffer = ADef 2 4 (AllocaInst 7 (ArrayTy 16 (IntegerTy 8))) False"

definition sample_trace :: "entity option list" where
  "sample_trace = [Some (In 0 5 (Some 6) [Some (LUse 1 6 (Some (AllocaInst 7 (ArrayTy 16 (IntegerTy 8)))) [Some sample_buffer])])]"

lemma sample_export: "\<exists>text md'. exportTrace no_graphs sample_module (\<lambda>x. x) sample_trace md = Inr (text, md')"
  by (simp add: exportTrace_def export_entities_def sample_trace_def export_top_def export_one_def exportEntity_def
    sample_buffer_def getBytes_defs traceLine_defs evaluateSizeDL_def updateValueMap_def trace_entity_dynamic_cast_def export_sub_def
    asUse_def isUse_def update_tags_def put_tag_def Let_def tag_entity_def no_tags_def)

theorem exported_trace_read_back_witness:
  "\<exists>text v. trace_parser (\<lambda>_. True) text verifier_initial = Inr v \<and> ver_wf v \<and> length (nodes v) = 3 \<and>
    tl_type (nodes v ! 2) = ''ADEF'' \<and> tl_length (nodes v ! 2) = [0 \<mapsto> 16] \<and> tl_children (nodes v ! 1) = [2]"
proof -
  obtain s md' where e: "exportTrace no_graphs sample_module (\<lambda>x. x) sample_trace (\<lambda>_ _. None) = Inr (s, md')"
    using sample_export by blast
  have its: "trace_items sample_trace = [(-1, In 0 5 (Some 6) [Some (LUse 1 6 (Some (AllocaInst 7 (ArrayTy 16 (IntegerTy 8)))) [Some sample_buffer])]),
      (0, LUse 1 6 (Some (AllocaInst 7 (ArrayTy 16 (IntegerTy 8)))) [Some sample_buffer]), (1, sample_buffer)]"
    by (simp add: trace_items_def sample_trace_def top_items_def sub_items_def use_items_def sample_buffer_def)
  have "items_ok (\<lambda>_. True) no_graphs (trace_items sample_trace)"
    by (simp add: its items_ok_def item_ok_def sample_buffer_def no_graphs_def nl_def)
  moreover have "sample_trace \<noteq> []" "length (trace_items sample_trace) = 3" by (simp_all add: its) (simp add: sample_trace_def)
  ultimately obtain v where
    v: "trace_parser (\<lambda>_. True) s verifier_initial = Inr v" "ver_wf v" "length (nodes v) = 3"
    and d: "\<forall>k < 3. described no_graphs sample_module (trace_items sample_trace ! k) (nodes v ! k) \<and>
       tl_children (nodes v ! k) = filter (\<lambda>j. father_of (trace_items sample_trace) j = Some k) [0..<3]"
    using exported_trace_read_back [OF e] by metis
  have "def_bytes sample_module sample_buffer = 16"
    by (simp add: def_bytes_def getBytes_defs sample_buffer_def evaluateSizeDL_def sample_module_def)
  then have "tl_type (nodes v ! 2) = ''ADEF'' \<and> tl_length (nodes v ! 2) = [0 \<mapsto> 16]"
    using d [rule_format, of 2] by (simp add: its described_def) (simp add: sample_buffer_def)
  moreover have "tl_children (nodes v ! 1) = [2]"
    using d [rule_format, of 1] by (simp add: its father_of_def upt_rec sample_buffer_def)
  ultimately show ?thesis using v by blast
qed

section \<open>Shared dynamic definitions\<close>

text \<open>
  The trace of an input function: the analysis enters the definition it finds as a
  sub-object of the input, and again as the target of the stores.
\<close>

definition shared_trace :: "int \<Rightarrow> nat \<Rightarrow> nat \<Rightarrow> entity \<Rightarrow> entity \<Rightarrow> entity option list" where
  "shared_trace i n call d use = [Some (In i n (Some call) [Some d, Some (addTargetObject (Some d) use)])]"

lemma shared_items:
  assumes "d = DDef j nd v (Some t)" and "getEntityType t = TT_adef" and "use = SUse u nu s param []"
  shows "trace_items (shared_trace i n call d use) =
    [(-1, In i n (Some call) [Some d, Some (SUse u nu s param [Some d])]), (i, d), (j, t),
     (i, SUse u nu s param [Some d]), (u, d), (j, t)]"
  using assms by (cases t) (simp_all add: trace_items_def shared_trace_def top_items_def sub_items_def use_items_def)

lemma upt_6: "[0..<3] = [0, 1, 2 :: nat]" "[0..<4] = [0, 1, 2, 3 :: nat]" "[0..<5] = [0, 1, 2, 3, 4 :: nat]"
  "[0..<6] = [0, 1, 2, 3, 4, 5 :: nat]"
  by (simp_all add: upt_rec)

lemma shared_store:
  assumes st: "store_of g m (trace_items (shared_trace i n call d use)) v"
    and d: "d = DDef j nd val (Some t)" "getEntityType t = TT_adef" "use = SUse u nu s param []"
    and ids: "distinct [i, j, u, getId t]" "-1 \<notin> {i, j, u}"
  shows "node_with (Some u) (nodes v) = Inr 3" and "used_def v 3 = Inr 4" and "through_ddef v 4 = Inl IndexError"
proof -
  let ?its = "trace_items (shared_trace i n call d use)"
  note its = shared_items [OF d, of i n call]
  have len: "length (nodes v) = 6" using st by (simp add: store_of_def its)
  have node: "tl_id (nodes v ! k) = getId (snd (?its ! k)) \<and> tl_type (nodes v ! k) = type_name (snd (?its ! k)) \<and>
      tl_children (nodes v ! k) = children_of ?its k" if "k < 6" for k
  proof -
    have "described g m (?its ! k) (nodes v ! k)" "tl_children (nodes v ! k) = children_of ?its k"
      using st that by (simp_all add: store_of_def its)
    then show ?thesis by (cases "?its ! k") (simp add: described_def)
  qed
  have id: "tl_id (nodes v ! 0) = i" "tl_id (nodes v ! 1) = j" "tl_id (nodes v ! 2) = getId t" "tl_id (nodes v ! 3) = u"
    using node [of 0] node [of 1] node [of 2] node [of 3] unfolding its by (simp_all add: d(1))
  show "node_with (Some u) (nodes v) = Inr 3"
    using id ids by (auto simp: node_with_def py_next_def len upt_6)
  have father: "map (father_of ?its) [0..<6] = [None, Some 0, Some 1, Some 0, Some 3, Some 1]"
    unfolding its using ids by (simp add: d(1) father_of_def upt_6 upt_rec [of 0 "Suc _"])
  have kids: "children_of ?its k = filter (\<lambda>j. map (father_of ?its) [0..<6] ! j = Some k) [0..<6]" for k
    proof -
    have "length ?its = 6" by (simp add: its)
    then show ?thesis unfolding children_of_def by (intro filter_cong) simp_all
  qed
  have "tl_children (nodes v ! 3) = [4]" "tl_children (nodes v ! 4) = []"
    using node [of 3] node [of 4] unfolding kids father by (simp_all add: upt_6)
  moreover have "tl_type (nodes v ! 4) = ''DDEF''" using node [of 4] unfolding its by (simp add: d(1))
  ultimately show "used_def v 3 = Inr 4" "through_ddef v 4 = Inl IndexError"
    by (simp_all add: used_def_def through_ddef_def py_nth_def)
qed

text \<open>
  A dynamic definition the trace has twice loses its target the second time, because a
  father is looked up by its identifier. The analysis enters the definition under the input
  and under its uses, so every reported use of an object that came from malloc ends the
  verifier with an exception, whatever it wrote.
\<close>

theorem shared_dynamic_definition_stops_verifier:
  assumes "exportTrace g m order (shared_trace i n call d use) md = Inr (text, md')"
    and "d = DDef j nd val (Some t)" and "getEntityType t = TT_adef" and "use = SUse u nu s param []"
    and "distinct [i, j, u, getId t]" and "-1 \<notin> {i, j, u}" and "plain (function_name s)"
    and "uint w div 65536 = u"
  shows "\<exists>v. trace_parser evals text verifier_initial = Inr v \<and>
    verify_input (trace_text (Use w e # es) @ infoline) v = Inl IndexError"
proof -
  obtain vm where e: "export_entities g m (shared_trace i n call d use) = Inr (text, vm)"
    using assms(1) by (auto simp: exportTrace_def cbind_eq_Inr)
  have ok: "items_ok evals g (trace_items (shared_trace i n call d use))"
    unfolding shared_items [OF assms(2-4)] items_ok_def using assms(2,3,7)
    by (cases t) (simp_all add: item_ok_def)
  from exported_store [OF e this] obtain v where v: "trace_parser evals text verifier_initial = Inr v"
    "store_of g m (trace_items (shared_trace i n call d use)) v" by (auto simp: shared_trace_def)
  note shared_store [OF v(2) assms(2-6)]
  then have "verify_input (trace_text (Use w e # es) @ infoline) v = Inl IndexError"
    unfolding verify_text using assms(8) by (simp add: verify_use del: event_fields.simps)
  then show ?thesis using v(1) by blast
qed

definition sample_malloc :: entity where
  "sample_malloc = DDef 2 4 (CallInst 8 (Some ''malloc'') ''main'') (Some (ADef 1 4 (AllocaInst 7 (PointerTy (IntegerTy 8))) False))"

definition sample_store_use :: entity where
  "sample_store_use = SUse 3 5 (StoreInst 9 (AllocaInst 7 (PointerTy (IntegerTy 8))) ''main'') None []"

theorem shared_dynamic_definition_stops_verifier_witness:
  "\<exists>text v. trace_parser (\<lambda>_. True) text verifier_initial = Inr v \<and>
    verify_input (trace_text [Use 196608 520] @ infoline) v = Inl IndexError"
proof -
  have "\<exists>s md'. exportTrace no_graphs sample_module (\<lambda>x. x) (shared_trace 0 5 6 sample_malloc sample_store_use) (\<lambda>_ _. None) = Inr (s, md')"
    by (simp add: exportTrace_def export_entities_def shared_trace_def sample_malloc_def sample_store_use_def
      export_top_def export_one_def exportEntity_def getBytes_defs traceLine_defs evaluateSizeDL_def updateValueMap_def
      trace_entity_dynamic_cast_def export_sub_def asUse_def isUse_def update_tags_def put_tag_def Let_def tag_entity_def
      no_tags_def)
  then obtain s md' where "exportTrace no_graphs sample_module (\<lambda>x. x) (shared_trace 0 5 6 sample_malloc sample_store_use) (\<lambda>_ _. None) = Inr (s, md')"
    by blast
  from shared_dynamic_definition_stops_verifier [OF this sample_malloc_def _ sample_store_use_def, of 196608 "\<lambda>_. True" 520 "[]"]
  show ?thesis by (auto simp: nl_def)
qed

end
