(* ===== verification/Monitor.thy ===== *)
theory Monitor
  imports Verifier_Laws
begin

text \<open>
  What the verifier computes, without its store: a monitor that remembers where each
  definition was last seen in each frame and judges every use by the size of what it is
  meant to write to. The verifier of verifier/verifier.py refines it, on any list of events
  whose identifiers the static trace knows.
\<close>

section \<open>The monitor\<close>

text \<open>
  The facts of the static trace: the definition a use is checked against, the object a
  definition stands for (itself, or the target of a dynamic one), and of each object the
  size and the offset in its base.
\<close>

record program_facts =
  checked_def :: "int \<rightharpoonup> int"
  object_of :: "int \<Rightarrow> int"
  object_size :: "int \<Rightarrow> int"
  object_offset :: "int \<Rightarrow> int"

text \<open>Where a definition is, by its identifier and frame.\<close>

type_synonym places = "int \<times> int \<rightharpoonup> int"

definition place_of :: "program_facts \<Rightarrow> places \<Rightarrow> int \<Rightarrow> int \<Rightarrow> int" where
  "place_of P A i g = (case (if A (i, g) = None then A (i, 0) else A (i, g)) of
     None \<Rightarrow> 0
   | Some a \<Rightarrow> a + object_offset P (object_of P i))"

definition overflows :: "program_facts \<Rightarrow> places \<Rightarrow> int \<Rightarrow> int \<Rightarrow> int \<Rightarrow> bool" where
  "overflows P A i g e \<longleftrightarrow> e - place_of P A i g > object_size P (object_of P i)"

fun see :: "places \<Rightarrow> event \<Rightarrow> places" where
  "see A (Def d a) = A((uint d div 65536, uint d mod 65536) \<mapsto> uint a)"
| "see A (Ddef d a n) = A((uint d div 65536, uint d mod 65536) \<mapsto> uint a, (uint d div 65536, 0) \<mapsto> uint a)"
| "see A (Use i e) = A"
| "see A (Iuse i d e) = A"

text \<open>A verdict: the use, and the object it writes behind.\<close>

fun judge :: "program_facts \<Rightarrow> places \<Rightarrow> event \<Rightarrow> (int \<times> int) list" where
  "judge P A (Use i e) =
     (let j = uint i div 65536; d = the (checked_def P j) in
      if overflows P A d (uint i mod 65536) (uint e) then [(j, object_of P d)] else [])"
| "judge P A (Iuse i d e) =
     (let j = sint d div 65536 in
      if overflows P A j (sint d mod 65536) (uint e) then [(sint i div 65536, object_of P j)] else [])"
| "judge P A (Def d a) = []"
| "judge P A (Ddef d a n) = []"

fun monitor :: "program_facts \<Rightarrow> places \<Rightarrow> event list \<Rightarrow> (int \<times> int) list" where
  "monitor P A [] = []"
| "monitor P A (e # es) = judge P A e @ monitor P (see A e) es"

lemma monitor_append: "monitor P A (es @ fs) = monitor P A es @ monitor P (foldl see A es) fs"
  by (induction es arbitrary: A) simp_all

section \<open>The store as a monitor\<close>

text \<open>A definition whose size was fixed by the static trace.\<close>

definition fixed_def :: "program_facts \<Rightarrow> trace_line \<Rightarrow> bool" where
  "fixed_def P t \<longleftrightarrow> py_in ''DEF'' (tl_type t) \<and> tl_type t \<noteq> ''DDEF'' \<and> tl_length t = [0 \<mapsto> object_size P (tl_id t)] \<and>
     object_offset P (tl_id t) = (if tl_type t = ''SDEF'' then tl_offset t else 0)"

definition stands_for :: "verifier \<Rightarrow> program_facts \<Rightarrow> nat \<Rightarrow> bool" where
  "stands_for v P k \<longleftrightarrow> k < length (nodes v) \<and>
     (if tl_type (nodes v ! k) = ''DDEF''
      then (\<exists>c cs. tl_children (nodes v ! k) = c # cs \<and> c < length (nodes v) \<and> fixed_def P (nodes v ! c) \<and>
        object_of P (tl_id (nodes v ! k)) = tl_id (nodes v ! c))
      else fixed_def P (nodes v ! k) \<and> object_of P (tl_id (nodes v ! k)) = tl_id (nodes v ! k))"

text \<open>
  The store holds the facts \<open>P\<close> and the places \<open>A\<close>: each use leads to its definition, and
  the lines of a definition have its addresses.
\<close>

definition watches :: "program_facts \<Rightarrow> places \<Rightarrow> verifier \<Rightarrow> bool" where
  "watches P A v \<longleftrightarrow> ver_wf v \<and>
     (\<forall>j i. checked_def P j = Some i \<longrightarrow> (\<exists>u k. node_with (Some j) (nodes v) = Inr u \<and> used_def v u = Inr k \<and>
        stands_for v P k \<and> tl_id (nodes v ! k) = i)) \<and>
     (\<forall>k < length (nodes v). py_in ''DEF'' (tl_type (nodes v ! k)) \<longrightarrow>
        (\<forall>g. tl_address (nodes v ! k) g = A (tl_id (nodes v ! k), g)))"

text \<open>
  The events the static trace knows: its definitions and uses. The size of a dynamic
  definition is only reported for a dynamic one, and an indirect use names a definition.
\<close>

fun known :: "program_facts \<Rightarrow> verifier \<Rightarrow> event \<Rightarrow> bool" where
  "known P v (Def d a) \<longleftrightarrow> def_map v (uint d div 65536) \<noteq> None"
| "known P v (Ddef d a n) \<longleftrightarrow> (\<exists>ks. def_map v (uint d div 65536) = Some ks \<and> (\<forall>k \<in> set ks. tl_type (nodes v ! k) = ''DDEF''))"
| "known P v (Use i e) \<longleftrightarrow> checked_def P (uint i div 65536) \<noteq> None"
| "known P v (Iuse i d e) \<longleftrightarrow> (\<exists>u. node_with (Some (sint i div 65536)) (nodes v) = Inr u) \<and>
     (\<exists>k ks. def_map v (sint d div 65536) = Some (k # ks) \<and> stands_for v P k)"

text \<open>What the alarm of the verifier says.\<close>

definition verdict :: "verifier \<Rightarrow> alarm \<Rightarrow> int \<times> int" where
  "verdict v a = (case a of (u, t) \<Rightarrow> (tl_id (nodes v ! u), tl_id t))"

end
