(* ===== verification/Monitor_Laws.thy ===== *)
theory Monitor_Laws
  imports Monitor
begin

text \<open>
  The verifier refines the monitor: one lemma for each kind of event, and then the loop over
  the entries of a trace.
\<close>

section \<open>What an event leaves as it is\<close>

definition keeps :: "program_facts \<Rightarrow> verifier \<Rightarrow> verifier \<Rightarrow> bool" where
  "keeps P v w \<longleftrightarrow> def_map w = def_map v \<and> length (nodes w) = length (nodes v) \<and>
     (\<forall>k < length (nodes v). same_shape (nodes v ! k) (nodes w ! k) \<and>
        (fixed_def P (nodes v ! k) \<longrightarrow> fixed_def P (nodes w ! k)))"

lemma keepsD:
  assumes "keeps P v w" and "k < length (nodes v)"
  shows "tl_id (nodes w ! k) = tl_id (nodes v ! k)" "tl_type (nodes w ! k) = tl_type (nodes v ! k)"
    "tl_children (nodes w ! k) = tl_children (nodes v ! k)" "tl_cls (nodes w ! k) = tl_cls (nodes v ! k)"
    "fixed_def P (nodes v ! k) \<Longrightarrow> fixed_def P (nodes w ! k)"
  using assms by (simp_all add: keeps_def same_shape_def)

lemma keeps_refl: "keeps P v v"
  by (simp add: keeps_def same_shape_def)

lemma keeps_trans: "keeps P u v \<Longrightarrow> keeps P v w \<Longrightarrow> keeps P u w"
  by (auto simp: keeps_def same_shape_def)

lemma keeps_count [simp]: "keeps P v (count_entry e w) = keeps P v w"
  by (simp add: keeps_def)

lemma keeps_wf: "keeps P v w \<Longrightarrow> ver_wf v \<Longrightarrow> ver_wf w"
  by (rule wf_same_shape [of v "nodes w" w]) (simp_all add: keeps_def)

lemma keeps_node_with: "keeps P v w \<Longrightarrow> node_with i (nodes w) = node_with i (nodes v)"
  by (rule node_with_same_shape) (simp_all add: keeps_def same_shape_def)

lemma keeps_used_def:
  assumes "keeps P v w" and "ver_wf v" and "u < length (nodes v)"
  shows "used_def w u = used_def v u"
proof -
  have "find (\<lambda>k. tl_cls (nodes w ! k) = Some ''BASE'') cs = find (\<lambda>k. tl_cls (nodes v ! k) = Some ''BASE'') cs"
    if "set cs \<subseteq> {..<length (nodes v)}" for cs
    using that keepsD(4) [OF assms(1)] by (intro find_cong refl) auto
  moreover have "set (tl_children (nodes v ! u)) \<subseteq> {..<length (nodes v)}"
    using assms(2,3) by (auto simp: ver_wf_def node_ok_def)
  ultimately show ?thesis
    using keepsD(3) [OF assms(1,3)] by (simp add: used_def_def py_next_def Let_def cong: if_cong)
qed

lemma keeps_stands_for:
  assumes "keeps P v w" and "stands_for v P k"
  shows "stands_for w P k"
proof -
  have k: "k < length (nodes v)" and len: "length (nodes w) = length (nodes v)"
    using assms by (auto simp: stands_for_def keeps_def)
  note same = keepsD [OF assms(1)]
  show ?thesis
  proof (cases "tl_type (nodes v ! k) = ''DDEF''")
    case True
    then obtain c cs where c: "tl_children (nodes v ! k) = c # cs" "c < length (nodes v)" "fixed_def P (nodes v ! c)"
      "object_of P (tl_id (nodes v ! k)) = tl_id (nodes v ! c)"
      using assms(2) by (auto simp: stands_for_def)
    then show ?thesis using True k len same [OF k] same [OF c(2)] by (simp add: stands_for_def)
  next
    case False
    then show ?thesis using assms(2) k len same [OF k] by (simp add: stands_for_def)
  qed
qed

lemma keeps_known: "keeps P v w \<Longrightarrow> ver_wf v \<Longrightarrow> known P v e \<Longrightarrow> known P w e"
proof (cases e)
  case (Ddef d a n)
  assume k: "keeps P v w" and "ver_wf v" "known P v e"
  then obtain ks where "def_map v (uint d div 65536) = Some ks" "\<forall>k \<in> set ks. tl_type (nodes v ! k) = ''DDEF'' \<and> k < length (nodes v)"
    by (auto simp: Ddef ver_wf_def defs_listed_def)
  then show ?thesis using k keepsD(2) [OF k] by (auto simp: Ddef keeps_def)
qed (auto simp: keeps_node_with keeps_def intro: keeps_stands_for [unfolded keeps_def])

section \<open>Definitions\<close>

lemma fixed_address: "fixed_def P (set_address g a t) = fixed_def P t"
  by (simp add: fixed_def_def set_address_def)

lemma keeps_address: "keeps P v (v\<lparr>nodes := update_all (set_address g a) ks (nodes v)\<rparr>)"
  using updates_shape(1) by (simp add: keeps_def nodes_after_def fixed_address) (simp add: same_shape_def)

lemma keeps_dynamic:
  "\<forall>k \<in> set ks. tl_type (nodes v ! k) = ''DDEF'' \<Longrightarrow> keeps P v (v\<lparr>nodes := update_all (set_dynamic g a n) ks (nodes v)\<rparr>)"
  using updates_shape(2) by (simp add: keeps_def nodes_after_ddef) (simp add: same_shape_def fixed_def_def)

lemma watches_keeps:
  assumes "watches P A v" and "keeps P v w"
    and "\<And>k g. k < length (nodes v) \<Longrightarrow> py_in ''DEF'' (tl_type (nodes v ! k)) \<Longrightarrow> tl_address (nodes w ! k) g = B (tl_id (nodes v ! k), g)"
  shows "watches P B w"
proof -
  have v: "ver_wf v" using assms(1) by (simp add: watches_def)
  have "\<exists>u k. node_with (Some j) (nodes w) = Inr u \<and> used_def w u = Inr k \<and> stands_for w P k \<and> tl_id (nodes w ! k) = i"
    if use: "checked_def P j = Some i" for i j
  proof -
    obtain u k where u: "node_with (Some j) (nodes v) = Inr u" "used_def v u = Inr k" "stands_for v P k" "tl_id (nodes v ! k) = i"
      using assms(1) use unfolding watches_def by blast
    moreover have "k < length (nodes v)" "u < length (nodes v)" using u(3) node_with_less [OF u(1)] by (simp_all add: stands_for_def)
    ultimately show ?thesis
      using keepsD(1) [OF assms(2)] keeps_stands_for [OF assms(2)] keeps_used_def [OF assms(2) v] keeps_node_with [OF assms(2)] by metis
  qed
  moreover have "tl_address (nodes w ! k) g = B (tl_id (nodes w ! k), g)"
    if "k < length (nodes w)" "py_in ''DEF'' (tl_type (nodes w ! k))" for k g
    using that assms(2,3) keepsD(1,2) [OF assms(2)] by (simp add: keeps_def)
  ultimately show ?thesis using keeps_wf [OF assms(2) v] by (simp add: watches_def)
qed

lemma same_store:
  assumes "nodes w = nodes v" and "def_map w = def_map v"
  shows "watches P A w = watches P A v" "keeps P u w = keeps P u v"
  unfolding watches_def keeps_def ver_wf_def stands_for_def used_def_def assms by (rule refl)+

text \<open>The nodes of an identifier are listed under it.\<close>

lemma listed:
  assumes "ver_wf v" and "def_map v i = Some ks" and "k < length (nodes v)" and "py_in ''DEF'' (tl_type (nodes v ! k))"
  shows "k \<in> set ks \<longleftrightarrow> tl_id (nodes v ! k) = i"
proof
  show "tl_id (nodes v ! k) = i" if "k \<in> set ks"
    using assms(1,2) that unfolding ver_wf_def defs_listed_def by blast
  show "k \<in> set ks" if "tl_id (nodes v ! k) = i"
  proof -
    have "node_ok (def_map v) (length (nodes v)) k (nodes v ! k)" using assms(1,3) by (simp add: ver_wf_def)
    then obtain ls where "def_map v (tl_id (nodes v ! k)) = Some ls" "k \<in> set ls" using assms(4) unfolding node_ok_def by blast
    then show ?thesis using assms(2) that by simp
  qed
qed

lemma monitor_def:
  assumes "watches P A v" and "known P v (Def d a)"
  shows "\<exists>w. verify_entry (event_fields (Def d a)) (loc, al, v) = Inr (loc, al, w) \<and> keeps P v w \<and> watches P (see A (Def d a)) w"
proof -
  obtain ks where ks: "def_map v (uint d div 65536) = Some ks" using assms(2) by auto
  let ?w = "v\<lparr>nodes := update_all (set_address (uint d mod 65536) (uint a)) ks (nodes v)\<rparr>"
  have "ver_wf v" using assms(1) by (simp add: watches_def)
  note here = listed [OF this ks]
  have "watches P (see A (Def d a)) ?w"
    using assms(1) keeps_address
  proof (rule watches_keeps)
    fix k g assume "k < length (nodes v)" "py_in ''DEF'' (tl_type (nodes v ! k))"
    then show "tl_address (nodes ?w ! k) g = see A (Def d a) (tl_id (nodes v ! k), g)"
      using here assms(1) by (simp add: nodes_after_def set_address_def watches_def)
  qed
  then show ?thesis
    using keeps_address [of P v] same_store [of "(count_entry (event_fields (Def d a)) v)\<lparr>nodes := nodes ?w\<rparr>" ?w]
    by (simp add: verify_def py_key_def ks del: event_fields.simps)
qed

lemma monitor_ddef:
  assumes "watches P A v" and "known P v (Ddef d a n)"
  shows "\<exists>w. verify_entry (event_fields (Ddef d a n)) (loc, al, v) = Inr (loc, al, w) \<and> keeps P v w \<and> watches P (see A (Ddef d a n)) w"
proof -
  obtain ks where ks: "def_map v (uint d div 65536) = Some ks" "\<forall>k \<in> set ks. tl_type (nodes v ! k) = ''DDEF''"
    using assms(2) by auto
  let ?w = "v\<lparr>nodes := update_all (set_dynamic (uint d mod 65536) (uint a) (uint n)) ks (nodes v)\<rparr>"
  have "ver_wf v" using assms(1) by (simp add: watches_def)
  note here = listed [OF this ks(1)]
  have "watches P (see A (Ddef d a n)) ?w"
    using assms(1) keeps_dynamic [OF ks(2)]
  proof (rule watches_keeps)
    fix k g assume "k < length (nodes v)" "py_in ''DEF'' (tl_type (nodes v ! k))"
    then show "tl_address (nodes ?w ! k) g = see A (Ddef d a n) (tl_id (nodes v ! k), g)"
      using here assms(1) by (simp add: nodes_after_ddef set_dynamic_def watches_def)
  qed
  then show ?thesis
    using keeps_dynamic [OF ks(2), of P] same_store [of "(count_entry (event_fields (Ddef d a n)) v)\<lparr>nodes := nodes ?w\<rparr>" ?w]
    by (simp add: verify_ddef py_key_def ks(1) del: event_fields.simps)
qed

section \<open>Uses\<close>

lemma fixed_check:
  assumes "fixed_def P t" and "tl_type s = tl_type t" and "tl_length s = tl_length t" and "tl_offset s = tl_offset t"
  shows "check_use s e (Some g) = Inr (e - (case (if tl_address s g = None then tl_address s 0 else tl_address s g) of
      None \<Rightarrow> 0 | Some a \<Rightarrow> a + object_offset P (tl_id t)) > object_size P (tl_id t))"
  using assms by (simp add: check_use_def get_base_def get_len_def fixed_def_def split: option.split)

text \<open>A definition that stands for an object is checked with the object's size.\<close>

lemma judged:
  assumes "watches P A v" and "stands_for v P k"
  shows "\<exists>r. through_ddef v k = Inr r \<and> tl_id (resolve v r) = object_of P (tl_id (nodes v ! k)) \<and>
    check_use (resolve v r) e (Some g) = Inr (overflows P A (tl_id (nodes v ! k)) g e)"
proof (cases "tl_type (nodes v ! k) = ''DDEF''")
  case True
  then obtain c cs where c: "tl_children (nodes v ! k) = c # cs" "fixed_def P (nodes v ! c)"
    "object_of P (tl_id (nodes v ! k)) = tl_id (nodes v ! c)" and k: "k < length (nodes v)"
    using assms(2) by (auto simp: stands_for_def)
  have "tl_address (nodes v ! k) h = A (tl_id (nodes v ! k), h)" for h
    using assms(1) k True by (simp add: watches_def)
  then show ?thesis
    using c True fixed_check [OF c(2), of "resolve v (Copied (nodes v ! c) k)"]
    by (intro exI [of _ "Copied (nodes v ! c) k"])
      (simp add: through_ddef_def py_nth_def resolve_def overflows_def place_of_def cong: if_cong option.case_cong)
next
  case False
  then have f: "fixed_def P (nodes v ! k)" "object_of P (tl_id (nodes v ! k)) = tl_id (nodes v ! k)" "k < length (nodes v)"
    using assms(2) by (simp_all add: stands_for_def)
  then have "tl_address (nodes v ! k) h = A (tl_id (nodes v ! k), h)" for h
    using assms(1) by (simp add: watches_def fixed_def_def)
  then show ?thesis
    using f False fixed_check [OF f(1), of "nodes v ! k"]
    by (intro exI [of _ "Direct k"]) (simp add: through_ddef_def resolve_def overflows_def place_of_def cong: if_cong option.case_cong)
qed

lemma monitor_use:
  assumes "watches P A v" and "known P v (Use i e)"
  shows "\<exists>loc' als w. verify_entry (event_fields (Use i e)) (loc, al, v) = Inr (loc', al @ als, w) \<and>
    map (verdict v) als = judge P A (Use i e) \<and> (\<forall>a \<in> set als. fst a < length (nodes v)) \<and> keeps P v w \<and> watches P A w"
proof -
  obtain u k where u: "node_with (Some (uint i div 65536)) (nodes v) = Inr u" "used_def v u = Inr k" "stands_for v P k"
    "checked_def P (uint i div 65536) = Some (tl_id (nodes v ! k))"
    using assms unfolding watches_def by fastforce
  obtain r where "through_ddef v k = Inr r" "tl_id (resolve v r) = object_of P (tl_id (nodes v ! k))"
    "check_use (resolve v r) (uint e) (Some (uint i mod 65536)) =
      Inr (overflows P A (tl_id (nodes v ! k)) (uint i mod 65536) (uint e))"
    using judged [OF assms(1) u(3)] by blast
  moreover have "tl_id (nodes v ! u) = uint i div 65536" "u < length (nodes v)" using node_with_less [OF u(1)] by simp_all
  moreover note same_store [of "count_entry (event_fields (Use i e)) v" v] keeps_refl [of P v]
  ultimately show ?thesis
    using assms(1) u by (auto simp: verify_use Let_def verdict_def simp del: event_fields.simps)
qed

lemma monitor_iuse:
  assumes "watches P A v" and "known P v (Iuse i d e)"
  shows "\<exists>loc' als w. verify_entry (event_fields (Iuse i d e)) (loc, al, v) = Inr (loc', al @ als, w) \<and>
    map (verdict v) als = judge P A (Iuse i d e) \<and> (\<forall>a \<in> set als. fst a < length (nodes v)) \<and> keeps P v w \<and> watches P A w"
proof -
  obtain u k ks where u: "node_with (Some (sint i div 65536)) (nodes v) = Inr u"
    "def_map v (sint d div 65536) = Some (k # ks)" "stands_for v P k"
    using assms by auto
  have k: "tl_id (nodes v ! k) = sint d div 65536"
    using assms(1) u(2) by (auto simp: watches_def ver_wf_def defs_listed_def)
  obtain r where "through_ddef v k = Inr r" "tl_id (resolve v r) = object_of P (tl_id (nodes v ! k))"
    "check_use (resolve v r) (uint e) (Some (sint d mod 65536)) =
      Inr (overflows P A (tl_id (nodes v ! k)) (sint d mod 65536) (uint e))"
    using judged [OF assms(1) u(3)] by blast
  moreover have "tl_id (nodes v ! u) = sint i div 65536" "u < length (nodes v)" using node_with_less [OF u(1)] by simp_all
  moreover note same_store [of "count_entry (event_fields (Iuse i d e)) v" v] keeps_refl [of P v]
  ultimately show ?thesis
    using assms(1) u k by (auto simp: verify_iuse py_key_def py_nth_def Let_def verdict_def simp del: event_fields.simps)
qed

section \<open>The loop\<close>

lemma monitor_event:
  assumes "watches P A v" and "known P v e"
  shows "\<exists>loc' als w. verify_entry (event_fields e) (loc, al, v) = Inr (loc', al @ als, w) \<and>
    map (verdict v) als = judge P A e \<and> (\<forall>a \<in> set als. fst a < length (nodes v)) \<and> keeps P v w \<and> watches P (see A e) w"
proof (cases e)
  case (Def d a)
  then show ?thesis using monitor_def [of P A v d a loc al] assms by fastforce
next
  case (Ddef d a n)
  then show ?thesis using monitor_ddef [of P A v d a n loc al] assms by fastforce
next
  case (Use i a)
  then show ?thesis using monitor_use [of P A v i a loc al] assms by (simp del: event_fields.simps)
next
  case (Iuse i d a)
  then show ?thesis using monitor_iuse [of P A v i d a loc al] assms by (simp del: event_fields.simps)
qed

text \<open>The uses of alarms are nodes, so that their names do not change.\<close>

lemma verdict_keeps: "keeps P v w \<Longrightarrow> fst a < length (nodes v) \<Longrightarrow> verdict w a = verdict v a"
  by (auto simp: verdict_def keepsD split: prod.split)

lemma monitor_run:
  assumes "watches P A v" and "list_all (known P v) es"
  shows "\<exists>loc' als w. c_run verify_entry (map event_fields es) (loc, al, v) = Inr (loc', al @ als, w) \<and>
    map (verdict v) als = monitor P A es \<and> (\<forall>a \<in> set als. fst a < length (nodes v)) \<and> keeps P v w \<and> watches P (foldl see A es) w"
  using assms
proof (induction es arbitrary: loc al v A)
  case Nil
  then show ?case using keeps_refl by auto
next
  case (Cons e es)
  obtain loc1 as1 v1 where e: "verify_entry (event_fields e) (loc, al, v) = Inr (loc1, al @ as1, v1)"
    "map (verdict v) as1 = judge P A e" "\<forall>a \<in> set as1. fst a < length (nodes v)" "keeps P v v1" "watches P (see A e) v1"
    using monitor_event [of P A v e loc al] Cons.prems by auto
  have "ver_wf v" using Cons.prems(1) by (simp add: watches_def)
  moreover have len: "length (nodes v1) = length (nodes v)" using e(4) by (simp add: keeps_def)
  ultimately have "list_all (known P v1) es" using Cons.prems(2) keeps_known [OF e(4)] by (auto simp: list_all_iff)
  from Cons.IH [OF e(5) this, of loc1 "al @ as1"] obtain loc' as2 w where
    r: "c_run verify_entry (map event_fields es) (loc1, al @ as1, v1) = Inr (loc', (al @ as1) @ as2, w)"
    "map (verdict v1) as2 = monitor P (see A e) es" "\<forall>a \<in> set as2. fst a < length (nodes v)" "keeps P v1 w" "watches P (foldl see (see A e) es) w"
    using len by auto
  have "map (verdict v1) as2 = map (verdict v) as2" using r(3) verdict_keeps [OF e(4)] by simp
  then show ?case using e r keeps_trans [OF e(4) r(4)] by (intro exI [of _ loc'] exI [of _ "as1 @ as2"] exI [of _ w]) (simp add: ball_Un)
qed

lemma monitor_input:
  assumes "watches P A v" and "list_all (known P v) es"
  shows "\<exists>alarms w. verify_input (trace_text es @ infoline) v = Inr (alarms, w) \<and>
    map (verdict v) alarms = monitor P A es \<and> watches P (foldl see A es) w"
proof -
  obtain loc' als w where "c_run verify_entry (map event_fields es) (None, [], v) = Inr (loc', als, w)"
    "map (verdict v) als = monitor P A es" "watches P (foldl see A es) w"
    using monitor_run [OF assms, of None "[]"] by auto
  then show ?thesis using same_store(1) [of "count_entry [''INFO''] w" w] unfolding verify_text by simp
qed

end
