(* ===== verification/Monitor_Props.thy ===== *)
theory Monitor_Props
  imports Monitor_Laws Verifier_Props
begin

text \<open>
  The verdict on a whole session: the verifier refines the monitor, and through the cache,
  the trusted application and the extractor it judges what the program reported.
\<close>

section \<open>Refinement\<close>

text \<open>
  C3. The verifier refines the monitor: on any printed trace whose identifiers the static
  trace knows it never stops with an exception, its alarms are the verdicts of the monitor,
  in their order, and its store again holds the facts and the places the monitor has after
  the trace, ready for the next message.
\<close>

theorem verifier_refines_monitor:
  assumes "watches P A v" and "list_all (known P v) es"
  shows "\<exists>alarms w. verify_input (trace_text es @ infoline) v = Inr (alarms, w) \<and>
    map (verdict v) alarms = monitor P A es \<and> watches P (foldl see A es) w"
  using monitor_input [OF assms] .

text \<open>The store of the sample: a use of a buffer of 16 bytes, not yet seen.\<close>

definition sample_facts :: program_facts where
  "sample_facts = \<lparr>checked_def = [9 \<mapsto> 4], object_of = (\<lambda>i. i), object_size = (\<lambda>_. 16), object_offset = (\<lambda>_. 0)\<rparr>"

lemma sample_watches: "watches sample_facts Map.empty sample_store"
proof -
  have "tl_address (nodes sample_store ! k) g = None" if "k < length (nodes sample_store)" for k g
    using that by (auto simp: sample_store_def less_Suc_eq)
  moreover have "\<exists>u k. node_with (Some 9) (nodes sample_store) = Inr u \<and> used_def sample_store u = Inr k \<and>
      stands_for sample_store sample_facts k \<and> tl_id (nodes sample_store ! k) = 4"
    by (intro exI [of _ 0] exI [of _ 1])
      (simp add: sample_store_def sample_facts_def node_with_def py_next_def used_def_def py_nth_def stands_for_def fixed_def_def)
  ultimately show ?thesis using sample_wf by (simp add: watches_def sample_facts_def)
qed

theorem verifier_refines_monitor_witness:
  "\<exists>alarms w. verify_input (trace_text [Def 262144 512, Use 589824 529, Def 262144 640, Use 589824 529] @ infoline) sample_store =
      Inr (alarms, w) \<and> map (verdict sample_store) alarms = [(9, 4)]"
proof -
  have "monitor sample_facts Map.empty [Def 262144 512, Use 589824 529, Def 262144 640, Use 589824 529] = [(9, 4)]"
    by (simp add: sample_facts_def overflows_def place_of_def)
  then show ?thesis
    using verifier_refines_monitor [OF sample_watches, of "[Def 262144 512, Use 589824 529, Def 262144 640, Use 589824 529]"]
    by (auto simp: sample_facts_def sample_store_def)
qed

section \<open>Sessions\<close>

lemma session_verdict:
  assumes "optee_transport env code page" and "all_well os" and "one_kind es" and "length (foldl absorb [] es) \<le> 121"
    and "watches P A v" and "list_all (known P v) es"
  shows "\<exists>h s msgs alarms w. cbind (zinit env (host_initial, ta_initial)) (\<lambda>w.
      cbind (c_run (report env mem) es w) (zexit env)) = Inr (h, s) \<and>
    z_extractor env [\<lparr>parent_gone = True, answers_os = os, secure = s\<rparr>] = Inr [msgs] \<and>
    verify_input (concat msgs) v = Inr (alarms, w) \<and>
    map (verdict v) alarms = monitor P A (foldl absorb [] es)"
proof -
  obtain h s where s: "cbind (zinit env (host_initial, ta_initial)) (\<lambda>w.
      cbind (c_run (report env mem) es w) (zexit env)) = Inr (h, s)" "ta_fresh s" "ta_log s = foldl absorb [] es"
    using optee_transport.session_log [OF assms(1,3,4), of mem] by blast
  let ?w = "\<lparr>parent_gone = True, answers_os = os, secure = s\<rparr>"
  have "ta_wf (secure ?w)" "all_well (answers_os ?w)" using s(2) assms(2) by (simp_all add: ta_fresh_def)
  from optee_transport.first_round [OF assms(1) this, of "[]"]
  have z: "z_extractor env [?w] = Inr [map c_string (text_lines (trace_text (ta_log s))) @ [infoline]]"
    using fresh_log_half [OF s(2)] s(3) assms(4) by auto
  have "list_all (known P v) (foldl absorb [] es)"
    using assms(6) set_foldl_absorb [of "[]" es] unfolding list_all_iff by fastforce
  from monitor_input [OF assms(5) this] show ?thesis
    using s(1) z unfolding s(3) [symmetric] sent_text [symmetric] by blast
qed



text \<open>
  C23. A definition that is reported again replaces the earlier one in the cache, in front of
  the uses in between: when a variable is written to and then defined again in the same
  frame, as in a second call of the same function, the write is judged by the later place.
  The verdict then says nothing of the write: an overflow can pass, and a write within
  bounds can raise an alarm.
\<close>

theorem judged_by_later_definition:
  assumes "optee_transport env code page" and "all_well os" and "d \<noteq> 0" and "i \<noteq> 0" and "d \<noteq> i"
    and "watches P A v" and "list_all (known P v) [Def d a, Use i e, Def d b]"
    and "checked_def P (uint i div 65536) = Some (uint d div 65536)" and "uint i mod 65536 = uint d mod 65536"
    and "t = object_of P (uint d div 65536)"
  shows "\<exists>h s msgs alarms w. cbind (zinit env (host_initial, ta_initial)) (\<lambda>w.
      cbind (c_run (report env mem) [Def d a, Use i e, Def d b] w) (zexit env)) = Inr (h, s) \<and>
    z_extractor env [\<lparr>parent_gone = True, answers_os = os, secure = s\<rparr>] = Inr [msgs] \<and>
    verify_input (concat msgs) v = Inr (alarms, w) \<and>
    (alarms \<noteq> [] \<longleftrightarrow> uint b + object_offset P t + object_size P t < uint e) \<and>
    (monitor P A [Def d a, Use i e, Def d b] \<noteq> [] \<longleftrightarrow> uint a + object_offset P t + object_size P t < uint e)"
proof -
  have k: "one_kind [Def d a, Use i e, Def d b]" using assms(3-5) by (simp add: one_kind_def agree_kind_def)
  have c: "foldl absorb [] [Def d a, Use i e, Def d b] = [Def d b, Use i e]" by simp
  have m: "monitor P A [Def d x, Use i e] \<noteq> [] \<longleftrightarrow> uint x + object_offset P t + object_size P t < uint e" for x
    using assms(8-10) by (auto simp: Let_def overflows_def place_of_def)
  have "monitor P A [Def d a, Use i e, Def d b] = monitor P A [Def d a, Use i e]" by simp
  then have a: "monitor P A [Def d a, Use i e, Def d b] \<noteq> [] \<longleftrightarrow> uint a + object_offset P t + object_size P t < uint e"
    by (simp only: m)
  have "length (foldl absorb [] [Def d a, Use i e, Def d b]) \<le> 121" unfolding c by simp
  from session_verdict [OF assms(1,2) k this assms(6,7), of mem, unfolded c] obtain h s msgs alarms w where
    r: "cbind (zinit env (host_initial, ta_initial)) (\<lambda>w.
      cbind (c_run (report env mem) [Def d a, Use i e, Def d b] w) (zexit env)) = Inr (h, s)"
    "z_extractor env [\<lparr>parent_gone = True, answers_os = os, secure = s\<rparr>] = Inr [msgs]"
    "verify_input (concat msgs) v = Inr (alarms, w)" "map (verdict v) alarms = monitor P A [Def d b, Use i e]" by blast
  have "alarms \<noteq> [] \<longleftrightarrow> uint b + object_offset P t + object_size P t < uint e"
    using r(4) m [of b] by (metis map_is_Nil_conv)
  with r(1-3) a show ?thesis by blast
qed

theorem judged_by_later_definition_witness:
  "\<exists>h s msgs alarms w. cbind (zinit (direct_optee \<lparr>seconds = 0, millis = 0\<rparr>) (host_initial, ta_initial)) (\<lambda>w.
      cbind (c_run (report (direct_optee \<lparr>seconds = 0, millis = 0\<rparr>) (\<lambda>_. None)) [Def 262144 512, Use 589824 529, Def 262144 640] w)
        (zexit (direct_optee \<lparr>seconds = 0, millis = 0\<rparr>))) = Inr (h, s) \<and>
    z_extractor (direct_optee \<lparr>seconds = 0, millis = 0\<rparr>) [\<lparr>parent_gone = True, answers_os = well_answers, secure = s\<rparr>] = Inr [msgs] \<and>
    verify_input (concat msgs) sample_store = Inr (alarms, w) \<and> alarms = [] \<and>
    monitor sample_facts Map.empty [Def 262144 512, Use 589824 529, Def 262144 640] \<noteq> []"
  using judged_by_later_definition [OF direct.optee_transport_axioms _ _ _ _ sample_watches,
      of well_answers 262144 589824 512 529 640 _ _ "\<lambda>_. None"]
  by (simp add: all_well_def well_answers_def) (simp add: sample_facts_def sample_store_def del: monitor.simps)

end
