(* ===== verification/Static_Facts.thy ===== *)
theory Static_Facts
  imports Static_Props Monitor_Props
begin

text \<open>
  The facts a monitor needs, read off the entities of the analysis, and the store the
  verifier builds from the exported trace: it watches the program by these facts.
\<close>

section \<open>Facts of a trace\<close>

fun sized :: "entity \<Rightarrow> bool" where
  "sized (SDef i n t fs off dmn) \<longleftrightarrow> True"
| "sized (ADef i n a dmn) \<longleftrightarrow> True"
| "sized (GDef i n v dmn) \<longleftrightarrow> True"
| "sized e \<longleftrightarrow> False"

definition node_of :: "(int \<times> entity) list \<Rightarrow> int \<Rightarrow> nat option" where
  "node_of its i = find (\<lambda>k. getId (snd (its ! k)) = i) [0..<length its]"

text \<open>Of several targets of a use, the first that is not the dominator of the others.\<close>

definition chosen :: "(int \<times> entity) list \<Rightarrow> nat list \<Rightarrow> nat option" where
  "chosen its ks = (case ks of
     [] \<Rightarrow> None
   | [k] \<Rightarrow> Some k
   | _ \<Rightarrow> find (\<lambda>k. \<not> isDominator (snd (its ! k))) ks)"

text \<open>
  A line stands for an object if it is a definition with a size, or a dynamic one with a
  target; of two lines of the same dynamic definition only the first has it.
\<close>

definition stands :: "(int \<times> entity) list \<Rightarrow> nat \<Rightarrow> bool" where
  "stands its k \<longleftrightarrow> sized (snd (its ! k)) \<or>
     (getEntityType (snd (its ! k)) = TT_ddef \<and>
       (case children_of its k of [] \<Rightarrow> False | c # _ \<Rightarrow> sized (snd (its ! c))))"

definition is_def_item :: "int \<times> entity \<Rightarrow> bool" where
  "is_def_item x \<longleftrightarrow> sized (snd x) \<or> getEntityType (snd x) = TT_ddef"

definition use_target :: "(int \<times> entity) list \<Rightarrow> int \<Rightarrow> nat option" where
  "use_target its j = (case node_of its j of
     None \<Rightarrow> None
   | Some u \<Rightarrow> (if list_all (\<lambda>k. is_def_item (its ! k)) (children_of its u) then chosen its (children_of its u) else None))"

definition facts_of :: "llvm_module \<Rightarrow> (int \<times> entity) list \<Rightarrow> program_facts" where
  "facts_of m its =
    \<lparr>checked_def = (\<lambda>j. case use_target its j of
       None \<Rightarrow> None
     | Some k \<Rightarrow> (if stands its k then Some (getId (snd (its ! k))) else None)),
     object_of = (\<lambda>i. case node_of its i of
       None \<Rightarrow> i
     | Some k \<Rightarrow> (if getEntityType (snd (its ! k)) = TT_ddef
         then (case children_of its k of [] \<Rightarrow> i | c # _ \<Rightarrow> getId (snd (its ! c))) else i)),
     object_size = (\<lambda>i. case node_of its i of None \<Rightarrow> 0 | Some k \<Rightarrow> def_bytes m (snd (its ! k))),
     object_offset = (\<lambda>i. case node_of its i of
       None \<Rightarrow> 0
     | Some k \<Rightarrow> (case snd (its ! k) of SDef i n t fs off dmn \<Rightarrow> off | _ \<Rightarrow> 0))\<rparr>"

text \<open>The events a program with this trace reports.\<close>

fun traced :: "llvm_module \<Rightarrow> (int \<times> entity) list \<Rightarrow> event \<Rightarrow> bool" where
  "traced m its (Def d a) \<longleftrightarrow> list_ex (\<lambda>x. is_def_item x \<and> getId (snd x) = uint d div 65536) its"
| "traced m its (Ddef d a n) \<longleftrightarrow>
     list_ex (\<lambda>x. getEntityType (snd x) = TT_ddef \<and> getId (snd x) = uint d div 65536) its"
| "traced m its (Use i e) \<longleftrightarrow> checked_def (facts_of m its) (uint i div 65536) \<noteq> None"
| "traced m its (Iuse i d e) \<longleftrightarrow> list_ex (\<lambda>x. getId (snd x) = sint i div 65536) its \<and>
     list_ex (\<lambda>x. sized (snd x) \<and> getId (snd x) = sint d div 65536) its"

section \<open>Addresses\<close>

text \<open>A store that was only read from the static trace has no addresses yet.\<close>

definition unseen :: "verifier \<Rightarrow> bool" where
  "unseen v \<longleftrightarrow> (\<forall>t \<in> set (nodes v). tl_address t = Map.empty)"

lemma attributes_address:
  "def_attributes evals vs t = Inr u \<Longrightarrow> tl_address u = tl_address t"
  "use_attributes vs t = Inr u \<Longrightarrow> tl_address u = tl_address t"
  by (auto simp: def_attributes_def use_attributes_def Let_def cbind_eq_Inr split: if_splits)

lemma Trace_line_unseen: "Trace_line evals s = Inr t \<Longrightarrow> tl_address t = Map.empty"
  unfolding Trace_line_def Let_def by (auto simp: cbind_eq_Inr dest!: attributes_address)

lemma add_child_unseen: "f < length ns \<Longrightarrow> \<forall>t \<in> set ns. tl_address t = Map.empty \<Longrightarrow> \<forall>t \<in> set (add_child f k ns). tl_address t = Map.empty"
  by (auto simp: add_child_def dest!: set_update_subset_insert [THEN subsetD])

lemma parse_line_unseen:
  assumes "parse_line evals l v = Inr w" and "unseen v"
  shows "unseen w"
proof -
  obtain t where t: "Trace_line evals (py_strip l) = Inr t" using assms(1) by (auto simp: parse_line_def cbind_eq_Inr)
  let ?ns = "nodes v @ [t]"
  have ns: "\<forall>t \<in> set ?ns. tl_address t = Map.empty" using assms(2) Trace_line_unseen [OF t] by (simp add: unseen_def)
  have "nodes w = ?ns \<or> (\<exists>f. node_with (tl_father t) ?ns = Inr f \<and> nodes w = add_child f (length (nodes v)) ?ns)"
    using assms(1) by (cases "tl_father t = Some (-1)"; cases "py_in ''DEF'' (tl_type t)"; cases "node_with (tl_father t) ?ns")
      (auto simp: parse_line_def Let_def t)
  then show ?thesis
  proof
    assume "\<exists>f. node_with (tl_father t) ?ns = Inr f \<and> nodes w = add_child f (length (nodes v)) ?ns"
    then obtain f where "node_with (tl_father t) ?ns = Inr f" "nodes w = add_child f (length (nodes v)) ?ns" by blast
    then show ?thesis using add_child_unseen [OF _ ns] node_with_less unfolding unseen_def by metis
  qed (use ns in \<open>simp add: unseen_def\<close>)
qed

lemma trace_parser_unseen: "trace_parser evals s verifier_initial = Inr v \<Longrightarrow> unseen v"
  unfolding trace_parser_def
  by (erule c_run_invariant) (simp add: unseen_def verifier_initial_def, rule parse_line_unseen)

section \<open>The store\<close>

lemma sized_type:
  "sized e \<Longrightarrow> py_in ''DEF'' (type_name e) \<and> type_name e \<noteq> ''DDEF''"
  "getEntityType e = TT_ddef \<longleftrightarrow> type_name e = ''DDEF''"
  "py_in ''DEF'' (type_name e) \<longleftrightarrow> sized e \<or> getEntityType e = TT_ddef"
  by (cases e; simp)+

lemma node_of_Some: "node_of its i = Some k \<Longrightarrow> k < length its \<and> getId (snd (its ! k)) = i"
  by (auto simp: node_of_def dest: find_in)

lemma node_of_listed: "k < length its \<Longrightarrow> \<exists>j. node_of its (getId (snd (its ! k))) = Some j"
  by (cases "node_of its (getId (snd (its ! k)))") (auto simp: node_of_def find_None_iff)

lemma store_nodes:
  assumes "store_of g m its v" and "k < length its"
  shows "tl_id (nodes v ! k) = getId (snd (its ! k))" "tl_type (nodes v ! k) = type_name (snd (its ! k))"
    "tl_children (nodes v ! k) = children_of its k"
    "is_def_item (its ! k) \<Longrightarrow> tl_length (nodes v ! k) = [0 \<mapsto> def_bytes m (snd (its ! k))] \<and>
       tl_cls (nodes v ! k) = Some (dominator_text (isDominator (snd (its ! k))))"
    "tl_offset (nodes v ! k) = (case snd (its ! k) of SDef i n t fs off dmn \<Rightarrow> off | _ \<Rightarrow> 0)"
proof -
  have "described g m (its ! k) (nodes v ! k)" "tl_children (nodes v ! k) = children_of its k"
    using assms by (simp_all add: store_of_def)
  then show "tl_id (nodes v ! k) = getId (snd (its ! k))" "tl_type (nodes v ! k) = type_name (snd (its ! k))"
    "tl_children (nodes v ! k) = children_of its k"
    "is_def_item (its ! k) \<Longrightarrow> tl_length (nodes v ! k) = [0 \<mapsto> def_bytes m (snd (its ! k))] \<and>
       tl_cls (nodes v ! k) = Some (dominator_text (isDominator (snd (its ! k))))"
    "tl_offset (nodes v ! k) = (case snd (its ! k) of SDef i n t fs off dmn \<Rightarrow> off | _ \<Rightarrow> 0)"
    using sized_type(3) [of "snd (its ! k)"]
    by (auto simp: described_def is_def_item_def split: prod.splits entity.splits)
qed

text \<open>Lines with the same identifier are lines of the same entity.\<close>

definition unique_ids :: "(int \<times> entity) list \<Rightarrow> bool" where
  "unique_ids its \<longleftrightarrow> inj_on getId (snd ` set its)"

lemma same_entity:
  "unique_ids its \<Longrightarrow> j < length its \<Longrightarrow> k < length its \<Longrightarrow> getId (snd (its ! j)) = getId (snd (its ! k)) \<Longrightarrow> snd (its ! j) = snd (its ! k)"
  unfolding unique_ids_def by (erule inj_onD) simp_all

lemma node_of_entity:
  assumes "unique_ids its" and "k < length its"
  shows "\<exists>j. node_of its (getId (snd (its ! k))) = Some j \<and> snd (its ! j) = snd (its ! k)"
proof -
  obtain j where j: "node_of its (getId (snd (its ! k))) = Some j" using node_of_listed [OF assms(2)] by blast
  from node_of_Some [OF j] show ?thesis using j same_entity [OF assms(1) _ assms(2), of j] by simp
qed

lemma find_prefix: "find P xs = Some x \<Longrightarrow> find P (xs @ ys) = Some x"
  by (induction xs) auto

text \<open>Only the first line of an identifier has children.\<close>

lemma parent_is_first:
  assumes "children_of its k = c # cs"
  shows "c < length its" and "node_of its (getId (snd (its ! k))) = Some k"
proof -
  have "c \<in> set (children_of its k)" using assms by simp
  then have c: "c < length its" "father_of its c = Some k" by (simp_all add: children_of_def)
  then have f: "find (\<lambda>i. getId (snd (its ! i)) = fst (its ! c)) [0..<Suc c] = Some k" by (simp add: father_of_def split: if_splits)
  moreover have "[0..<length its] = [0..<Suc c] @ [Suc c..<length its]"
    using upt_add_eq_append [of 0 "Suc c"] le_Suc_ex [OF Suc_leI [OF c(1)]] by (metis le0)
  ultimately have "find (\<lambda>i. getId (snd (its ! i)) = fst (its ! c)) [0..<length its] = Some k" by (metis find_prefix)
  moreover have "getId (snd (its ! k)) = fst (its ! c)" using find_in [OF f] by blast
  ultimately show "node_of its (getId (snd (its ! k))) = Some k" by (simp add: node_of_def)
  show "c < length its" by (rule c(1))
qed

lemma facts_sized:
  assumes "unique_ids its" and "k < length its" and "sized (snd (its ! k))"
  shows "object_of (facts_of m its) (getId (snd (its ! k))) = getId (snd (its ! k))"
    "object_size (facts_of m its) (getId (snd (its ! k))) = def_bytes m (snd (its ! k))"
    "object_offset (facts_of m its) (getId (snd (its ! k))) = (case snd (its ! k) of SDef i n t fs off dmn \<Rightarrow> off | _ \<Rightarrow> 0)"
proof -
  obtain j where "node_of its (getId (snd (its ! k))) = Some j" "snd (its ! j) = snd (its ! k)"
    using node_of_entity [OF assms(1,2)] by blast
  moreover have "getEntityType (snd (its ! k)) \<noteq> TT_ddef" using assms(3) by (cases "snd (its ! k)") simp_all
  ultimately show "object_of (facts_of m its) (getId (snd (its ! k))) = getId (snd (its ! k))"
    "object_size (facts_of m its) (getId (snd (its ! k))) = def_bytes m (snd (its ! k))"
    "object_offset (facts_of m its) (getId (snd (its ! k))) = (case snd (its ! k) of SDef i n t fs off dmn \<Rightarrow> off | _ \<Rightarrow> 0)"
    by (simp_all add: facts_of_def)
qed

lemma fixed_of_sized:
  assumes "store_of g m its v" and "unique_ids its" and "k < length its" and "sized (snd (its ! k))"
  shows "fixed_def (facts_of m its) (nodes v ! k)"
proof -
  have "is_def_item (its ! k)" using assms(4) by (simp add: is_def_item_def)
  then show ?thesis
    using store_nodes [OF assms(1,3)] facts_sized [OF assms(2-4)] sized_type(1) [OF assms(4)] assms(4)
    by (cases "snd (its ! k)") (simp_all add: fixed_def_def)
qed

lemma stands_in_store:
  assumes "store_of g m its v" and "unique_ids its" and "k < length its" and "stands its k"
  shows "stands_for v (facts_of m its) k"
proof (cases "sized (snd (its ! k))")
  case True
  then show ?thesis
    using store_nodes [OF assms(1,3)] facts_sized(1) [OF assms(2,3)] fixed_of_sized [OF assms(1-3)] sized_type(1)
      assms(1,3) by (simp add: stands_for_def store_of_def)
next
  case False
  then obtain c cs where c: "getEntityType (snd (its ! k)) = TT_ddef" "children_of its k = c # cs" "sized (snd (its ! c))"
    using assms(4) by (auto simp: stands_def split: list.splits)
  have "object_of (facts_of m its) (getId (snd (its ! k))) = getId (snd (its ! c))"
    using c parent_is_first(2) [OF c(2)] by (simp add: facts_of_def)
  then show ?thesis
    using c store_nodes [OF assms(1,3)] store_nodes(1) [OF assms(1) parent_is_first(1) [OF c(2)]]
      fixed_of_sized [OF assms(1,2) parent_is_first(1) [OF c(2)] c(3)] assms(1,3) sized_type(2) parent_is_first(1) [OF c(2)]
    by (simp add: stands_for_def store_of_def)
qed

text \<open>The targets of a use as the verifier finds them.\<close>

lemma used_def_chosen:
  assumes "store_of g m its v" and "u < length its" and "list_all (\<lambda>k. is_def_item (its ! k)) (children_of its u)"
    and "chosen its (children_of its u) = Some k"
  shows "used_def v u = Inr k \<and> k \<in> set (children_of its u)"
proof -
  let ?ks = "children_of its u"
  have less: "\<forall>k \<in> set ?ks. k < length its" by (auto simp: children_of_def)
  have "find (\<lambda>k. tl_cls (nodes v ! k) = Some ''BASE'') ks = find (\<lambda>k. \<not> isDominator (snd (its ! k))) ks" if "set ks \<subseteq> set ?ks" for ks
  proof (rule find_cong [OF refl])
    fix k assume "k \<in> set ks"
    then have "k < length its" "is_def_item (its ! k)" using that less assms(3) by (auto simp: list_all_iff)
    then show "tl_cls (nodes v ! k) = Some ''BASE'' \<longleftrightarrow> \<not> isDominator (snd (its ! k))"
      using store_nodes(4) [OF assms(1)] by (simp add: dominator_text_def)
  qed
  then have f: "find (\<lambda>k. tl_cls (nodes v ! k) = Some ''BASE'') ?ks = find (\<lambda>k. \<not> isDominator (snd (its ! k))) ?ks" by blast
  have c: "tl_children (nodes v ! u) = ?ks" by (rule store_nodes(3) [OF assms(1,2)])
  show ?thesis
  proof (cases ?ks)
    case (Cons k0 ks)
    then show ?thesis
    proof (cases ks)
      case Nil
      then show ?thesis using Cons assms(4) by (simp add: used_def_def c chosen_def py_nth_def)
    next
      case (Cons k1 ks')
      then have k: "find (\<lambda>k. \<not> isDominator (snd (its ! k))) ?ks = Some k" "1 < length ?ks" "?ks \<noteq> []"
        using \<open>?ks = k0 # ks\<close> assms(4) by (simp_all add: chosen_def)
      then show ?thesis
        using f find_in [OF k(1)] k(2,3) by (simp add: used_def_def c py_nth_def py_next_def Let_def)
    qed
  qed (use assms(4) in \<open>simp add: chosen_def\<close>)
qed

lemma node_with_node_of: "store_of g m its v \<Longrightarrow> node_of its i = Some u \<Longrightarrow> node_with (Some i) (nodes v) = Inr u"
proof -
  assume st: "store_of g m its v" and u: "node_of its i = Some u"
  have "find (\<lambda>k. Some (tl_id (nodes v ! k)) = Some i) [0..<length its] = find (\<lambda>k. getId (snd (its ! k)) = i) [0..<length its]"
    using store_nodes(1) [OF st] by (intro find_cong) auto
  then show ?thesis using u st by (simp add: node_with_def py_next_def node_of_def store_of_def)
qed

text \<open>The verifier that has read the trace watches the program by its facts.\<close>

lemma store_watches:
  assumes "store_of g m its v" and "ver_wf v" and "unseen v" and "unique_ids its"
  shows "watches (facts_of m its) Map.empty v"
proof -
  have "\<exists>u k. node_with (Some j) (nodes v) = Inr u \<and> used_def v u = Inr k \<and> stands_for v (facts_of m its) k \<and> tl_id (nodes v ! k) = i"
    if use: "checked_def (facts_of m its) j = Some i" for i j
  proof -
    obtain u k where u: "node_of its j = Some u" "list_all (\<lambda>k. is_def_item (its ! k)) (children_of its u)"
      "chosen its (children_of its u) = Some k" "stands its k" "i = getId (snd (its ! k))"
      using use by (auto simp: facts_of_def use_target_def split: option.splits if_splits)
    have "u < length its" using node_of_Some [OF u(1)] by simp
    from used_def_chosen [OF assms(1) this u(2,3)] have k: "used_def v u = Inr k" "k < length its" by (auto simp: children_of_def)
    then show ?thesis
      using node_with_node_of [OF assms(1) u(1)] stands_in_store [OF assms(1,4) k(2) u(4)] store_nodes(1) [OF assms(1) k(2)] u(5)
      by blast
  qed
  moreover have "tl_address (nodes v ! k) g = None" if "k < length (nodes v)" for k g
    using assms(3) that by (simp add: unseen_def)
  ultimately show ?thesis using assms(2) unfolding watches_def by auto
qed

lemma listed_item:
  assumes "store_of g m its v" and "ver_wf v" and "x \<in> set its" and "is_def_item x"
  shows "\<exists>k ks. def_map v (getId (snd x)) = Some (k # ks)"
proof -
  obtain k where k: "k < length its" "x = its ! k" using assms(3) by (auto simp: in_set_conv_nth)
  have "py_in ''DEF'' (tl_type (nodes v ! k))"
    using store_nodes(2) [OF assms(1) k(1)] assms(4) sized_type(3) by (simp add: is_def_item_def k(2))
  moreover have "node_ok (def_map v) (length (nodes v)) k (nodes v ! k)" "defs_listed (def_map v) (nodes v)"
    using assms(1,2) k(1) by (simp_all add: ver_wf_def store_of_def)
  ultimately obtain ks where "def_map v (getId (snd x)) = Some ks" "ks \<noteq> []"
    using store_nodes(1) [OF assms(1) k(1)] unfolding node_ok_def defs_listed_def k(2) by metis
  then show ?thesis by (cases ks) auto
qed

lemma listed_entity:
  assumes "store_of g m its v" and "ver_wf v" and "unique_ids its" and "x \<in> set its"
    and "def_map v (getId (snd x)) = Some ks" and "k \<in> set ks"
  shows "k < length its \<and> snd (its ! k) = snd x"
proof -
  obtain j where j: "j < length its" "x = its ! j" using assms(4) by (auto simp: in_set_conv_nth)
  have k: "k < length its" "tl_id (nodes v ! k) = getId (snd x)"
    using assms(1,2,5,6) unfolding ver_wf_def defs_listed_def store_of_def by auto
  then show ?thesis using store_nodes(1) [OF assms(1) k(1)] same_entity [OF assms(3) k(1) j(1)] j(2) by simp
qed

lemma traced_known:
  assumes "store_of g m its v" and "ver_wf v" and "unique_ids its" and "traced m its e"
  shows "known (facts_of m its) v e"
proof (cases e)
  case (Def d a)
  then obtain x where "x \<in> set its" "is_def_item x" "getId (snd x) = uint d div 65536" using assms(4) by (auto simp: list_ex_iff)
  then show ?thesis using listed_item [OF assms(1,2)] Def by fastforce
next
  case (Ddef d a n)
  then obtain x where x: "x \<in> set its" "getEntityType (snd x) = TT_ddef" "getId (snd x) = uint d div 65536"
    using assms(4) by (auto simp: list_ex_iff)
  then obtain k0 ks0 where ks: "def_map v (uint d div 65536) = Some (k0 # ks0)"
    using listed_item [OF assms(1,2) x(1)] by (auto simp: is_def_item_def)
  have "tl_type (nodes v ! k) = ''DDEF''" if "k \<in> set (k0 # ks0)" for k
    using listed_entity [OF assms(1-3) x(1), of "k0 # ks0" k] that ks x store_nodes(2) [OF assms(1), of k] sized_type(2) by simp
  then show ?thesis using ks Ddef by simp
next
  case (Use i a)
  then show ?thesis using assms(4) by simp
next
  case (Iuse i d a)
  then obtain y x where y: "y \<in> set its" "getId (snd y) = sint i div 65536"
    and x: "x \<in> set its" "sized (snd x)" "getId (snd x) = sint d div 65536" using assms(4) by (auto simp: list_ex_iff)
  obtain j where "j < length its" "y = its ! j" using y(1) by (auto simp: in_set_conv_nth)
  then obtain u where "node_of its (sint i div 65536) = Some u" using node_of_listed [of j its] y(2) by auto
  moreover obtain k ks where ks: "def_map v (sint d div 65536) = Some (k # ks)"
    using listed_item [OF assms(1,2) x(1)] x(2,3) by (auto simp: is_def_item_def)
  moreover have "k < length its" "stands its k"
    using listed_entity [OF assms(1-3) x(1), of "k # ks" k] ks x(2,3) by (simp_all add: stands_def)
  ultimately show ?thesis
    using node_with_node_of [OF assms(1)] stands_in_store [OF assms(1,3)] Iuse by simp
qed

lemma checked_item:
  assumes "checked_def (facts_of m its) j = Some i"
  shows "\<exists>k < length its. getId (snd (its ! k)) = i \<and> is_def_item (its ! k)"
proof -
  obtain u k where u: "chosen its (children_of its u) = Some k" "stands its k" "getId (snd (its ! k)) = i"
    using assms by (auto simp: facts_of_def use_target_def split: option.splits if_splits)
  have "k \<in> set (children_of its u)"
    using u(1) by (auto simp: chosen_def split: list.splits if_splits dest: find_in)
  then show ?thesis using u(2,3) by (auto simp: stands_def is_def_item_def children_of_def)
qed

end
