(* ===== verification/Static_Driver.thy ===== *)
theory Static_Driver
  imports Static_Export
begin

text \<open>
  The search of the static analysis (SVF/tools/Example/svf-ex.cpp): from the calls that
  bring input into the program to the definitions and stores it can reach, the fields of
  structs, the identifiers handed to instrumented functions, and the metadata of indirect
  uses. The vectors of entities are lists, the trace is changed by replacing an entity of
  it. Log output is left out, except that printing an entity with a null pointer is stuck.
\<close>

section \<open>What the driver asks the SVF library\<close>

text \<open>
  The call sites in the order of their set; the actual parameters and the returned node of
  a call; whether a node is a pointer; the value-flow nodes of the edges of a value, and the
  node that defines one of the assignment graph; the order in which a hash set is walked;
  the arguments of a function and whether a value may be one of them; the function an
  instruction stands in; the stores and the casts from integers of the module (with their
  operands); and the depth allowed to the search for paths.
\<close>

record svf =
  call_sites :: "nat list"
  actual_params :: "nat \<Rightarrow> nat list"
  actual_ret :: "nat \<Rightarrow> nat option"
  is_pointer :: "nat \<Rightarrow> bool"
  stmt_nodes :: "llvm_value \<Rightarrow> nat list"
  def_node :: "nat \<Rightarrow> nat option"
  hash_order :: "nat set \<Rightarrow> nat list"
  formals_of :: "string \<Rightarrow> string list"
  may_alias :: "llvm_value \<Rightarrow> string \<Rightarrow> string \<Rightarrow> bool"
  function_of :: "llvm_value \<Rightarrow> string"
  module_stores :: "llvm_value list"
  int_to_ptrs :: "(llvm_value \<times> llvm_value) list"
  path_depth :: nat

section \<open>Lookups\<close>

definition name_ends_with :: "string \<Rightarrow> string \<Rightarrow> bool" where
  "name_ends_with s t = (if length s < length t then False else drop (length s - length t) s = t)"

fun get_def_id :: "graphs \<Rightarrow> entity option list \<Rightarrow> nat \<Rightarrow> int c" where
  "get_def_id g [] pn = Inr (-1)"
| "get_def_id g (d # ds) pn =
     cbind (defNodeCompare g d pn) (\<lambda>b.
     if b then cbind (c_deref d) (\<lambda>e. Inr (getId e)) else get_def_id g ds pn)"

definition getOrBuildDef :: "graphs \<Rightarrow> entity option list \<Rightarrow> nat \<Rightarrow> int \<Rightarrow> (entity option \<times> int) c" where
  "getOrBuildDef g deflist pn idCount =
     cbind (get_def_id g deflist pn) (\<lambda>i.
     if i = -1 then buildDef g pn idCount
     else cbind (getDefWithID deflist i) (\<lambda>d. Inr (d, idCount)))"

definition check_parameter_aliasing :: "svf \<Rightarrow> llvm_value \<Rightarrow> string \<Rightarrow> string option" where
  "check_parameter_aliasing p param func = find (may_alias p param func) (formals_of p func)"

definition getSVFGNodesFromValue :: "graphs \<Rightarrow> svf \<Rightarrow> llvm_value \<Rightarrow> nat list" where
  "getSVFGNodesFromValue g p v =
     stmt_nodes p v @ (case def_node p (value_node g v) of None \<Rightarrow> [] | Some n \<Rightarrow> [n])"

section \<open>All uses of a value\<close>

definition visit_succs :: "nat list \<Rightarrow> nat list \<times> nat list \<Rightarrow> nat list \<times> nat list" where
  "visit_succs = fold (\<lambda>s (work, seen). if s \<in> set seen then (work, seen) else (work @ [s], seen @ [s]))"

lemma visit_succs_new:
  "\<exists>new. visit_succs ss (work, seen) = (work @ new, seen @ new) \<and> distinct new \<and> set new = set ss - set seen"
proof (induction ss arbitrary: work seen)
  case Nil
  then show ?case by (simp add: visit_succs_def)
next
  case (Cons s ss)
  show ?case
  proof (cases "s \<in> set seen")
    case True
    then have "visit_succs (s # ss) (work, seen) = visit_succs ss (work, seen)" by (simp add: visit_succs_def)
    then show ?thesis using Cons.IH [of work seen] True by auto
  next
    case False
    then have step: "visit_succs (s # ss) (work, seen) = visit_succs ss (work @ [s], seen @ [s])" by (simp add: visit_succs_def)
    obtain new where new: "visit_succs ss (work @ [s], seen @ [s]) = ((work @ [s]) @ new, (seen @ [s]) @ new)"
      "distinct new" "set new = set ss - set (seen @ [s])" using Cons.IH [of "work @ [s]" "seen @ [s]"] by blast
    show ?thesis using step new False by (intro exI [of _ "s # new"]) auto
  qed
qed

partial_function (option) traverse_loop :: "graphs \<Rightarrow> nat list \<times> nat list \<Rightarrow> nat list option" where
  "traverse_loop g ws =
     (case ws of
        ([], seen) \<Rightarrow> Some seen
      | (n # work, seen) \<Rightarrow> traverse_loop g (visit_succs (svfg_out g n) (work, seen)))"

definition traverseOnVFG :: "graphs \<Rightarrow> svf \<Rightarrow> llvm_value \<Rightarrow> nat list c" where
  "traverseOnVFG g p v =
     cbind (c_find (def_node p) (value_node g v)) (\<lambda>vNode.
     case traverse_loop g ([vNode], []) of
       None \<Rightarrow> Inl Diverges
     | Some seen \<Rightarrow> Inr (hash_order p (set seen)))"

definition VFGNodeFilter :: "graphs \<Rightarrow> nat list \<Rightarrow> nat list" where
  "VFGNodeFilter g ns = filter (svfg_store g) ns"

section \<open>Fields\<close>

text \<open>The fields of a struct or of the struct a pointer points to.\<close>

fun struct_fields :: "llvm_module \<Rightarrow> llvm_type \<Rightarrow> llvm_type list option" where
  "struct_fields m (StructTy s) = Some (struct_elements m s)"
| "struct_fields m (PointerTy (StructTy s)) = Some (struct_elements m s)"
| "struct_fields m t = None"

definition as_int :: "int \<Rightarrow> int" where
  "as_int = signed_take_bit 31"

text \<open>
  The operands of one getelementptr from the third on, as long as there is a struct to
  index: the type reached, the fields on the way, and the offset, to which the sizes of the
  fields in front are added.
\<close>

fun gep_operands :: "llvm_module \<Rightarrow> int option list \<Rightarrow> llvm_type \<times> int list \<times> int \<Rightarrow> (llvm_type \<times> int list \<times> int) c" where
  "gep_operands m [] st = Inr st"
| "gep_operands m (x # xs) (t, fs, sz) =
     (case struct_fields m t of
        None \<Rightarrow> Inr (t, fs, sz)
      | Some es \<Rightarrow> (case x of
          None \<Rightarrow> Inr (t, fs, sz)
        | Some x \<Rightarrow>
            let operand = as_int x in
            cbind (c_read es operand) (\<lambda>tp.
            gep_operands m xs (tp, fs @ [operand],
              fold (\<lambda>e n. as_int (n + int (alloc_size m e))) (take (nat operand) es) sz))))"

fun gep_path :: "llvm_module \<Rightarrow> llvm_value option list \<Rightarrow> llvm_type \<times> int list \<times> int \<Rightarrow> (llvm_type \<times> int list \<times> int) c" where
  "gep_path m [] st = Inr st"
| "gep_path m (v # vs) st =
     (case v of
        Some (GetElementPtrInst i t ops) \<Rightarrow>
          cbind (gep_operands m (drop 2 ops) st) (\<lambda>st'.
          if struct_fields m (fst st') = None then Inr st' else gep_path m vs st')
      | _ \<Rightarrow> gep_path m vs st)"

fun same_field :: "nat \<Rightarrow> llvm_type \<Rightarrow> int \<Rightarrow> entity \<Rightarrow> bool" where
  "same_field p t sz (SDef i n t' fs off dmn) \<longleftrightarrow> n = p \<and> t' = t \<and> off = sz"
| "same_field p t sz e \<longleftrightarrow> False"

text \<open>The list of definitions, the counter of identifiers, and the use under construction (or none).\<close>

type_synonym building = "entity option list \<times> int \<times> entity option"

definition add_targets :: "entity option list \<Rightarrow> entity option \<Rightarrow> entity option" where
  "add_targets ds use = map_option (fold addTargetObject ds) use"

definition field_def ::
    "graphs \<Rightarrow> llvm_module \<Rightarrow> nat \<Rightarrow> llvm_type \<Rightarrow> nat list \<Rightarrow> int list \<times> building \<Rightarrow> (int list \<times> building) c" where
  "field_def g m p t0 path st = (case st of (ids, deflist, idCount, use) \<Rightarrow>
     cbind (gep_path m (map (svfg_value g) path) (t0, [], 0)) (\<lambda>(t, fs, sz).
     cbind (c_map c_deref deflist) (\<lambda>ds.
     let found = filter (same_field p t sz) ds in
     if found \<noteq> [] then Inr (ids @ map getId found, deflist, idCount, add_targets (map Some found) use)
     else
       cbind (if t = t0
              then cbind (c_deref (struct_fields m t)) (\<lambda>es. cbind (c_read es 0) (\<lambda>tp. Inr (tp, fs @ [0])))
              else Inr (t, fs)) (\<lambda>(t', fs').
       cbind (new_SDef g p t' fs' sz idCount) (\<lambda>(d, idCount').
       cbind (c_deref d) (\<lambda>e.
       Inr (ids @ [getId e], deflist @ [d], idCount', add_targets [d] use)))))))"

definition analyzeGep ::
    "graphs \<Rightarrow> llvm_module \<Rightarrow> svf \<Rightarrow> nat \<Rightarrow> llvm_value \<Rightarrow> building \<Rightarrow> (int list \<times> building) c" where
  "analyzeGep g m p pn use_value st =
     cbind (c_deref (node_value g pn)) (\<lambda>v.
     cbind (c_read (getSVFGNodesFromValue g p v) 0) (\<lambda>svfg_def.
     cbind (getPathFromTo (path_depth p) g svfg_def use_value) (\<lambda>paths.
     c_run (field_def g m pn (type_of_value m v)) paths ([], st))))"

section \<open>The targets of a use\<close>

definition target_def ::
    "graphs \<Rightarrow> llvm_module \<Rightarrow> svf \<Rightarrow> llvm_value \<Rightarrow> nat \<Rightarrow> building \<Rightarrow> building c" where
  "target_def g m p use_value pn st =
     cbind (c_deref (node_value g pn)) (\<lambda>v.
     if struct_fields m (type_of_value m v) \<noteq> None
     then cbind (analyzeGep g m p pn use_value st) (\<lambda>(ids, st'). Inr st')
     else (case st of (deflist, idCount, use) \<Rightarrow>
       cbind (getOrBuildDef g deflist pn idCount) (\<lambda>(d, idCount').
       Inr (deflist @ [d], idCount', add_targets [d] use))))"

fun setStoreParamSVFGNode :: "llvm_value \<Rightarrow> entity \<Rightarrow> entity" where
  "setStoreParamSVFGNode v (SUse i n s param ds) = SUse i n s (Some v) ds"
| "setStoreParamSVFGNode v e = e"

fun setCallTargetParam :: "llvm_value \<Rightarrow> entity \<Rightarrow> entity" where
  "setCallTargetParam v (LUse i n param ds) = LUse i n (Some v) ds"
| "setCallTargetParam v e = e"

fun setBlacklistedCall :: "nat \<Rightarrow> entity \<Rightarrow> entity" where
  "setBlacklistedCall c (In i n call subs) = In i n (Some c) subs"
| "setBlacklistedCall c e = e"

text \<open>
  A store that the value flows to becomes a use of the input, with the definitions it may
  write to. \<open>gep_use\<close> is the value the paths of a field lead to: the store itself, or the
  cast in the search that starts at casts.
\<close>

type_synonym input_state = "entity \<times> entity option list \<times> int"

definition store_use_of ::
    "graphs \<Rightarrow> llvm_module \<Rightarrow> svf \<Rightarrow> (llvm_value \<Rightarrow> llvm_value) \<Rightarrow> nat \<Rightarrow> input_state \<Rightarrow> input_state c" where
  "store_use_of g m p gep_use n st = (case st of (inp, deflist, idCount) \<Rightarrow>
     cbind (c_deref (svfg_value g n)) (\<lambda>v.
     case v of
       StoreInst i ptr f \<Rightarrow>
         cbind (new_SUse n v idCount) (\<lambda>(use, idCount1).
         cbind (findDefNodesFromStore g ptr) (\<lambda>defs.
         cbind (c_run (target_def g m p (gep_use v)) defs (deflist, idCount1, Some (setStoreParamSVFGNode ptr use)))
           (\<lambda>(deflist', idCount', use').
         Inr (entityInsert use' inp, deflist', idCount'))))
     | _ \<Rightarrow> Inr st))"

definition stores_reached ::
    "graphs \<Rightarrow> llvm_module \<Rightarrow> svf \<Rightarrow> (llvm_value \<Rightarrow> llvm_value) \<Rightarrow> llvm_value \<Rightarrow> input_state \<Rightarrow> input_state c" where
  "stores_reached g m p gep_use v st =
     cbind (traverseOnVFG g p v) (\<lambda>nodes. c_run (store_use_of g m p gep_use) (VFGNodeFilter g nodes) st)"

section \<open>Calls that bring input\<close>

record driver =
  entities :: "entity option list"
  deflist :: "entity option list"
  idCount :: int
  call_md :: metadata

definition inputFunctions :: "string list" where
  "inputFunctions = [''wrapper_gets'', ''wrapper_getc'', ''wrapper_fgets'', ''fgetc'', ''wrapper_fread'', ''wrapper_scanf'']"

definition libFunctions :: "string list" where
  "libFunctions = [''scanf'', ''__isoc99_scanf'', ''memcpy'', ''strcpy'']"

text \<open>
  The node an input is written to. Only two of the input functions set it; for the others
  the pointer is read uninitialised.
\<close>

definition input_param :: "graphs \<Rightarrow> svf \<Rightarrow> nat \<Rightarrow> string \<Rightarrow> nat c" where
  "input_param g p call name =
     (if name = ''wrapper_scanf'' then c_read (actual_params p call) 1
      else if name = ''fgetc''
      then cbind (c_deref (actual_ret p call)) (\<lambda>ret.
           if out_edges g ret = [] then Inr ret
           else cbind (findFirstStore g ret) c_deref)
      else Inl Indeterminate_Value)"

definition input_def ::
    "graphs \<Rightarrow> llvm_module \<Rightarrow> svf \<Rightarrow> nat \<Rightarrow> input_state \<Rightarrow> input_state c" where
  "input_def g m p def st = (case st of (inp, ds, k) \<Rightarrow>
     cbind (c_deref (node_value g def)) (\<lambda>v0.
     cbind (case v0 of
         CallInst i callee f \<Rightarrow>
           cbind (findTargetOfCall g def) (\<lambda>t. cbind (c_deref t) (\<lambda>t. c_deref (node_value g t)))
       | _ \<Rightarrow> Inr v0) (\<lambda>v.
     cbind (getOrBuildDef g ds def k) (\<lambda>(d, k').
     stores_reached g m p (\<lambda>s. s) v (entityInsert d inp, ds @ [d], k')))))"

definition input_call :: "graphs \<Rightarrow> llvm_module \<Rightarrow> svf \<Rightarrow> nat \<Rightarrow> string \<Rightarrow> driver \<Rightarrow> driver c" where
  "input_call g m p call name s =
     cbind (input_param g p call name) (\<lambda>functionParam.
     cbind (c_deref (node_value g functionParam)) (\<lambda>_.
     cbind (new_In functionParam (idCount s)) (\<lambda>(inp, k).
     cbind (getDefNodes g functionParam) (\<lambda>defs.
     cbind (c_run (input_def g m p) defs (setBlacklistedCall call inp, deflist s, k)) (\<lambda>(inp', ds, k').
     Inr (s\<lparr>entities := entities s @ [Some inp'], deflist := ds, idCount := k'\<rparr>))))))"

text \<open>A library call is itself the use, of the definitions its target may be.\<close>

definition lib_param :: "svf \<Rightarrow> nat \<Rightarrow> string \<Rightarrow> nat c" where
  "lib_param p call name =
     (if name = ''scanf'' \<or> name = ''__isoc99_scanf'' then c_read (actual_params p call) 1
      else c_read (actual_params p call) 0)"

definition lib_call :: "graphs \<Rightarrow> llvm_module \<Rightarrow> svf \<Rightarrow> nat \<Rightarrow> string \<Rightarrow> driver \<Rightarrow> driver c" where
  "lib_call g m p call name s =
     cbind (lib_param p call name) (\<lambda>functionParam.
     cbind (new_In functionParam (idCount s)) (\<lambda>(inp, k1).
     cbind (getDefNodes g functionParam) (\<lambda>defs.
     cbind (new_LUse call k1) (\<lambda>(luse, k2).
     cbind (c_deref (node_value g functionParam)) (\<lambda>v.
     cbind (c_run (target_def g m p (call_site g call)) defs (deflist s, k2, Some (setCallTargetParam v luse)))
       (\<lambda>(ds, k', use).
     Inr (s\<lparr>entities := entities s @ [Some (entityInsert use (setBlacklistedCall call inp))],
            deflist := ds, idCount := k'\<rparr>)))))))"

definition call_site_step :: "graphs \<Rightarrow> llvm_module \<Rightarrow> svf \<Rightarrow> nat \<Rightarrow> driver \<Rightarrow> driver c" where
  "call_site_step g m p call s =
     (case call_site g call of
        CallInst i (Some name) f \<Rightarrow>
          if name \<in> set inputFunctions then input_call g m p call name s
          else if name \<in> set libFunctions then lib_call g m p call name s
          else Inr s
      | _ \<Rightarrow> Inr s)"

section \<open>Calls of instrumented functions\<close>

text \<open>
  A pointer handed to an instrumented function comes with the identifier of the variable it
  points into: an argument of the caller that has one, or the first definition that is no
  dominator. A definition the trace does not have is built; one of a field is not put into
  the trace.
\<close>

definition zref_name :: "svf \<Rightarrow> string \<Rightarrow> nat \<Rightarrow> string c" where
  "zref_name p func k = cbind (c_read (formals_of p func) (int k)) (\<lambda>a. Inr (''zref_'' @ a @ ''_id''))"

fun zref_defs ::
    "graphs \<Rightarrow> llvm_module \<Rightarrow> svf \<Rightarrow> llvm_value \<Rightarrow> string \<Rightarrow> nat \<Rightarrow> llvm_value \<Rightarrow> nat list \<Rightarrow> driver \<Rightarrow> driver c" where
  "zref_defs g m p callee func k v [] s = Inr s"
| "zref_defs g m p callee func k v (def # defs) s =
     cbind (isDominatorNode g def) (\<lambda>dmn.
     if dmn then zref_defs g m p callee func k v defs s
     else
       cbind (get_def_id g (deflist s) def) (\<lambda>def_id.
       cbind (if def_id \<noteq> -1 then Inr (Some def_id, s)
              else
                cbind (c_deref (node_value g def)) (\<lambda>dv.
                if struct_fields m (type_of_value m dv) \<noteq> None
                then cbind (analyzeGep g m p def v (deflist s, idCount s, None)) (\<lambda>(ids, ds, n, _).
                     cbind (c_read ids 0) (\<lambda>i. Inr (Some i, s\<lparr>deflist := ds, idCount := n\<rparr>)))
                else cbind (getOrBuildDef g (deflist s) def (idCount s)) (\<lambda>(d, n).
                     case d of
                       None \<Rightarrow> Inr (None, s\<lparr>idCount := n\<rparr>)
                     | Some e \<Rightarrow> Inr (Some (getId e), s\<lparr>entities := entities s @ [d], deflist := deflist s @ [d], idCount := n\<rparr>))))
         (\<lambda>(found, s1).
       case found of
         None \<Rightarrow> zref_defs g m p callee func k v defs s1
       | Some i \<Rightarrow>
           cbind (getDefWithID (deflist s1) i) (\<lambda>d.
           cbind (c_deref d) (\<lambda>e.
           cbind (getBytes m e) (\<lambda>_.
           cbind (zref_name p func k) (\<lambda>name.
           Inr (s1\<lparr>call_md := setMetadata callee name (int_text i) (call_md s1)\<rparr>))))))))"

definition zref_param ::
    "graphs \<Rightarrow> llvm_module \<Rightarrow> svf \<Rightarrow> llvm_value \<Rightarrow> string \<Rightarrow> string \<Rightarrow> nat \<times> nat \<Rightarrow> driver \<Rightarrow> driver c" where
  "zref_param g m p callee func caller x s = (case x of (k, param) \<Rightarrow>
     if \<not> is_pointer p param then Inr s
     else (case node_value g param of
         None \<Rightarrow> Inr s
       | Some v \<Rightarrow> (case check_parameter_aliasing p v caller of
           Some arg \<Rightarrow> cbind (zref_name p func k) (\<lambda>name.
             Inr (s\<lparr>call_md := setMetadata callee name (arg @ ''_id'') (call_md s)\<rparr>))
         | None \<Rightarrow>
             cbind (c_read (getSVFGNodesFromValue g p v) 0) (\<lambda>defOfParam.
             cbind (c_deref (svfg_value g defOfParam)) (\<lambda>dv.
             cbind (getDefNodes g (value_node g dv)) (\<lambda>defs.
             zref_defs g m p callee func k dv defs s))))))"

definition zref_call :: "graphs \<Rightarrow> llvm_module \<Rightarrow> svf \<Rightarrow> nat \<Rightarrow> driver \<Rightarrow> driver c" where
  "zref_call g m p call s =
     (case call_site g call of
        CallInst i (Some func) caller \<Rightarrow>
          if name_ends_with func ''_instrumented''
          then c_run (zref_param g m p (call_site g call) func caller)
                 (enumerate 0 (actual_params p call)) s
          else Inr s
      | _ \<Rightarrow> Inr s)"

section \<open>Pointers made from integers\<close>

text \<open>
  A cast from an integer that depends on an input is followed like a definition of the
  input: the stores it flows to become uses of every input whose call it depends on.
\<close>

definition iptr_entity ::
    "graphs \<Rightarrow> llvm_module \<Rightarrow> svf \<Rightarrow> llvm_value \<Rightarrow> nat \<Rightarrow> entity option \<Rightarrow>
     entity option list \<times> entity option list \<times> int \<Rightarrow> (entity option list \<times> entity option list \<times> int) c" where
  "iptr_entity g m p iptr block te st = (case st of (done, ds, n) \<Rightarrow>
     cbind (trace_entity_dynamic_cast TT_in te) (\<lambda>i.
     case i of
       Some (In j pn call subs) \<Rightarrow>
         cbind (c_deref call) (\<lambda>c.
         if svfg_value g block = Some (call_site g c)
         then cbind (stores_reached g m p (\<lambda>_. iptr) iptr (In j pn call subs, ds, n)) (\<lambda>(inp, ds', n').
              Inr (done @ [Some inp], ds', n'))
         else Inr (done @ [te], ds, n))
     | _ \<Rightarrow> Inr (done @ [te], ds, n)))"

definition iptr_block :: "graphs \<Rightarrow> llvm_module \<Rightarrow> svf \<Rightarrow> llvm_value \<Rightarrow> nat \<Rightarrow> driver \<Rightarrow> driver c" where
  "iptr_block g m p iptr block s =
     cbind (c_run (iptr_entity g m p iptr block) (entities s) ([], deflist s, idCount s)) (\<lambda>(tes, ds, n).
     Inr (s\<lparr>entities := tes, deflist := ds, idCount := n\<rparr>))"

definition int_to_ptr :: "graphs \<Rightarrow> llvm_module \<Rightarrow> svf \<Rightarrow> llvm_value \<times> llvm_value \<Rightarrow> driver \<Rightarrow> driver c" where
  "int_to_ptr g m p x s = (case x of (iptr, v) \<Rightarrow>
     cbind (c_find (def_node p) (value_node g v)) (\<lambda>n.
     cbind (visitAndSelectSVFGNodes n (never_stuck (selectCallBlockNodes g))) (\<lambda>blocks.
     c_run (iptr_block g m p iptr) blocks s)))"

section \<open>Indirect uses\<close>

text \<open>Printing reaches every entity under the one printed; a null pointer among them is stuck.\<close>

fun printable :: "entity option \<Rightarrow> bool" where
  "printable None = False"
| "printable (Some (In i n call subs)) = list_all printable subs"
| "printable (Some (SUse i n s param ds)) = list_all printable ds"
| "printable (Some (LUse i n param ds)) = list_all printable ds"
| "printable (Some (DDef i n v target)) = printable target"
| "printable (Some e) = True"

definition printEntity :: "entity option \<Rightarrow> unit c" where
  "printEntity te = (if printable te then Inr () else Inl Null_Deref)"

text \<open>
  Where a use starts: the source of the edge that is its target, if there is one. The value
  of every edge looked at is printed here, too.
\<close>

definition use_start :: "graphs \<Rightarrow> llvm_value \<Rightarrow> nat c" where
  "use_start g v =
     (let start = value_node g v in
      cbind (edge_of_value v (in_edges g start)) (\<lambda>pagEdge.
      Inr (case pagEdge of None \<Rightarrow> start | Some e \<Rightarrow> edge_src e)))"

fun is_aggregate :: "llvm_type \<Rightarrow> bool" where
  "is_aggregate (ArrayTy n t) = True"
| "is_aggregate (StructTy s) = True"
| "is_aggregate t = False"

text \<open>
  The stores into the variable of a pointer: one of an argument of an instrumented function
  makes the use an indirect one, with the identifier that comes with the argument.
\<close>

fun ziuse_stores :: "graphs \<Rightarrow> svf \<Rightarrow> llvm_value \<Rightarrow> pag_edge list \<Rightarrow> metadata \<Rightarrow> metadata c" where
  "ziuse_stores g p i [] md = Inr md"
| "ziuse_stores g p i (e # es) md =
     cbind (c_deref (edge_value e)) (\<lambda>sv.
     if \<not> is_instruction sv then ziuse_stores g p i es md
     else if \<not> name_ends_with (function_of p sv) ''_instrumented'' then ziuse_stores g p i es md
     else cbind (c_deref (node_value g (edge_src e))) (\<lambda>store_src.
          case check_parameter_aliasing p store_src (function_of p sv) of
            Some arg \<Rightarrow> Inr (setMetadata i ''ziuse'' (arg @ ''_id'') md)
          | None \<Rightarrow> ziuse_stores g p i es md))"

definition ziuse_def ::
    "graphs \<Rightarrow> svf \<Rightarrow> entity \<Rightarrow> nat \<Rightarrow> entity option list \<Rightarrow> int \<Rightarrow> metadata \<Rightarrow> metadata c" where
  "ziuse_def g p use pn ds d_id md =
     cbind (getDefWithID ds d_id) (\<lambda>d.
     case getUseInstruction g use of
       None \<Rightarrow> Inr md
     | Some i \<Rightarrow>
         cbind (printEntity d) (\<lambda>_.
         cbind (printEntity (Some use)) (\<lambda>_.
         cbind (c_deref d) (\<lambda>e.
         cbind (getType e) (\<lambda>t.
         cbind (c_deref t) (\<lambda>t.
         if is_aggregate t then Inr md
         else (case edges_of Addr_Edge (out_edges g pn) of
             [pe] \<Rightarrow> ziuse_stores g p i (edges_of Store_Edge (in_edges g (edge_dst pe))) md
           | _ \<Rightarrow> Inl Assertion_Failure)))))))"

definition ziuse_use :: "graphs \<Rightarrow> llvm_module \<Rightarrow> svf \<Rightarrow> entity option \<Rightarrow> driver \<Rightarrow> driver c" where
  "ziuse_use g m p te s =
     cbind (asUse te) (\<lambda>u.
     case u of
       None \<Rightarrow> Inr s
     | Some use \<Rightarrow>
         cbind (getTarget use) (\<lambda>target.
         cbind (use_start g target) (\<lambda>start.
         cbind (findFirstDominator g start) (\<lambda>pn.
         case pn of
           None \<Rightarrow> Inr s
         | Some pn \<Rightarrow>
             cbind (c_deref (node_value g pn)) (\<lambda>v.
             cbind (c_deref (getUseInstruction g use)) (\<lambda>use_value.
             cbind (if struct_fields m (type_of_value m v) \<noteq> None
                    then cbind (analyzeGep g m p pn use_value (deflist s, idCount s, None)) (\<lambda>(ids, ds, n, _). Inr (ids, ds, n))
                    else cbind (get_def_id g (deflist s) pn) (\<lambda>i. Inr ([i], deflist s, idCount s))) (\<lambda>(ids, ds, n).
             cbind (c_run (ziuse_def g p use pn ds) ids (call_md s)) (\<lambda>md'.
             Inr (s\<lparr>deflist := ds, idCount := n, call_md := md'\<rparr>)))))))))"

text \<open>
  Before that, for every entity of the trace, the definitions of all stores of the module
  are looked up once more, and their values are printed.
\<close>

definition print_store_defs :: "graphs \<Rightarrow> llvm_value \<Rightarrow> unit \<Rightarrow> unit c" where
  "print_store_defs g store _ =
     cbind (store_target (Some store)) (\<lambda>ptr.
     cbind (findDefNodesFromStore g ptr) (\<lambda>defs.
     cbind (c_map (\<lambda>d. c_deref (node_value g d)) defs) (\<lambda>_. Inr ())))"

definition ziuse_entity :: "graphs \<Rightarrow> llvm_module \<Rightarrow> svf \<Rightarrow> entity option \<Rightarrow> driver \<Rightarrow> driver c" where
  "ziuse_entity g m p te s =
     cbind (c_run (print_store_defs g) (module_stores p) ()) (\<lambda>_.
     cbind (trace_entity_dynamic_cast TT_in te) (\<lambda>i.
     case i of
       Some (In j pn call subs) \<Rightarrow>
         cbind (printEntity i) (\<lambda>_. c_run (ziuse_use g m p) subs s)
     | _ \<Rightarrow> Inr s))"

section \<open>The whole analysis\<close>

definition driver_initial :: "metadata \<Rightarrow> driver" where
  "driver_initial md = \<lparr>entities = [], deflist = [], idCount = 0, call_md = md\<rparr>"

definition search_trace :: "graphs \<Rightarrow> llvm_module \<Rightarrow> svf \<Rightarrow> metadata \<Rightarrow> driver c" where
  "search_trace g m p md =
     cbind (c_run (call_site_step g m p) (call_sites p) (driver_initial md)) (\<lambda>s1.
     cbind (c_run (zref_call g m p) (call_sites p) s1) (\<lambda>s2.
     cbind (c_run (int_to_ptr g m p) (int_to_ptrs p) s2) (\<lambda>s3.
     c_run (ziuse_entity g m p) (entities s3) s3)))"

definition main_analysis ::
    "graphs \<Rightarrow> llvm_module \<Rightarrow> svf \<Rightarrow> (value_map \<Rightarrow> value_map) \<Rightarrow> metadata \<Rightarrow> (string \<times> metadata) c" where
  "main_analysis g m p order md =
     cbind (search_trace g m p md) (\<lambda>s. exportTrace g m order (entities s) (call_md s))"

end
