(* ===== verification/Static_Metadata.thy ===== *)
theory Static_Metadata
  imports Static_Props
begin

text \<open>
  The metadata that exporting the trace leaves on the values of the module: the value map
  holds the own identifier of each entity that was entered, and each value ends up with the
  identifier of one entity.
\<close>

section \<open>The value map\<close>

definition entered_sub :: "entity option \<Rightarrow> entity list" where
  "entered_sub te = the te # map the (targetObjects (the te))"

definition entered_top :: "entity option \<Rightarrow> entity list" where
  "entered_top te = the te # concat (map entered_sub (sub_objects (the te)))"

definition entered :: "entity option list \<Rightarrow> entity list" where
  "entered trace = concat (map entered_top trace)"

lemma one_map: "export_one g m f k te (s, vm) = Inr (t, vm') \<Longrightarrow> te \<noteq> None \<and> vm' = fold update_tags [the te] vm"
  by (auto simp: export_one_def updateValueMap_def exportEntity_def c_deref_def cbind_eq_Inr split: option.splits)

lemma run_map:
  assumes "\<And>x s vm t vm'. f x (s, vm) = Inr (t, vm') \<Longrightarrow> vm' = fold update_tags (es x) vm"
  shows "c_run f xs (s, vm) = Inr (t, vm') \<Longrightarrow> vm' = fold update_tags (concat (map es xs)) vm"
proof (induction xs arbitrary: s vm)
  case (Cons x xs)
  then obtain s1 vm1 where "f x (s, vm) = Inr (s1, vm1)" "c_run f xs (s1, vm1) = Inr (t, vm')"
    by (auto simp: cbind_eq_Inr)
  with Cons.IH assms show ?case by simp
qed simp

lemma sub_map:
  assumes "export_sub g m f te (s, vm) = Inr (t, vm')"
  shows "vm' = fold update_tags (entered_sub te) vm"
proof -
  obtain s1 vm1 u where one: "export_one g m f 1 te (s, vm) = Inr (s1, vm1)" and u: "asUse te = Inr u"
    and r: "(case u of None \<Rightarrow> Inr (s1, vm1) | Some use \<Rightarrow> c_run (export_one g m (getId use) 2) (targetObjects use) (s1, vm1)) = Inr (t, vm')"
    using assms by (auto simp: export_sub_def cbind_eq_Inr)
  have "vm' = fold update_tags (map the (targetObjects (the te))) vm1"
  proof (cases u)
    case None
    then show ?thesis using r asUse_Inr [OF u] no_targets by (auto split: if_splits)
  next
    case (Some e)
    then have "the te = e" using asUse_Inr [OF u] by (auto split: if_splits)
    then show ?thesis
      using r Some run_map [where f = "export_one g m (getId e) 2" and es = "\<lambda>d. [the d]"] one_map by fastforce
  qed
  then show ?thesis using one_map [OF one] by (simp add: entered_sub_def)
qed

lemma top_map:
  assumes "export_top g m te (s, vm) = Inr (t, vm')"
  shows "vm' = fold update_tags (entered_top te) vm"
proof -
  obtain s1 vm1 i where one: "export_one g m (-1) 0 te (s, vm) = Inr (s1, vm1)"
    and i: "trace_entity_dynamic_cast TT_in te = Inr i"
    and r: "(case i of Some (In k n call subs) \<Rightarrow> c_run (export_sub g m k) subs (s1, vm1) | _ \<Rightarrow> Inr (s1, vm1)) = Inr (t, vm')"
    using assms by (auto simp: export_top_def cbind_eq_Inr)
  obtain e where e: "te = Some e" "i = (if getEntityType e = TT_in then Some e else None)"
    using i by (cases te) (auto simp: trace_entity_dynamic_cast_def)
  have "vm' = fold update_tags (concat (map entered_sub (sub_objects e))) vm1"
    using r e run_map [where f = "export_sub g m (getId e)" and es = entered_sub] sub_map
    by (cases e) auto
  then show ?thesis using one_map [OF one] e by (simp add: entered_top_def)
qed

lemma export_map: "export_entities g m trace = Inr (s, vm) \<Longrightarrow> vm = fold update_tags (entered trace) []"
  using run_map [where f = "export_top g m" and es = entered_top and xs = trace, OF top_map]
  by (simp add: export_entities_def entered_def)

text \<open>What an entity alone is entered with.\<close>

definition own_tags :: "entity \<Rightarrow> tags" where
  "own_tags e = (case getEntityType e of
     TT_suse \<Rightarrow> no_tags\<lparr>store_tag := int_text (getId e)\<rparr>
   | TT_luse \<Rightarrow> no_tags\<lparr>lib_tag := int_text (getId e)\<rparr>
   | _ \<Rightarrow> no_tags\<lparr>def_tag := int_text (getId e)\<rparr>)"

definition is_def_entity :: "entity \<Rightarrow> bool" where
  "is_def_entity e \<longleftrightarrow> getEntityType e \<in> {TT_adef, TT_gdef, TT_ddef, TT_sdef}"

definition taggable :: "entity \<Rightarrow> bool" where
  "taggable e \<longleftrightarrow> is_def_entity e \<or> getEntityType e \<in> {TT_suse, TT_luse}"

lemma append_own [simp]: "append_tag s s = s"
  by (simp add: append_tag_def)

lemma update_tags_known:
  assumes "\<forall>x \<in> set vm. snd x = own_tags (fst x)" and "inj_on getId (insert e (fst ` set vm))"
  shows "update_tags e vm = (if \<not> taggable e \<or> e \<in> fst ` set vm then vm else vm @ [(e, own_tags e)])"
proof -
  have ids: "getId d = getId e \<longleftrightarrow> d = e" if "(d, t) \<in> set vm" for d t
  proof -
    have "d \<in> fst ` set vm" using that by force
    then show ?thesis using inj_onD [OF assms(2), of d e] by blast
  qed
  have put: "put_tag e fresh again vm = (if e \<in> fst ` set vm then vm else vm @ [(e, own_tags e)])"
    if "fresh no_tags = own_tags e" "again (own_tags e) = own_tags e" for fresh again
  proof (cases "e \<in> fst ` set vm")
    case True
    have "map (\<lambda>(d, t). if getId d = getId e then (d, again t) else (d, t)) vm = vm"
      using assms(1) ids that(2) by (intro map_idI) (auto split: prod.splits)
    moreover have "\<exists>x \<in> set vm. getId (fst x) = getId e" using True by auto
    ultimately show ?thesis using True by (simp add: put_tag_def)
  next
    case False
    then have "\<not> (\<exists>x \<in> set vm. getId (fst x) = getId e)" using ids by force
    then show ?thesis using False that(1) by (simp add: put_tag_def)
  qed
  show ?thesis
    by (cases "getEntityType e") (simp_all add: update_tags_def Let_def taggable_def is_def_entity_def put
      own_tags_def no_tags_def)
qed

lemma value_map_content:
  assumes "inj_on getId (set es)"
  shows "(\<forall>x \<in> set (fold update_tags es []). snd x = own_tags (fst x)) \<and>
    fst ` set (fold update_tags es []) = {e \<in> set es. taggable e}"
  using assms
proof (induction es rule: rev_induct)
  case (snoc e es)
  let ?vm = "fold update_tags es []"
  have ih: "\<forall>x \<in> set ?vm. snd x = own_tags (fst x)" "fst ` set ?vm = {e \<in> set es. taggable e}"
    using snoc by (auto intro: inj_on_subset)
  have "inj_on getId (insert e (fst ` set ?vm))"
    using snoc.prems unfolding ih(2) by (rule inj_on_subset) auto
  from update_tags_known [OF ih(1) this] show ?case using ih by auto
qed simp

section \<open>The metadata\<close>

text \<open>The metadata under \<open>key\<close> of a value comes from an entity of this kind with that value.\<close>

definition tags_value :: "graphs \<Rightarrow> string \<Rightarrow> llvm_value \<Rightarrow> entity \<Rightarrow> bool" where
  "tags_value g key v e \<longleftrightarrow> getTagValue g e = Some v \<and>
     (key = ''zdef'' \<and> is_def_entity e \<and> (is_instruction v \<or> is_global v) \<or>
      key = ''zsuse'' \<and> getEntityType e = TT_suse \<and> is_instruction v \<or>
      key = ''zluse'' \<and> getEntityType e = TT_luse \<and> is_instruction v)"

lemma tag_one:
  assumes "tag_entity g x md = Inr md'" and "snd x = own_tags (fst x)" and "taggable (fst x)"
  shows "md' v key = (if tags_value g key v (fst x) then Some (int_text (getId (fst x))) else md v key)"
  using assms by (cases "getEntityType (fst x)")
    (auto simp: tag_entity_def cbind_eq_Inr Let_def own_tags_def tags_value_def is_def_entity_def taggable_def
      no_tags_def setMetadata_def c_deref_def split: option.splits if_splits)

lemma tag_run:
  assumes "c_run (tag_entity g) xs md = Inr md'" and "\<forall>x \<in> set xs. snd x = own_tags (fst x) \<and> taggable (fst x)"
  shows "md' v key = md v key \<and> (\<forall>x \<in> set xs. \<not> tags_value g key v (fst x)) \<or>
    (\<exists>x \<in> set xs. tags_value g key v (fst x) \<and> md' v key = Some (int_text (getId (fst x))))"
  using assms
proof (induction xs arbitrary: md)
  case (Cons x xs)
  then obtain md1 where md1: "tag_entity g x md = Inr md1" "c_run (tag_entity g) xs md1 = Inr md'"
    by (auto simp: cbind_eq_Inr)
  have "md1 v key = (if tags_value g key v (fst x) then Some (int_text (getId (fst x))) else md v key)"
    using tag_one [OF md1(1)] Cons.prems(2) by simp
  then show ?case using Cons.IH [OF md1(2)] Cons.prems(2) by (auto split: if_splits)
qed simp

text \<open>A value that an entity of the trace belongs to has the identifier of one of them.\<close>

lemma value_tagged:
  assumes "exportTrace g m order trace md = Inr (text, md')" and "\<And>vm. set (order vm) = set vm"
    and "inj_on getId (set (entered trace))" and "e \<in> set (entered trace)" and "tags_value g key v e"
  shows "\<exists>d \<in> set (entered trace). tags_value g key v d \<and> md' v key = Some (int_text (getId d))"
proof -
  obtain vm where vm: "export_entities g m trace = Inr (text, vm)" "c_run (tag_entity g) (order vm) md = Inr md'"
    using assms(1) by (auto simp: exportTrace_def cbind_eq_Inr)
  have c: "\<forall>x \<in> set vm. snd x = own_tags (fst x)" "fst ` set vm = {e \<in> set (entered trace). taggable e}"
    using value_map_content [OF assms(3)] unfolding export_map [OF vm(1)] by blast+
  then have "\<forall>x \<in> set (order vm). snd x = own_tags (fst x) \<and> taggable (fst x)" unfolding assms(2) by blast
  note run = tag_run [OF vm(2) this, of v key, unfolded assms(2)]
  have "e \<in> fst ` set vm" using assms(4,5) unfolding c(2) by (auto simp: taggable_def tags_value_def)
  then obtain x where "x \<in> set vm" "tags_value g key v (fst x)" "md' v key = Some (int_text (getId (fst x)))"
    using run assms(5) by auto
  then show ?thesis using c(2) by blast
qed

text \<open>
  C29. Each value is left with the identifier of one definition only: where several
  definitions of the trace belong to the same value (the fields of a struct and the struct
  itself do), one of them replaces the others in the metadata, in an order that depends on
  addresses, and the instrumentation never sees the others. The code that would join their
  identifiers is never reached with two entities.
\<close>

theorem one_definition_per_value:
  assumes "exportTrace g m order trace md = Inr (text, md')" and "\<And>vm. set (order vm) = set vm"
    and "inj_on getId (set (entered trace))"
    and "e \<in> set (entered trace)" and "is_def_entity e" and "getTagValue g e = Some v" and "is_instruction v \<or> is_global v"
  shows "\<exists>d \<in> set (entered trace). is_def_entity d \<and> getTagValue g d = Some v \<and>
    md' v ''zdef'' = Some (int_text (getId d))"
  using value_tagged [OF assms(1-4), of "''zdef''" v] assms(5-7) by (auto simp: tags_value_def)

text \<open>A struct variable with two fields that are written.\<close>

definition field_trace :: "entity option list" where
  "field_trace = [Some (In 0 5 (Some 6) [Some (LUse 1 6 None
     [Some (SDef 2 4 (IntegerTy 32) [0] 0 False), Some (SDef 3 4 (IntegerTy 8) [1] 4 False)])])]"

definition field_graphs :: graphs where
  "field_graphs = no_graphs\<lparr>node_value := (\<lambda>_. Some (AllocaInst 7 (StructTy ''pair'')))\<rparr>"

lemma field_export: "\<exists>s md'. exportTrace field_graphs sample_module (\<lambda>x. x) field_trace md = Inr (s, md')"
  by (simp add: exportTrace_def export_entities_def field_trace_def export_top_def export_one_def exportEntity_def
    getBytes_defs traceLine_defs evaluateSizeDL_def updateValueMap_def trace_entity_dynamic_cast_def export_sub_def
    asUse_def isUse_def update_tags_def put_tag_def Let_def tag_entity_def no_tags_def field_graphs_def)

theorem one_definition_per_value_witness:
  "\<exists>s md'. exportTrace field_graphs sample_module (\<lambda>x. x) field_trace (\<lambda>_ _. None) = Inr (s, md') \<and>
    (\<exists>i \<in> {2, 3}. md' (AllocaInst 7 (StructTy ''pair'')) ''zdef'' = Some (int_text i))"
proof -
  obtain s md' where e: "exportTrace field_graphs sample_module (\<lambda>x. x) field_trace (\<lambda>_ _. None) = Inr (s, md')"
    using field_export by blast
  have en: "entered field_trace = [In 0 5 (Some 6) [Some (LUse 1 6 None
      [Some (SDef 2 4 (IntegerTy 32) [0] 0 False), Some (SDef 3 4 (IntegerTy 8) [1] 4 False)])],
     LUse 1 6 None [Some (SDef 2 4 (IntegerTy 32) [0] 0 False), Some (SDef 3 4 (IntegerTy 8) [1] 4 False)],
     SDef 2 4 (IntegerTy 32) [0] 0 False, SDef 3 4 (IntegerTy 8) [1] 4 False]"
    by (simp add: entered_def entered_top_def entered_sub_def field_trace_def)
  have "\<exists>d \<in> set (entered field_trace). is_def_entity d \<and> getTagValue field_graphs d = Some (AllocaInst 7 (StructTy ''pair'')) \<and>
    md' (AllocaInst 7 (StructTy ''pair'')) ''zdef'' = Some (int_text (getId d))"
    using e by (rule one_definition_per_value [where e = "SDef 2 4 (IntegerTy 32) [0] 0 False"])
      (simp_all add: en is_def_entity_def field_graphs_def)
  then have "\<exists>i \<in> {2, 3}. md' (AllocaInst 7 (StructTy ''pair'')) ''zdef'' = Some (int_text i)"
    by (auto simp: en is_def_entity_def)
  then show ?thesis using e by blast
qed

end
