(* ===== verification/Static_Driver_Laws.thy ===== *)
theory Static_Driver_Laws
  imports Static_Driver Static_Metadata "HOL-Library.Multiset"
begin

text \<open>
  What the search for the trace guarantees: the identifiers it hands out are those of one
  entity each, through every phase; the paths it looks for are found with a depth that
  exceeds the number of nodes; and the uses of a value are the nodes it reaches.
\<close>

section \<open>Identifiers\<close>

text \<open>
  The definitions known so far have identifiers of their own below the counter, and so have
  the inputs and uses, whose identifiers are listed apart.
\<close>

definition ids_ok :: "entity option list \<Rightarrow> int \<Rightarrow> int list \<Rightarrow> bool" where
  "ids_ok ds n own \<longleftrightarrow> distinct own \<and> (\<forall>i \<in> set own. i < n) \<and>
     (\<forall>d. Some d \<in> set ds \<longrightarrow> is_def_entity d \<and> getId d < n \<and> getId d \<notin> set own) \<and>
     inj_on getId {d. Some d \<in> set ds}"

lemma ids_ok_mset: "mset own = mset own' \<Longrightarrow> ids_ok ds n own = ids_ok ds n own'"
  using mset_eq_setD [of own own'] mset_eq_imp_distinct_iff [of own own'] by (simp add: ids_ok_def)

lemma ids_ok_own: "ids_ok ds n own \<Longrightarrow> ids_ok ds (n + 1) (n # own)"
  by (fastforce simp: ids_ok_def)

text \<open>Definitions are only added, with new identifiers.\<close>

definition grow :: "entity option list \<times> int \<Rightarrow> entity option list \<times> int \<Rightarrow> bool" where
  "grow x y \<longleftrightarrow> set (fst x) \<subseteq> set (fst y) \<and> snd x \<le> snd y \<and>
     (\<forall>own. ids_ok (fst x) (snd x) own \<longrightarrow> ids_ok (fst y) (snd y) own)"

lemma grow_refl: "grow x x"
  by (simp add: grow_def)

lemma grow_trans: "grow x y \<Longrightarrow> grow y z \<Longrightarrow> grow x z"
  unfolding grow_def by (meson order_trans)

lemma grow_known: "d = None \<or> d \<in> set ds \<Longrightarrow> grow (ds, n) (ds @ [d], n)"
  by (auto simp: grow_def ids_ok_def intro: inj_on_subset)

lemma grow_new:
  assumes "is_def_entity e" "n \<le> getId e" "getId e < n'"
  shows "grow (ds, n) (ds @ [Some e], n')"
  unfolding grow_def
proof (intro conjI allI impI)
  show "set (fst (ds, n)) \<subseteq> set (fst (ds @ [Some e], n'))" by auto
  show "snd (ds, n) \<le> snd (ds @ [Some e], n')" using assms by simp
  fix own assume ok: "ids_ok (fst (ds, n)) (snd (ds, n)) own"
  have "{d. Some d \<in> set (ds @ [Some e])} = insert e {d. Some d \<in> set ds}" by auto
  moreover have "inj_on getId (insert e {d. Some d \<in> set ds})"
    using ok assms by (fastforce simp: ids_ok_def)
  ultimately show "ids_ok (fst (ds @ [Some e], n')) (snd (ds @ [Some e], n')) own"
    using ok assms by (fastforce simp: ids_ok_def)
qed

lemma grow_count: "n \<le> n' \<Longrightarrow> grow (ds, n) (ds, n')"
  by (fastforce simp: grow_def ids_ok_def)

lemma grow_None: "grow (ds, n) (ds @ [None], n') \<Longrightarrow> grow (ds, n) (ds, n')"
  unfolding grow_def ids_ok_def by auto

section \<open>Building definitions\<close>

lemma new_id_Inr: "new_id n = Inr (i, n') \<Longrightarrow> i = n \<and> n' = n + 1"
  by (auto simp: new_id_def c_incr_def cbind_eq_Inr split: if_splits)

lemma new_defs:
  "new_ADef g pn v n = Inr (r, n') \<Longrightarrow> \<exists>e. r = Some e \<and> is_def_entity e \<and> getId e = n \<and> n' = n + 1"
  "new_GDef g pn v n = Inr (r, n') \<Longrightarrow> \<exists>e. r = Some e \<and> is_def_entity e \<and> getId e = n \<and> n' = n + 1"
  "new_SDef g pn t fs off n = Inr (r, n') \<Longrightarrow> \<exists>e. r = Some e \<and> is_def_entity e \<and> getId e = n \<and> n' = n + 1"
  "new_DDef pn v target n = Inr (r, n') \<Longrightarrow> \<exists>e. r = Some e \<and> is_def_entity e \<and> getId e = n \<and> n' = n + 1"
  by (auto simp: new_ADef_def new_GDef_def new_SDef_def new_DDef_def is_def_entity_def cbind_eq_Inr dest!: new_id_Inr)

definition built_from :: "int \<Rightarrow> entity option \<times> int \<Rightarrow> bool" where
  "built_from n r \<longleftrightarrow> n \<le> snd r \<and> (\<forall>e. fst r = Some e \<longrightarrow> is_def_entity e \<and> n \<le> getId e \<and> getId e < snd r)"

lemma build_loop_ids:
  assumes "build_loop g pn n = Some r"
  shows "\<forall>x. r = Inr x \<longrightarrow> built_from n x"
proof (rule build_loop.raw_induct [where P = "\<lambda>g pn n r. \<forall>x. r = Inr x \<longrightarrow> built_from n x", OF _ assms])
  fix loop :: "graphs \<Rightarrow> nat \<Rightarrow> int \<Rightarrow> (entity option \<times> int) c option" and g pn n r
  assume ih: "\<And>g t n r. loop g t n = Some r \<Longrightarrow> \<forall>x. r = Inr x \<longrightarrow> built_from n x"
    and body: "(case node_value g pn of
        None \<Rightarrow> Some (Inl Null_Deref)
      | Some v \<Rightarrow> (case v of
          AllocaInst i t \<Rightarrow> Some (new_ADef g pn v n)
        | GlobalVariable i t \<Rightarrow> Some (new_GDef g pn v n)
        | OtherGlobal i t \<Rightarrow> Some (new_GDef g pn v n)
        | CallInst i callee f \<Rightarrow> (case callee of
            None \<Rightarrow> Some (Inl Null_Deref)
          | Some name \<Rightarrow>
              (if name \<in> set dynamicFunctions
               then (case findTargetOfCall g pn of
                   Inl err \<Rightarrow> Some (Inl err)
                 | Inr None \<Rightarrow> Some (Inl Null_Deref)
                 | Inr (Some t) \<Rightarrow> Option.bind (loop g t n) (\<lambda>r. Some (cbind r (\<lambda>(target, k). new_DDef pn v target k))))
               else Some (Inr (None, n))))
        | _ \<Rightarrow> Some (Inl Assertion_Failure))) = Some r"
  have new: "built_from n (d, n')" if "new_ADef g pn v n = Inr (d, n') \<or> new_GDef g pn v n = Inr (d, n')" for d n' v
    using that new_defs(1,2) [of g pn v n d n'] by (auto simp: built_from_def)
  have dyn: "built_from n (d, n')" if t: "loop g t n = Some (Inr (target, k))" and d: "new_DDef pn v target k = Inr (d, n')" for t target k v d n'
    using ih [OF t] new_defs(4) [OF d] by (auto simp: built_from_def)
  show "\<forall>x. r = Inr x \<longrightarrow> built_from n x"
    using body new dyn
    by (auto split: option.splits llvm_value.splits if_splits sum.splits Option.bind_splits simp: cbind_eq_Inr built_from_def [of _ "(None, _)"])
qed

lemma getDefWithID_known: "getDefWithID ds i = Inr d \<Longrightarrow> d = None \<or> d \<in> set ds"
  by (induction ds i rule: getDefWithID.induct) (auto simp: cbind_eq_Inr c_deref_def split: if_splits option.splits)

lemma getOrBuildDef_grows:
  assumes "getOrBuildDef g ds pn n = Inr (d, n')"
  shows "grow (ds, n) (ds @ [d], n')" and "d \<noteq> None \<Longrightarrow> \<exists>e. d = Some e"
proof -
  consider i where "getDefWithID ds i = Inr d" "n' = n" | "buildDef g pn n = Inr (d, n')"
    using assms by (auto simp: getOrBuildDef_def cbind_eq_Inr split: if_splits)
  then show "grow (ds, n) (ds @ [d], n')"
  proof cases
    case 1
    then show ?thesis using getDefWithID_known grow_known by blast
  next
    case 2
    then have b: "built_from n (d, n')"
      using build_loop_ids [of g pn n] by (auto simp: buildDef_def split: option.splits)
    show ?thesis
    proof (cases d)
      case None
      have "grow (ds, n) (ds, n')" using b by (intro grow_count) (simp add: built_from_def)
      moreover have "grow (ds, n') (ds @ [d], n')" using None by (intro grow_known) simp
      ultimately show ?thesis by (rule grow_trans)
    next
      case (Some e)
      then show ?thesis using b grow_new [of e n n' ds] by (auto simp: built_from_def)
    qed
  qed
  show "d \<noteq> None \<Longrightarrow> \<exists>e. d = Some e" by auto
qed

section \<open>The use under construction\<close>

definition is_use_entity :: "entity \<Rightarrow> bool" where
  "is_use_entity e \<longleftrightarrow> getEntityType e \<in> {TT_suse, TT_luse}"

text \<open>The use stays the same one and gets targets among the definitions known.\<close>

definition targets_known :: "entity option list \<Rightarrow> entity \<Rightarrow> bool" where
  "targets_known ds u \<longleftrightarrow> is_use_entity u \<and> set (targetObjects u) \<subseteq> set ds"

definition evolves :: "building \<Rightarrow> building \<Rightarrow> bool" where
  "evolves x y \<longleftrightarrow> grow (fst x, fst (snd x)) (fst y, fst (snd y)) \<and>
     (\<forall>u. snd (snd x) = Some u \<and> targets_known (fst x) u \<longrightarrow>
       (\<exists>u'. snd (snd y) = Some u' \<and> getId u' = getId u \<and> targets_known (fst y) u'))"

lemma evolves_refl: "evolves x x"
  by (simp add: evolves_def grow_refl)

lemma evolves_trans:
  assumes "evolves x y" and "evolves y z"
  shows "evolves x z"
  unfolding evolves_def
proof (intro conjI allI impI)
  show "grow (fst x, fst (snd x)) (fst z, fst (snd z))"
    using assms grow_trans unfolding evolves_def by blast
  fix u assume u: "snd (snd x) = Some u \<and> targets_known (fst x) u"
  obtain u1 where u1: "snd (snd y) = Some u1 \<and> targets_known (fst y) u1" "getId u1 = getId u"
    using assms(1) u unfolding evolves_def by blast
  obtain u2 where "snd (snd z) = Some u2" "targets_known (fst z) u2" "getId u2 = getId u1"
    using assms(2) u1(1) unfolding evolves_def by blast
  then show "\<exists>u'. snd (snd z) = Some u' \<and> getId u' = getId u \<and> targets_known (fst z) u'" using u1(2) by simp
qed

lemma c_run_rel:
  assumes "c_run f xs s = Inr s'" and "\<And>s. R s s" and "\<And>a b c. R a b \<Longrightarrow> R b c \<Longrightarrow> R a c"
    and "\<And>x s s'. x \<in> set xs \<Longrightarrow> f x s = Inr s' \<Longrightarrow> R s s'"
  shows "R s s'"
  using assms(1,4)
proof (induction xs arbitrary: s)
  case Nil
  then show ?case using assms(2) by simp
next
  case (Cons x xs)
  then obtain s1 where s1: "f x s = Inr s1" "c_run f xs s1 = Inr s'" by (auto simp: cbind_eq_Inr)
  have "R s s1" by (rule Cons.prems(2) [OF _ s1(1)]) simp
  moreover have "R s1 s'" by (rule Cons.IH [OF s1(2) Cons.prems(2)]) simp_all
  ultimately show ?case by (rule assms(3))
qed

lemma c_run_keeps: "c_run f xs s = Inr s' \<Longrightarrow> P s \<Longrightarrow> (\<And>x s s'. f x s = Inr s' \<Longrightarrow> P s \<Longrightarrow> P s') \<Longrightarrow> P s'"
  by (rule c_run_rel [where R = "\<lambda>s s'. P s \<longrightarrow> P s'", rule_format]) auto

lemma add_target_use: "is_use_entity u \<Longrightarrow>
    getId (addTargetObject d u) = getId u \<and> is_use_entity (addTargetObject d u) \<and> targetObjects (addTargetObject d u) = targetObjects u @ [d]"
  by (cases u) (simp_all add: is_use_entity_def)

lemma fold_add_target: "is_use_entity u \<Longrightarrow>
    getId (fold addTargetObject ds u) = getId u \<and> is_use_entity (fold addTargetObject ds u) \<and>
    targetObjects (fold addTargetObject ds u) = targetObjects u @ ds"
  by (induction ds arbitrary: u) (simp_all add: add_target_use)

lemma evolves_add:
  assumes "grow (ds, n) (ds', n')" and "set added \<subseteq> set ds'"
  shows "evolves (ds, n, use) (ds', n', add_targets added use)"
  unfolding evolves_def
proof (intro conjI allI impI)
  show "grow (fst (ds, n, use), fst (snd (ds, n, use))) (fst (ds', n', add_targets added use), fst (snd (ds', n', add_targets added use)))"
    using assms(1) by simp
  fix u assume "snd (snd (ds, n, use)) = Some u \<and> targets_known (fst (ds, n, use)) u"
  then have u: "use = Some u" "is_use_entity u" "set (targetObjects u) \<subseteq> set ds" by (simp_all add: targets_known_def)
  have "set ds \<subseteq> set ds'" using assms(1) by (simp add: grow_def)
  then show "\<exists>u'. snd (snd (ds', n', add_targets added use)) = Some u' \<and> getId u' = getId u \<and> targets_known (fst (ds', n', add_targets added use)) u'"
    using u assms(2) fold_add_target [OF u(2), of added] by (auto simp: add_targets_def targets_known_def)
qed

lemma c_map_Inr: "c_map c_deref ds = Inr es \<Longrightarrow> ds = map Some es"
  by (induction ds arbitrary: es) (auto simp: cbind_eq_Inr c_deref_def split: option.splits)

lemma field_def_evolves:
  assumes "field_def g m p t0 path (js, ds, n, use) = Inr (js', st')"
  shows "evolves (ds, n, use) st'"
proof -
  obtain t fs off es where es: "c_map c_deref ds = Inr es"
    and r: "(let found = filter (same_field p t off) es in
     if found \<noteq> [] then Inr (js @ map getId found, ds, n, add_targets (map Some found) use)
     else cbind (if t = t0 then cbind (c_deref (struct_fields m t)) (\<lambda>es. cbind (c_read es 0) (\<lambda>tp. Inr (tp, fs @ [0])))
              else Inr (t, fs)) (\<lambda>(t', fs').
       cbind (new_SDef g p t' fs' off n) (\<lambda>(d, n').
       cbind (c_deref d) (\<lambda>e. Inr (js @ [getId e], ds @ [d], n', add_targets [d] use))))) = Inr (js', st')"
    using assms by (auto simp: field_def_def cbind_eq_Inr)
  show ?thesis
  proof (cases "filter (same_field p t off) es = []")
    case False
    then have "st' = (ds, n, add_targets (map Some (filter (same_field p t off) es)) use)" using r by (auto simp: Let_def)
    moreover have "set (map Some (filter (same_field p t off) es)) \<subseteq> set ds" using c_map_Inr [OF es] by auto
    ultimately show ?thesis using evolves_add [OF grow_refl] by simp
  next
    case True
    then obtain t' fs' d n' where d: "new_SDef g p t' fs' off n = Inr (d, n')" "st' = (ds @ [d], n', add_targets [d] use)"
      using r by (auto simp: Let_def cbind_eq_Inr)
    obtain e where "d = Some e" "is_def_entity e" "getId e = n" "n' = n + 1" using new_defs(3) [OF d(1)] by blast
    then show ?thesis using d(2) evolves_add [OF grow_new [of e n n' ds], of "[Some e]"] by simp
  qed
qed

lemma analyzeGep_evolves: "analyzeGep g m p pn v st = Inr (js, st') \<Longrightarrow> evolves st st'"
proof -
  assume "analyzeGep g m p pn v st = Inr (js, st')"
  then obtain t0 paths where r: "c_run (field_def g m pn t0) paths ([], st) = Inr (js, st')"
    by (auto simp: analyzeGep_def cbind_eq_Inr)
  have "evolves (snd ([] :: int list, st)) (snd (js, st'))"
    by (rule c_run_rel [OF r, where R = "\<lambda>x y. evolves (snd x) (snd y)"])
       (auto intro: evolves_refl elim: evolves_trans dest!: field_def_evolves)
  then show ?thesis by simp
qed

lemma target_def_evolves:
  assumes "target_def g m p v pn st = Inr st'"
  shows "evolves st st'"
proof -
  obtain ds n use where st: "st = (ds, n, use)" by (cases st)
  consider js where "analyzeGep g m p pn v st = Inr (js, st')"
    | d n' where "getOrBuildDef g ds pn n = Inr (d, n')" "st' = (ds @ [d], n', add_targets [d] use)"
    using assms by (auto simp: target_def_def st cbind_eq_Inr split: if_splits)
  then show ?thesis
  proof cases
    case 1
    then show ?thesis by (rule analyzeGep_evolves)
  next
    case 2
    then show ?thesis unfolding st by (auto intro!: evolves_add getOrBuildDef_grows)
  qed
qed

lemma target_defs_evolve: "c_run (target_def g m p v) defs st = Inr st' \<Longrightarrow> evolves st st'"
  by (erule c_run_rel) (auto intro: evolves_refl elim: evolves_trans target_def_evolves)

section \<open>An input and its entities\<close>

text \<open>The identifiers of an input and of its uses.\<close>

fun own_of :: "entity option \<Rightarrow> int list" where
  "own_of (Some (In i n call subs)) = i # map (getId \<circ> the) (filter (\<lambda>x. x \<noteq> None \<and> is_use_entity (the x)) subs)"
| "own_of _ = []"

definition sub_known :: "entity option list \<Rightarrow> entity option \<Rightarrow> bool" where
  "sub_known ds x \<longleftrightarrow> x = None \<or> x \<in> set ds \<or> (\<exists>u. x = Some u \<and> targets_known ds u)"

definition input_known :: "entity option list \<Rightarrow> entity \<Rightarrow> bool" where
  "input_known ds inp \<longleftrightarrow> (\<exists>i n call subs. inp = In i n call subs \<and> (\<forall>x \<in> set subs. sub_known ds x))"

lemma sub_known_mono: "sub_known ds x \<Longrightarrow> set ds \<subseteq> set ds' \<Longrightarrow> sub_known ds' x"
  unfolding sub_known_def targets_known_def by blast

lemma input_known_mono: "input_known ds inp \<Longrightarrow> set ds \<subseteq> set ds' \<Longrightarrow> input_known ds' inp"
  unfolding input_known_def using sub_known_mono by blast

definition advances :: "input_state \<Rightarrow> input_state \<Rightarrow> bool" where
  "advances x y \<longleftrightarrow> (input_known (fst (snd x)) (fst x) \<longrightarrow>
     input_known (fst (snd y)) (fst y) \<and> set (fst (snd x)) \<subseteq> set (fst (snd y)) \<and>
     (\<forall>rest. ids_ok (fst (snd x)) (snd (snd x)) (own_of (Some (fst x)) @ rest) \<longrightarrow>
       ids_ok (fst (snd y)) (snd (snd y)) (own_of (Some (fst y)) @ rest)))"

lemma advances_refl: "advances x x"
  by (simp add: advances_def)

lemma advances_trans: "advances x y \<Longrightarrow> advances y z \<Longrightarrow> advances x z"
  unfolding advances_def by blast

lemma def_no_use: "is_def_entity e \<Longrightarrow> \<not> is_use_entity e"
  by (cases e) (simp_all add: is_def_entity_def is_use_entity_def)

lemma advances_def_sub:
  assumes "grow (ds, n) (ds', n')" and "d \<in> set ds'"
  shows "advances (inp, ds, n) (entityInsert d inp, ds', n')"
  unfolding advances_def
proof (intro impI conjI allI)
  assume "input_known (fst (snd (inp, ds, n))) (fst (inp, ds, n))"
  then obtain i k c subs where inp: "inp = In i k c subs" "\<forall>x \<in> set subs. sub_known ds x" by (auto simp: input_known_def)
  have sub: "set ds \<subseteq> set ds'" using assms(1) by (simp add: grow_def)
  then show "set (fst (snd (inp, ds, n))) \<subseteq> set (fst (snd (entityInsert d inp, ds', n')))" by simp
  show "input_known (fst (snd (entityInsert d inp, ds', n'))) (fst (entityInsert d inp, ds', n'))"
    using inp assms(2) sub_known_mono [OF _ sub] by (auto simp: input_known_def sub_known_def)
  fix rest assume ok: "ids_ok (fst (snd (inp, ds, n))) (snd (snd (inp, ds, n))) (own_of (Some (fst (inp, ds, n))) @ rest)"
  then have ok': "ids_ok ds' n' (own_of (Some inp) @ rest)" using assms(1) by (simp add: grow_def)
  moreover have "own_of (Some (entityInsert d inp)) = own_of (Some inp)"
    using ok' assms(2) inp(1) def_no_use by (cases d) (auto simp: ids_ok_def)
  ultimately show "ids_ok (fst (snd (entityInsert d inp, ds', n'))) (snd (snd (entityInsert d inp, ds', n')))
      (own_of (Some (fst (entityInsert d inp, ds', n'))) @ rest)" by simp
qed

lemma advances_use_sub:
  assumes "evolves (ds, n + 1, Some u) (ds', n', use)" and "targets_known ds u" and "getId u = n"
  shows "advances (inp, ds, n) (entityInsert use inp, ds', n')"
  unfolding advances_def
proof (intro impI conjI allI)
  assume "input_known (fst (snd (inp, ds, n))) (fst (inp, ds, n))"
  then obtain i k c subs where inp: "inp = In i k c subs" "\<forall>x \<in> set subs. sub_known ds x" by (auto simp: input_known_def)
  obtain u' where u': "use = Some u'" "getId u' = n" "targets_known ds' u'" and g: "grow (ds, n + 1) (ds', n')"
    using assms unfolding evolves_def by auto
  have sub: "set ds \<subseteq> set ds'" using g by (simp add: grow_def)
  then show "set (fst (snd (inp, ds, n))) \<subseteq> set (fst (snd (entityInsert use inp, ds', n')))" by simp
  show "input_known (fst (snd (entityInsert use inp, ds', n'))) (fst (entityInsert use inp, ds', n'))"
    using inp u' sub_known_mono [OF _ sub] by (auto simp: input_known_def sub_known_def)
  fix rest assume "ids_ok (fst (snd (inp, ds, n))) (snd (snd (inp, ds, n))) (own_of (Some (fst (inp, ds, n))) @ rest)"
  then have "ids_ok ds' n' (n # own_of (Some inp) @ rest)"
    using g ids_ok_own [of ds n "own_of (Some inp) @ rest"] by (simp add: grow_def)
  moreover have "mset (own_of (Some (entityInsert use inp)) @ rest) = mset (n # own_of (Some inp) @ rest)"
    using inp u' by (simp add: targets_known_def)
  ultimately show "ids_ok (fst (snd (entityInsert use inp, ds', n'))) (snd (snd (entityInsert use inp, ds', n')))
      (own_of (Some (fst (entityInsert use inp, ds', n'))) @ rest)" using ids_ok_mset by fastforce
qed

lemma new_uses:
  "new_SUse pn v n = Inr (u, n') \<Longrightarrow> u = SUse n pn v None [] \<and> n' = n + 1"
  "new_LUse pn n = Inr (u, n') \<Longrightarrow> u = LUse n pn None [] \<and> n' = n + 1"
  "new_In pn n = Inr (u, n') \<Longrightarrow> u = In n pn None [] \<and> n' = n + 1"
  by (auto simp: new_SUse_def new_LUse_def new_In_def cbind_eq_Inr dest!: new_id_Inr)

lemma store_use_advances:
  assumes "store_use_of g m p gu k st = Inr st'"
  shows "advances st st'"
proof -
  obtain inp ds n where st: "st = (inp, ds, n)" by (cases st)
  obtain v where v: "svfg_value g k = Some v"
    using assms by (auto simp: store_use_of_def st c_deref_def split: option.splits)
  show ?thesis
  proof (cases v)
    case (StoreInst i ptr f)
    then obtain u n1 defs ds' n' use where u: "new_SUse k v n = Inr (u, n1)"
      and r: "c_run (target_def g m p (gu v)) defs (ds, n1, Some (setStoreParamSVFGNode ptr u)) = Inr (ds', n', use)"
      and st': "st' = (entityInsert use inp, ds', n')"
      using assms by (auto simp: store_use_of_def st v cbind_eq_Inr)
    have "evolves (ds, n + 1, Some (SUse n k v (Some ptr) [])) (ds', n', use)"
      using target_defs_evolve [OF r] new_uses(1) [OF u] by simp
    then show ?thesis unfolding st st' by (rule advances_use_sub) (simp_all add: targets_known_def is_use_entity_def)
  qed (use assms in \<open>auto simp: store_use_of_def st v advances_refl\<close>)
qed

lemma stores_reached_advances: "stores_reached g m p gu v st = Inr st' \<Longrightarrow> advances st st'"
  by (auto simp: stores_reached_def cbind_eq_Inr elim!: c_run_rel intro: advances_refl elim: advances_trans store_use_advances)

lemma input_def_advances:
  assumes "input_def g m p pn st = Inr st'"
  shows "advances st st'"
proof -
  obtain inp ds n where st: "st = (inp, ds, n)" by (cases st)
  obtain v d n1 where d: "getOrBuildDef g ds pn n = Inr (d, n1)"
    and r: "stores_reached g m p (\<lambda>s. s) v (entityInsert d inp, ds @ [d], n1) = Inr st'"
    using assms by (auto simp: input_def_def st cbind_eq_Inr)
  have "advances st (entityInsert d inp, ds @ [d], n1)"
    unfolding st by (rule advances_def_sub [OF getOrBuildDef_grows(1) [OF d]]) simp
  then show ?thesis by (rule advances_trans [OF _ stores_reached_advances [OF r]])
qed

section \<open>The driver\<close>

definition own_all :: "entity option list \<Rightarrow> int list" where
  "own_all tes = concat (map own_of tes)"

definition entity_known :: "entity option list \<Rightarrow> entity option \<Rightarrow> bool" where
  "entity_known ds te \<longleftrightarrow> (\<exists>e. te = Some e \<and> (te \<in> set ds \<and> is_def_entity e \<or> input_known ds e))"

definition entities_ok :: "entity option list \<times> entity option list \<times> int \<Rightarrow> bool" where
  "entities_ok x \<longleftrightarrow> (\<forall>te \<in> set (fst x). entity_known (fst (snd x)) te) \<and>
     ids_ok (fst (snd x)) (snd (snd x)) (own_all (fst x))"

abbreviation driver_ok :: "driver \<Rightarrow> bool" where
  "driver_ok s \<equiv> entities_ok (entities s, deflist s, idCount s)"

lemma entity_known_mono: "entity_known ds te \<Longrightarrow> set ds \<subseteq> set ds' \<Longrightarrow> entity_known ds' te"
  unfolding entity_known_def using input_known_mono by blast

lemma own_all_simps [simp]: "own_all [] = []" "own_all (te # tes) = own_of te @ own_all tes"
  "own_all (tes @ tes') = own_all tes @ own_all tes'"
  by (simp_all add: own_all_def)

lemma entities_ok_grow: "entities_ok (tes, ds, n) \<Longrightarrow> grow (ds, n) (ds', n') \<Longrightarrow> entities_ok (tes, ds', n')"
  unfolding entities_ok_def grow_def using entity_known_mono by fastforce

lemma own_of_def: "is_def_entity e \<Longrightarrow> own_of (Some e) = []"
  by (cases e) (simp_all add: is_def_entity_def)

text \<open>An input that has advanced, or that is new, among the other entities.\<close>

lemma entities_ok_advance:
  assumes "entities_ok (tes @ [Some inp] @ tes', ds, n)" and "input_known ds inp"
    and "advances (inp, ds, n) (inp', ds', n')"
  shows "entities_ok (tes @ [Some inp'] @ tes', ds', n')"
proof -
  have own: "mset (own_of (Some x) @ own_all (tes @ tes')) = mset (own_all (tes @ [Some x] @ tes'))" for x by simp
  have "ids_ok ds n (own_of (Some inp) @ own_all (tes @ tes'))"
    using assms(1) ids_ok_mset [OF own] by (simp add: entities_ok_def)
  then have a: "input_known ds' inp'" "set ds \<subseteq> set ds'" "ids_ok ds' n' (own_of (Some inp') @ own_all (tes @ tes'))"
    using assms(2,3) unfolding advances_def by simp_all
  have "\<forall>te \<in> set (tes @ tes'). entity_known ds te" using assms(1) by (simp add: entities_ok_def)
  then have "\<forall>te \<in> set (tes @ tes'). entity_known ds' te" using entity_known_mono [OF _ a(2)] by blast
  moreover have "entity_known ds' (Some inp')" using a(1) by (simp add: entity_known_def)
  moreover have "ids_ok ds' n' (own_all (tes @ [Some inp'] @ tes'))" using a(3) ids_ok_mset [OF own] by simp
  ultimately show ?thesis by (simp add: entities_ok_def ball_Un)
qed

lemma entities_ok_input:
  assumes "entities_ok (tes, ds, n)" and "advances (In n pn call [], ds, n + 1) (inp, ds', n')"
  shows "entities_ok (tes @ [Some inp], ds', n')"
proof -
  have known: "input_known ds (In n pn call [])" by (simp add: input_known_def)
  have "ids_ok ds (n + 1) (n # own_all tes)" using assms(1) ids_ok_own by (simp add: entities_ok_def)
  moreover have "mset (n # own_all tes) = mset (own_all (tes @ [Some (In n pn call [])]))" by simp
  ultimately have "ids_ok ds (n + 1) (own_all (tes @ [Some (In n pn call [])]))" using ids_ok_mset by blast
  then have "entities_ok (tes @ [Some (In n pn call [])] @ [], ds, n + 1)"
    using assms(1) known by (simp add: entities_ok_def entity_known_def)
  from entities_ok_advance [OF this known assms(2)] show ?thesis by simp
qed

lemma input_call_ok:
  assumes "input_call g m p call name s = Inr s'" and "driver_ok s"
  shows "driver_ok s'"
proof -
  obtain pn inp k defs inp' ds' n' where inp: "new_In pn (idCount s) = Inr (inp, k)"
    and r: "c_run (input_def g m p) defs (setBlacklistedCall call inp, deflist s, k) = Inr (inp', ds', n')"
    and s': "s' = s\<lparr>entities := entities s @ [Some inp'], deflist := ds', idCount := n'\<rparr>"
    using assms(1) by (auto simp: input_call_def cbind_eq_Inr)
  have "advances (setBlacklistedCall call inp, deflist s, k) (inp', ds', n')"
    using r by (rule c_run_rel) (auto intro: advances_refl elim: advances_trans input_def_advances)
  then have "advances (In (idCount s) pn (Some call) [], deflist s, idCount s + 1) (inp', ds', n')"
    using new_uses(3) [OF inp] by simp
  from entities_ok_input [OF _ this] assms(2) show ?thesis by (simp add: s')
qed

lemma lib_call_ok:
  assumes "lib_call g m p call name s = Inr s'" and "driver_ok s"
  shows "driver_ok s'"
proof -
  obtain pn inp k1 defs luse k2 v ds' n' use where inp: "new_In pn (idCount s) = Inr (inp, k1)"
    and l: "new_LUse call k1 = Inr (luse, k2)"
    and r: "c_run (target_def g m p (call_site g call)) defs (deflist s, k2, Some (setCallTargetParam v luse)) = Inr (ds', n', use)"
    and s': "s' = s\<lparr>entities := entities s @ [Some (entityInsert use (setBlacklistedCall call inp))], deflist := ds', idCount := n'\<rparr>"
    using assms(1) by (auto simp: lib_call_def cbind_eq_Inr)
  have "evolves (deflist s, (idCount s + 1) + 1, Some (LUse (idCount s + 1) call (Some v) [])) (ds', n', use)"
    using target_defs_evolve [OF r] new_uses(2) [OF l] new_uses(3) [OF inp] by simp
  then have "advances (In (idCount s) pn (Some call) [], deflist s, idCount s + 1)
      (entityInsert use (In (idCount s) pn (Some call) []), ds', n')"
    by (rule advances_use_sub) (simp_all add: targets_known_def is_use_entity_def)
  from entities_ok_input [OF _ this] assms(2) new_uses(3) [OF inp] show ?thesis by (simp add: s')
qed

lemma call_site_ok: "call_site_step g m p call s = Inr s' \<Longrightarrow> driver_ok s \<Longrightarrow> driver_ok s'"
  by (auto simp: call_site_step_def split: llvm_value.splits option.splits if_splits dest: input_call_ok lib_call_ok)

lemma entities_ok_def_top: "entities_ok (tes, ds, n) \<Longrightarrow> Some e \<in> set ds \<Longrightarrow> entities_ok (tes @ [Some e], ds, n)"
  by (auto simp: entities_ok_def entity_known_def ids_ok_def own_of_def)

lemma analyzeGep_grows: "analyzeGep g m p pn v (ds, n, use) = Inr (js, ds', n', use') \<Longrightarrow> grow (ds, n) (ds', n')"
  by (drule analyzeGep_evolves) (simp add: evolves_def)

lemma zref_defs_ok: "zref_defs g m p callee func k v pns s = Inr s' \<Longrightarrow> driver_ok s \<Longrightarrow> driver_ok s'"
proof (induction pns arbitrary: s)
  case Nil
  then show ?case by simp
next
  case (Cons pn pns)
  have gep: "entities_ok (entities s, ds, n)" if "analyzeGep g m p pn v (deflist s, idCount s, None) = Inr (js, ds, n, use)" for js ds n use
    by (rule entities_ok_grow [OF Cons.prems(2) analyzeGep_grows [OF that]])
  have built: "entities_ok (entities s, deflist s @ [d], n)" if "getOrBuildDef g (deflist s) pn (idCount s) = Inr (d, n)" for d n
    by (rule entities_ok_grow [OF Cons.prems(2) getOrBuildDef_grows(1) [OF that]])
  have built_top: "entities_ok (entities s @ [Some e], deflist s @ [Some e], n)"
    if "getOrBuildDef g (deflist s) pn (idCount s) = Inr (Some e, n)" for e n
    by (rule entities_ok_def_top [OF built [OF that]]) simp
  have none: "entities_ok (entities s, deflist s, n)" if "getOrBuildDef g (deflist s) pn (idCount s) = Inr (None, n)" for n
    by (rule entities_ok_grow [OF Cons.prems(2) grow_None [OF getOrBuildDef_grows(1) [OF that]]])
  show ?case
    using Cons.prems gep built_top none Cons.IH
    by (auto simp: cbind_eq_Inr split: if_splits option.splits)
qed

lemma zref_param_ok: "zref_param g m p callee func caller x s = Inr s' \<Longrightarrow> driver_ok s \<Longrightarrow> driver_ok s'"
  by (auto simp: zref_param_def cbind_eq_Inr split: prod.splits if_splits option.splits intro: zref_defs_ok)

lemma zref_call_ok: "zref_call g m p call s = Inr s' \<Longrightarrow> driver_ok s \<Longrightarrow> driver_ok s'"
  by (auto simp: zref_call_def split: llvm_value.splits option.splits if_splits
      elim: c_run_keeps [where P = driver_ok] dest: zref_param_ok)

lemma iptr_entity_ok:
  assumes "iptr_entity g m p iptr block te (front, ds, n) = Inr (front', ds', n')" and "entities_ok (front @ te # tes, ds, n)"
  shows "entities_ok (front' @ tes, ds', n')"
proof -
  obtain i where i: "trace_entity_dynamic_cast TT_in te = Inr i"
    using assms(1) by (auto simp: iptr_entity_def cbind_eq_Inr)
  show ?thesis
  proof (cases "front' = front @ [te] \<and> ds' = ds \<and> n' = n")
    case True
    then show ?thesis using assms(2) by simp
  next
    case False
    then obtain j pn call subs inp where te: "i = Some (In j pn call subs)"
      and r: "stores_reached g m p (\<lambda>_. iptr) iptr (In j pn call subs, ds, n) = Inr (inp, ds', n')" "front' = front @ [Some inp]"
      using assms(1) i by (auto simp: iptr_entity_def cbind_eq_Inr split: option.splits entity.splits if_splits)
    have "te = Some (In j pn call subs)"
      using i te by (auto simp: trace_entity_dynamic_cast_def cbind_eq_Inr c_deref_def split: if_splits option.splits)
    moreover from this have "input_known ds (In j pn call subs)"
      using assms(2) by (auto simp: entities_ok_def entity_known_def is_def_entity_def)
    ultimately show ?thesis
      using entities_ok_advance [OF _ _ stores_reached_advances [OF r(1)], of front tes] assms(2) r(2) by simp
  qed
qed

lemma iptr_entities_ok:
  assumes "c_run (iptr_entity g m p iptr block) tes (front, ds, n) = Inr (tes', ds', n')" and "entities_ok (front @ tes, ds, n)"
  shows "entities_ok (tes', ds', n')"
  using assms
proof (induction tes arbitrary: front ds n)
  case Nil
  then show ?case by simp
next
  case (Cons te tes)
  then obtain d1 ds1 n1 where s1: "iptr_entity g m p iptr block te (front, ds, n) = Inr (d1, ds1, n1)"
    "c_run (iptr_entity g m p iptr block) tes (d1, ds1, n1) = Inr (tes', ds', n')" by (auto simp: cbind_eq_Inr)
  show ?case by (rule Cons.IH [OF s1(2) iptr_entity_ok [OF s1(1) Cons.prems(2)]])
qed

lemma iptr_block_ok: "iptr_block g m p iptr block s = Inr s' \<Longrightarrow> driver_ok s \<Longrightarrow> driver_ok s'"
  by (auto simp: iptr_block_def cbind_eq_Inr dest: iptr_entities_ok [where front = "[]", simplified])

lemma int_to_ptr_ok: "int_to_ptr g m p x s = Inr s' \<Longrightarrow> driver_ok s \<Longrightarrow> driver_ok s'"
  by (auto simp: int_to_ptr_def cbind_eq_Inr split: prod.splits elim: c_run_keeps [where P = driver_ok] dest: iptr_block_ok)

text \<open>Looking for indirect uses changes metadata, and may add definitions of fields.\<close>

lemma ziuse_use_ok:
  assumes "ziuse_use g m p te s = Inr s'" and "driver_ok s"
  shows "driver_ok s'"
proof -
  have gep: "entities_ok (entities s, ds, n)" if "analyzeGep g m p pn v (deflist s, idCount s, None) = Inr (js, ds, n, use)" for pn v js ds n use
    by (rule entities_ok_grow [OF assms(2) analyzeGep_grows [OF that]])
  have "entities s' = entities s \<and> (deflist s' = deflist s \<and> idCount s' = idCount s \<or>
      (\<exists>pn v js use. analyzeGep g m p pn v (deflist s, idCount s, None) = Inr (js, deflist s', idCount s', use)))"
    using assms(1) by (auto simp: ziuse_use_def cbind_eq_Inr split: option.splits if_splits)
  then show ?thesis using gep assms(2) by auto
qed

lemma ziuse_entity_ok:
  assumes "ziuse_entity g m p te s = Inr s'" and "driver_ok s"
  shows "driver_ok s'"
proof -
  obtain i where i: "(case i of
       Some (In j pn call subs) \<Rightarrow> cbind (printEntity i) (\<lambda>_. c_run (ziuse_use g m p) subs s)
     | _ \<Rightarrow> Inr s) = Inr s'"
    using assms(1) by (auto simp: ziuse_entity_def cbind_eq_Inr)
  show ?thesis
  proof (cases "s' = s")
    case False
    then obtain subs where "c_run (ziuse_use g m p) subs s = Inr s'"
      using i by (auto simp: cbind_eq_Inr split: option.splits entity.splits)
    then show ?thesis using assms(2) ziuse_use_ok by (rule c_run_keeps)
  qed (simp add: assms(2))
qed

lemma search_trace_ok:
  assumes "search_trace g m p md = Inr s"
  shows "driver_ok s"
proof -
  obtain s1 s2 s3 where r: "c_run (call_site_step g m p) (call_sites p) (driver_initial md) = Inr s1"
    "c_run (zref_call g m p) (call_sites p) s1 = Inr s2"
    "c_run (int_to_ptr g m p) (int_to_ptrs p) s2 = Inr s3"
    "c_run (ziuse_entity g m p) (entities s3) s3 = Inr s"
    using assms by (auto simp: search_trace_def cbind_eq_Inr)
  have "driver_ok (driver_initial md)" by (simp add: driver_initial_def entities_ok_def ids_ok_def)
  then have "driver_ok s1" by (rule c_run_keeps [OF r(1)]) (rule call_site_ok)
  then have "driver_ok s2" by (rule c_run_keeps [OF r(2)]) (rule zref_call_ok)
  then have "driver_ok s3" by (rule c_run_keeps [OF r(3)]) (rule int_to_ptr_ok)
  then show ?thesis by (rule c_run_keeps [OF r(4)]) (rule ziuse_entity_ok)
qed

section \<open>The entities that are exported\<close>

lemma c_run_each: "c_run f xs s = Inr s' \<Longrightarrow> x \<in> set xs \<Longrightarrow> \<exists>t t'. f x t = Inr t'"
  by (induction xs arbitrary: s) (auto simp: cbind_eq_Inr)

definition no_null :: "entity option list \<Rightarrow> bool" where
  "no_null tes \<longleftrightarrow> (\<forall>te \<in> set tes. te \<noteq> None \<and>
     (\<forall>x \<in> set (sub_objects (the te)). x \<noteq> None \<and> None \<notin> set (targetObjects (the x))))"

lemma export_sub_no_null: "export_sub g m f x st = Inr st' \<Longrightarrow> x \<noteq> None \<and> None \<notin> set (targetObjects (the x))"
proof -
  assume r: "export_sub g m f x st = Inr st'"
  obtain s0 vm0 s1 vm1 where one: "export_one g m f 1 x (s0, vm0) = Inr (s1, vm1)"
    using r by (cases st) (auto simp: export_sub_def cbind_eq_Inr)
  then obtain e where e: "x = Some e" using one_map by blast
  have "None \<notin> set (targetObjects e)"
  proof
    assume n: "None \<in> set (targetObjects e)"
    obtain u st1 where u: "asUse x = Inr u"
      and c: "(case u of None \<Rightarrow> Inr st1 | Some use \<Rightarrow> c_run (export_one g m (getId use) 2) (targetObjects use) st1) = Inr st'"
      using r by (auto simp: export_sub_def cbind_eq_Inr)
    have "u = Some e" using asUse_Inr [OF u] e no_targets n by (auto split: if_splits)
    then have "c_run (export_one g m (getId e) 2) (targetObjects e) st1 = Inr st'" using c by simp
    from c_run_each [OF this n] obtain t t' where "export_one g m (getId e) 2 None t = Inr t'" by blast
    then show False using one_map by (cases t; cases t') blast
  qed
  then show "x \<noteq> None \<and> None \<notin> set (targetObjects (the x))" by (simp add: e)
qed

lemma export_no_null:
  assumes "export_entities g m tes = Inr r"
  shows "no_null tes"
  unfolding no_null_def
proof
  fix te assume "te \<in> set tes"
  then obtain t t' where t: "export_top g m te t = Inr t'"
    using assms c_run_each unfolding export_entities_def by metis
  obtain st1 i where one: "export_one g m (-1) 0 te t = Inr st1" and i: "trace_entity_dynamic_cast TT_in te = Inr i"
    and r: "(case i of Some (In k n call subs) \<Rightarrow> c_run (export_sub g m k) subs st1 | _ \<Rightarrow> Inr st1) = Inr t'"
    using t by (auto simp: export_top_def cbind_eq_Inr)
  obtain e where e: "te = Some e" "i = (if getEntityType e = TT_in then Some e else None)"
    using i by (cases te) (auto simp: trace_entity_dynamic_cast_def)
  have "x \<noteq> None \<and> None \<notin> set (targetObjects (the x))" if x: "x \<in> set (sub_objects e)" for x
  proof -
    obtain k n call subs where en: "e = In k n call subs" "x \<in> set subs" using x by (cases e) simp_all
    then have "c_run (export_sub g m k) subs st1 = Inr t'" using r e by simp
    from c_run_each [OF this en(2)] show ?thesis using export_sub_no_null by blast
  qed
  then show "te \<noteq> None \<and> (\<forall>x \<in> set (sub_objects (the te)). x \<noteq> None \<and> None \<notin> set (targetObjects (the x)))"
    by (simp add: e)
qed

definition own_entities :: "entity option \<Rightarrow> entity list" where
  "own_entities te = (case te of Some (In i n call subs) \<Rightarrow>
     In i n call subs # map the (filter (\<lambda>x. x \<noteq> None \<and> is_use_entity (the x)) subs) | _ \<Rightarrow> [])"

lemma own_of_entities: "own_of te = map getId (own_entities te)"
  by (cases te rule: own_of.cases) (simp_all add: own_entities_def)

lemma own_all_entities: "own_all tes = map getId (concat (map own_entities tes))"
  by (induction tes) (simp_all add: own_of_entities)

lemma entered_known:
  assumes "entities_ok (tes, ds, n)" and "no_null tes" and "e \<in> set (entered tes)"
  shows "e \<in> set (concat (map own_entities tes)) \<or> Some e \<in> set ds"
proof -
  obtain te where te: "te \<in> set tes" "e \<in> set (entered_top te)" using assms(3) by (auto simp: entered_def)
  have "entity_known ds te" using assms(1) te(1) by (simp add: entities_ok_def)
  then consider d where "te = Some d" "te \<in> set ds" "is_def_entity d" 
    | i k call subs where "te = Some (In i k call subs)" "\<forall>x \<in> set subs. sub_known ds x"
    by (auto simp: entity_known_def input_known_def)
  then show ?thesis
  proof cases
    case 1
    then have "sub_objects d = []" by (cases d) (simp_all add: is_def_entity_def)
    then show ?thesis using 1 te(2) by (simp add: entered_top_def)
  next
    case 2
    have null: "\<forall>x \<in> set subs. x \<noteq> None \<and> None \<notin> set (targetObjects (the x))"
      using assms(2) te(1) 2(1) by (auto simp: no_null_def)
    have own: "d \<in> set (concat (map own_entities tes))" if "d \<in> set (own_entities te)" for d
      using te(1) that by auto
    consider "e = In i k call subs" | x where "x \<in> set subs" "e = the x" | x y where "x \<in> set subs" "y \<in> set (targetObjects (the x))" "e = the y"
      using te(2) 2(1) by (auto simp: entered_top_def entered_sub_def)
    then show ?thesis
    proof cases
      case 1
      then have "e \<in> set (own_entities te)" using 2(1) by (simp add: own_entities_def)
      then show ?thesis using own by blast
    next
      case x: (2 x)
      then have "sub_known ds x" "x = Some e" using 2(2) null by auto
      then consider "Some e \<in> set ds" | "is_use_entity e" by (auto simp: sub_known_def targets_known_def)
      then have "Some e \<in> set ds \<or> e \<in> set (own_entities te)"
      proof cases
        case 2
        have "Some e \<in> set (filter (\<lambda>x. x \<noteq> None \<and> is_use_entity (the x)) subs)" using x(1) 2 \<open>x = Some e\<close> by simp
        from imageI [OF this, of the] show ?thesis using \<open>te = _\<close> by (simp add: own_entities_def)
      qed simp
      then show ?thesis using own by blast
    next
      case y: (3 x y)
      have "x \<noteq> None" "None \<notin> set (targetObjects (the x))" using null y(1) by blast+
      then obtain u where u: "x = Some u" "y \<in> set (targetObjects u)" "y = Some e" using y(2,3) by (cases y) auto
      have "sub_known ds (Some u)" using 2(2) y(1) u(1) by blast
      moreover have "Some u \<notin> set ds"
      proof
        assume "Some u \<in> set ds"
        then have "is_def_entity u" using assms(1) by (simp add: entities_ok_def ids_ok_def)
        then show False using u(2) by (cases u) (simp_all add: is_def_entity_def)
      qed
      ultimately show ?thesis using u(2,3) by (auto simp: sub_known_def targets_known_def)
    qed
  qed
qed

lemma entered_ids:
  assumes "entities_ok (tes, ds, n)" and "no_null tes"
  shows "inj_on getId (set (entered tes))"
proof -
  let ?own = "concat (map own_entities tes)"
  have ok: "ids_ok ds n (map getId ?own)" using assms(1) by (simp add: entities_ok_def own_all_entities)
  then have "inj_on getId (set ?own)" "inj_on getId {d. Some d \<in> set ds}" by (simp_all add: ids_ok_def distinct_map)
  moreover have "getId ` set ?own \<inter> getId ` {d. Some d \<in> set ds} = {}"
  proof (rule equals0I)
    fix i assume "i \<in> getId ` set ?own \<inter> getId ` {d. Some d \<in> set ds}"
    then obtain d where "i = getId d" "Some d \<in> set ds" "i \<in> set (map getId ?own)" unfolding set_map by blast
    then show False using ok unfolding ids_ok_def by blast
  qed
  ultimately have "inj_on getId (set ?own \<union> {d. Some d \<in> set ds})"
    unfolding inj_on_Un by blast
  then show ?thesis by (rule inj_on_subset) (use entered_known [OF assms] in blast)
qed

end
