(* ===== verification/Static_Driver_Props.thy ===== *)
theory Static_Driver_Props
  imports Static_Driver_Laws Static_Props
begin

text \<open>
  The properties of the search for the static trace: the identifiers it hands out, the
  uses and the paths it finds in the value-flow graph, and the inputs it cannot handle.
\<close>

section \<open>The value-flow graph\<close>

definition flows :: "graphs \<Rightarrow> (nat \<times> nat) set" where
  "flows g = {(a, b). b \<in> set (svfg_out g a)}"

definition traversing :: "graphs \<Rightarrow> nat \<Rightarrow> nat list \<Rightarrow> nat list \<Rightarrow> bool" where
  "traversing g v work seen \<longleftrightarrow> set seen \<subseteq> (flows g)\<^sup>+ `` {v} \<and> set work \<subseteq> insert v (set seen) \<and>
     (\<forall>n \<in> insert v (set seen) - set work. set (svfg_out g n) \<subseteq> set seen)"

lemma traverse_ends:
  assumes "finite ((flows g)\<^sup>+ `` {v})" and "traversing g v work seen"
  shows "\<exists>seen'. traverse_loop g (work, seen) = Some seen' \<and> set seen' = (flows g)\<^sup>+ `` {v}"
  using assms(2)
proof (induction "length work + card ((flows g)\<^sup>+ `` {v} - set seen)" arbitrary: work seen rule: less_induct)
  case less
  show ?case
  proof (cases work)
    case Nil
    have "n \<in> set seen" if "(v, n) \<in> (flows g)\<^sup>+" for n
      using that by (induction rule: trancl_induct) (use less.prems Nil in \<open>auto simp: traversing_def flows_def\<close>)
    then have "set seen = (flows g)\<^sup>+ `` {v}" using less.prems by (auto simp: traversing_def)
    then show ?thesis using Nil by (simp add: traverse_loop.simps)
  next
    case (Cons n rest)
    obtain new where new: "visit_succs (svfg_out g n) (rest, seen) = (rest @ new, seen @ new)"
      "distinct new" "set new = set (svfg_out g n) - set seen" using visit_succs_new by blast
    have reach: "set (svfg_out g n) \<subseteq> (flows g)\<^sup>+ `` {v}"
    proof
      fix s assume "s \<in> set (svfg_out g n)"
      then have "(n, s) \<in> flows g" by (simp add: flows_def)
      moreover have "n = v \<or> (v, n) \<in> (flows g)\<^sup>+" using less.prems Cons by (auto simp: traversing_def)
      ultimately show "s \<in> (flows g)\<^sup>+ `` {v}" by (auto intro: trancl_into_trancl)
    qed
    have inv: "traversing g v (rest @ new) (seen @ new)"
      using less.prems Cons new(3) reach unfolding traversing_def by auto
    have "card (set new) \<le> card ((flows g)\<^sup>+ `` {v} - set seen)"
      using new(3) reach assms(1) by (intro card_mono) auto
    moreover have "(flows g)\<^sup>+ `` {v} - set (seen @ new) = ((flows g)\<^sup>+ `` {v} - set seen) - set new" by auto
    moreover have "card (((flows g)\<^sup>+ `` {v} - set seen) - set new) = card ((flows g)\<^sup>+ `` {v} - set seen) - card (set new)"
      using new(3) reach by (intro card_Diff_subset) auto
    ultimately have "length (rest @ new) + card ((flows g)\<^sup>+ `` {v} - set (seen @ new)) < length work + card ((flows g)\<^sup>+ `` {v} - set seen)"
      using Cons distinct_card [OF new(2)] by simp
    from less.hyps [OF this inv] show ?thesis using Cons new(1) by (simp add: traverse_loop.simps)
  qed
qed

text \<open>
  C13. The search for the uses of a value ends on every graph, cyclic or not, in which
  finitely many nodes can be reached from the value, and finds exactly the nodes the value
  flows to in one step or more; the node of the value itself only if it is on a cycle.
\<close>

theorem uses_followed:
  assumes "def_node p (value_node g v) = Some n" and "finite ((flows g)\<^sup>+ `` {n})"
  shows "traverseOnVFG g p v = Inr (hash_order p ((flows g)\<^sup>+ `` {n}))"
proof -
  have "traversing g n [n] []" by (simp add: traversing_def)
  then show ?thesis using traverse_ends [OF assms(2)] assms(1) by (force simp: traverseOnVFG_def)
qed

section \<open>Paths\<close>

text \<open>Each node of a path flows to the next.\<close>

fun flow_path :: "graphs \<Rightarrow> nat \<Rightarrow> nat list \<Rightarrow> bool" where
  "flow_path g a [] = True"
| "flow_path g a (b # bs) = ((a, b) \<in> flows g \<and> flow_path g b bs)"

lemma flow_path_snoc: "flow_path g a bs \<Longrightarrow> (last (a # bs), b) \<in> flows g \<Longrightarrow> flow_path g a (bs @ [b])"
  by (induction bs arbitrary: a) (auto split: if_splits)

definition leads_to :: "graphs \<Rightarrow> nat \<Rightarrow> llvm_value \<Rightarrow> nat list \<Rightarrow> bool" where
  "leads_to g a t q \<longleftrightarrow> q \<noteq> [] \<and> flow_path g a q \<and> svfg_value g (last q) = Some t"

text \<open>What one call of the search adds: nodes whose successors are visited and, where they have the value, found.\<close>

definition explored :: "graphs \<Rightarrow> nat \<Rightarrow> llvm_value \<Rightarrow> paths \<Rightarrow> paths \<Rightarrow> bool" where
  "explored g a t x y \<longleftrightarrow> set (fst x) \<subseteq> set (fst y) \<and> set (snd x) \<subseteq> set (snd y) \<and>
     (\<forall>q \<in> set (snd y) - set (snd x). leads_to g a t q) \<and>
     (\<forall>n \<in> set (fst y) - set (fst x). \<forall>d \<in> set (svfg_out g n).
        d \<in> set (fst y) \<and> (svfg_value g d = Some t \<longrightarrow> (\<exists>q \<in> set (snd y). last q = d)))"

lemma explored_refl: "explored g a t x x"
  by (simp add: explored_def)

lemma explored_trans: "explored g a t x y \<Longrightarrow> explored g a t y z \<Longrightarrow> explored g a t x z"
  unfolding explored_def by (intro conjI) (blast+)

definition found_of :: "graphs \<Rightarrow> llvm_value \<Rightarrow> nat list \<Rightarrow> paths \<Rightarrow> bool" where
  "found_of g t ds x \<longleftrightarrow> (\<forall>d \<in> set ds. d \<in> set (fst x) \<and> (svfg_value g d = Some t \<longrightarrow> (\<exists>q \<in> set (snd x). last q = d)))"

lemma found_of_explored: "found_of g t ds x \<Longrightarrow> explored g a t x y \<Longrightarrow> found_of g t ds y"
  unfolding found_of_def explored_def by blast

abbreviation path_step :: "nat \<Rightarrow> graphs \<Rightarrow> llvm_value \<Rightarrow> nat list \<Rightarrow> nat \<Rightarrow> paths \<Rightarrow> paths c" where
  "path_step fuel g t path d x \<equiv> (case x of (vis, ps) \<Rightarrow>
     concreteGetPathFromTo fuel g d t (path @ [d]) (vis, if svfg_value g d = Some t then ps @ [path @ [d]] else ps))"

lemma path_steps:
  assumes sub: "\<And>d vis ps. d \<in> set ds \<Longrightarrow> set seen \<subseteq> set vis \<Longrightarrow> \<exists>y. concreteGetPathFromTo fuel g d t (path @ [d]) (vis, ps) = Inr y \<and>
      explored g a t (vis, ps) y \<and> d \<in> set (fst y)"
    and path: "\<And>d. d \<in> set ds \<Longrightarrow> flow_path g a (path @ [d])"
    and "set seen \<subseteq> set (fst x)"
  shows "\<exists>y. c_run (path_step fuel g t path) ds x = Inr y \<and> explored g a t x y \<and> found_of g t ds y"
  using assms
proof (induction ds arbitrary: x)
  case Nil
  then show ?case by (simp add: explored_refl found_of_def)
next
  case (Cons d ds)
  obtain vis ps where x: "x = (vis, ps)" by (cases x)
  define ps1 where "ps1 = (if svfg_value g d = Some t then ps @ [path @ [d]] else ps)"
  have e1: "explored g a t x (vis, ps1)"
    using Cons.prems(2) [of d] by (auto simp: x ps1_def explored_def leads_to_def)
  obtain y where y: "concreteGetPathFromTo fuel g d t (path @ [d]) (vis, ps1) = Inr y" "explored g a t (vis, ps1) y" "d \<in> set (fst y)"
    using Cons.prems(1) [of d vis ps1] Cons.prems(3) by (auto simp: x)
  have "set seen \<subseteq> set (fst y)" using y(2) Cons.prems(3) by (auto simp: explored_def x)
  then obtain z where z: "c_run (path_step fuel g t path) ds y = Inr z" "explored g a t y z" "found_of g t ds z"
    using Cons.IH [of y] Cons.prems(1,2) by auto
  have "last (path @ [d]) = d" "set ps1 \<subseteq> set (snd y)" using y(2) by (simp_all add: explored_def)
  then have "found_of g t [d] y" using y(3) unfolding found_of_def ps1_def by force
  then have "found_of g t [d] z" using z(2) by (rule found_of_explored)
  moreover have "explored g a t x z" using e1 y(2) z(2) by (blast intro: explored_trans)
  moreover have "c_run (path_step fuel g t path) (d # ds) x = Inr z" using y(1) z(1) by (simp add: x ps1_def)
  ultimately show ?case using z(3) by (auto simp: found_of_def)
qed

lemma path_search:
  assumes "finite r" and "\<And>n d. n \<in> r \<Longrightarrow> d \<in> set (svfg_out g n) \<Longrightarrow> d \<in> r"
    and "n \<in> r" and "card (r - set vis) < fuel" and "flow_path g a path" and "last (a # path) = n"
  shows "\<exists>y. concreteGetPathFromTo fuel g n t path (vis, ps) = Inr y \<and> explored g a t (vis, ps) y \<and> n \<in> set (fst y)"
  using assms(3-6)
proof (induction fuel arbitrary: n vis ps path)
  case 0
  then show ?case by simp
next
  case (Suc fuel)
  show ?case
  proof (cases "n \<in> set vis")
    case True
    then show ?thesis by (simp add: explored_refl)
  next
    case False
    have less: "card (r - set v) < fuel" if "set (vis @ [n]) \<subseteq> set v" for v
    proof -
      have "r - set v \<subset> r - set vis" using that Suc.prems(1) False by auto
      then have "card (r - set v) < card (r - set vis)" using assms(1) by (intro psubset_card_mono) auto
      then show ?thesis using Suc.prems(2) by simp
    qed
    have flow: "flow_path g a (path @ [d])" if "d \<in> set (svfg_out g n)" for d
      using Suc.prems(3,4) that by (intro flow_path_snoc) (auto simp: flows_def)
    have "\<exists>y. c_run (path_step fuel g t path) (svfg_out g n) (vis @ [n], ps) = Inr y \<and>
        explored g a t (vis @ [n], ps) y \<and> found_of g t (svfg_out g n) y"
    proof (rule path_steps [where seen = "vis @ [n]"])
      fix d v qs assume d: "d \<in> set (svfg_out g n)" and v: "set (vis @ [n]) \<subseteq> set v"
      show "\<exists>y. concreteGetPathFromTo fuel g d t (path @ [d]) (v, qs) = Inr y \<and> explored g a t (v, qs) y \<and> d \<in> set (fst y)"
        by (rule Suc.IH [OF assms(2) [OF Suc.prems(1) d] less [OF v] flow [OF d]]) simp
    qed (simp_all add: flow)
    then obtain y where y: "c_run (path_step fuel g t path) (svfg_out g n) (vis @ [n], ps) = Inr y"
      "explored g a t (vis @ [n], ps) y" "found_of g t (svfg_out g n) y" by blast
    have "explored g a t (vis, ps) y"
      unfolding explored_def
    proof (intro conjI ballI)
      fix m d assume "m \<in> set (fst y) - set (fst (vis, ps))" and d: "d \<in> set (svfg_out g m)"
      then consider "m = n" | "m \<in> set (fst y) - set (fst (vis @ [n], ps))" by auto
      then have h: "d \<in> set (fst y) \<and> (svfg_value g d = Some t \<longrightarrow> (\<exists>q\<in>set (snd y). last q = d))"
        using y(2,3) d unfolding explored_def found_of_def by cases blast+
      show "d \<in> set (fst y)" by (rule conjunct1 [OF h])
      show "svfg_value g d = Some t \<longrightarrow> (\<exists>q\<in>set (snd y). last q = d)" by (rule conjunct2 [OF h])
    next
      show "set (fst (vis, ps)) \<subseteq> set (fst y)" "set (snd (vis, ps)) \<subseteq> set (snd y)"
        using y(2) by (simp_all add: explored_def)
      fix q assume "q \<in> set (snd y) - set (snd (vis, ps))"
      then show "leads_to g a t q" using y(2) unfolding explored_def by simp
    qed
    moreover have "n \<in> set (fst y)" using y(2) by (simp add: explored_def)
    moreover have "concreteGetPathFromTo (Suc fuel) g n t path (vis, ps) = Inr y" using y(1) False by simp
    ultimately show ?thesis by blast
  qed
qed

text \<open>
  C12. The search for paths ends on every graph in which finitely many nodes can be reached,
  whatever the cycles, with a depth above their number; each path it returns leads along
  edges to a node of the value, and every node of the value that can be reached is the end
  of a path.
\<close>

theorem paths_found:
  assumes "finite ((flows g)\<^sup>* `` {n})" and "card ((flows g)\<^sup>* `` {n}) < fuel"
  shows "\<exists>ps. getPathFromTo fuel g n t = Inr ps \<and> (\<forall>q \<in> set ps. leads_to g n t q) \<and>
    (\<forall>d. (n, d) \<in> (flows g)\<^sup>+ \<longrightarrow> svfg_value g d = Some t \<longrightarrow> (\<exists>q \<in> set ps. last q = d))"
proof -
  obtain y where y: "concreteGetPathFromTo fuel g n t [] ([], []) = Inr y" "explored g n t ([], []) y" "n \<in> set (fst y)"
    using path_search [OF assms(1), of g n "[]" fuel n "[]" t "[]"] assms(2)
    by (fastforce simp: flows_def intro: rtrancl_into_rtrancl)
  have visited: "d \<in> set (fst y)" if "(n, d) \<in> (flows g)\<^sup>*" for d
    using that by (induction rule: rtrancl_induct) (use y(2,3) in \<open>auto simp: explored_def flows_def\<close>)
  have "\<exists>q \<in> set (snd y). last q = d" if d: "(n, d) \<in> (flows g)\<^sup>+" "svfg_value g d = Some t" for d
  proof -
    obtain b where "(n, b) \<in> (flows g)\<^sup>*" "(b, d) \<in> flows g" by (metis d(1) tranclD2)
    then show ?thesis using visited y(2) d(2) unfolding explored_def flows_def by auto
  qed
  then show ?thesis using y by (cases y) (auto simp: getPathFromTo_def explored_def)
qed

section \<open>Two calls of memcpy into a buffer\<close>

definition copy_graphs :: graphs where
  "copy_graphs = no_graphs
     \<lparr>in_edges := (\<lambda>n. if n = 5 then [edge Addr_Edge 4 5] else []),
      out_edges := (\<lambda>n. if n = 4 then [edge Addr_Edge 4 5] else []),
      node_value := (\<lambda>_. Some (AllocaInst 7 (IntegerTy 32))), value_node := (\<lambda>_. 5),
      call_site := (\<lambda>c. CallInst c (Some ''memcpy'') ''main'')\<rparr>"

definition copy_svf :: svf where
  "copy_svf = \<lparr>call_sites = [0, 1], actual_params = \<lambda>_. [5], actual_ret = \<lambda>_. None, is_pointer = \<lambda>_. True,
     stmt_nodes = \<lambda>_. [], def_node = \<lambda>_. None, hash_order = sorted_list_of_set, formals_of = \<lambda>_. [],
     may_alias = \<lambda>_ _ _. False, function_of = \<lambda>_. ''main'', module_stores = [], int_to_ptrs = [], path_depth = 10\<rparr>"

definition copy_buffer :: entity where
  "copy_buffer = ADef 2 4 (AllocaInst 7 (IntegerTy 32)) False"

definition copy_trace_entities :: "entity option list" where
  "copy_trace_entities =
     [Some (In 0 5 (Some 0) [Some (LUse 1 0 (Some (AllocaInst 7 (IntegerTy 32))) [Some copy_buffer])]),
      Some (In 3 5 (Some 1) [Some (LUse 4 1 (Some (AllocaInst 7 (IntegerTy 32))) [Some copy_buffer])])]"

lemma copy_lookups:
  "getDefNodes copy_graphs 5 = Inr [4]" "isDominatorNode copy_graphs 4 = Inr False"
  "findFirstDominator copy_graphs 5 = Inr (Some 4)" "findFirstDominator copy_graphs 4 = Inr None"
  by (simp_all add: getDefNodes_def visitAndSelectPagNodes_def visit_loop.simps visit_from_def never_stuck_def selectDefs_def selectDefs_edge_def
    copy_graphs_def no_graphs_def edge_def pop_def push_def Let_def isDominatorNode_def edges_of_def
    findFirstDominator_def selectFirstDominator_def first_result_def)

lemma copy_fields:
  "in_edges copy_graphs n = (if n = 5 then [edge Addr_Edge 4 5] else [])"
  "out_edges copy_graphs n = (if n = 4 then [edge Addr_Edge 4 5] else [])"
  "node_value copy_graphs n = Some (AllocaInst 7 (IntegerTy 32))" "value_node copy_graphs v = 5"
  "call_site copy_graphs c = CallInst c (Some ''memcpy'') ''main''"
  "call_sites copy_svf = [0, 1]" "actual_params copy_svf c = [5]" "module_stores copy_svf = []" "int_to_ptrs copy_svf = []"
  "type_of_value sample_module v = VoidTy"
  by (simp_all add: copy_graphs_def copy_svf_def sample_module_def)

lemma copy_target:
  "target_def copy_graphs sample_module copy_svf v 4 ([], 2, use) = Inr ([Some copy_buffer], 3, add_targets [Some copy_buffer] use)"
  "target_def copy_graphs sample_module copy_svf v 4 ([Some copy_buffer], 5, use) =
     Inr ([Some copy_buffer, Some copy_buffer], 5, add_targets [Some copy_buffer] use)"
  by (simp_all add: target_def_def copy_fields getOrBuildDef_def buildDef_def build_loop.simps new_ADef_def new_id_def
    c_incr_def INT_MAX_def copy_lookups copy_buffer_def defNodeCompare_def)

lemma copy_search_calls:
  "c_run (call_site_step copy_graphs sample_module copy_svf) (call_sites copy_svf) (driver_initial md) =
     Inr \<lparr>entities = copy_trace_entities, deflist = [Some copy_buffer, Some copy_buffer], idCount = 5, call_md = md\<rparr>"
  by (simp add: copy_fields call_site_step_def inputFunctions_def libFunctions_def lib_call_def lib_param_def new_In_def new_LUse_def
    new_id_def c_incr_def INT_MAX_def driver_initial_def copy_lookups copy_target copy_trace_entities_def add_targets_def)

lemma copy_search: "search_trace copy_graphs sample_module copy_svf md =
     Inr \<lparr>entities = copy_trace_entities, deflist = [Some copy_buffer, Some copy_buffer], idCount = 5, call_md = md\<rparr>"
    (is "_ = Inr ?s")
proof -
  have z: "zref_call copy_graphs sample_module copy_svf c s = Inr s" for c s
    by (simp add: zref_call_def copy_fields name_ends_with_def)
  have u: "ziuse_use copy_graphs sample_module copy_svf (Some (LUse i c (Some v) [Some copy_buffer]))
      \<lparr>entities = tes, deflist = [Some copy_buffer, Some copy_buffer], idCount = 5, call_md = md\<rparr> =
      Inr \<lparr>entities = tes, deflist = [Some copy_buffer, Some copy_buffer], idCount = 5, call_md = md\<rparr>" for i c v tes
    by (simp add: copy_fields trace_entity_dynamic_cast_def printEntity_def getUseInstruction_def
      ziuse_use_def asUse_def isUse_def use_start_def edge_def copy_lookups defNodeCompare_def ziuse_def_def copy_buffer_def edges_of_def)
  have "printable (Some copy_buffer)" by (simp add: copy_buffer_def)
  then have "c_run (ziuse_entity copy_graphs sample_module copy_svf) copy_trace_entities ?s = Inr ?s"
    by (simp add: copy_trace_entities_def u ziuse_entity_def copy_fields trace_entity_dynamic_cast_def printEntity_def)
  then show ?thesis
    unfolding search_trace_def copy_search_calls by (simp add: copy_fields z)
qed

section \<open>The trace\<close>

text \<open>What may stand where: definitions under uses, definitions and uses under inputs.\<close>

definition typed_target :: "entity option \<Rightarrow> bool" where
  "typed_target d = (case d of None \<Rightarrow> True | Some e \<Rightarrow> is_def_entity e)"

definition typed_sub :: "entity option \<Rightarrow> bool" where
  "typed_sub x = (case x of None \<Rightarrow> True
     | Some e \<Rightarrow> is_def_entity e \<or> is_use_entity e \<and> list_all typed_target (targetObjects e))"

fun typed_top :: "entity option \<Rightarrow> bool" where
  "typed_top (Some (In i n call subs)) = list_all typed_sub subs"
| "typed_top (Some e) = is_def_entity e"
| "typed_top None = False"

text \<open>
  C27. The trace the search builds is well typed: each of its entities is a definition or an
  input, never null; under an input are definitions and uses, and the targets of a use are
  definitions (or null, where the result of a call that is no allocation is stored to).
\<close>

theorem trace_well_typed:
  assumes "search_trace g m p md = Inr s"
  shows "list_all typed_top (entities s) \<and> list_all typed_target (deflist s)"
proof -
  have ok: "driver_ok s" by (rule search_trace_ok [OF assms])
  have defs: "typed_target d" if "d = None \<or> d \<in> set (deflist s)" for d
    using ok that by (cases d) (auto simp: typed_target_def entities_ok_def ids_ok_def)
  have sub: "typed_sub x" if x: "sub_known (deflist s) x" for x
  proof (cases x)
    case None
    then show ?thesis by (simp add: typed_sub_def)
  next
    case (Some e)
    consider "x \<in> set (deflist s)" | "targets_known (deflist s) e" using x Some by (auto simp: sub_known_def)
    then show ?thesis
    proof cases
      case 1
      then have "typed_target (Some e)" using defs [of x] Some by simp
      then show ?thesis using Some by (simp add: typed_sub_def typed_target_def)
    next
      case 2
      then have "is_use_entity e" "\<forall>d \<in> set (targetObjects e). typed_target d"
        using defs unfolding targets_known_def by blast+
      then show ?thesis using Some by (simp add: typed_sub_def list_all_iff)
    qed
  qed
  have "typed_top te" if te: "te \<in> set (entities s)" for te
  proof -
    have "entity_known (deflist s) te" using ok te by (simp add: entities_ok_def)
    then show ?thesis using sub by (cases te rule: typed_top.cases) (auto simp: entity_known_def input_known_def is_def_entity_def list_all_iff)
  qed
  then show ?thesis using defs by (simp add: list_all_iff)
qed

theorem trace_well_typed_witness:
  "\<exists>s. search_trace copy_graphs sample_module copy_svf (\<lambda>_ _. None) = Inr s \<and> length (entities s) = 2 \<and>
     list_all typed_top (entities s)"
  using trace_well_typed [OF copy_search, of "\<lambda>_ _. None"] copy_search by (simp add: copy_trace_entities_def Let_def)

lemma exported_ids:
  assumes "search_trace g m p md = Inr s" and "main_analysis g m p order md = Inr (s', md')"
  shows "inj_on getId (set (entered (entities s)))"
proof -
  obtain r where "export_entities g m (entities s) = Inr r"
    using assms by (auto simp: main_analysis_def exportTrace_def cbind_eq_Inr)
  then show ?thesis using entered_ids [OF search_trace_ok [OF assms(1)] export_no_null] by blast
qed

lemma copy_exported: "\<exists>s' md'. main_analysis copy_graphs sample_module copy_svf (\<lambda>x. x) (\<lambda>_ _. None) = Inr (s', md')"
  by (simp add: main_analysis_def copy_search copy_trace_entities_def copy_buffer_def Let_def exportTrace_def export_entities_def export_top_def export_one_def exportEntity_def
    getBytes_defs traceLine_defs evaluateSizeDL_def updateValueMap_def trace_entity_dynamic_cast_def export_sub_def
    asUse_def isUse_def update_tags_def put_tag_def tag_entity_def no_tags_def copy_fields getUseInstruction_def)



section \<open>Witnesses of the searches\<close>

text \<open>A value-flow graph with a cycle that the first node is not on.\<close>

definition flow_graphs :: graphs where
  "flow_graphs = no_graphs
     \<lparr>svfg_out := (\<lambda>n. if n = 1 then [2] else if n = 2 then [3] else if n = 3 then [2] else []),
      svfg_value := (\<lambda>n. if n = 3 then Some (OtherValue 9) else None)\<rparr>"

lemma flow_edges: "(a, b) \<in> flows flow_graphs \<longleftrightarrow> (a, b) \<in> {(1, 2), (2, 3), (3, 2)}"
  by (auto simp: flows_def flow_graphs_def split: if_splits)

lemma flow_reach: "(flows flow_graphs)\<^sup>+ `` {1} = {2, 3}"
proof -
  have "n = 2 \<or> n = 3" if "(1, n) \<in> (flows flow_graphs)\<^sup>+" for n
    using that by (induction rule: trancl_induct) (auto simp: flow_edges)
  moreover have two: "(1, 2) \<in> (flows flow_graphs)\<^sup>+" by (rule r_into_trancl) (simp add: flow_edges)
  moreover have "(1, 3) \<in> (flows flow_graphs)\<^sup>+" by (rule trancl_into_trancl [OF two]) (simp add: flow_edges)
  ultimately show ?thesis by auto
qed

theorem uses_followed_witness:
  "traverseOnVFG flow_graphs (copy_svf\<lparr>def_node := (\<lambda>_. Some 1)\<rparr>) (OtherValue 0) = Inr [2, 3]"
proof -
  have "traverseOnVFG flow_graphs (copy_svf\<lparr>def_node := (\<lambda>_. Some 1)\<rparr>) (OtherValue 0) =
      Inr (hash_order (copy_svf\<lparr>def_node := (\<lambda>_. Some 1)\<rparr>) ((flows flow_graphs)\<^sup>+ `` {1}))"
    by (rule uses_followed, simp, unfold flow_reach, simp)
  then show ?thesis unfolding flow_reach by (simp add: copy_svf_def)
qed

theorem paths_found_witness:
  "\<exists>ps. getPathFromTo 4 flow_graphs 1 (OtherValue 9) = Inr ps \<and> (\<exists>q \<in> set ps. last q = 3) \<and>
     (\<forall>q \<in> set ps. leads_to flow_graphs 1 (OtherValue 9) q)"
proof -
  have r: "(flows flow_graphs)\<^sup>* `` {1} = {1, 2, 3}"
  proof -
    have "(flows flow_graphs)\<^sup>* `` {1} = insert 1 ((flows flow_graphs)\<^sup>+ `` {1})" by (auto simp: rtrancl_eq_or_trancl)
    then show ?thesis unfolding flow_reach .
  qed
  have "(1, 3) \<in> (flows flow_graphs)\<^sup>+" using flow_reach by blast
  moreover have "svfg_value flow_graphs 3 = Some (OtherValue 9)" by (simp add: flow_graphs_def)
  moreover have "\<exists>ps. getPathFromTo 4 flow_graphs 1 (OtherValue 9) = Inr ps \<and>
     (\<forall>q \<in> set ps. leads_to flow_graphs 1 (OtherValue 9) q) \<and>
     (\<forall>d. (1, d) \<in> (flows flow_graphs)\<^sup>+ \<longrightarrow> svfg_value flow_graphs d = Some (OtherValue 9) \<longrightarrow> (\<exists>q \<in> set ps. last q = d))"
    by (rule paths_found; unfold r; simp)
  ultimately show ?thesis by blast
qed

section \<open>Inputs without a parameter\<close>

text \<open>
  C28. Six functions are listed as inputs, but the parameter the input is written to is set
  for two of them only: a program that calls \<open>wrapper_gets\<close>, \<open>wrapper_getc\<close>, \<open>wrapper_fgets\<close>
  or \<open>wrapper_fread\<close> anywhere makes the analysis read an uninitialised pointer, and no trace
  is defined for it, whatever else it does.
\<close>

theorem unset_input_stops_analysis:
  assumes "call \<in> set (call_sites p)" and "call_site g call = CallInst i (Some name) f"
    and "name \<in> {''wrapper_gets'', ''wrapper_getc'', ''wrapper_fgets'', ''wrapper_fread''}"
  shows "\<exists>e. main_analysis g m p order md = Inl e"
proof (rule ccontr)
  assume "\<not> ?thesis"
  then obtain r where "main_analysis g m p order md = Inr r" by (meson sumE)
  then obtain s1 where "c_run (call_site_step g m p) (call_sites p) (driver_initial md) = Inr s1"
    by (auto simp: main_analysis_def search_trace_def cbind_eq_Inr)
  from c_run_each [OF this assms(1)] obtain s s' where "call_site_step g m p call s = Inr s'" by blast
  then show False
    using assms(2,3) by (auto simp: call_site_step_def inputFunctions_def input_call_def input_param_def)
qed

theorem unset_input_stops_analysis_witness:
  "\<exists>e. main_analysis (copy_graphs\<lparr>call_site := (\<lambda>c. CallInst c (Some ''wrapper_gets'') ''main'')\<rparr>) sample_module
     copy_svf (\<lambda>x. x) (\<lambda>_ _. None) = Inl e"
  by (rule unset_input_stops_analysis [where call = 0 and i = 0 and name = "''wrapper_gets''" and f = "''main''"])
    (simp_all add: copy_svf_def)

end
