(* ===== verification/Instrument.thy ===== *)
theory Instrument
  imports Text_Format "HOL-Library.State_Monad"
begin

text \<open>
  The instrumentation pass zbouncer/Zbouncer.cpp: guided by the metadata the static analysis
  left on the instructions, it injects the calls of the host library. The LLVM module is
  data: functions with the blocks of instructions the pass looks at, the loops that LLVM
  finds, and the global variables. Injected code is a list of instructions over temporaries
  of its own. Log output, names and types of values, and the code between
  \<open>ZBOUNCER_OLD\<close> are left out.
\<close>

section \<open>Modules\<close>

text \<open>
  An operand is a constant, a value of the program (the result of an instruction or a
  global variable), an argument of the function by its name, the address of a function of
  the module, or an injected temporary.
\<close>

datatype operand = Imm u32 | Val nat | Arg string | Fun string | Tmp nat

text \<open>
  An instruction of the program: the number of its result, what it is, and its metadata. A
  store has the operand stored, the pointer and the size its data layout gives.
\<close>

datatype opcode =
    Op_Alloca
  | Op_Call "string option" "operand list"
  | Op_Store operand operand u32
  | Op_Ret
  | Op_Other

record instr =
  result :: nat
  opcode :: opcode
  attached :: "string \<rightharpoonup> string"

datatype arith = Shl_Op | And_Op | Or_Op | Add_Op | Mul_Op

datatype ir =
    Prog instr
  | Load_Counter nat
  | Sext nat operand
  | Alloca nat
  | Store operand nat
  | Load nat nat
  | Bin nat arith operand operand
  | Cast nat operand
  | Call string "operand list"
  | Trunc nat operand
  | Store_Counter operand

record fn =
  fn_name :: string
  fn_args :: "string list"
  blocks :: "ir list list"
  loops :: "nat list list"

text \<open>
  Of the globals of a module, whether it has the recursion counter, and the variables with
  their tags.
\<close>

record ir_module =
  has_counter :: bool
  globals :: "(nat \<times> string option) list"
  fns :: "fn list"

section \<open>The builder\<close>

text \<open>The next temporary and the code built so far.\<close>

type_synonym 'a builder = "(nat \<times> ir list, 'a) state"

definition emit :: "ir \<Rightarrow> unit builder" where
  "emit i = State (\<lambda>(n, is). ((), (n, is @ [i])))"

definition fresh :: "nat builder" where
  "fresh = State (\<lambda>(n, is). (n, (Suc n, is)))"

definition CreateLoadCounter :: "operand builder" where
  "CreateLoadCounter = do { t \<leftarrow> fresh; emit (Load_Counter t); State_Monad.return (Tmp t) }"

definition CreateSExt :: "operand \<Rightarrow> operand builder" where
  "CreateSExt x = do { t \<leftarrow> fresh; emit (Sext t x); State_Monad.return (Tmp t) }"

definition CreateAlloca :: "nat builder" where
  "CreateAlloca = do { t \<leftarrow> fresh; emit (Alloca t); State_Monad.return t }"

definition CreateStore :: "operand \<Rightarrow> nat \<Rightarrow> unit builder" where
  "CreateStore x slot = emit (Store x slot)"

definition CreateLoad :: "nat \<Rightarrow> operand builder" where
  "CreateLoad slot = do { t \<leftarrow> fresh; emit (Load t slot); State_Monad.return (Tmp t) }"

definition CreateBin :: "arith \<Rightarrow> operand \<Rightarrow> operand \<Rightarrow> operand builder" where
  "CreateBin f x y = do { t \<leftarrow> fresh; emit (Bin t f x y); State_Monad.return (Tmp t) }"

definition CreateCast :: "operand \<Rightarrow> operand builder" where
  "CreateCast x = do { t \<leftarrow> fresh; emit (Cast t x); State_Monad.return (Tmp t) }"

definition CreateCall :: "string \<Rightarrow> operand list \<Rightarrow> unit builder" where
  "CreateCall f xs = emit (Call f xs)"

fun for_each :: "('a \<Rightarrow> unit builder) \<Rightarrow> 'a list \<Rightarrow> unit builder" where
  "for_each f [] = State_Monad.return ()"
| "for_each f (x # xs) = do { f x; for_each f xs }"

definition built :: "unit builder \<Rightarrow> ir list" where
  "built m = snd (snd (run_state m (0, [])))"

text \<open>
  An identifier is packed with the recursion counter: the identifier in the upper half, the
  lower half of the counter below it. A global variable is reported without the counter.
\<close>

definition pack_id :: "u16 \<Rightarrow> operand builder" where
  "pack_id i = do {
     c \<leftarrow> CreateLoadCounter;
     local_rec_counter \<leftarrow> CreateSExt c;
     localDef \<leftarrow> CreateAlloca;
     CreateStore (Imm (ucast i)) localDef;
     loadedDef \<leftarrow> CreateLoad localDef;
     shl \<leftarrow> CreateBin Shl_Op loadedDef (Imm 16);
     CreateStore shl localDef;
     andLocGv \<leftarrow> CreateBin And_Op local_rec_counter (Imm 0xFFFF);
     loadedDef \<leftarrow> CreateLoad localDef;
     orValue \<leftarrow> CreateBin Or_Op loadedDef andLocGv;
     CreateStore orValue localDef;
     CreateLoad localDef }"

definition pack_global :: "u16 \<Rightarrow> operand builder" where
  "pack_global i = do {
     localDef \<leftarrow> CreateAlloca;
     CreateStore (Imm (ucast i)) localDef;
     loadedDef \<leftarrow> CreateLoad localDef;
     shl \<leftarrow> CreateBin Shl_Op loadedDef (Imm 16);
     CreateStore shl localDef;
     CreateLoad localDef }"

section \<open>Reading metadata\<close>

text \<open>
  \<open>std::stoi\<close> skips white space, takes a sign and the digits that follow, and throws where
  there are none or the number is no \<open>int\<close>; the pass does not catch it.
\<close>

definition c_space :: "char \<Rightarrow> bool" where
  "c_space ch = (let n = of_char ch :: nat in (9 \<le> n \<and> n \<le> 13) \<or> n = 32)"

definition c_digit :: "char \<Rightarrow> bool" where
  "c_digit ch = (let n = of_char ch :: nat in 48 \<le> n \<and> n \<le> 57)"

definition stoi :: "string \<Rightarrow> int c" where
  "stoi s =
     (let s1 = dropWhile c_space s;
          neg = (s1 \<noteq> [] \<and> hd s1 = CHR ''-'');
          s2 = (if s1 \<noteq> [] \<and> (hd s1 = CHR ''-'' \<or> hd s1 = CHR ''+'') then tl s1 else s1);
          ds = takeWhile c_digit s2;
          n = int (digits_value 10 (map (\<lambda>x. of_char x - 48) ds));
          z = (if neg then - n else n) in
      if ds = [] \<or> z < -2147483648 \<or> 2147483647 < z then Inl Uncaught_Exception else Inr z)"

definition stoi16 :: "string \<Rightarrow> u16 c" where
  "stoi16 s = cbind (stoi s) (\<lambda>n. Inr (word_of_int n))"

text \<open>The identifiers of a tag, cut at the underscores.\<close>

definition def_ids :: "string \<Rightarrow> u16 list c" where
  "def_ids metadata = c_map stoi16 (py_split (CHR ''_'') metadata)"

text \<open>The argument an indirect use names; without one the pointer is read uninitialised.\<close>

definition find_arg :: "string list \<Rightarrow> string \<Rightarrow> operand c" where
  "find_arg params iuse = (if iuse \<in> set params then Inr (Arg iuse) else Inl Indeterminate_Value)"

section \<open>Dynamic definitions\<close>

text \<open>
  The operands of a call are its arguments and, behind them, the function it calls.
\<close>

definition getOperand :: "string \<Rightarrow> operand list \<Rightarrow> int \<Rightarrow> operand c" where
  "getOperand called xs k = c_read (xs @ [Fun called]) k"

lemma getOperand_argument [simp]: "k < length xs \<Longrightarrow> getOperand called xs (int k) = Inr (xs ! k)"
  by (simp add: getOperand_def nth_append)

lemma getOperand_cases: "getOperand called xs k = Inr x \<Longrightarrow> x \<in> set xs \<and> k < int (length xs) \<or> x = Fun called \<and> k = int (length xs)"
  by (auto simp: getOperand_def c_read_eq_Inr nth_append split: if_splits)

text \<open>
  The size a call of malloc or calloc asks for; other calls are passed over. A calloc with
  one argument has the function as its next operand, and building the product of a number
  and a pointer fails an assertion.
\<close>

definition dyn_size :: "string \<Rightarrow> operand list \<Rightarrow> operand builder option c" where
  "dyn_size called xs =
     (if called = ''malloc'' then cbind (c_read xs 0) (\<lambda>n. Inr (Some (State_Monad.return n)))
      else if called = ''calloc''
      then cbind (c_read xs 0) (\<lambda>n. cbind (getOperand called xs 1) (\<lambda>k.
        if length xs = 1 then Inl Assertion_Failure else Inr (Some (CreateBin Mul_Op n k))))
      else Inr None)"

definition loop_dyn :: "string \<Rightarrow> nat \<Rightarrow> string option \<Rightarrow> operand list \<Rightarrow> ir list c" where
  "loop_dyn metadata r callee xs =
     cbind (c_deref callee) (\<lambda>called.
     cbind (dyn_size called xs) (\<lambda>sz.
     case sz of
       None \<Rightarrow> Inr []
     | Some make_size \<Rightarrow>
         cbind (def_ids metadata) (\<lambda>ds.
         Inr (built (do {
           size \<leftarrow> make_size;
           for_each (\<lambda>d. do {
             defParam \<leftarrow> pack_id d;
             CreateCall ''zbouncer_collect_entry'' [Imm 5, defParam, Val r, Imm 0, size, Imm 0] }) ds })))))"

definition alloca_dyn :: "string \<Rightarrow> nat \<Rightarrow> string option \<Rightarrow> operand list \<Rightarrow> ir list c" where
  "alloca_dyn metadata r callee xs =
     cbind (c_deref callee) (\<lambda>called.
     cbind (dyn_size called xs) (\<lambda>sz.
     case sz of
       None \<Rightarrow> Inr []
     | Some make_size \<Rightarrow>
         cbind (def_ids metadata) (\<lambda>ds.
         Inr (built (do {
           size \<leftarrow> make_size;
           for_each (\<lambda>d. do {
             defParam \<leftarrow> pack_id d;
             CreateCall ''zbouncer_collect_alloca_dyn'' [defParam, Val r, size] }) ds })))))"

section \<open>Definitions of variables\<close>

definition loop_alloca :: "string \<Rightarrow> nat \<Rightarrow> ir list c" where
  "loop_alloca metadata a =
     cbind (def_ids metadata) (\<lambda>ds.
     Inr (built (for_each (\<lambda>d. do {
       defParam \<leftarrow> pack_id d;
       CreateCall ''zbouncer_collect_entry'' [Imm 5, defParam, Val a, Imm 0, Imm 0, Imm 0] }) ds)))"

definition alloca_def :: "string \<Rightarrow> nat \<Rightarrow> ir list c" where
  "alloca_def metadata a =
     cbind (def_ids metadata) (\<lambda>ds.
     Inr (built (for_each (\<lambda>d. do {
       defParam \<leftarrow> pack_id d;
       CreateCall ''zbouncer_collect_alloca'' [defParam, Val a] }) ds)))"

definition global_def :: "string \<Rightarrow> nat \<Rightarrow> ir list c" where
  "global_def metadata gv =
     cbind (def_ids metadata) (\<lambda>ds.
     Inr (built (for_each (\<lambda>d. do {
       defParam \<leftarrow> pack_global d;
       CreateCall ''zbouncer_collect_alloca'' [defParam, Val gv] }) ds)))"

section \<open>Uses\<close>

text \<open>The end of a store: its pointer plus the size of what it stores.\<close>

definition end_addr :: "operand \<Rightarrow> u32 \<Rightarrow> operand builder" where
  "end_addr ptr sz = do {
     StoreAddr \<leftarrow> CreateCast ptr;
     Sum \<leftarrow> CreateBin Add_Op StoreAddr (Imm sz);
     CreateCast Sum }"

definition loop_store :: "string list \<Rightarrow> string \<Rightarrow> string option \<Rightarrow> operand \<Rightarrow> u32 \<Rightarrow> ir list c" where
  "loop_store params metadata ziuse ptr sz =
     cbind (stoi16 metadata) (\<lambda>u.
     case ziuse of
       Some iuse \<Rightarrow>
         cbind (find_arg params iuse) (\<lambda>def_ref.
         Inr (built (do {
           EndAddr \<leftarrow> end_addr ptr sz;
           useParam \<leftarrow> pack_id u;
           CreateCall ''zbouncer_collect_entry'' [Imm 3, useParam, EndAddr, def_ref, Imm 0, Imm 0] })))
     | None \<Rightarrow>
         Inr (built (do {
           EndAddr \<leftarrow> end_addr ptr sz;
           useParam \<leftarrow> pack_id u;
           CreateCall ''zbouncer_collect_entry'' [Imm 3, useParam, EndAddr, Imm 0, Imm 0, Imm 0] })))"

definition store_use :: "string list \<Rightarrow> string \<Rightarrow> string option \<Rightarrow> operand \<Rightarrow> u32 \<Rightarrow> ir list c" where
  "store_use params metadata ziuse ptr sz =
     cbind (stoi16 metadata) (\<lambda>u.
     case ziuse of
       Some iuse \<Rightarrow>
         cbind (find_arg params iuse) (\<lambda>def_ref.
         Inr (built (do {
           EndAddr \<leftarrow> end_addr ptr sz;
           useParam \<leftarrow> pack_id u;
           CreateCall ''zbouncer_iuse'' [useParam, def_ref, EndAddr] })))
     | None \<Rightarrow>
         Inr (built (do {
           EndAddr \<leftarrow> end_addr ptr sz;
           useParam \<leftarrow> pack_id u;
           CreateCall ''zbouncer_use'' [useParam, EndAddr] })))"

text \<open>
  What a library call writes to and how much: of memcpy the second operand and the third,
  of the others the target and the mark of a string. A call with too few arguments has the
  function it calls as its last operand, which is then the address; as a size it is not of
  the type of the injected call, which fails an assertion. Another call leaves the address
  uninitialised.
\<close>

definition write_target :: "string option \<Rightarrow> operand list \<Rightarrow> (operand \<times> operand) c" where
  "write_target callee xs =
     cbind (c_deref callee) (\<lambda>called.
     if called = ''memcpy''
     then cbind (getOperand called xs 1) (\<lambda>a. cbind (getOperand called xs 2) (\<lambda>n.
       if length xs = 2 then Inl Assertion_Failure else Inr (a, n)))
     else if called = ''scanf'' then cbind (getOperand called xs 1) (\<lambda>a. Inr (a, Imm 0xDEADBEEF))
     else if called = ''__isoc99_scanf'' then cbind (getOperand called xs 1) (\<lambda>a. Inr (a, Imm 0xDEADBEEF))
     else if called = ''strcpy'' then cbind (getOperand called xs 0) (\<lambda>a. Inr (a, Imm 0xDEADBEEF))
     else Inl Indeterminate_Value)"

definition loop_luse :: "string list \<Rightarrow> string \<Rightarrow> string option \<Rightarrow> string option \<Rightarrow> operand list \<Rightarrow> ir list c" where
  "loop_luse params metadata ziuse callee xs =
     cbind (stoi16 metadata) (\<lambda>u.
     cbind (write_target callee xs) (\<lambda>(addr, size_of_write).
     case ziuse of
       Some iuse \<Rightarrow>
         cbind (find_arg params iuse) (\<lambda>def_ref.
         Inr (built (do {
           useParam \<leftarrow> pack_id u;
           CreateCall ''zbouncer_collect_entry'' [Imm 4, useParam, addr, def_ref, Imm 0, size_of_write] })))
     | None \<Rightarrow>
         Inr (built (do {
           useParam \<leftarrow> pack_id u;
           CreateCall ''zbouncer_collect_entry'' [Imm 2, useParam, addr, Imm 0, Imm 0, size_of_write] }))))"

definition library_use :: "string list \<Rightarrow> string \<Rightarrow> string option \<Rightarrow> string option \<Rightarrow> operand list \<Rightarrow> ir list c" where
  "library_use params metadata ziuse callee xs =
     cbind (stoi16 metadata) (\<lambda>u.
     cbind (write_target callee xs) (\<lambda>(addr, size_of_write).
     case ziuse of
       Some iuse \<Rightarrow>
         cbind (find_arg params iuse) (\<lambda>def_ref.
         Inr (built (do {
           useParam \<leftarrow> pack_id u;
           CreateCall ''zbouncer_iluse'' [useParam, def_ref, addr, size_of_write] })))
     | None \<Rightarrow>
         Inr (built (do {
           useParam \<leftarrow> pack_id u;
           CreateCall ''zbouncer_luse'' [useParam, addr, size_of_write] }))))"

end
