(* ===== verification/Instrument_Pass.thy ===== *)
theory Instrument_Pass
  imports Instrument
begin

text \<open>
  The order of the pass (runOnModule of zbouncer/Zbouncer.cpp): the instructions in loops,
  the start and the end of main, definitions, stores and library calls everywhere, and the
  calls of instrumented functions. Each phase walks over the code the phases before it
  left; injected instructions have no metadata.
\<close>

section \<open>One instruction\<close>

text \<open>
  The casts of the code are unchecked: a tag of a store on an instruction that is none
  reads it through the wrong type.
\<close>

fun store_operand :: "opcode \<Rightarrow> (operand \<times> u32) c" where
  "store_operand (Op_Store v ptr sz) = Inr (ptr, sz)"
| "store_operand _ = Inl Bad_Union_Access"

fun call_operands :: "opcode \<Rightarrow> (string option \<times> operand list) c" where
  "call_operands (Op_Call callee xs) = Inr (callee, xs)"
| "call_operands _ = Inl Bad_Union_Access"

definition if_tagged :: "string option \<Rightarrow> (string \<Rightarrow> ir list c) \<Rightarrow> ir list c" where
  "if_tagged tag f = (case tag of None \<Rightarrow> Inr [] | Some text \<Rightarrow> f text)"

text \<open>
  Every report is put right behind the instruction, so what is injected last comes first. A
  dynamic definition ends the work on its instruction.
\<close>

definition loop_instr :: "string list \<Rightarrow> instr \<Rightarrow> ir list c" where
  "loop_instr params i =
     (case (attached i ''zdef'', opcode i) of
        (Some text, Op_Call callee xs) \<Rightarrow> loop_dyn text (result i) callee xs
      | (zdef, oc) \<Rightarrow>
          cbind (if_tagged zdef (\<lambda>text. loop_alloca text (result i))) (\<lambda>ds.
          cbind (if_tagged (attached i ''zsuse'') (\<lambda>text. cbind (store_operand oc) (\<lambda>(ptr, sz).
            loop_store params text (attached i ''ziuse'') ptr sz))) (\<lambda>us.
          cbind (if_tagged (attached i ''zluse'') (\<lambda>text. cbind (call_operands oc) (\<lambda>(callee, xs).
            loop_luse params text (attached i ''ziuse'') callee xs))) (\<lambda>ls.
          Inr (ls @ us @ ds)))))"

definition def_instr :: "instr \<Rightarrow> ir list c" where
  "def_instr i = if_tagged (attached i ''zdef'') (\<lambda>text.
     case opcode i of
       Op_Call callee xs \<Rightarrow> alloca_dyn text (result i) callee xs
     | _ \<Rightarrow> alloca_def text (result i))"

definition store_instr :: "string list \<Rightarrow> instr \<Rightarrow> ir list c" where
  "store_instr params i = if_tagged (attached i ''zsuse'') (\<lambda>text.
     cbind (store_operand (opcode i)) (\<lambda>(ptr, sz). store_use params text (attached i ''ziuse'') ptr sz))"

definition library_instr :: "string list \<Rightarrow> instr \<Rightarrow> ir list c" where
  "library_instr params i = if_tagged (attached i ''zluse'') (\<lambda>text.
     cbind (call_operands (opcode i)) (\<lambda>(callee, xs). library_use params text (attached i ''ziuse'') callee xs))"

section \<open>Blocks and functions\<close>

definition inject_after :: "(instr \<Rightarrow> ir list c) \<Rightarrow> ir \<Rightarrow> ir list c" where
  "inject_after f x = (case x of Prog i \<Rightarrow> cbind (f i) (\<lambda>is. Inr (x # is)) | _ \<Rightarrow> Inr [x])"

definition rewrite_block :: "(ir \<Rightarrow> ir list c) \<Rightarrow> ir list \<Rightarrow> ir list c" where
  "rewrite_block f b = cbind (c_map f b) (\<lambda>xss. Inr (concat xss))"

definition rewrite_fn :: "(fn \<Rightarrow> ir \<Rightarrow> ir list c) \<Rightarrow> fn \<Rightarrow> fn c" where
  "rewrite_fn f F = cbind (c_map (rewrite_block (f F)) (blocks F)) (\<lambda>bs. Inr (F\<lparr>blocks := bs\<rparr>))"

definition rewrite_all :: "(fn \<Rightarrow> ir \<Rightarrow> ir list c) \<Rightarrow> ir_module \<Rightarrow> ir_module c" where
  "rewrite_all f M = cbind (c_map (rewrite_fn f) (fns M)) (\<lambda>Fs. Inr (M\<lparr>fns := Fs\<rparr>))"

text \<open>The blocks of the outermost loops, one after the other; a declaration has no blocks.\<close>

definition loop_block :: "nat \<Rightarrow> fn \<Rightarrow> fn c" where
  "loop_block k F =
     cbind (c_read (blocks F) (int k)) (\<lambda>b.
     cbind (rewrite_block (inject_after (loop_instr (fn_args F))) b) (\<lambda>b'.
     Inr (F\<lparr>blocks := (blocks F)[k := b']\<rparr>)))"

definition loop_phase :: "ir_module \<Rightarrow> ir_module c" where
  "loop_phase M =
     cbind (c_map (\<lambda>F. if blocks F = [] then Inr F else c_run loop_block (concat (loops F)) F) (fns M)) (\<lambda>Fs.
     Inr (M\<lparr>fns := Fs\<rparr>))"

text \<open>
  Main starts with zinit and the reports of the global variables, and each of its returns
  is preceded by zexit.
\<close>

definition global_code :: "ir_module \<Rightarrow> ir list c" where
  "global_code M =
     cbind (c_map (\<lambda>(gv, tag). if_tagged tag (\<lambda>text. global_def text gv)) (globals M)) (\<lambda>xss. Inr (concat xss))"

definition zinit_phase :: "ir_module \<Rightarrow> ir_module c" where
  "zinit_phase M =
     cbind (c_map (\<lambda>F. if blocks F = [] \<or> fn_name F \<noteq> ''main'' then Inr F
         else cbind (global_code M) (\<lambda>gs.
           Inr (F\<lparr>blocks := (Call ''zinit'' [] # gs @ hd (blocks F)) # tl (blocks F)\<rparr>))) (fns M)) (\<lambda>Fs.
     Inr (M\<lparr>fns := Fs\<rparr>))"

definition zexit_instr :: "fn \<Rightarrow> ir \<Rightarrow> ir list c" where
  "zexit_instr F x = (case x of
     Prog i \<Rightarrow> Inr (if fn_name F = ''main'' \<and> opcode i = Op_Ret then [Call ''zexit'' [], x] else [x])
   | _ \<Rightarrow> Inr [x])"

definition use_phases :: "ir_module \<Rightarrow> ir_module c" where
  "use_phases M =
     cbind (rewrite_all (\<lambda>F. inject_after def_instr) M) (\<lambda>M1.
     cbind (rewrite_all (\<lambda>F. inject_after (store_instr (fn_args F))) M1) (\<lambda>M2.
     rewrite_all (\<lambda>F. inject_after (library_instr (fn_args F))) M2))"

section \<open>Calls of instrumented functions\<close>

text \<open>
  Such a call has a parameter for the identifier of each pointer it is given. Metadata that
  is a number is packed with the counter; otherwise it names the argument of the caller
  that has the identifier. The call is replaced by one with the new arguments and without
  metadata.
\<close>

definition ends_with :: "string \<Rightarrow> string \<Rightarrow> bool" where
  "ends_with s ending = (length ending \<le> length s \<and> drop (length s - length ending) s = ending)"

fun pass_ids :: "string list \<Rightarrow> (string \<rightharpoonup> string) \<Rightarrow> string list \<Rightarrow> nat \<Rightarrow> operand list \<Rightarrow> (bool \<times> operand list) builder c" where
  "pass_ids params md [] k xs = Inr (State_Monad.return (False, xs))"
| "pass_ids params md (p # ps) k xs =
     (case md (''zref_'' @ p) of
        None \<Rightarrow> pass_ids params md ps (Suc k) xs
      | Some zref \<Rightarrow>
          if list_all c_digit zref
          then cbind (stoi16 zref) (\<lambda>i.
               cbind (c_write xs (int k) (Imm 0)) (\<lambda>_.
               cbind (pass_ids params md ps (Suc k) xs) (\<lambda>rest.
               Inr (do {
                 idParam \<leftarrow> pack_id i;
                 r \<leftarrow> rest;
                 State_Monad.return (True, (snd r)[k := idParam]) }))))
          else cbind (if zref \<in> set params then c_write xs (int k) (Arg zref) else Inr xs) (\<lambda>xs'.
               cbind (pass_ids params md ps (Suc k) xs') (\<lambda>rest.
               Inr (do { r \<leftarrow> rest; State_Monad.return (True, snd r) }))))"

definition formal_args :: "ir_module \<Rightarrow> string \<Rightarrow> string list" where
  "formal_args M name = (case find (\<lambda>F. fn_name F = name) (fns M) of None \<Rightarrow> [] | Some F \<Rightarrow> fn_args F)"

definition call_instr :: "ir_module \<Rightarrow> fn \<Rightarrow> ir \<Rightarrow> ir list c" where
  "call_instr M F x = (case x of
     Prog i \<Rightarrow> (case opcode i of
       Op_Call (Some callee) xs \<Rightarrow>
         if ends_with callee ''_instrumented''
         then cbind (pass_ids (fn_args F) (attached i) (formal_args M callee) 0 xs) (\<lambda>m.
              case run_state m (0, []) of ((replaced, ys), (n, code)) \<Rightarrow>
                Inr (if replaced
                  then code @ [Prog (i\<lparr>opcode := Op_Call (Some callee) ys, attached := Map.empty\<rparr>)]
                  else code @ [x]))
         else Inr [x]
     | _ \<Rightarrow> Inr [x])
   | _ \<Rightarrow> Inr [x])"

definition run_phases :: "ir_module \<Rightarrow> ir_module c" where
  "run_phases M =
     cbind (loop_phase M) (\<lambda>M1.
     cbind (zinit_phase M1) (\<lambda>M2.
     cbind (rewrite_all zexit_instr M2) (\<lambda>M3.
     cbind (use_phases M3) (\<lambda>M4.
     rewrite_all (call_instr M4) M4))))"

text \<open>
  The recursion counter is looked up by its name. In a module without it the first injected
  load of it dereferences a null pointer; a pass that injects none does not notice.
\<close>

definition reads_counter :: "ir_module \<Rightarrow> bool" where
  "reads_counter M \<longleftrightarrow>
     list_ex (\<lambda>F. list_ex (list_ex (\<lambda>x. case x of Load_Counter t \<Rightarrow> True | _ \<Rightarrow> False)) (blocks F)) (fns M)"

definition runOnModule :: "ir_module \<Rightarrow> ir_module c" where
  "runOnModule M =
     cbind (run_phases M) (\<lambda>M'. if has_counter M \<or> \<not> reads_counter M' then Inr M' else Inl Null_Deref)"

lemma runOnModule_phases: "runOnModule M = Inr M' \<Longrightarrow> run_phases M = Inr M'"
  by (auto simp: runOnModule_def cbind_eq_Inr split: if_splits)

section \<open>Running injected code\<close>

text \<open>
  The state injected code runs in: its temporaries and slots, the recursion counter, and
  the values and arguments of the program; the calls are collected. The address of a
  function is kept with the arguments, under its name with an at sign in front, which no
  argument of a C function begins with.
\<close>

record machine =
  tmps :: "nat \<Rightarrow> u32"
  slots :: "nat \<Rightarrow> u32"
  rec_counter :: u16
  vals :: "nat \<Rightarrow> u32"
  arg_vals :: "string \<Rightarrow> u32"
  calls :: "(string \<times> u32 list) list"

fun operand_value :: "machine \<Rightarrow> operand \<Rightarrow> u32" where
  "operand_value m (Imm n) = n"
| "operand_value m (Val r) = vals m r"
| "operand_value m (Arg a) = arg_vals m a"
| "operand_value m (Fun f) = arg_vals m (CHR ''@'' # f)"
| "operand_value m (Tmp t) = tmps m t"

fun arith_value :: "arith \<Rightarrow> u32 \<Rightarrow> u32 \<Rightarrow> u32" where
  "arith_value Shl_Op x y = push_bit (unat y) x"
| "arith_value And_Op x y = and x y"
| "arith_value Or_Op x y = or x y"
| "arith_value Add_Op x y = x + y"
| "arith_value Mul_Op x y = x * y"

definition set_tmp :: "nat \<Rightarrow> u32 \<Rightarrow> machine \<Rightarrow> machine" where
  "set_tmp t x m = m\<lparr>tmps := (tmps m)(t := x)\<rparr>"

fun exec_ir :: "ir \<Rightarrow> machine \<Rightarrow> machine" where
  "exec_ir (Prog i) m = m"
| "exec_ir (Load_Counter t) m = set_tmp t (ucast (rec_counter m)) m"
| "exec_ir (Sext t x) m = set_tmp t (scast (ucast (operand_value m x) :: u16)) m"
| "exec_ir (Alloca t) m = m"
| "exec_ir (Store x s) m = m\<lparr>slots := (slots m)(s := operand_value m x)\<rparr>"
| "exec_ir (Load t s) m = set_tmp t (slots m s) m"
| "exec_ir (Bin t f x y) m = set_tmp t (arith_value f (operand_value m x) (operand_value m y)) m"
| "exec_ir (Cast t x) m = set_tmp t (operand_value m x) m"
| "exec_ir (Call f xs) m = m\<lparr>calls := calls m @ [(f, map (operand_value m) xs)]\<rparr>"
| "exec_ir (Trunc t x) m = set_tmp t (ucast (ucast (operand_value m x) :: u16)) m"
| "exec_ir (Store_Counter x) m = m\<lparr>rec_counter := ucast (operand_value m x)\<rparr>"

definition exec_code :: "ir list \<Rightarrow> machine \<Rightarrow> machine" where
  "exec_code is m = fold exec_ir is m"

end
