(* ===== verification/Instrument_Laws.thy ===== *)
theory Instrument_Laws
  imports Instrument_Pass Static_Metadata
begin

text \<open>
  Running the builder and the code it builds: the packing of an identifier with the
  counter, the end of a store, the call behind them, and how the tags that the analysis
  writes are read.
\<close>

section \<open>Running the builder\<close>

lemmas builder_simps = CreateLoadCounter_def CreateSExt_def CreateAlloca_def CreateStore_def CreateLoad_def
  CreateBin_def CreateCast_def CreateCall_def emit_def fresh_def State_Monad.return_def

definition pack_code :: "nat \<Rightarrow> u16 \<Rightarrow> ir list" where
  "pack_code n i = [Load_Counter n, Sext (n + 1) (Tmp n), Alloca (n + 2), Store (Imm (ucast i)) (n + 2), Load (n + 3) (n + 2),
     Bin (n + 4) Shl_Op (Tmp (n + 3)) (Imm 16), Store (Tmp (n + 4)) (n + 2), Bin (n + 5) And_Op (Tmp (n + 1)) (Imm 0xFFFF),
     Load (n + 6) (n + 2), Bin (n + 7) Or_Op (Tmp (n + 6)) (Tmp (n + 5)), Store (Tmp (n + 7)) (n + 2), Load (n + 8) (n + 2)]"

lemma run_pack: "run_state (pack_id i) (n, is) = (Tmp (n + 8), (n + 9, is @ pack_code n i))"
  by (simp add: pack_id_def builder_simps pack_code_def)

definition end_code :: "operand \<Rightarrow> u32 \<Rightarrow> ir list" where
  "end_code ptr sz = [Cast 0 ptr, Bin 1 Add_Op (Tmp 0) (Imm sz), Cast 2 (Tmp 1)]"

lemma run_end_addr: "run_state (end_addr ptr sz) (0, is) = (Tmp 2, (3, is @ end_code ptr sz))"
  by (simp add: end_addr_def builder_simps end_code_def)

lemma run_call: "run_state (CreateCall f xs) (n, is) = ((), (n, is @ [Call f xs]))"
  by (simp add: builder_simps)

section \<open>Packing\<close>

definition packed :: "u16 \<Rightarrow> u16 \<Rightarrow> u32" where
  "packed i counter = or (push_bit 16 (ucast i)) (and (scast counter) 0xFFFF)"

text \<open>The verifier takes apart what the injected code packs.\<close>

lemma less_16: "n < 16 \<Longrightarrow> 15 \<le> n \<Longrightarrow> n = 15" for n :: nat
  by simp

lemma packed_halves: "drop_bit 16 (packed i counter) = ucast i" "take_bit 16 (packed i counter) = ucast counter"
proof -
  have F: "(0xFFFF :: u32) = mask 16" by (simp add: mask_eq_exp_minus_1)
  show "drop_bit 16 (packed i counter) = ucast i"
    unfolding packed_def F by (rule bit_word_eqI) (auto simp: bit_simps dest: bit_imp_le_length)
  show "take_bit 16 (packed i counter) = ucast counter"
  proof (rule bit_word_eqI)
    fix n assume "n < LENGTH(32)"
    show "bit (take_bit 16 (packed i counter)) n \<longleftrightarrow> bit (ucast counter :: u32) n"
    proof (cases "n < 16")
      case True
      then show ?thesis
        unfolding packed_def F by (auto simp: bit_simps min_def dest: less_16)
    next
      case False
      then show ?thesis
        unfolding packed_def F by (auto simp: bit_simps dest: bit_imp_le_length)
    qed
  qed
qed

lemma packed_unpacked: "get_id_var (uint (packed i counter)) = (uint i, uint counter)"
proof -
  have "uint (drop_bit 16 w) = uint w div 65536" for w :: u32
    by (subst unsigned_drop_bit_eq) (simp add: drop_bit_eq_div take_bit_int_eq_self uint_lt2p [of w, simplified])
  moreover have "uint (take_bit 16 w) = uint w mod 65536" for w :: u32
    by (subst unsigned_take_bit_eq) (simp add: take_bit_eq_mod)
  moreover have "uint (ucast w :: u32) = uint w" for w :: u16
    using uint_lt2p [of w] by (simp add: unsigned_ucast_eq take_bit_int_eq_self_iff)
  ultimately show ?thesis unfolding get_id_var_def by (metis packed_halves)
qed

definition no_tmp :: "operand \<Rightarrow> bool" where
  "no_tmp x \<longleftrightarrow> (\<forall>t. x \<noteq> Tmp t)"

lemma exec_append: "exec_code (xs @ ys) m = exec_code ys (exec_code xs m)"
  by (simp add: exec_code_def)

lemmas exec_simps = exec_code_def pack_code_def set_tmp_def packed_def

lemma ucast_down_up: "ucast (ucast w :: u32) = (w :: u16)"
  by (rule bit_word_eqI) (auto simp: bit_simps)

lemma exec_pack_value: "tmps (exec_code (pack_code n i) m) (n + 8) = packed i (rec_counter m)"
  by (simp add: exec_simps ucast_down_up)

lemma exec_pack_frame:
  "t < n \<Longrightarrow> tmps (exec_code (pack_code n i) m) t = tmps m t"
  "vals (exec_code (pack_code n i) m) = vals m"
  "arg_vals (exec_code (pack_code n i) m) = arg_vals m"
  "calls (exec_code (pack_code n i) m) = calls m"
  by (simp_all add: exec_simps)

lemma exec_pack_operand: "no_tmp x \<Longrightarrow> operand_value (exec_code (pack_code n i) m) x = operand_value m x"
  by (cases x) (simp_all add: no_tmp_def exec_pack_frame)

section \<open>Reports\<close>

lemma store_use_code:
  assumes "stoi16 metadata = Inr u"
  shows "store_use params metadata None ptr sz = Inr (end_code ptr sz @
    pack_code 3 u @ [Call ''zbouncer_use'' [Tmp 11, Tmp 2]])"
  using assms by (simp add: store_use_def built_def run_end_addr run_pack run_call)

lemma loop_store_code:
  assumes "stoi16 metadata = Inr u"
  shows "loop_store params metadata None ptr sz = Inr (end_code ptr sz @
    pack_code 3 u @ [Call ''zbouncer_collect_entry'' [Imm 3, Tmp 11, Tmp 2, Imm 0, Imm 0, Imm 0]])"
  using assms by (simp add: loop_store_def built_def run_end_addr run_pack run_call)

lemma library_use_code:
  assumes "stoi16 metadata = Inr u" and "write_target callee xs = Inr (addr, size_of_write)"
  shows "library_use params metadata None callee xs = Inr (pack_code 0 u @ [Call ''zbouncer_luse'' [Tmp 8, addr, size_of_write]])"
  using assms by (simp add: library_use_def built_def run_pack run_call)

lemma exec_call: "calls (exec_code [Call f xs] m) = calls m @ [(f, map (operand_value m) xs)]"
  by (simp add: exec_code_def)

lemma exec_end_addr:
  fixes m :: machine and sz :: u32 and ptr :: operand
  defines "m' \<equiv> exec_code (end_code ptr sz) m"
  shows "tmps m' 2 = operand_value m ptr + sz" and "calls m' = calls m" and "rec_counter m' = rec_counter m"
    and "vals m' = vals m" and "arg_vals m' = arg_vals m"
  unfolding m'_def by (simp_all add: exec_code_def set_tmp_def end_code_def)

lemma exec_end_addr_operand:
  "no_tmp x \<Longrightarrow> operand_value (exec_code (end_code ptr sz) m) x = operand_value m x"
  by (cases x) (simp_all add: no_tmp_def exec_end_addr(4-5))

text \<open>The call behind the address and the packed identifier, with operands before and behind.\<close>

lemma exec_store_report:
  assumes "list_all no_tmp xs" "list_all no_tmp ys"
  shows "calls (exec_code (end_code ptr sz @ pack_code 3 u @
      [Call f (ys @ [Tmp 11, Tmp 2] @ xs)]) m) = calls m @
    [(f, map (operand_value m) ys @ [packed u (rec_counter m), operand_value m ptr + sz] @ map (operand_value m) xs)]"
proof -
  let ?m1 = "exec_code (end_code ptr sz) m"
  let ?m2 = "exec_code (pack_code 3 u) ?m1"
  note e = exec_end_addr [where ptr = ptr and sz = sz and m = m]
  have frame: "map (operand_value ?m2) zs = map (operand_value m) zs" if "list_all no_tmp zs" for zs
    using that by (auto simp: list_all_iff exec_pack_operand exec_end_addr_operand)
  have "tmps ?m2 11 = packed u (rec_counter m)"
    using exec_pack_value [of 3 u ?m1] e(3) by simp
  moreover have "tmps ?m2 2 = operand_value m ptr + sz"
    using exec_pack_frame(1) [of 2 3 u ?m1] e(1) by simp
  ultimately show ?thesis using e(2) frame [OF assms(1)] frame [OF assms(2)]
    unfolding exec_append exec_call by (simp add: exec_pack_frame(4))
qed

section \<open>Reading the tags of the analysis\<close>

lemma digit_facts: "d < 10 \<Longrightarrow> c_digit (digit_char d) \<and> of_char (digit_char d) - 48 = d \<and> \<not> c_space (digit_char d) \<and>
    digit_char d \<noteq> CHR ''-'' \<and> digit_char d \<noteq> CHR ''+''"
  using digit_char_plain(2) [of d] by (simp add: c_digit_def c_space_def digit_char_def)

lemma stoi_number:
  assumes "z \<ge> 0" and "z \<le> 2147483647"
  shows "stoi (int_text z) = Inr z"
proof -
  let ?s = "number_text 10 (nat z)"
  have d: "\<forall>x \<in> set ?s. \<exists>d < 10. x = digit_char d"
    using digits_less [of 10 _ "nat z"] by (auto simp: number_text_def)
  then have "takeWhile c_digit ?s = ?s" using digit_facts by (auto simp: takeWhile_eq_all_conv)
  moreover have "map (\<lambda>x. of_char x - 48) ?s = digits 10 (nat z)"
    unfolding number_text_def using digits_less [of 10 _ "nat z"] digit_facts by (auto simp: map_idI o_def)
  moreover have "?s \<noteq> []" by (simp add: number_text_def)
  moreover have "\<not> c_space (hd ?s)" "hd ?s \<noteq> CHR ''-''" "hd ?s \<noteq> CHR ''+''"
    using d digit_facts list.set_sel(1) [OF \<open>?s \<noteq> []\<close>] by metis+
  moreover from this(1) have "dropWhile c_space ?s = ?s" by (cases ?s) auto
  ultimately show ?thesis
    using assms unfolding stoi_def int_text_def by (simp add: Let_def digits_value_digits del: takeWhile_eq_all_conv)
qed

lemma stoi16_number: "0 \<le> z \<Longrightarrow> z \<le> 2147483647 \<Longrightarrow> stoi16 (int_text z) = Inr (word_of_int z)"
  by (simp add: stoi16_def stoi_number)

end
