(* ===== verification/Instrument_Spec.thy ===== *)
theory Instrument_Spec
  imports Instrument_Laws Host_Props
begin

text \<open>
  What the pass promises for one instruction, stated without the code it injects: the calls
  of the host library with their arguments as functions of the values of the program. Each
  piece of injected code is proved to make these calls, and to fail where they are not
  defined.
\<close>

section \<open>Linking\<close>

text \<open>The functions of the host library by their names, and the types of entries by their numbers.\<close>

definition entry_type_of :: "u32 \<Rightarrow> ENTRY_TYPE" where
  "entry_type_of n = (if n = 0 then T_def else if n = 1 then T_use else if n = 2 then T_libuse
     else if n = 3 then T_iuse else if n = 4 then T_ilibuse else if n = 5 then T_dalloca else T_novalue)"

definition linked :: "string \<times> u32 list \<Rightarrow> host_call option" where
  "linked c = (case c of (f, xs) \<Rightarrow>
     (case xs of
        [i, a] \<Rightarrow>
          if f = ''zbouncer_collect_alloca'' then Some (Collect_Alloca i a)
          else if f = ''zbouncer_use'' then Some (Report_Use i a) else None
      | [i, a, n] \<Rightarrow>
          if f = ''zbouncer_collect_alloca_dyn'' then Some (Collect_Alloca_Dyn i a n)
          else if f = ''zbouncer_iuse'' then Some (Report_Iuse i a n)
          else if f = ''zbouncer_luse'' then Some (Report_Luse i a n) else None
      | [i, d, a, n] \<Rightarrow> if f = ''zbouncer_iluse'' then Some (Report_Iluse i d a n) else None
      | [t, i, a, d, n, z] \<Rightarrow>
          if f = ''zbouncer_collect_entry'' then Some (Collect_Entry (entry_type_of t) i a d n z) else None
      | _ \<Rightarrow> None))"

section \<open>The view of the program\<close>

type_synonym program_view = "u16 \<times> (nat \<Rightarrow> u32) \<times> (string \<Rightarrow> u32)"

definition view :: "machine \<Rightarrow> program_view" where
  "view m = (rec_counter m, vals m, arg_vals m)"

fun seen :: "program_view \<Rightarrow> operand \<Rightarrow> u32" where
  "seen v (Imm n) = n"
| "seen (c, vs, as) (Val r) = vs r"
| "seen (c, vs, as) (Arg a) = as a"
| "seen (c, vs, as) (Fun f) = as (CHR ''@'' # f)"
| "seen v (Tmp t) = 0"

definition id_in :: "program_view \<Rightarrow> u16 \<Rightarrow> u32" where
  "id_in v i = packed i (fst v)"

lemma seen_operand: "no_tmp x \<Longrightarrow> operand_value m x = seen (view m) x"
  by (cases x) (simp_all add: no_tmp_def view_def)

section \<open>Specifications\<close>

type_synonym report = "program_view \<Rightarrow> host_call list"

definition dyn_bytes :: "string \<Rightarrow> operand list \<Rightarrow> (program_view \<Rightarrow> u32) option c" where
  "dyn_bytes called xs =
     (if called = ''malloc'' then cbind (c_read xs 0) (\<lambda>n. Inr (Some (\<lambda>v. seen v n)))
      else if called = ''calloc''
      then cbind (c_read xs 0) (\<lambda>n. cbind (getOperand called xs 1) (\<lambda>k.
        if length xs = 1 then Inl Assertion_Failure else Inr (Some (\<lambda>v. seen v n * seen v k))))
      else Inr None)"

definition dyn_spec ::
    "(u32 \<Rightarrow> u32 \<Rightarrow> u32 \<Rightarrow> host_call) \<Rightarrow> string \<Rightarrow> nat \<Rightarrow> string option \<Rightarrow> operand list \<Rightarrow> report c" where
  "dyn_spec call tag r callee xs =
     cbind (c_deref callee) (\<lambda>called.
     cbind (dyn_bytes called xs) (\<lambda>sz.
     case sz of
       None \<Rightarrow> Inr (\<lambda>v. [])
     | Some bytes \<Rightarrow> cbind (def_ids tag) (\<lambda>ds.
         Inr (\<lambda>v. map (\<lambda>d. call (id_in v d) (seen v (Val r)) (bytes v)) ds))))"

definition var_spec :: "(u32 \<Rightarrow> u32 \<Rightarrow> host_call) \<Rightarrow> string \<Rightarrow> nat \<Rightarrow> report c" where
  "var_spec call tag r =
     cbind (def_ids tag) (\<lambda>ds. Inr (\<lambda>v. map (\<lambda>d. call (id_in v d) (seen v (Val r))) ds))"

definition use_spec ::
    "(u32 \<Rightarrow> u32 \<Rightarrow> host_call) \<Rightarrow> (u32 \<Rightarrow> u32 \<Rightarrow> u32 \<Rightarrow> host_call) \<Rightarrow>
     string list \<Rightarrow> string \<Rightarrow> string option \<Rightarrow> operand \<Rightarrow> u32 \<Rightarrow> report c" where
  "use_spec direct indirect params tag ziuse ptr sz =
     cbind (stoi16 tag) (\<lambda>u.
     case ziuse of
       Some iuse \<Rightarrow> cbind (find_arg params iuse) (\<lambda>d.
         Inr (\<lambda>v. [indirect (id_in v u) (seen v d) (seen v ptr + sz)]))
     | None \<Rightarrow> Inr (\<lambda>v. [direct (id_in v u) (seen v ptr + sz)]))"

definition lib_spec ::
    "(u32 \<Rightarrow> u32 \<Rightarrow> u32 \<Rightarrow> host_call) \<Rightarrow> (u32 \<Rightarrow> u32 \<Rightarrow> u32 \<Rightarrow> u32 \<Rightarrow> host_call) \<Rightarrow>
     string list \<Rightarrow> string \<Rightarrow> string option \<Rightarrow> string option \<Rightarrow> operand list \<Rightarrow> report c" where
  "lib_spec direct indirect params tag ziuse callee xs =
     cbind (stoi16 tag) (\<lambda>u.
     cbind (write_target callee xs) (\<lambda>(addr, n).
     case ziuse of
       Some iuse \<Rightarrow> cbind (find_arg params iuse) (\<lambda>d.
         Inr (\<lambda>v. [indirect (id_in v u) (seen v d) (seen v addr) (seen v n)]))
     | None \<Rightarrow> Inr (\<lambda>v. [direct (id_in v u) (seen v addr) (seen v n)])))"

section \<open>Code that makes a report\<close>

definition makes :: "ir list \<Rightarrow> report \<Rightarrow> bool" where
  "makes code f \<longleftrightarrow> (\<forall>m. map linked (calls (exec_code code m)) = map linked (calls m) @ map Some (f (view m)) \<and>
     view (exec_code code m) = view m)"

text \<open>Injected code holds no instruction of the program, and does not write the recursion counter.\<close>

definition quiet :: "ir list \<Rightarrow> bool" where
  "quiet code \<longleftrightarrow> (\<forall>i. Prog i \<notin> set code) \<and> (\<forall>x. Store_Counter x \<notin> set code)"

abbreviation fulfils :: "ir list c \<Rightarrow> report c \<Rightarrow> bool" where
  "fulfils \<equiv> rel_sum (=) (\<lambda>c f. makes c f \<and> quiet c)"

lemma quiet_simps [simp]:
  "quiet []" "quiet (c @ d) \<longleftrightarrow> quiet c \<and> quiet d" "quiet (Call f xs # c) = quiet c"
  "quiet (Bin t g x y # c) = quiet c" "\<not> quiet (Prog i # c)"
  "quiet (pack_code n u)" "quiet (end_code ptr sz)"
  by (auto simp: quiet_def pack_code_def end_code_def)

lemma rel_cbind [intro]:
  "rel_sum (=) R r s \<Longrightarrow> (\<And>a b. R a b \<Longrightarrow> rel_sum (=) S (f a) (g b)) \<Longrightarrow> rel_sum (=) S (cbind r f) (cbind s g)"
  by (auto elim!: rel_sum.cases)

lemma rel_cbind_same:
  "(\<And>a. rel_sum (=) S (f a) (g a)) \<Longrightarrow> rel_sum (=) S (cbind r f) (cbind r g)"
  by (cases r) auto

lemma makes_Nil [simp]: "makes [] (\<lambda>v. [])"
  by (simp add: makes_def exec_code_def)

lemma makes_append: "makes c f \<Longrightarrow> makes d g \<Longrightarrow> makes (c @ d) (\<lambda>v. f v @ g v)"
  by (simp add: makes_def exec_append)

section \<open>The pieces\<close>

definition older :: "nat \<Rightarrow> operand \<Rightarrow> bool" where
  "older n x \<longleftrightarrow> (\<forall>t. x = Tmp t \<longrightarrow> t < n)"

lemma older_simps [simp]:
  "older n (Imm k)" "older n (Val r)" "older n (Arg a)" "older n (Fun f)" "older n (Tmp t) \<longleftrightarrow> t < n"
  by (simp_all add: older_def)

lemma older_no_tmp: "no_tmp x \<Longrightarrow> older n x"
  by (simp add: no_tmp_def older_def)

lemma no_tmp_simps [simp]: "no_tmp (Imm k)" "no_tmp (Val r)" "no_tmp (Arg a)" "no_tmp (Fun f)" "\<not> no_tmp (Tmp t)"
  by (simp_all add: no_tmp_def)

lemma view_pack [simp]: "view (exec_code (pack_code n i) m) = view m"
  by (simp add: view_def exec_simps)

lemma view_call [simp]: "view (exec_code [Call f xs] m) = view m"
  by (simp add: view_def exec_code_def)

lemma view_end_code [simp]: "view (exec_code (end_code ptr sz) m) = view m"
  by (simp add: view_def exec_end_addr)

lemma older_pack: "older n x \<Longrightarrow> operand_value (exec_code (pack_code n i) m) x = operand_value m x"
  by (cases x) (simp_all add: exec_pack_frame)

lemma id_in_view: "id_in (view m) i = packed i (rec_counter m)"
  by (simp add: id_in_def view_def)

text \<open>One report for each identifier, the identifier packed in front of it.\<close>

fun each_code :: "(operand \<Rightarrow> ir) \<Rightarrow> nat \<Rightarrow> u16 list \<Rightarrow> ir list" where
  "each_code g n [] = []"
| "each_code g n (d # ds) = pack_code n d @ g (Tmp (n + 8)) # each_code g (n + 9) ds"

lemma run_for_each:
  "run_state (for_each (\<lambda>d. do { p \<leftarrow> pack_id d; CreateCall f (xs p) }) ds) (n, is) =
     ((), (n + 9 * length ds, is @ each_code (\<lambda>p. Call f (xs p)) n ds))"
  by (induction ds arbitrary: n "is") (simp_all add: run_pack run_call State_Monad.return_def)

lemma quiet_each [simp]: "quiet (each_code (\<lambda>p. Call f (xs p)) n ds)"
  by (induction ds arbitrary: n) simp_all

lemma exec_each:
  assumes "list_all (older n) xs" and "list_all (older n) ys"
    and "\<And>m d. linked (f, map (operand_value m) xs @ packed d (rec_counter m) # map (operand_value m) ys) =
      Some (call (packed d (rec_counter m)) (map (operand_value m) ys))"
  shows "map linked (calls (exec_code (each_code (\<lambda>p. Call f (xs @ p # ys)) n ds) m)) = map linked (calls m) @
      map Some (map (\<lambda>d. call (id_in (view m) d) (map (operand_value m) ys)) ds) \<and>
    view (exec_code (each_code (\<lambda>p. Call f (xs @ p # ys)) n ds) m) = view m"
  using assms(1,2)
proof (induction ds arbitrary: n m)
  case Nil
  then show ?case by (simp add: exec_code_def)
next
  case (Cons d ds)
  let ?m1 = "exec_code (pack_code n d) m"
  let ?m2 = "exec_code [Call f (xs @ Tmp (n + 8) # ys)] ?m1"
  have same: "map (operand_value ?m2) zs = map (operand_value m) zs" "map (operand_value ?m1) zs = map (operand_value m) zs"
    if "list_all (older n) zs" for zs
  proof -
    have "operand_value ?m2 x = operand_value ?m1 x" for x
      by (cases x) (simp_all add: exec_code_def)
    then show "map (operand_value ?m2) zs = map (operand_value m) zs" "map (operand_value ?m1) zs = map (operand_value m) zs"
      using that by (auto simp: list_all_iff older_pack)
  qed
  have older: "list_all (older (n + 9)) xs" "list_all (older (n + 9)) ys"
    using Cons.prems by (auto simp: list_all_iff older_def)
  have "calls ?m2 = calls m @ [(f, map (operand_value m) xs @ packed d (rec_counter m) # map (operand_value m) ys)]"
    using same(2) [OF Cons.prems(1)] same(2) [OF Cons.prems(2)] exec_pack_value [of n d m]
    by (simp add: exec_call exec_pack_frame)
  then have c: "map linked (calls ?m2) = map linked (calls m) @ [Some (call (id_in (view m) d) (map (operand_value m) ys))]"
    using assms(3) [of m d] by (simp add: id_in_view)
  have split: "exec_code (each_code (\<lambda>p. Call f (xs @ p # ys)) n (d # ds)) m =
      exec_code (each_code (\<lambda>p. Call f (xs @ p # ys)) (n + 9) ds) ?m2"
    by (simp add: exec_code_def)
  show ?case
    using Cons.IH [OF older, of ?m2] c same(1) [OF Cons.prems(2)] unfolding split by simp
qed

lemma each_makes:
  assumes "list_all no_tmp xs" and "list_all no_tmp ys"
    and "\<And>v i. linked (f, map (seen v) xs @ i # map (seen v) ys) = Some (call i (map (seen v) ys))"
  shows "makes (each_code (\<lambda>p. Call f (xs @ p # ys)) n ds) (\<lambda>v. map (\<lambda>d. call (id_in v d) (map (seen v) ys)) ds)"
proof -
  have eq: "map (operand_value m) xs = map (seen (view m)) xs" "map (operand_value m) ys = map (seen (view m)) ys" for m
    using assms(1,2) by (auto simp: list_all_iff seen_operand)
  have "list_all (older n) xs" "list_all (older n) ys"
    using assms(1,2) by (auto simp: list_all_iff older_no_tmp)
  from exec_each [OF this, of f call] assms(3) show ?thesis
    unfolding makes_def eq by simp
qed

text \<open>The product of the sizes of calloc is a temporary in front of the reports.\<close>

lemma each_makes_product:
  assumes "list_all no_tmp xs" and "list_all no_tmp ys" "list_all no_tmp zs" "no_tmp a" "no_tmp b"
    and "\<And>v i n. linked (f, map (seen v) xs @ i # map (seen v) ys @ n # map (seen v) zs) = Some (call i (map (seen v) ys @ n # map (seen v) zs))"
  shows "makes (Bin 0 Mul_Op a b # each_code (\<lambda>p. Call f (xs @ p # ys @ Tmp 0 # zs)) 1 ds)
      (\<lambda>v. map (\<lambda>d. call (id_in v d) (map (seen v) ys @ (seen v a * seen v b) # map (seen v) zs)) ds)"
  unfolding makes_def
proof
  fix m
  let ?m1 = "exec_ir (Bin 0 Mul_Op a b) m"
  have v: "view ?m1 = view m" by (simp add: view_def set_tmp_def)
  have eq: "map (operand_value m') us = map (seen (view m')) us" if "list_all no_tmp us" for us m'
    using that by (auto simp: list_all_iff seen_operand)
  have z: "operand_value ?m1 (Tmp 0) = seen (view m) a * seen (view m) b"
    using assms(4,5) by (simp add: set_tmp_def seen_operand)
  have old: "list_all (older 1) xs" "list_all (older 1) (ys @ Tmp 0 # zs)"
    using assms(1-3) by (auto simp: list_all_iff older_no_tmp)
  have c: "calls ?m1 = calls m" by (simp add: set_tmp_def)
  have go: "exec_code (Bin 0 Mul_Op a b # code) m = exec_code code ?m1" for code
    by (simp add: exec_code_def)
  have "linked (f, map (operand_value m') xs @ packed d (rec_counter m') # map (operand_value m') (ys @ Tmp 0 # zs)) =
      Some (call (packed d (rec_counter m')) (map (operand_value m') (ys @ Tmp 0 # zs)))" for m' d
    using assms(6) by (simp add: eq [OF assms(1)] eq [OF assms(2)] eq [OF assms(3)])
  from exec_each [OF old this, where m = ?m1 and ds = ds]
  show "map linked (calls (exec_code (Bin 0 Mul_Op a b # each_code (\<lambda>p. Call f (xs @ p # ys @ Tmp 0 # zs)) 1 ds) m)) =
      map linked (calls m) @ map Some (map (\<lambda>d. call (id_in (view m) d)
        (map (seen (view m)) ys @ (seen (view m) a * seen (view m) b) # map (seen (view m)) zs)) ds) \<and>
    view (exec_code (Bin 0 Mul_Op a b # each_code (\<lambda>p. Call f (xs @ p # ys @ Tmp 0 # zs)) 1 ds) m) = view m"
    unfolding go v c z map_append list.map(2) eq [OF assms(2)] eq [OF assms(3)] .
qed

lemma dyn_built:
  "built (for_each (\<lambda>d. do { p \<leftarrow> pack_id d; CreateCall f (ys p) }) ds) = each_code (\<lambda>p. Call f (ys p)) 0 ds"
  "built (do { sz \<leftarrow> CreateBin Mul_Op a b; for_each (\<lambda>d. do { p \<leftarrow> pack_id d; CreateCall f (xs sz p) }) ds }) =
     Bin 0 Mul_Op a b # each_code (\<lambda>p. Call f (xs (Tmp 0) p)) 1 ds"
  by (simp_all add: built_def run_for_each CreateBin_def emit_def fresh_def)

lemma dyn_size_cases:
  assumes "\<And>n. n \<in> set xs \<Longrightarrow> P (Inr (Some (State_Monad.return n))) (Inr (Some (\<lambda>v. seen v n)))"
    and "\<And>n k. n \<in> set xs \<Longrightarrow> k \<in> set xs \<Longrightarrow> P (Inr (Some (CreateBin Mul_Op n k))) (Inr (Some (\<lambda>v. seen v n * seen v k)))"
    and "P (Inr None) (Inr None)" and "\<And>e. P (Inl e) (Inl e)"
  shows "P (dyn_size called xs) (dyn_bytes called xs)"
proof (cases "called = ''calloc''")
  case True
  show ?thesis
  proof (cases "getOperand called xs 1")
    case (Inr k)
    then show ?thesis using assms True getOperand_cases [OF Inr] by (auto simp: dyn_size_def dyn_bytes_def c_read_def)
  qed (use assms True in \<open>auto simp: dyn_size_def dyn_bytes_def c_read_def\<close>)
qed (use assms in \<open>auto simp: dyn_size_def dyn_bytes_def c_read_def\<close>)

lemma alloca_dyn_fulfils:
  assumes "list_all no_tmp xs"
  shows "fulfils (alloca_dyn tag r callee xs) (dyn_spec Collect_Alloca_Dyn tag r callee xs)"
  unfolding alloca_dyn_def dyn_spec_def
proof (rule rel_cbind_same)
  fix called
  show "fulfils (cbind (dyn_size called xs) (\<lambda>sz. case sz of None \<Rightarrow> Inr []
      | Some make_size \<Rightarrow> cbind (def_ids tag) (\<lambda>ds. Inr (built (do { size \<leftarrow> make_size;
          for_each (\<lambda>d. do { defParam \<leftarrow> pack_id d; CreateCall ''zbouncer_collect_alloca_dyn'' [defParam, Val r, size] }) ds })))))
    (cbind (dyn_bytes called xs) (\<lambda>sz. case sz of None \<Rightarrow> Inr (\<lambda>v. [])
      | Some bytes \<Rightarrow> cbind (def_ids tag) (\<lambda>ds. Inr (\<lambda>v. map (\<lambda>d. Collect_Alloca_Dyn (id_in v d) (seen v (Val r)) (bytes v)) ds))))"
  proof (rule dyn_size_cases, goal_cases)
    case (1 n)
    then have "no_tmp n" using assms by (auto simp: list_all_iff)
    then show ?case
      using each_makes [of "[]" "[Val r, n]" "''zbouncer_collect_alloca_dyn''" "\<lambda>i xs. Collect_Alloca_Dyn i (xs ! 0) (xs ! 1)"]
      by (auto intro!: rel_cbind_same simp: dyn_built linked_def)
  next
    case (2 n k)
    then have "no_tmp n" "no_tmp k" using assms by (auto simp: list_all_iff)
    then show ?case
      using each_makes_product [of "[]" "[Val r]" "[]" n k "''zbouncer_collect_alloca_dyn''" "\<lambda>i xs. Collect_Alloca_Dyn i (xs ! 0) (xs ! 1)"]
      by (auto intro!: rel_cbind_same simp: dyn_built linked_def)
  qed simp_all
qed

lemma loop_dyn_fulfils:
  assumes "list_all no_tmp xs"
  shows "fulfils (loop_dyn tag r callee xs) (dyn_spec (\<lambda>i a n. Collect_Entry T_dalloca i a 0 n 0) tag r callee xs)"
  unfolding loop_dyn_def dyn_spec_def
proof (rule rel_cbind_same)
  fix called
  let ?f = "''zbouncer_collect_entry''"
  show "fulfils (cbind (dyn_size called xs) (\<lambda>sz. case sz of None \<Rightarrow> Inr []
      | Some make_size \<Rightarrow> cbind (def_ids tag) (\<lambda>ds. Inr (built (do { size \<leftarrow> make_size;
          for_each (\<lambda>d. do { defParam \<leftarrow> pack_id d; CreateCall ?f [Imm 5, defParam, Val r, Imm 0, size, Imm 0] }) ds })))))
    (cbind (dyn_bytes called xs) (\<lambda>sz. case sz of None \<Rightarrow> Inr (\<lambda>v. [])
      | Some bytes \<Rightarrow> cbind (def_ids tag) (\<lambda>ds. Inr (\<lambda>v.
          map (\<lambda>d. Collect_Entry T_dalloca (id_in v d) (seen v (Val r)) 0 (bytes v) 0) ds))))"
  proof (rule dyn_size_cases, goal_cases)
    case (1 n)
    then have "no_tmp n" using assms by (auto simp: list_all_iff)
    then show ?case
      using each_makes [of "[Imm 5]" "[Val r, Imm 0, n, Imm 0]" ?f "\<lambda>i xs. Collect_Entry T_dalloca i (xs ! 0) 0 (xs ! 2) 0"]
      by (auto intro!: rel_cbind_same simp: dyn_built linked_def entry_type_of_def)
  next
    case (2 n k)
    then have "no_tmp n" "no_tmp k" using assms by (auto simp: list_all_iff)
    then show ?case
      using each_makes_product [of "[Imm 5]" "[Val r, Imm 0]" "[Imm 0]" n k ?f "\<lambda>i xs. Collect_Entry T_dalloca i (xs ! 0) 0 (xs ! 2) 0"]
      by (auto intro!: rel_cbind_same simp: dyn_built linked_def entry_type_of_def)
  qed simp_all
qed

lemma alloca_def_fulfils: "fulfils (alloca_def tag r) (var_spec Collect_Alloca tag r)"
  unfolding alloca_def_def var_spec_def
  using each_makes [of "[]" "[Val r]" "''zbouncer_collect_alloca''" "\<lambda>i xs. Collect_Alloca i (xs ! 0)"]
  by (auto intro!: rel_cbind_same simp: dyn_built linked_def)

lemma loop_alloca_fulfils: "fulfils (loop_alloca tag r) (var_spec (\<lambda>i a. Collect_Entry T_dalloca i a 0 0 0) tag r)"
  unfolding loop_alloca_def var_spec_def
  using each_makes [of "[Imm 5]" "[Val r, Imm 0, Imm 0, Imm 0]" "''zbouncer_collect_entry''"
      "\<lambda>i xs. Collect_Entry T_dalloca i (xs ! 0) 0 0 0"]
  by (auto intro!: rel_cbind_same simp: dyn_built linked_def entry_type_of_def)

text \<open>The code of a use: the end of the store, the packed identifier, the call.\<close>

lemma store_makes:
  assumes "no_tmp ptr" "list_all no_tmp xs" "list_all no_tmp ys"
    and "\<And>v i e. linked (f, map (seen v) ys @ [i, e] @ map (seen v) xs) = Some (call i (map (seen v) xs) e)"
  shows "makes (end_code ptr sz @ pack_code 3 u @ [Call f (ys @ [Tmp 11, Tmp 2] @ xs)])
      (\<lambda>v. [call (id_in v u) (map (seen v) xs) (seen v ptr + sz)])"
proof -
  have eq: "map (operand_value m) zs = map (seen (view m)) zs" if "list_all no_tmp zs" for zs m
    using that by (auto simp: list_all_iff seen_operand)
  show ?thesis
    unfolding makes_def exec_store_report [OF assms(2,3)] map_append eq [OF assms(2)] eq [OF assms(3)]
    using assms(1,4) by (simp add: exec_append id_in_view seen_operand)
qed

lemma iuse_makes:
  assumes "no_tmp ptr" "no_tmp d"
  shows "makes (end_code ptr sz @ pack_code 3 u @ [Call ''zbouncer_iuse'' [Tmp 11, d, Tmp 2]])
      (\<lambda>v. [Report_Iuse (id_in v u) (seen v d) (seen v ptr + sz)])"
  unfolding makes_def
proof
  fix m
  let ?m1 = "exec_code (end_code ptr sz) m"
  let ?m2 = "exec_code (pack_code 3 u) ?m1"
  have "tmps ?m2 11 = id_in (view m) u" "tmps ?m2 2 = seen (view m) ptr + sz" "operand_value ?m2 d = seen (view m) d"
    using exec_pack_value [of 3 u ?m1] exec_pack_frame(1) [of 2 3 u ?m1] exec_end_addr [where ptr = ptr and sz = sz and m = m]
      assms by (simp_all add: id_in_view seen_operand)
  then show "map linked (calls (exec_code (end_code ptr sz @ pack_code 3 u @ [Call ''zbouncer_iuse'' [Tmp 11, d, Tmp 2]]) m)) =
      map linked (calls m) @ map Some [Report_Iuse (id_in (view m) u) (seen (view m) d) (seen (view m) ptr + sz)] \<and>
    view (exec_code (end_code ptr sz @ pack_code 3 u @ [Call ''zbouncer_iuse'' [Tmp 11, d, Tmp 2]]) m) = view m"
    unfolding exec_append exec_call by (simp add: exec_pack_frame exec_end_addr linked_def)
qed

lemma library_makes:
  assumes "list_all no_tmp xs" "list_all no_tmp ys"
    and "\<And>v i. linked (f, map (seen v) ys @ [i] @ map (seen v) xs) = Some (call i (map (seen v) xs))"
  shows "makes (pack_code 0 u @ [Call f (ys @ Tmp 8 # xs)]) (\<lambda>v. [call (id_in v u) (map (seen v) xs)])"
  using each_makes [of ys xs f call 0 "[u]"] assms by simp

lemma find_arg_no_tmp: "find_arg params iuse = Inr d \<Longrightarrow> no_tmp d"
  by (auto simp: find_arg_def split: if_splits)

lemma write_target_no_tmp: "write_target callee xs = Inr (a, n) \<Longrightarrow> list_all no_tmp xs \<Longrightarrow> no_tmp a \<and> no_tmp n"
  by (auto simp: write_target_def cbind_eq_Inr list_all_iff dest!: getOperand_cases split: if_splits)

lemma rel_cbind_result:
  "(\<And>a. r = Inr a \<Longrightarrow> rel_sum (=) S (f a) (g a)) \<Longrightarrow> rel_sum (=) S (cbind r f) (cbind r g)"
  by (cases r) auto

lemma store_use_fulfils:
  assumes "no_tmp ptr"
  shows "fulfils (store_use params tag ziuse ptr sz) (use_spec Report_Use Report_Iuse params tag ziuse ptr sz)"
  unfolding store_use_def use_spec_def
  using store_makes [OF assms, of "[]" "[]" "''zbouncer_use''" "\<lambda>i xs e. Report_Use i e"] iuse_makes [OF assms]
  by (auto intro!: rel_cbind_result dest!: find_arg_no_tmp simp: linked_def built_def run_end_addr run_pack run_call split: option.splits)

lemma loop_store_fulfils:
  assumes "no_tmp ptr"
  shows "fulfils (loop_store params tag ziuse ptr sz)
    (use_spec (\<lambda>i e. Collect_Entry T_iuse i e 0 0 0) (\<lambda>i d e. Collect_Entry T_iuse i e d 0 0) params tag ziuse ptr sz)"
  unfolding loop_store_def use_spec_def
  using store_makes [OF assms, of "[d, Imm 0, Imm 0]" "[Imm 3]" "''zbouncer_collect_entry''" "\<lambda>i xs e. Collect_Entry T_iuse i e (xs ! 0) 0 0" for d]
    store_makes [OF assms, of "[Imm 0, Imm 0, Imm 0]" "[Imm 3]" "''zbouncer_collect_entry''" "\<lambda>i xs e. Collect_Entry T_iuse i e 0 0 0"]
  by (auto intro!: rel_cbind_result dest!: find_arg_no_tmp simp: linked_def entry_type_of_def built_def run_end_addr run_pack run_call split: option.splits)

lemma library_use_fulfils:
  assumes "list_all no_tmp xs"
  shows "fulfils (library_use params tag ziuse callee xs) (lib_spec Report_Luse Report_Iluse params tag ziuse callee xs)"
  unfolding library_use_def lib_spec_def
  using library_makes [of "[a, n]" "[]" "''zbouncer_luse''" "\<lambda>i xs. Report_Luse i (xs ! 0) (xs ! 1)" for a n]
    library_makes [of "[d, a, n]" "[]" "''zbouncer_iluse''" "\<lambda>i xs. Report_Iluse i (xs ! 0) (xs ! 1) (xs ! 2)" for d a n]
  by (auto intro!: rel_cbind_result dest!: find_arg_no_tmp write_target_no_tmp [OF _ assms]
      simp: linked_def built_def run_pack run_call split: option.splits)

lemma loop_luse_fulfils:
  assumes "list_all no_tmp xs"
  shows "fulfils (loop_luse params tag ziuse callee xs)
    (lib_spec (\<lambda>i a n. Collect_Entry T_libuse i a 0 0 n) (\<lambda>i d a n. Collect_Entry T_ilibuse i a d 0 n) params tag ziuse callee xs)"
  unfolding loop_luse_def lib_spec_def
  using library_makes [of "[a, Imm 0, Imm 0, n]" "[Imm 2]" "''zbouncer_collect_entry''" "\<lambda>i xs. Collect_Entry T_libuse i (xs ! 0) 0 0 (xs ! 3)" for a n]
    library_makes [of "[a, d, Imm 0, n]" "[Imm 4]" "''zbouncer_collect_entry''" "\<lambda>i xs. Collect_Entry T_ilibuse i (xs ! 0) (xs ! 1) 0 (xs ! 3)" for a d n]
  by (auto intro!: rel_cbind_result dest!: find_arg_no_tmp write_target_no_tmp [OF _ assms]
      simp: linked_def entry_type_of_def built_def run_pack run_call split: option.splits)

end
