(* ===== verification/Instrument_Blocks.thy ===== *)
theory Instrument_Blocks
  imports Instrument_Spec
begin

text \<open>
  From one instruction to whole modules: how each phase of the pass rewrites a block, and
  what the calls of an instrumented block are.
\<close>

section \<open>The calls promised for an instruction\<close>

definition tagged :: "string option \<Rightarrow> (string \<Rightarrow> report c) \<Rightarrow> report c" where
  "tagged tag f = (case tag of None \<Rightarrow> Inr (\<lambda>v. []) | Some text \<Rightarrow> f text)"

definition def_calls :: "instr \<Rightarrow> report c" where
  "def_calls i = tagged (attached i ''zdef'') (\<lambda>tag.
     case opcode i of
       Op_Call callee xs \<Rightarrow> dyn_spec Collect_Alloca_Dyn tag (result i) callee xs
     | _ \<Rightarrow> var_spec Collect_Alloca tag (result i))"

definition store_calls :: "string list \<Rightarrow> instr \<Rightarrow> report c" where
  "store_calls params i = tagged (attached i ''zsuse'') (\<lambda>tag.
     cbind (store_operand (opcode i)) (\<lambda>(ptr, sz).
     use_spec Report_Use Report_Iuse params tag (attached i ''ziuse'') ptr sz))"

definition library_calls :: "string list \<Rightarrow> instr \<Rightarrow> report c" where
  "library_calls params i = tagged (attached i ''zluse'') (\<lambda>tag.
     cbind (call_operands (opcode i)) (\<lambda>(callee, xs).
     lib_spec Report_Luse Report_Iluse params tag (attached i ''ziuse'') callee xs))"

text \<open>In a loop every tag is reported once more, through the entries of the cache.\<close>

definition loop_calls :: "string list \<Rightarrow> instr \<Rightarrow> report c" where
  "loop_calls params i =
     (case (attached i ''zdef'', opcode i) of
        (Some tag, Op_Call callee xs) \<Rightarrow>
          dyn_spec (\<lambda>d a n. Collect_Entry T_dalloca d a 0 n 0) tag (result i) callee xs
      | (zdef, oc) \<Rightarrow>
          cbind (tagged zdef (\<lambda>tag. var_spec (\<lambda>d a. Collect_Entry T_dalloca d a 0 0 0) tag (result i))) (\<lambda>ds.
          cbind (tagged (attached i ''zsuse'') (\<lambda>tag. cbind (store_operand oc) (\<lambda>(ptr, sz).
            use_spec (\<lambda>u e. Collect_Entry T_iuse u e 0 0 0) (\<lambda>u d e. Collect_Entry T_iuse u e d 0 0)
              params tag (attached i ''ziuse'') ptr sz))) (\<lambda>us.
          cbind (tagged (attached i ''zluse'') (\<lambda>tag. cbind (call_operands oc) (\<lambda>(callee, xs).
            lib_spec (\<lambda>u a n. Collect_Entry T_libuse u a 0 0 n) (\<lambda>u d a n. Collect_Entry T_ilibuse u a d 0 n)
              params tag (attached i ''ziuse'') callee xs))) (\<lambda>ls.
          Inr (\<lambda>v. ls v @ us v @ ds v)))))"

definition instr_calls :: "string list \<Rightarrow> bool \<Rightarrow> instr \<Rightarrow> report c" where
  "instr_calls params in_loop i =
     cbind (if in_loop then loop_calls params i else Inr (\<lambda>v. [])) (\<lambda>os.
     cbind (def_calls i) (\<lambda>ds.
     cbind (store_calls params i) (\<lambda>us.
     cbind (library_calls params i) (\<lambda>ls.
     Inr (\<lambda>v. ls v @ us v @ ds v @ os v)))))"

text \<open>The operands of a program hold no temporaries of injected code.\<close>

fun own_operands :: "opcode \<Rightarrow> bool" where
  "own_operands (Op_Call callee xs) \<longleftrightarrow> list_all no_tmp xs"
| "own_operands (Op_Store v ptr sz) \<longleftrightarrow> no_tmp ptr"
| "own_operands _ \<longleftrightarrow> True"

lemma if_tagged_fulfils:
  "(\<And>text. tag = Some text \<Longrightarrow> fulfils (f text) (g text)) \<Longrightarrow> fulfils (if_tagged tag f) (tagged tag g)"
  by (cases tag) (simp_all add: if_tagged_def tagged_def)

lemma store_operand_own: "store_operand oc = Inr (ptr, sz) \<Longrightarrow> own_operands oc \<Longrightarrow> no_tmp ptr"
  by (cases oc) auto

lemma call_operands_own: "call_operands oc = Inr (callee, xs) \<Longrightarrow> own_operands oc \<Longrightarrow> list_all no_tmp xs"
  by (cases oc) auto

lemmas piece_fulfils = alloca_dyn_fulfils loop_dyn_fulfils alloca_def_fulfils loop_alloca_fulfils
  store_use_fulfils loop_store_fulfils library_use_fulfils loop_luse_fulfils

lemma def_instr_fulfils: "own_operands (opcode i) \<Longrightarrow> fulfils (def_instr i) (def_calls i)"
  unfolding def_instr_def def_calls_def
  by (rule if_tagged_fulfils) (cases "opcode i"; simp add: piece_fulfils)

lemma store_instr_fulfils: "own_operands (opcode i) \<Longrightarrow> fulfils (store_instr params i) (store_calls params i)"
  unfolding store_instr_def store_calls_def
  by (rule if_tagged_fulfils, rule rel_cbind_result) (auto intro!: store_use_fulfils dest: store_operand_own)

lemma library_instr_fulfils: "own_operands (opcode i) \<Longrightarrow> fulfils (library_instr params i) (library_calls params i)"
  unfolding library_instr_def library_calls_def
  by (rule if_tagged_fulfils, rule rel_cbind_result) (auto intro!: library_use_fulfils dest: call_operands_own)

lemma loop_rest_fulfils:
  assumes "own_operands oc"
  shows "fulfils
    (cbind (if_tagged zdef (\<lambda>text. loop_alloca text (result i))) (\<lambda>ds.
     cbind (if_tagged (attached i ''zsuse'') (\<lambda>text. cbind (store_operand oc) (\<lambda>(ptr, sz).
       loop_store params text (attached i ''ziuse'') ptr sz))) (\<lambda>us.
     cbind (if_tagged (attached i ''zluse'') (\<lambda>text. cbind (call_operands oc) (\<lambda>(callee, xs).
       loop_luse params text (attached i ''ziuse'') callee xs))) (\<lambda>ls.
     Inr (ls @ us @ ds)))))
    (cbind (tagged zdef (\<lambda>tag. var_spec (\<lambda>d a. Collect_Entry T_dalloca d a 0 0 0) tag (result i))) (\<lambda>ds.
     cbind (tagged (attached i ''zsuse'') (\<lambda>tag. cbind (store_operand oc) (\<lambda>(ptr, sz).
       use_spec (\<lambda>u e. Collect_Entry T_iuse u e 0 0 0) (\<lambda>u d e. Collect_Entry T_iuse u e d 0 0)
         params tag (attached i ''ziuse'') ptr sz))) (\<lambda>us.
     cbind (tagged (attached i ''zluse'') (\<lambda>tag. cbind (call_operands oc) (\<lambda>(callee, xs).
       lib_spec (\<lambda>u a n. Collect_Entry T_libuse u a 0 0 n) (\<lambda>u d a n. Collect_Entry T_ilibuse u a d 0 n)
         params tag (attached i ''ziuse'') callee xs))) (\<lambda>ls.
     Inr (\<lambda>v. ls v @ us v @ ds v)))))"
proof -
  have d: "fulfils (if_tagged zdef (\<lambda>text. loop_alloca text (result i)))
      (tagged zdef (\<lambda>tag. var_spec (\<lambda>d a. Collect_Entry T_dalloca d a 0 0 0) tag (result i)))"
    by (rule if_tagged_fulfils) (rule piece_fulfils)
  have s: "fulfils (if_tagged (attached i ''zsuse'') (\<lambda>text. cbind (store_operand oc) (\<lambda>(ptr, sz).
       loop_store params text (attached i ''ziuse'') ptr sz)))
     (tagged (attached i ''zsuse'') (\<lambda>tag. cbind (store_operand oc) (\<lambda>(ptr, sz).
       use_spec (\<lambda>u e. Collect_Entry T_iuse u e 0 0 0) (\<lambda>u d e. Collect_Entry T_iuse u e d 0 0)
         params tag (attached i ''ziuse'') ptr sz)))"
    by (rule if_tagged_fulfils, rule rel_cbind_result)
       (auto intro!: loop_store_fulfils dest: store_operand_own [OF _ assms])
  have l: "fulfils (if_tagged (attached i ''zluse'') (\<lambda>text. cbind (call_operands oc) (\<lambda>(callee, xs).
       loop_luse params text (attached i ''ziuse'') callee xs)))
     (tagged (attached i ''zluse'') (\<lambda>tag. cbind (call_operands oc) (\<lambda>(callee, xs).
       lib_spec (\<lambda>u a n. Collect_Entry T_libuse u a 0 0 n) (\<lambda>u d a n. Collect_Entry T_ilibuse u a d 0 n)
         params tag (attached i ''ziuse'') callee xs)))"
    by (rule if_tagged_fulfils, rule rel_cbind_result)
       (auto intro!: loop_luse_fulfils dest: call_operands_own [OF _ assms])
  show ?thesis
    by (rule rel_cbind [OF d], rule rel_cbind [OF s], rule rel_cbind [OF l]) (auto intro!: makes_append)
qed

lemma loop_instr_fulfils: "own_operands (opcode i) \<Longrightarrow> fulfils (loop_instr params i) (loop_calls params i)"
  unfolding loop_instr_def loop_calls_def
  using loop_rest_fulfils [of "opcode i" "attached i ''zdef''" i params]
  by (cases "attached i ''zdef''"; cases "opcode i") (simp_all add: piece_fulfils)

section \<open>Blocks\<close>

lemma c_map_nth: "c_map f xs = Inr ys \<longleftrightarrow> length ys = length xs \<and> (\<forall>j < length xs. f (xs ! j) = Inr (ys ! j))"
proof (induction xs arbitrary: ys)
  case Nil
  then show ?case by auto
next
  case (Cons x xs)
  then show ?case by (cases ys) (auto simp: cbind_eq_Inr nth_Cons' All_less_Suc2)
qed

lemma inject_quiet: "quiet c \<Longrightarrow> rewrite_block (inject_after f) (c @ b) = cbind (rewrite_block (inject_after f) b) (\<lambda>b'. Inr (c @ b'))"
proof (induction c)
  case Nil
  then show ?case by (cases "rewrite_block (inject_after f) b") simp_all
next
  case (Cons x c)
  then have "inject_after f x = Inr [x]" "quiet c"
    by (auto simp: inject_after_def quiet_def split: ir.splits)
  with Cons.IH show ?case
    by (cases "c_map (inject_after f) (c @ b)"; cases "c_map (inject_after f) b")
       (auto simp: rewrite_block_def)
qed

text \<open>An instruction of the block with the code behind it: they make the calls promised.\<close>

inductive covers :: "instr list \<Rightarrow> report list \<Rightarrow> ir list \<Rightarrow> bool" where
  covers_Nil: "covers [] [] []"
| covers_Cons: "makes c f \<Longrightarrow> quiet c \<Longrightarrow> covers is fs b \<Longrightarrow> covers (i # is) (f # fs) (Prog i # c @ b)"

lemma covers_program: "covers is (map (\<lambda>i v. []) is) (map Prog is)"
proof (induction "is")
  case Nil
  then show ?case by (simp add: covers_Nil)
next
  case (Cons i "is")
  from covers_Cons [OF makes_Nil _ Cons, of i] show ?case by simp
qed

lemma covers_calls:
  "covers is fs b \<Longrightarrow> map linked (calls (exec_code b m)) = map linked (calls m) @ map Some (concat (map (\<lambda>f. f (view m)) fs)) \<and>
     view (exec_code b m) = view m"
proof (induction arbitrary: m rule: covers.induct)
  case covers_Nil
  then show ?case by (simp add: exec_code_def)
next
  case (covers_Cons c f "is" fs b i)
  have "exec_code (Prog i # c @ b) m = exec_code b (exec_code c m)" by (simp add: exec_code_def)
  then show ?case using covers_Cons.hyps(1) covers_Cons.IH [of "exec_code c m"] by (simp add: makes_def)
qed

lemma rewrite_Cons:
  "rewrite_block (inject_after f) (Prog i # b) =
     cbind (f i) (\<lambda>c. cbind (rewrite_block (inject_after f) b) (\<lambda>b'. Inr (Prog i # c @ b')))"
  by (cases "f i"; cases "c_map (inject_after f) b") (simp_all add: rewrite_block_def inject_after_def)

lemma covers_rewrite:
  assumes "covers is fs b" and "rewrite_block (inject_after f) b = Inr b'"
    and "\<And>i. i \<in> set is \<Longrightarrow> fulfils (f i) (g i)"
  shows "\<exists>gs. list_all2 (\<lambda>i h. g i = Inr h) is gs \<and> covers is (map2 (\<lambda>h k v. h v @ k v) gs fs) b'"
  using assms
proof (induction arbitrary: b' rule: covers.induct)
  case covers_Nil
  then show ?case by (auto simp: rewrite_block_def covers.covers_Nil)
next
  case (covers_Cons c k "is" fs b i)
  then obtain d b1 where d: "f i = Inr d" and b1: "rewrite_block (inject_after f) b = Inr b1"
    and b': "b' = Prog i # (d @ c) @ b1"
    by (auto simp: rewrite_Cons inject_quiet cbind_eq_Inr)
  obtain h where h: "g i = Inr h" "makes d h" "quiet d"
    using covers_Cons.prems(2) [of i] d by (auto elim: rel_sum.cases)
  obtain gs where "list_all2 (\<lambda>i h. g i = Inr h) is gs" "covers is (map2 (\<lambda>h k v. h v @ k v) gs fs) b1"
    using covers_Cons.IH [OF b1] covers_Cons.prems(2) by auto
  with covers.covers_Cons [OF makes_append [OF h(2) covers_Cons.hyps(1)] _ this(2), of i] h covers_Cons.hyps(2) b'
  show ?case by (intro exI [of _ "h # gs"]) auto
qed

section \<open>Phases over a module\<close>

lemma rewrite_fn_result:
  assumes "rewrite_fn f F = Inr F'"
  shows "fn_name F' = fn_name F" "fn_args F' = fn_args F" "loops F' = loops F" "length (blocks F') = length (blocks F)"
    "k < length (blocks F) \<Longrightarrow> rewrite_block (f F) (blocks F ! k) = Inr (blocks F' ! k)"
  using assms by (auto simp: rewrite_fn_def cbind_eq_Inr c_map_nth)

lemma rewrite_all_result:
  assumes "rewrite_all f M = Inr M'"
  shows "length (fns M') = length (fns M)" "j < length (fns M) \<Longrightarrow> rewrite_fn f (fns M ! j) = Inr (fns M' ! j)"
    "globals M' = globals M"
  using assms by (auto simp: rewrite_all_def cbind_eq_Inr c_map_nth)

lemma loop_block_result:
  assumes "loop_block k F = Inr F'"
  shows "fn_name F' = fn_name F" "fn_args F' = fn_args F" "loops F' = loops F" "length (blocks F') = length (blocks F)"
    "k' \<noteq> k \<Longrightarrow> blocks F' ! k' = blocks F ! k'" "k < length (blocks F)"
    "rewrite_block (inject_after (loop_instr (fn_args F))) (blocks F ! k) = Inr (blocks F' ! k)"
  using assms by (auto simp: loop_block_def cbind_eq_Inr c_read_eq_Inr)

text \<open>The blocks of the loops are rewritten once where no loop shares a block.\<close>

lemma loop_blocks_result:
  assumes "c_run loop_block ks F = Inr F'" and "distinct ks"
  shows "fn_name F' = fn_name F \<and> fn_args F' = fn_args F \<and> loops F' = loops F \<and> length (blocks F') = length (blocks F) \<and>
    (\<forall>k. if k \<in> set ks then rewrite_block (inject_after (loop_instr (fn_args F))) (blocks F ! k) = Inr (blocks F' ! k)
      else blocks F' ! k = blocks F ! k)"
  using assms
proof (induction ks arbitrary: F)
  case Nil
  then show ?case by simp
next
  case (Cons k ks)
  then obtain F1 where F1: "loop_block k F = Inr F1" "c_run loop_block ks F1 = Inr F'" "distinct ks" "k \<notin> set ks"
    by (auto simp: cbind_eq_Inr)
  note r = loop_block_result [OF F1(1)]
  have same: "blocks F1 ! k' = blocks F ! k'" if "k' \<in> set ks" for k' using r(5) [of k'] that F1(4) by blast
  from Cons.IH [OF F1(2,3)] F1(4) show ?case using same by (auto simp: r split: if_splits)
qed

lemma loop_phase_result:
  assumes "loop_phase M = Inr M'" and "j < length (fns M)" and "distinct (concat (loops (fns M ! j)))"
    and "k < length (blocks (fns M ! j))"
  shows "length (fns M') = length (fns M) \<and> fn_name (fns M' ! j) = fn_name (fns M ! j) \<and>
    fn_args (fns M' ! j) = fn_args (fns M ! j) \<and> length (blocks (fns M' ! j)) = length (blocks (fns M ! j)) \<and>
    (if k \<in> set (concat (loops (fns M ! j)))
     then rewrite_block (inject_after (loop_instr (fn_args (fns M ! j)))) (blocks (fns M ! j) ! k) = Inr (blocks (fns M' ! j) ! k)
     else blocks (fns M' ! j) ! k = blocks (fns M ! j) ! k)"
proof -
  let ?F = "fns M ! j"
  have n: "length (fns M') = length (fns M)" and
    "(if blocks ?F = [] then Inr ?F else c_run loop_block (concat (loops ?F)) ?F) = Inr (fns M' ! j)"
    using assms(1,2) by (auto simp: loop_phase_def cbind_eq_Inr c_map_nth)
  then have "c_run loop_block (concat (loops ?F)) ?F = Inr (fns M' ! j)"
    using assms(4) by (auto split: if_splits)
  from loop_blocks_result [OF this assms(3)] n show ?thesis by simp
qed

lemma zinit_phase_result:
  assumes "zinit_phase M = Inr M'" and "j < length (fns M)"
  shows "length (fns M') = length (fns M)" "fn_name (fns M ! j) \<noteq> ''main'' \<Longrightarrow> fns M' ! j = fns M ! j"
  using assms by (auto simp: zinit_phase_def cbind_eq_Inr c_map_nth)

lemma rewrite_block_same: "(\<And>x. x \<in> set b \<Longrightarrow> f x = Inr [x]) \<Longrightarrow> rewrite_block f b = Inr b"
proof (induction b)
  case (Cons x b)
  then show ?case by (cases "c_map f b") (auto simp: rewrite_block_def)
qed (simp add: rewrite_block_def)

lemma zexit_other: "fn_name F \<noteq> ''main'' \<Longrightarrow> rewrite_block (zexit_instr F) b = Inr b"
  by (rule rewrite_block_same) (auto simp: zexit_instr_def split: ir.splits)

lemma covers_items: "covers is fs b \<Longrightarrow> Prog i \<in> set b \<Longrightarrow> i \<in> set is"
  by (induction rule: covers.induct) (auto simp: quiet_def)

definition calls_instrumented :: "instr \<Rightarrow> bool" where
  "calls_instrumented i = (case opcode i of Op_Call (Some callee) xs \<Rightarrow> ends_with callee ''_instrumented'' | _ \<Rightarrow> False)"

lemma call_instr_other: "(\<And>i. x = Prog i \<Longrightarrow> \<not> calls_instrumented i) \<Longrightarrow> call_instr M F x = Inr [x]"
  by (cases x) (auto simp: call_instr_def calls_instrumented_def split: opcode.splits option.splits)

text \<open>
  A block of another function than main makes, for each of its instructions, the calls
  promised.
\<close>

lemma block_calls:
  assumes run: "runOnModule M = Inr M'" and j: "j < length (fns M)" and k: "k < length (blocks (fns M ! j))"
    and F: "F = fns M ! j" "fn_name F \<noteq> ''main''" "distinct (concat (loops F))"
    and b: "blocks F ! k = map Prog is" "\<And>i. i \<in> set is \<Longrightarrow> own_operands (opcode i)"
      "\<And>i. i \<in> set is \<Longrightarrow> \<not> calls_instrumented i"
  shows "\<exists>rs. list_all2 (\<lambda>i r. instr_calls (fn_args F) (k \<in> set (concat (loops F))) i = Inr r) is rs \<and>
    covers is rs (blocks (fns M' ! j) ! k)"
proof -
  let ?in = "k \<in> set (concat (loops F))" and ?ps = "fn_args F"
  obtain M1 M2 M3 M4 M5 M6 where
    m: "loop_phase M = Inr M1" "zinit_phase M1 = Inr M2" "rewrite_all zexit_instr M2 = Inr M3"
      "rewrite_all (\<lambda>F. inject_after def_instr) M3 = Inr M4"
      "rewrite_all (\<lambda>F. inject_after (store_instr (fn_args F))) M4 = Inr M5"
      "rewrite_all (\<lambda>F. inject_after (library_instr (fn_args F))) M5 = Inr M6"
      "rewrite_all (call_instr M6) M6 = Inr M'"
    using runOnModule_phases [OF run] by (auto simp: run_phases_def use_phases_def cbind_eq_Inr)
  note l = loop_phase_result [OF m(1) j F(3) [unfolded F(1)] k, folded F(1)]
  have b1: "if ?in then rewrite_block (inject_after (loop_instr ?ps)) (map Prog is) = Inr (blocks (fns M1 ! j) ! k)
      else blocks (fns M1 ! j) ! k = map Prog is"
    using l unfolding b(1) by blast
  obtain os where os: "list_all2 (\<lambda>i r. (if ?in then loop_calls ?ps i else Inr (\<lambda>v. [])) = Inr r) is os"
    "covers is os (blocks (fns M1 ! j) ! k)"
  proof (cases ?in)
    case True
    then have r: "rewrite_block (inject_after (loop_instr ?ps)) (map Prog is) = Inr (blocks (fns M1 ! j) ! k)" using b1 by simp
    obtain gs where gs: "list_all2 (\<lambda>i h. loop_calls ?ps i = Inr h) is gs"
      "covers is (map2 (\<lambda>h k v. h v @ k v) gs (map (\<lambda>i v. []) is)) (blocks (fns M1 ! j) ! k)"
      using covers_rewrite [OF covers_program r loop_instr_fulfils] b(2) by blast
    have "map2 (\<lambda>h k v. h v @ k v) gs (map (\<lambda>i v. []) is) = gs"
      using list_all2_lengthD [OF gs(1)] by (intro nth_equalityI) auto
    with gs show thesis using that [of gs] True by simp
  next
    case False
    then show thesis using that [of "map (\<lambda>i v. []) is"] b1 covers_program [of "is"]
      by (simp add: list_all2_conv_all_nth)
  qed
  have n: "j < length (fns M1)" "fn_name (fns M1 ! j) \<noteq> ''main''" using l k j F by auto
  note z = zinit_phase_result [OF m(2) n(1)]
  have j2: "j < length (fns M2)" and M2: "fns M2 ! j = fns M1 ! j" using z n by auto
  note r3 = rewrite_all_result [OF m(3)] rewrite_all_result [OF m(4)] rewrite_all_result [OF m(5)]
    rewrite_all_result [OF m(6)] rewrite_all_result [OF m(7)]
  have j3: "j < length (fns M3)" "j < length (fns M4)" "j < length (fns M5)" "j < length (fns M6)" using r3 j2 by auto
  note f3 = rewrite_fn_result [OF r3(2) [OF j2]] and f4 = rewrite_fn_result [OF r3(5) [OF j3(1)]]
    and f5 = rewrite_fn_result [OF r3(8) [OF j3(2)]] and f6 = rewrite_fn_result [OF r3(11) [OF j3(3)]]
    and f7 = rewrite_fn_result [OF r3(14) [OF j3(4)]]
  have args: "fn_args (fns M4 ! j) = ?ps" "fn_args (fns M5 ! j) = ?ps"
    using f3(2) f4(2) f5(2) M2 l k F(1) by auto
  have kk: "k < length (blocks (fns M2 ! j))" "k < length (blocks (fns M3 ! j))" "k < length (blocks (fns M4 ! j))"
      "k < length (blocks (fns M5 ! j))" "k < length (blocks (fns M6 ! j))"
    using f3(4) f4(4) f5(4) f6(4) M2 l k F(1) by auto
  have "blocks (fns M3 ! j) ! k = blocks (fns M1 ! j) ! k"
    using f3(5) [OF kk(1)] zexit_other [of "fns M2 ! j"] n(2) M2 by simp
  then have c3: "covers is os (blocks (fns M3 ! j) ! k)" using os(2) by simp
  obtain ds where ds: "list_all2 (\<lambda>i h. def_calls i = Inr h) is ds"
    "covers is (map2 (\<lambda>h k v. h v @ k v) ds os) (blocks (fns M4 ! j) ! k)"
    using covers_rewrite [OF c3 f4(5) [OF kk(2)] def_instr_fulfils] b(2) by blast
  obtain us where us: "list_all2 (\<lambda>i h. store_calls ?ps i = Inr h) is us"
    "covers is (map2 (\<lambda>h k v. h v @ k v) us (map2 (\<lambda>h k v. h v @ k v) ds os)) (blocks (fns M5 ! j) ! k)"
    using covers_rewrite [OF ds(2) f5(5) [OF kk(3), unfolded args] store_instr_fulfils] b(2) by blast
  obtain ls where ls: "list_all2 (\<lambda>i h. library_calls ?ps i = Inr h) is ls"
    "covers is (map2 (\<lambda>h k v. h v @ k v) ls (map2 (\<lambda>h k v. h v @ k v) us (map2 (\<lambda>h k v. h v @ k v) ds os))) (blocks (fns M6 ! j) ! k)"
    (is "covers is ?rs _")
    using covers_rewrite [OF us(2) f6(5) [OF kk(4), unfolded args] library_instr_fulfils] b(2) by blast
  have "rewrite_block (call_instr M6 (fns M6 ! j)) (blocks (fns M6 ! j) ! k) = Inr (blocks (fns M6 ! j) ! k)"
    by (rule rewrite_block_same, rule call_instr_other) (use b(3) covers_items [OF ls(2)] in blast)
  then have "blocks (fns M' ! j) ! k = blocks (fns M6 ! j) ! k" using f7(5) [OF kk(5)] by simp
  moreover have "list_all2 (\<lambda>i r. instr_calls ?ps ?in i = Inr r) is ?rs"
    using os(1) ds(1) us(1) ls(1) by (simp add: list_all2_conv_all_nth instr_calls_def)
  ultimately show ?thesis using ls(2) by auto
qed

end
