(* ===== verification/Instrument_Kept.thy ===== *)
theory Instrument_Kept
  imports Instrument_Blocks
begin

text \<open>
  What the pass keeps: the instructions of the program, in their blocks and in their order,
  up to the identifiers handed to instrumented functions; and the frame it puts around main.
\<close>

section \<open>The instructions of a block\<close>

primrec progs :: "ir list \<Rightarrow> instr list" where
  "progs [] = []"
| "progs (x # b) = (case x of Prog i \<Rightarrow> i # progs b | _ \<Rightarrow> progs b)"

lemma progs_append [simp]: "progs (b @ c) = progs b @ progs c"
  by (induction b) (auto split: ir.splits)

lemma progs_quiet: "quiet c \<Longrightarrow> progs c = []"
proof (induction c)
  case (Cons x c)
  then show ?case by (cases x) (auto simp: quiet_def)
qed simp

lemma quiet_Cons: "quiet (x # c) \<longleftrightarrow> (\<forall>i. x \<noteq> Prog i) \<and> (\<forall>y. x \<noteq> Store_Counter y) \<and> quiet c"
  by (auto simp: quiet_def)

lemma set_progs: "i \<in> set (progs b) \<longleftrightarrow> Prog i \<in> set b"
  by (induction b) (auto split: ir.splits)

lemma rewrite_block_Cons:
  "rewrite_block f (x # b) = cbind (f x) (\<lambda>c. cbind (rewrite_block f b) (\<lambda>b'. Inr (c @ b')))"
  by (cases "f x"; cases "c_map f b") (simp_all add: rewrite_block_def)

lemma rewrite_block_Nil [simp]: "rewrite_block f [] = Inr []"
  by (simp add: rewrite_block_def)

text \<open>A relation between the instructions of a block and those that replace them.\<close>

lemma rewrite_progs:
  assumes "rewrite_block f b = Inr b'" and "\<And>x c. x \<in> set b \<Longrightarrow> f x = Inr c \<Longrightarrow> list_all2 R (progs [x]) (progs c)"
  shows "list_all2 R (progs b) (progs b')"
  using assms
proof (induction b arbitrary: b')
  case Nil
  then show ?case by simp
next
  case (Cons x b)
  then obtain c b1 where c: "f x = Inr c" and b1: "rewrite_block f b = Inr b1" "b' = c @ b1"
    by (auto simp: rewrite_block_Cons cbind_eq_Inr)
  have "list_all2 R (progs b) (progs b1)" by (rule Cons.IH [OF b1(1)]) (use Cons.prems(2) in simp)
  then have "list_all2 R (progs [x] @ progs b) (progs c @ progs b1)"
    using Cons.prems(2) [OF _ c] by (intro list_all2_appendI) simp_all
  moreover have "progs (x # b) = progs [x] @ progs b" by (metis append_Cons append_Nil progs_append)
  ultimately show ?case by (simp add: b1(2))
qed

lemma fulfils_quiet: "fulfils (f i) g \<Longrightarrow> f i = Inr c \<Longrightarrow> quiet c"
  by (auto elim: rel_sum.cases)

lemma rewrite_progs_same:
  assumes "rewrite_block f b = Inr b'" and "\<And>x c. x \<in> set b \<Longrightarrow> f x = Inr c \<Longrightarrow> progs c = progs [x]"
  shows "progs b' = progs b"
  using rewrite_progs [OF assms(1), of "(=)"] assms(2) by (simp only: list.rel_eq)

lemma inject_one:
  assumes "inject_after f x = Inr c" and "\<And>i d. x = Prog i \<Longrightarrow> f i = Inr d \<Longrightarrow> quiet d"
  shows "progs c = progs [x]"
  using assms by (cases x) (auto simp: inject_after_def cbind_eq_Inr progs_quiet)

lemma inject_progs:
  assumes "rewrite_block (inject_after f) b = Inr b'"
    and "\<And>i. i \<in> set (progs b) \<Longrightarrow> fulfils (f i) (g i)"
  shows "progs b' = progs b"
proof (rule rewrite_progs_same [OF assms(1)], erule inject_one)
  fix x c i d
  assume "x \<in> set b" "x = Prog i" "f i = Inr d"
  then show "quiet d" using assms(2) set_progs [of i b] fulfils_quiet [of f i "g i" d] by blast
qed

lemma zexit_progs: "rewrite_block (zexit_instr F) b = Inr b' \<Longrightarrow> progs b' = progs b"
proof (erule rewrite_progs_same)
  fix x c
  assume "zexit_instr F x = Inr c"
  then show "progs c = progs [x]" by (cases x) (auto simp: zexit_instr_def split: if_splits)
qed

section \<open>The frame of main\<close>

lemma run_pack_global:
  "run_state (pack_global i) (n, is) = (Tmp (n + 3), (n + 4, is @ [Alloca n, Store (Imm (ucast i)) n, Load (n + 1) n,
     Bin (n + 2) Shl_Op (Tmp (n + 1)) (Imm 16), Store (Tmp (n + 2)) n, Load (n + 3) n]))"
  by (simp add: pack_global_def builder_simps)

lemma run_globals:
  "\<exists>n' c. run_state (for_each (\<lambda>d. do { p \<leftarrow> pack_global d; CreateCall f (xs p) }) ds) (n, is) = ((), (n', is @ c)) \<and> quiet c"
proof (induction ds arbitrary: n "is")
  case Nil
  then show ?case by (simp add: State_Monad.return_def)
next
  case (Cons d ds)
  let ?c = "[Alloca n, Store (Imm (ucast d)) n, Load (n + 1) n, Bin (n + 2) Shl_Op (Tmp (n + 1)) (Imm 16),
      Store (Tmp (n + 2)) n, Load (n + 3) n, Call f (xs (Tmp (n + 3)))]"
  have "quiet ?c" by (auto simp: quiet_def)
  moreover obtain n' c where "run_state (for_each (\<lambda>d. do { p \<leftarrow> pack_global d; CreateCall f (xs p) }) ds) (n + 4, is @ ?c) =
      ((), (n', (is @ ?c) @ c))" "quiet c"
    using Cons by blast
  ultimately show ?case
    by (intro exI [of _ n'] exI [of _ "?c @ c"]) (simp add: run_pack_global run_call quiet_Cons)
qed

lemma global_def_quiet: "global_def tag gv = Inr c \<Longrightarrow> quiet c"
  using run_globals [of "''zbouncer_collect_alloca''" "\<lambda>p. [p, Val gv]" _ 0 "[]"]
  by (auto simp: global_def_def built_def cbind_eq_Inr) (metis append_Nil snd_conv)

lemma global_code_quiet: "global_code M = Inr c \<Longrightarrow> quiet c"
proof -
  assume "global_code M = Inr c"
  then obtain cs where cs: "c_map (\<lambda>(gv, tag). if_tagged tag (\<lambda>text. global_def text gv)) (globals M) = Inr cs" "c = concat cs"
    by (auto simp: global_code_def cbind_eq_Inr)
  have "quiet (cs ! j)" if "j < length cs" for j
  proof (cases "globals M ! j")
    case (Pair gv tag)
    then have "if_tagged tag (\<lambda>text. global_def text gv) = Inr (cs ! j)" using cs(1) that by (auto simp: c_map_nth)
    then show ?thesis by (cases tag) (auto simp: if_tagged_def dest: global_def_quiet)
  qed
  then have "quiet d" if "d \<in> set cs" for d using that by (metis in_set_conv_nth)
  then show ?thesis by (auto simp: cs(2) quiet_def)
qed

section \<open>Calls of instrumented functions\<close>

text \<open>The arguments that may change: those whose parameter the metadata of the call names.\<close>

definition zref_args :: "string list \<Rightarrow> (string \<rightharpoonup> string) \<Rightarrow> nat \<Rightarrow> nat set" where
  "zref_args ps md k = {j. k \<le> j \<and> j - k < length ps \<and> md (''zref_'' @ ps ! (j - k)) \<noteq> None}"

lemma zref_args_Suc: "j \<in> zref_args ps md (Suc k) \<Longrightarrow> j \<in> zref_args (p # ps) md k"
  by (auto simp: zref_args_def nth_Cons' Suc_diff_le)

definition passes :: "(bool \<times> operand list) builder \<Rightarrow> nat set \<Rightarrow> operand list \<Rightarrow> bool" where
  "passes m js xs \<longleftrightarrow> (\<forall>n is. \<exists>r ys n' c. run_state m (n, is) = ((r, ys), (n', is @ c)) \<and> quiet c \<and>
     length ys = length xs \<and> (\<forall>j. j \<notin> js \<longrightarrow> ys ! j = xs ! j))"

lemma passes_mono: "passes m js xs \<Longrightarrow> js \<subseteq> ls \<Longrightarrow> passes m ls xs"
  unfolding passes_def by (meson subset_eq)

lemma passes_done: "passes (State_Monad.return (False, xs)) js xs"
  by (auto simp: passes_def State_Monad.return_def)

lemma passes_packed:
  assumes "passes m js xs" and "k \<in> js"
  shows "passes (do { p \<leftarrow> pack_id i; r \<leftarrow> m; State_Monad.return (True, (snd r)[k := p]) }) js xs"
  unfolding passes_def
proof (intro allI)
  fix n and "is" :: "ir list"
  obtain r ys n' c where "run_state m (n + 9, is @ pack_code n i) = ((r, ys), (n', (is @ pack_code n i) @ c))"
    "quiet c" "length ys = length xs" "\<forall>j. j \<notin> js \<longrightarrow> ys ! j = xs ! j"
    using assms(1) unfolding passes_def by metis
  then show "\<exists>r ys n' c. run_state (do { p \<leftarrow> pack_id i; r \<leftarrow> m; State_Monad.return (True, (snd r)[k := p]) }) (n, is) =
      ((r, ys), (n', is @ c)) \<and> quiet c \<and> length ys = length xs \<and> (\<forall>j. j \<notin> js \<longrightarrow> ys ! j = xs ! j)"
    using assms(2)
    by (intro exI [of _ True] exI [of _ "ys[k := Tmp (n + 8)]"] exI [of _ n'] exI [of _ "pack_code n i @ c"])
       (auto simp: run_pack State_Monad.return_def intro!: nth_list_update_neq [THEN trans])
qed

lemma passes_kept:
  assumes "passes m js ys" and "length ys = length xs" and "\<And>j. j \<notin> js \<Longrightarrow> ys ! j = xs ! j"
  shows "passes (do { r \<leftarrow> m; State_Monad.return (True, snd r) }) js xs"
  unfolding passes_def
proof (intro allI)
  fix n and "is" :: "ir list"
  obtain r zs n' c where "run_state m (n, is) = ((r, zs), (n', is @ c))"
    "quiet c" "length zs = length ys" "\<forall>j. j \<notin> js \<longrightarrow> zs ! j = ys ! j"
    using assms(1) unfolding passes_def by metis
  then show "\<exists>r ys n' c. run_state (do { r \<leftarrow> m; State_Monad.return (True, snd r) }) (n, is) =
      ((r, ys), (n', is @ c)) \<and> quiet c \<and> length ys = length xs \<and> (\<forall>j. j \<notin> js \<longrightarrow> ys ! j = xs ! j)"
    using assms(2,3)
    by (intro exI [of _ True] exI [of _ zs] exI [of _ n'] exI [of _ c]) (auto simp: State_Monad.return_def)
qed

lemma pass_ids_passes: "pass_ids params md ps k xs = Inr m \<Longrightarrow> passes m (zref_args ps md k) xs"
proof (induction params md ps k xs arbitrary: m rule: pass_ids.induct)
  case (1 params md k xs)
  then show ?case using passes_done by auto
next
  case (2 params md p ps k xs)
  have sub: "zref_args ps md (Suc k) \<subseteq> zref_args (p # ps) md k" using zref_args_Suc by blast
  show ?case
  proof (cases "md (''zref_'' @ p)")
    case None
    then have "passes m (zref_args ps md (Suc k)) xs" using 2 by simp
    then show ?thesis by (rule passes_mono [OF _ sub])
  next
    case (Some zref)
    then have k: "k \<in> zref_args (p # ps) md k" by (simp add: zref_args_def)
    show ?thesis
    proof (cases "list_all c_digit zref")
      case True
      then obtain i rest where rest: "pass_ids params md ps (Suc k) xs = Inr rest" "stoi16 zref = Inr i"
        "m = do { idParam \<leftarrow> pack_id i; r \<leftarrow> rest; State_Monad.return (True, (snd r)[k := idParam]) }"
        and w: "\<exists>y. c_write xs (int k) (Imm 0) = Inr y"
        using 2(4) Some by (auto simp: cbind_eq_Inr)
      obtain y where y: "c_write xs (int k) (Imm 0) = Inr y" using w by blast
      have "passes rest (zref_args ps md (Suc k)) xs" using 2(2) [OF Some True rest(2) y rest(1)] .
      then show ?thesis unfolding rest(3) by (intro passes_packed passes_mono [OF _ sub] k)
    next
      case False
      then obtain ys rest where ys: "(if zref \<in> set params then c_write xs (int k) (Arg zref) else Inr xs) = Inr ys"
        and rest: "pass_ids params md ps (Suc k) ys = Inr rest" "m = do { r \<leftarrow> rest; State_Monad.return (True, snd r) }"
        using 2(4) Some by (auto simp: cbind_eq_Inr)
      have "passes rest (zref_args ps md (Suc k)) ys" using 2(3) [OF Some False ys rest(1)] .
      then have "passes rest (zref_args (p # ps) md k) ys" by (rule passes_mono [OF _ sub])
      moreover have "length ys = length xs" using ys by (auto simp: c_write_eq_Inr split: if_splits)
      moreover have "ys ! j = xs ! j" if "j \<notin> zref_args (p # ps) md k" for j
        using ys k that by (auto simp: c_write_eq_Inr split: if_splits intro: nth_list_update_neq)
      ultimately show ?thesis unfolding rest(2) by (rule passes_kept)
    qed
  qed
qed

text \<open>An instruction the pass leaves, or a call of an instrumented function with new arguments.\<close>

definition kept :: "(string \<Rightarrow> string list) \<Rightarrow> instr \<Rightarrow> instr \<Rightarrow> bool" where
  "kept formals i i' \<longleftrightarrow> i' = i \<or> (\<exists>callee xs ys. opcode i = Op_Call (Some callee) xs \<and>
     ends_with callee ''_instrumented'' \<and> length ys = length xs \<and>
     i' = i\<lparr>opcode := Op_Call (Some callee) ys, attached := Map.empty\<rparr> \<and>
     (\<forall>j. j \<notin> zref_args (formals callee) (attached i) 0 \<longrightarrow> ys ! j = xs ! j))"

lemma calls_instrumented_iff:
  "calls_instrumented i \<longleftrightarrow> (\<exists>callee xs. opcode i = Op_Call (Some callee) xs \<and> ends_with callee ''_instrumented'')"
  by (cases "opcode i") (auto simp: calls_instrumented_def split: option.splits)

lemma call_instr_result:
  assumes "call_instr M F (Prog i) = Inr c" and "calls_instrumented i"
  shows "\<exists>d i'. c = d @ [Prog i'] \<and> quiet d \<and> kept (formal_args M) i i' \<and> opcode i' \<noteq> Op_Ret"
proof -
  obtain callee xs where i: "opcode i = Op_Call (Some callee) xs" "ends_with callee ''_instrumented''"
    using assms(2) unfolding calls_instrumented_iff by blast
  then obtain m where m: "pass_ids (fn_args F) (attached i) (formal_args M callee) 0 xs = Inr m"
    and c: "(case run_state m (0, []) of ((replaced, ys), (n, code)) \<Rightarrow> Inr (if replaced
      then code @ [Prog (i\<lparr>opcode := Op_Call (Some callee) ys, attached := Map.empty\<rparr>)] else code @ [Prog i])) = (Inr c :: ir list c)"
    using assms(1) unfolding call_instr_def by (auto simp: cbind_eq_Inr)
  obtain r ys n' d where "run_state m (0, []) = ((r, ys), (n', [] @ d))" "quiet d" "length ys = length xs"
    "\<forall>j. j \<notin> zref_args (formal_args M callee) (attached i) 0 \<longrightarrow> ys ! j = xs ! j"
    using pass_ids_passes [OF m] unfolding passes_def by metis
  then show ?thesis using i c by (auto simp: kept_def split: if_splits)
qed

lemma call_instr_kept:
  assumes "call_instr M F x = Inr c"
  shows "list_all2 (kept (formal_args M)) (progs [x]) (progs c)"
proof (cases "\<exists>i. x = Prog i \<and> calls_instrumented i")
  case False
  then have "c = [x]" using call_instr_other [of x M F] assms by auto
  then show ?thesis by (simp add: kept_def list_all2_same split: ir.splits)
next
  case True
  then show ?thesis using assms by (auto dest!: call_instr_result simp: progs_quiet)
qed

section \<open>The whole pass\<close>

definition own_module :: "ir_module \<Rightarrow> bool" where
  "own_module M \<longleftrightarrow> (\<forall>F \<in> set (fns M). \<forall>b \<in> set (blocks F). \<forall>i \<in> set (progs b). own_operands (opcode i))"

text \<open>The same functions with blocks related one by one.\<close>

definition alike :: "(ir list \<Rightarrow> ir list \<Rightarrow> bool) \<Rightarrow> ir_module \<Rightarrow> ir_module \<Rightarrow> bool" where
  "alike R M M' \<longleftrightarrow> list_all2 (\<lambda>F F'. fn_name F' = fn_name F \<and> fn_args F' = fn_args F \<and> loops F' = loops F \<and>
     list_all2 R (blocks F) (blocks F')) (fns M) (fns M')"

lemma alike_trans:
  assumes "alike R M M1" and "alike S M1 M2" and "\<And>b c d. R b c \<Longrightarrow> S c d \<Longrightarrow> T b d"
  shows "alike T M M2"
  using assms(1,2) unfolding alike_def
  by (rule list_all2_trans [rotated 1]) (auto elim: list_all2_trans [rotated 1] assms(3))

abbreviation same_progs :: "ir list \<Rightarrow> ir list \<Rightarrow> bool" where
  "same_progs b b' \<equiv> progs b' = progs b"

abbreviation own_blocks :: "ir list list \<Rightarrow> bool" where
  "own_blocks bs \<equiv> \<forall>b \<in> set bs. \<forall>i \<in> set (progs b). own_operands (opcode i)"

lemma own_same: "list_all2 same_progs bs bs' \<Longrightarrow> own_blocks bs \<Longrightarrow> own_blocks bs'"
  by (induction rule: list_all2_induct) auto

lemma own_fns: "list_all2 (\<lambda>F F'. fn_name F' = fn_name F \<and> fn_args F' = fn_args F \<and> loops F' = loops F \<and>
     list_all2 same_progs (blocks F) (blocks F')) Fs Fs' \<Longrightarrow>
   \<forall>F \<in> set Fs. own_blocks (blocks F) \<Longrightarrow> \<forall>F \<in> set Fs'. own_blocks (blocks F)"
proof (induction rule: list_all2_induct)
  case (Cons F Fs F' Fs')
  then have "own_blocks (blocks F')" using own_same [of "blocks F" "blocks F'"] by simp
  with Cons show ?case by simp
qed simp

lemma own_alike: "alike same_progs M M' \<Longrightarrow> own_module M \<Longrightarrow> own_module M'"
  unfolding alike_def own_module_def by (rule own_fns)

lemma alike_formals: "alike R M M' \<Longrightarrow> formal_args M' = formal_args M"
proof
  fix name
  have "list_all2 (\<lambda>F F'. fn_name F' = fn_name F \<and> fn_args F' = fn_args F) Fs Fs' \<Longrightarrow>
      (case find (\<lambda>F. fn_name F = name) Fs' of None \<Rightarrow> [] | Some F \<Rightarrow> fn_args F) =
      (case find (\<lambda>F. fn_name F = name) Fs of None \<Rightarrow> [] | Some F \<Rightarrow> fn_args F)" for Fs Fs'
    by (induction rule: list_all2_induct) auto
  moreover assume "alike R M M'"
  then have "list_all2 (\<lambda>F F'. fn_name F' = fn_name F \<and> fn_args F' = fn_args F) (fns M) (fns M')"
    unfolding alike_def by (rule list_all2_mono) auto
  ultimately show "formal_args M' name = formal_args M name" by (simp add: formal_args_def)
qed

lemma rewrite_alike:
  assumes "rewrite_all f M = Inr M'"
    and "\<And>F b b'. F \<in> set (fns M) \<Longrightarrow> b \<in> set (blocks F) \<Longrightarrow> rewrite_block (f F) b = Inr b' \<Longrightarrow> R b b'"
  shows "alike R M M'"
  unfolding alike_def list_all2_conv_all_nth
proof (intro conjI allI impI)
  show "length (fns M) = length (fns M')" using rewrite_all_result [OF assms(1)] by simp
  fix j assume j: "j < length (fns M)"
  note r = rewrite_fn_result [OF rewrite_all_result(2) [OF assms(1) j]]
  show "fn_name (fns M' ! j) = fn_name (fns M ! j)" "fn_args (fns M' ! j) = fn_args (fns M ! j)"
    "loops (fns M' ! j) = loops (fns M ! j)" "length (blocks (fns M ! j)) = length (blocks (fns M' ! j))"
    by (simp_all add: r)
  show "R (blocks (fns M ! j) ! k) (blocks (fns M' ! j) ! k)" if "k < length (blocks (fns M ! j))" for k
    by (rule assms(2) [OF _ _ r(5)]) (use j that in auto)
qed

lemma loop_block_progs:
  assumes "c_run loop_block ks F = Inr F'" and "own_blocks (blocks F)"
  shows "fn_name F' = fn_name F \<and> fn_args F' = fn_args F \<and> loops F' = loops F \<and> list_all2 same_progs (blocks F) (blocks F')"
  using assms
proof (induction ks arbitrary: F)
  case Nil
  then show ?case by (simp add: list_all2_same)
next
  case (Cons k ks)
  then obtain F1 where F1: "loop_block k F = Inr F1" "c_run loop_block ks F1 = Inr F'" by (auto simp: cbind_eq_Inr)
  note r = loop_block_result [OF F1(1)]
  have k: "progs (blocks F1 ! k) = progs (blocks F ! k)"
    by (rule inject_progs [OF r(7) loop_instr_fulfils]) (use Cons.prems(2) r(6) in auto)
  have same: "list_all2 same_progs (blocks F) (blocks F1)"
    unfolding list_all2_conv_all_nth using r(4,5) k by metis
  have "own_blocks (blocks F1)" using own_same [OF same Cons.prems(2)] .
  from Cons.IH [OF F1(2) this] show ?case
    using same r by (auto elim: list_all2_trans [rotated 1])
qed

lemma loop_phase_alike: "loop_phase M = Inr M' \<Longrightarrow> own_module M \<Longrightarrow> alike same_progs M M'"
  unfolding alike_def
proof (rule list_all2_all_nthI)
  assume r: "loop_phase M = Inr M'" and own: "own_module M"
  show "length (fns M) = length (fns M')" using r by (auto simp: loop_phase_def cbind_eq_Inr c_map_nth)
  fix j assume j: "j < length (fns M)"
  then have run: "(if blocks (fns M ! j) = [] then Inr (fns M ! j) else c_run loop_block (concat (loops (fns M ! j))) (fns M ! j)) = Inr (fns M' ! j)"
    using r by (auto simp: loop_phase_def cbind_eq_Inr c_map_nth)
  have "own_blocks (blocks (fns M ! j))" using own j unfolding own_module_def by (meson nth_mem)
  then show "fn_name (fns M' ! j) = fn_name (fns M ! j) \<and> fn_args (fns M' ! j) = fn_args (fns M ! j) \<and>
      loops (fns M' ! j) = loops (fns M ! j) \<and> list_all2 same_progs (blocks (fns M ! j)) (blocks (fns M' ! j))"
    using loop_block_progs [of "concat (loops (fns M ! j))" "fns M ! j" "fns M' ! j"] run
    by (cases "blocks (fns M ! j) = []") auto
qed

lemma list_all2_same_progs: "list_all2 same_progs bs bs' \<Longrightarrow> bs = [] \<longleftrightarrow> bs' = []"
  by (auto dest: list_all2_lengthD)

lemma zinit_phase_alike: "zinit_phase M = Inr M' \<Longrightarrow> alike same_progs M M'"
  unfolding alike_def
proof (rule list_all2_all_nthI)
  assume r: "zinit_phase M = Inr M'"
  show "length (fns M) = length (fns M')" using r by (auto simp: zinit_phase_def cbind_eq_Inr c_map_nth)
  fix j assume j: "j < length (fns M)"
  then have "(if blocks (fns M ! j) = [] \<or> fn_name (fns M ! j) \<noteq> ''main'' then Inr (fns M ! j)
      else cbind (global_code M) (\<lambda>gs. Inr ((fns M ! j)\<lparr>blocks := (Call ''zinit'' [] # gs @ hd (blocks (fns M ! j))) # tl (blocks (fns M ! j))\<rparr>))) =
      Inr (fns M' ! j)"
    using r by (auto simp: zinit_phase_def cbind_eq_Inr c_map_nth)
  then show "fn_name (fns M' ! j) = fn_name (fns M ! j) \<and> fn_args (fns M' ! j) = fn_args (fns M ! j) \<and>
      loops (fns M' ! j) = loops (fns M ! j) \<and> list_all2 same_progs (blocks (fns M ! j)) (blocks (fns M' ! j))"
    by (cases "blocks (fns M ! j)")
       (auto simp: list_all2_same cbind_eq_Inr progs_quiet dest!: global_code_quiet sym [of _ "fns M' ! j"] split: if_splits)
qed

lemma zexit_alike: "rewrite_all zexit_instr M = Inr M' \<Longrightarrow> alike same_progs M M'"
  by (rule rewrite_alike) (auto dest: zexit_progs)

lemma inject_alike:
  assumes "rewrite_all (\<lambda>F. inject_after (f F)) M = Inr M'" and "own_module M"
    and "\<And>F i. own_operands (opcode i) \<Longrightarrow> fulfils (f F i) (g F i)"
  shows "alike same_progs M M'"
proof (rule rewrite_alike [OF assms(1)])
  fix F b b'
  assume F: "F \<in> set (fns M)" "b \<in> set (blocks F)" "rewrite_block (inject_after (f F)) b = Inr b'"
  have "fulfils (f F i) (g F i)" if "i \<in> set (progs b)" for i
    using assms(2,3) F that unfolding own_module_def by blast
  then show "progs b' = progs b" by (rule inject_progs [OF F(3)])
qed

lemma pass_phases:
  assumes "runOnModule M = Inr M'" and "own_module M"
  obtains M1 M2 M3 M4 where
    "loop_phase M = Inr M1" "zinit_phase M1 = Inr M2" "rewrite_all zexit_instr M2 = Inr M3" "use_phases M3 = Inr M4"
    "rewrite_all (call_instr M4) M4 = Inr M'" "alike same_progs M M4" "own_module M3"
proof -
  obtain M1 M2 M3 M4 M5 M6 where
    m: "loop_phase M = Inr M1" "zinit_phase M1 = Inr M2" "rewrite_all zexit_instr M2 = Inr M3"
      "rewrite_all (\<lambda>F. inject_after def_instr) M3 = Inr M4"
      "rewrite_all (\<lambda>F. inject_after (store_instr (fn_args F))) M4 = Inr M5"
      "rewrite_all (\<lambda>F. inject_after (library_instr (fn_args F))) M5 = Inr M6"
      "rewrite_all (call_instr M6) M6 = Inr M'"
    using runOnModule_phases [OF assms(1)] by (auto simp: run_phases_def use_phases_def cbind_eq_Inr)
  have t: "alike same_progs N N1 \<Longrightarrow> alike same_progs N1 N2 \<Longrightarrow> alike same_progs N N2" for N N1 N2
    by (erule (1) alike_trans) simp
  have a1: "alike same_progs M M1" by (rule loop_phase_alike [OF m(1) assms(2)])
  have a3: "alike same_progs M M3" using t [OF t [OF a1 zinit_phase_alike [OF m(2)]] zexit_alike [OF m(3)]] .
  have o3: "own_module M3" by (rule own_alike [OF a3 assms(2)])
  have a4: "alike same_progs M M4" using t [OF a3 inject_alike [OF m(4) o3 def_instr_fulfils]] .
  have a5: "alike same_progs M M5" using t [OF a4 inject_alike [OF m(5) own_alike [OF a4 assms(2)] store_instr_fulfils]] .
  have a6: "alike same_progs M M6" using t [OF a5 inject_alike [OF m(6) own_alike [OF a5 assms(2)] library_instr_fulfils]] .
  have "use_phases M3 = Inr M6" using m(4-6) by (simp add: use_phases_def)
  with that m(1-3,7) a6 o3 show thesis by blast
qed

lemma pass_kept:
  assumes "runOnModule M = Inr M'" and "own_module M"
  shows "alike (\<lambda>b b'. list_all2 (kept (formal_args M)) (progs b) (progs b')) M M'"
proof -
  obtain M4 where M4: "rewrite_all (call_instr M4) M4 = Inr M'" "alike same_progs M M4"
    by (rule pass_phases [OF assms])
  have "alike (\<lambda>b b'. list_all2 (kept (formal_args M)) (progs b) (progs b')) M4 M'"
    by (rule rewrite_alike [OF M4(1)], rule rewrite_progs, assumption)
       (metis call_instr_kept alike_formals [OF M4(2)])
  then show ?thesis by (rule alike_trans [OF M4(2)]) simp
qed

section \<open>Main is opened and closed\<close>

fun is_ret :: "ir \<Rightarrow> bool" where
  "is_ret (Prog i) \<longleftrightarrow> opcode i = Op_Ret"
| "is_ret _ \<longleftrightarrow> False"

text \<open>Every return has the call of zexit right in front of it; the flag says whether the first one has.\<close>

primrec closing :: "bool \<Rightarrow> ir list \<Rightarrow> bool" where
  "closing p [] \<longleftrightarrow> True"
| "closing p (x # b) \<longleftrightarrow> (is_ret x \<longrightarrow> p) \<and> closing (x = Call ''zexit'' []) b"

lemma closing_mono: "closing False b \<Longrightarrow> closing p b"
  by (cases b) auto

lemma closing_quiet: "quiet c \<Longrightarrow> closing False b \<Longrightarrow> closing p (c @ b)"
proof (induction c arbitrary: p)
  case Nil
  then show ?case by (simp add: closing_mono)
next
  case (Cons x c)
  then show ?case by (cases x) (auto simp: quiet_Cons)
qed

lemma closing_zexit:
  assumes "fn_name F = ''main''" and "rewrite_block (zexit_instr F) b = Inr b'"
  shows "closing p b'"
  using assms(2)
proof (induction b arbitrary: b' p)
  case (Cons x b)
  then obtain c b1 where "zexit_instr F x = Inr c" "rewrite_block (zexit_instr F) b = Inr b1" "b' = c @ b1"
    by (auto simp: rewrite_block_Cons cbind_eq_Inr)
  with Cons.IH [OF this(2)] assms(1) show ?case by (cases x) (auto simp: zexit_instr_def split: if_splits)
qed simp

lemma closing_inject:
  assumes "closing p b" and "rewrite_block (inject_after f) b = Inr b'"
    and "\<And>i. i \<in> set (progs b) \<Longrightarrow> fulfils (f i) (g i)"
  shows "closing p b'"
  using assms
proof (induction b arbitrary: b' p)
  case (Cons x b)
  then obtain c b1 where c: "inject_after f x = Inr c" and b1: "rewrite_block (inject_after f) b = Inr b1" "b' = c @ b1"
    by (auto simp: rewrite_block_Cons cbind_eq_Inr)
  have "\<And>i. i \<in> set (progs b) \<Longrightarrow> fulfils (f i) (g i)" using Cons.prems(3) by (cases x) auto
  then have IH: "closing (x = Call ''zexit'' []) b1" using Cons.IH [OF _ b1(1)] Cons.prems(1) by simp
  show ?case
  proof (cases x)
    case (Prog i)
    then obtain d where d: "f i = Inr d" "c = Prog i # d" using c by (auto simp: inject_after_def cbind_eq_Inr)
    have "fulfils (f i) (g i)" using Cons.prems(3) [of i] Prog by simp
    then have "quiet d" using d(1) by (rule fulfils_quiet)
    then have "closing False (d @ b1)" using IH Prog by (simp add: closing_quiet)
    then show ?thesis using Cons.prems(1) by (simp add: b1(2) d(2) Prog)
  qed (use c IH in \<open>auto simp: inject_after_def b1(2)\<close>)
qed simp

lemma closing_calls:
  assumes "closing p b" and "rewrite_block (call_instr M F) b = Inr b'"
  shows "closing p b'"
  using assms
proof (induction b arbitrary: b' p)
  case (Cons x b)
  then obtain c b1 where c: "call_instr M F x = Inr c" and b1: "rewrite_block (call_instr M F) b = Inr b1" "b' = c @ b1"
    by (auto simp: rewrite_block_Cons cbind_eq_Inr)
  have IH: "closing (x = Call ''zexit'' []) b1" using Cons.IH [OF _ b1(1)] Cons.prems(1) by simp
  show ?case
  proof (cases "\<exists>i. x = Prog i \<and> calls_instrumented i")
    case False
    then have "c = [x]" using call_instr_other [of x M F] c by auto
    then show ?thesis using Cons.prems(1) IH by (simp add: b1(2))
  next
    case True
    then obtain i where i: "x = Prog i" "calls_instrumented i" by blast
    obtain d i' where d: "c = d @ [Prog i']" "quiet d" "opcode i' \<noteq> Op_Ret"
      using call_instr_result i c by metis
    then have "closing False (Prog i' # b1)" using IH i(1) by simp
    then show ?thesis using closing_quiet [OF d(2)] by (simp add: b1(2) d(1))
  qed
qed simp

text \<open>The first instruction of main stays the call of zinit.\<close>

definition opened :: "fn \<Rightarrow> bool" where
  "opened F \<longleftrightarrow> (blocks F \<noteq> [] \<longrightarrow> (\<exists>b. hd (blocks F) = Call ''zinit'' [] # b))"

lemma opened_rewrite:
  assumes "rewrite_fn f F = Inr F'" and "opened F" and "\<And>g xs. f F (Call g xs) = Inr [Call g xs]"
  shows "opened F'"
proof (cases "blocks F = []")
  case True
  then show ?thesis using rewrite_fn_result(4) [OF assms(1)] by (simp add: opened_def)
next
  case False
  then obtain b where b: "blocks F ! 0 = Call ''zinit'' [] # b" using assms(2) by (auto simp: opened_def hd_conv_nth)
  have "0 < length (blocks F)" using False by simp
  from rewrite_fn_result(5) [OF assms(1) this] obtain b' where "blocks F' ! 0 = Call ''zinit'' [] # b'"
    using assms(3) by (auto simp: b rewrite_block_Cons cbind_eq_Inr) metis
  moreover have "blocks F' \<noteq> []" using False rewrite_fn_result(4) [OF assms(1)] by auto
  ultimately show ?thesis by (simp add: opened_def hd_conv_nth)
qed

text \<open>A property of main that every phase after zexit keeps.\<close>

definition in_main :: "(fn \<Rightarrow> bool) \<Rightarrow> ir_module \<Rightarrow> bool" where
  "in_main P M \<longleftrightarrow> (\<forall>F \<in> set (fns M). fn_name F = ''main'' \<longrightarrow> P F)"

lemma in_main_rewrite:
  assumes "rewrite_all f M = Inr M'" and "in_main P M"
    and "\<And>F F'. F \<in> set (fns M) \<Longrightarrow> fn_name F = ''main'' \<Longrightarrow> P F \<Longrightarrow> rewrite_fn f F = Inr F' \<Longrightarrow> Q F'"
  shows "in_main Q M'"
  unfolding in_main_def
proof (intro ballI impI)
  fix F' assume "F' \<in> set (fns M')" and main: "fn_name F' = ''main''"
  then obtain j where j: "j < length (fns M)" "F' = fns M' ! j"
    using rewrite_all_result(1) [OF assms(1)] by (auto simp: in_set_conv_nth)
  note r = rewrite_all_result(2) [OF assms(1) j(1), folded j(2)]
  have F: "fns M ! j \<in> set (fns M)" using j(1) by simp
  have "fn_name (fns M ! j) = ''main''" using rewrite_fn_result(1) [OF r] main by simp
  then show "Q F'" using assms(2,3) F r unfolding in_main_def by blast
qed

definition closed :: "fn \<Rightarrow> bool" where
  "closed F \<longleftrightarrow> (\<forall>b \<in> set (blocks F). closing False b)"

lemma closed_rewrite:
  assumes "rewrite_fn f F = Inr F'" and "\<And>b b'. b \<in> set (blocks F) \<Longrightarrow> rewrite_block (f F) b = Inr b' \<Longrightarrow> closing False b'"
  shows "closed F'"
  unfolding closed_def
proof
  fix b' assume "b' \<in> set (blocks F')"
  then obtain k where k: "k < length (blocks F)" "b' = blocks F' ! k"
    using rewrite_fn_result(4) [OF assms(1)] by (auto simp: in_set_conv_nth)
  then show "closing False b'" using assms(2) [OF nth_mem [OF k(1)]] rewrite_fn_result(5) [OF assms(1) k(1)] by simp
qed

lemma zinit_opens: "zinit_phase M = Inr M' \<Longrightarrow> in_main opened M'"
  unfolding in_main_def
proof (intro ballI impI)
  fix F' assume r: "zinit_phase M = Inr M'" and "F' \<in> set (fns M')" and main: "fn_name F' = ''main''"
  then obtain j where j: "j < length (fns M)" "F' = fns M' ! j"
    by (auto simp: in_set_conv_nth zinit_phase_def cbind_eq_Inr c_map_nth)
  then have "(if blocks (fns M ! j) = [] \<or> fn_name (fns M ! j) \<noteq> ''main'' then Inr (fns M ! j)
      else cbind (global_code M) (\<lambda>gs. Inr ((fns M ! j)\<lparr>blocks := (Call ''zinit'' [] # gs @ hd (blocks (fns M ! j))) # tl (blocks (fns M ! j))\<rparr>))) = Inr F'"
    using r by (auto simp: zinit_phase_def cbind_eq_Inr c_map_nth)
  then show "opened F'" using main by (auto simp: opened_def cbind_eq_Inr split: if_splits)
qed

lemma inject_closes:
  assumes "rewrite_all (\<lambda>F. inject_after (f F)) M = Inr M'" and "own_module M"
    and "\<And>F i. own_operands (opcode i) \<Longrightarrow> fulfils (f F i) (g F i)"
    and "in_main opened M" "in_main closed M"
  shows "in_main opened M'" "in_main closed M'"
proof -
  show "in_main opened M'"
    by (rule in_main_rewrite [OF assms(1,4)], erule opened_rewrite) (simp_all add: inject_after_def)
  show "in_main closed M'"
  proof (rule in_main_rewrite [OF assms(1,5)], erule closed_rewrite)
    fix F F' b b'
    assume F: "F \<in> set (fns M)" "closed F" "b \<in> set (blocks F)" "rewrite_block (inject_after (f F)) b = Inr b'"
    have "fulfils (f F i) (g F i)" if "i \<in> set (progs b)" for i
      using assms(2,3) F that unfolding own_module_def by blast
    moreover have "closing False b" using F(2,3) by (simp add: closed_def)
    ultimately show "closing False b'" by (rule closing_inject [OF _ F(4), rotated])
  qed
qed

lemma pass_frames_main:
  assumes "runOnModule M = Inr M'" and "own_module M"
  shows "in_main opened M' \<and> in_main closed M'"
proof -
  obtain M1 M2 M3 M4 where
    m: "loop_phase M = Inr M1" "zinit_phase M1 = Inr M2" "rewrite_all zexit_instr M2 = Inr M3" "use_phases M3 = Inr M4"
    "rewrite_all (call_instr M4) M4 = Inr M'" and own: "own_module M3"
    by (rule pass_phases [OF assms])
  obtain N1 N2 where
    n: "rewrite_all (\<lambda>F. inject_after def_instr) M3 = Inr N1"
      "rewrite_all (\<lambda>F. inject_after (store_instr (fn_args F))) N1 = Inr N2"
      "rewrite_all (\<lambda>F. inject_after (library_instr (fn_args F))) N2 = Inr M4"
    using m(4) by (auto simp: use_phases_def cbind_eq_Inr)
  have o1: "own_module N1" by (rule own_alike [OF inject_alike [OF n(1) own def_instr_fulfils] own])
  have o2: "own_module N2" by (rule own_alike [OF inject_alike [OF n(2) o1 store_instr_fulfils] o1])
  have c3: "in_main closed M3"
    by (rule in_main_rewrite [OF m(3), where P = "\<lambda>_. True"]) (auto simp: in_main_def closing_zexit elim!: closed_rewrite)
  have "in_main opened M3"
    by (rule in_main_rewrite [OF m(3) zinit_opens [OF m(2)]], erule opened_rewrite) (simp_all add: zexit_instr_def)
  note s1 = inject_closes [OF n(1) own def_instr_fulfils this c3]
  note s2 = inject_closes [OF n(2) o1 store_instr_fulfils s1]
  note s3 = inject_closes [OF n(3) o2 library_instr_fulfils s2]
  have "in_main opened M'"
  proof (rule in_main_rewrite [OF m(5) s3(1)])
    show "opened F'" if "opened F" "rewrite_fn (call_instr M4) F = Inr F'" for F F'
      by (rule opened_rewrite [OF that(2,1)]) (simp add: call_instr_def)
  qed
  moreover have "in_main closed M'"
  proof (rule in_main_rewrite [OF m(5) s3(2)])
    show "closed F'" if "closed F" "rewrite_fn (call_instr M4) F = Inr F'" for F F'
      by (rule closed_rewrite [OF that(2)]) (use that(1) closing_calls in \<open>auto simp: closed_def\<close>)
  qed
  ultimately show ?thesis by simp
qed

end
