(* ===== verification/Instrument_Props.thy ===== *)
theory Instrument_Props
  imports Instrument_Kept
begin

text \<open>
  The properties of the instrumentation: the calls an instrumented block makes, what the
  pass keeps of the program, the frame of main, and what the reports carry.
\<close>

section \<open>A slot without a line\<close>

lemma blank_iuse_log:
  assumes "ta_fresh s" and "trace_id s < 2048"
  shows "\<exists>s'. record_iuse x 0 e s = Inr s' \<and> trace_id s' = trace_id s + 1 \<and> ta_log s' = ta_log s"
proof -
  define n where "n = nat (trace_id s)"
  define t where "t = dynamic_trace s"
  have wf: "ta_wf s" and len: "length t = 2048" and pos: "0 \<le> trace_id s"
    and rest: "drop n t = replicate (2048 - n) ta_use_zero"
    using assms(1) by (auto simp: ta_fresh_def ta_wf_def t_def n_def)
  have n: "n < 2048" and tid: "trace_id s = int n" "trace_id s < INT_MAX"
    using assms(2) pos by (auto simp: n_def INT_MAX_def)
  have idx: "slot_index s = n" using n by (simp add: slot_index_def tid)
  have zero: "t ! n = ta_use_zero"
    using rest n len by (metis diff_is_0_eq' drop_eq_Nil2 hd_drop_conv_nth hd_replicate linorder_not_le replicate_0)
  let ?u = "event_write (Iuse x 0 e) ta_use_zero"
  have run: "record_iuse x 0 e s = Inr (s\<lparr>dynamic_trace := t[n := ?u], trace_id := trace_id s + 1\<rparr>)"
    using record_event_wf [OF wf tid(2), of "Iuse x 0 e"] by (simp add: idx t_def [symmetric] zero)
  have blank: "slot_events (as_host ?u) = slot_events (as_host (t ! n))"
    by (simp add: zero slot_events_def ta_use_zero_def)
  have "map (slot_events \<circ> as_host) (t[n := ?u]) = map (slot_events \<circ> as_host) t"
    using n len blank by (intro nth_equalityI) (auto simp: nth_list_update)
  then show ?thesis using run by (simp add: ta_log_def t_def)
qed

section \<open>A program with three functions\<close>

text \<open>
  A function with a variable, a store to it in straight code and one in a loop; a function
  that is given the identifier of a pointer; and main, which calls it and returns.
\<close>

definition plain_instr :: "nat \<Rightarrow> opcode \<Rightarrow> instr" where
  "plain_instr r oc = \<lparr>result = r, opcode = oc, attached = Map.empty\<rparr>"

definition tagged_instr :: "nat \<Rightarrow> opcode \<Rightarrow> string \<Rightarrow> string \<Rightarrow> instr" where
  "tagged_instr r oc k tag = \<lparr>result = r, opcode = oc, attached = [k \<mapsto> tag]\<rparr>"

definition buffer_instr :: instr where "buffer_instr = tagged_instr 0 Op_Alloca ''zdef'' (int_text 7)"
definition write_instr :: instr where "write_instr = tagged_instr 1 (Op_Store (Imm 1) (Val 0) 4) ''zsuse'' (int_text 3)"
definition loop_write_instr :: instr where "loop_write_instr = tagged_instr 2 (Op_Store (Imm 2) (Val 0) 4) ''zsuse'' (int_text 4)"
definition call_write_instr :: instr where
  "call_write_instr = tagged_instr 3 (Op_Call (Some ''fill_instrumented'') [Val 0, Imm 0]) ''zref_p_id'' (int_text 9)"

definition sample_program :: ir_module where
  "sample_program = \<lparr>has_counter = True, globals = [(5, Some (int_text 8))], fns =
     [\<lparr>fn_name = ''work'', fn_args = [], blocks = [[Prog buffer_instr, Prog write_instr], [Prog loop_write_instr]], loops = [[1]]\<rparr>,
      \<lparr>fn_name = ''fill_instrumented'', fn_args = [''p'', ''p_id''], blocks = [[Prog (plain_instr 0 Op_Ret)]], loops = []\<rparr>,
      \<lparr>fn_name = ''main'', fn_args = [], blocks = [[Prog call_write_instr, Prog (plain_instr 4 Op_Ret)]], loops = []\<rparr>]\<rparr>"

definition sample_machine :: machine where
  "sample_machine = \<lparr>tmps = (\<lambda>_. 0), slots = (\<lambda>_. 0), rec_counter = 2, vals = (\<lambda>_. 512), arg_vals = (\<lambda>_. 0), calls = []\<rparr>"



lemma sample_runs: "\<exists>M'. runOnModule sample_program = Inr M'"
proof -
  have "\<not> isl (runOnModule sample_program)" by code_simp
  then show ?thesis by (cases "runOnModule sample_program") auto
qed

section \<open>Blocks\<close>

text \<open>
  C7. A block of an instrumented function other than main, of instructions that do not use
  injected temporaries and do not call an _instrumented function: run from its start to its
  end, the block makes exactly the calls promised for its instructions, in their order. For
  each tagged instruction these are the reports of the library call, the store and the
  definitions with the identifier and the counter packed, and in a loop its cache entries as
  well; for a call tagged as a definition, reports are promised only if it calls malloc or
  calloc, and none otherwise. Nothing else is reported.
\<close>

theorem instrumented_block_reports:
  assumes "runOnModule M = Inr M'" and "j < length (fns M)" and "k < length (blocks (fns M ! j))"
    and "F = fns M ! j" and "fn_name F \<noteq> ''main''" and "distinct (concat (loops F))"
    and "blocks F ! k = map Prog is" and "\<forall>i \<in> set is. own_operands (opcode i) \<and> \<not> calls_instrumented i"
  shows "\<exists>rs. list_all2 (\<lambda>i r. instr_calls (fn_args F) (k \<in> set (concat (loops F))) i = Inr r) is rs \<and>
    (\<forall>m. map linked (calls (exec_code (blocks (fns M' ! j) ! k) m)) =
       map linked (calls m) @ map Some (concat (map (\<lambda>r. r (view m)) rs)))"
proof -
  obtain rs where "list_all2 (\<lambda>i r. instr_calls (fn_args F) (k \<in> set (concat (loops F))) i = Inr r) is rs"
    and "covers is rs (blocks (fns M' ! j) ! k)"
    using block_calls [OF assms(1-7)] assms(8) by blast
  then show ?thesis using covers_calls by blast
qed

theorem instrumented_block_reports_witness:
  "\<exists>M'. runOnModule sample_program = Inr M' \<and>
    map linked (calls (exec_code (blocks (fns M' ! 0) ! 1) sample_machine)) =
      [Some (Report_Use 0x40002 516), Some (Collect_Entry T_iuse 0x40002 516 0 0 0)]"
proof -
  obtain M' where M': "runOnModule sample_program = Inr M'" using sample_runs by blast
  have "\<exists>rs. list_all2 (\<lambda>i r. instr_calls (fn_args (fns sample_program ! 0)) (1 \<in> set (concat (loops (fns sample_program ! 0)))) i = Inr r)
      [loop_write_instr] rs \<and> (\<forall>m. map linked (calls (exec_code (blocks (fns M' ! 0) ! 1) m)) =
       map linked (calls m) @ map Some (concat (map (\<lambda>r. r (view m)) rs)))"
    using M' by (rule instrumented_block_reports)
      (simp_all add: sample_program_def loop_write_instr_def tagged_instr_def calls_instrumented_def)
  moreover have "instr_calls [] True loop_write_instr = Inr (\<lambda>v.
      [Report_Use (id_in v 4) (seen v (Val 0) + 4), Collect_Entry T_iuse (id_in v 4) (seen v (Val 0) + 4) 0 0 0])"
    by (simp add: instr_calls_def loop_calls_def tagged_def loop_write_instr_def tagged_instr_def use_spec_def stoi16_number
      def_calls_def store_calls_def library_calls_def)
  ultimately show ?thesis using M'
    by (auto simp: sample_program_def list_all2_Cons1 sample_machine_def view_def id_in_def packed_def)
qed

section \<open>The program\<close>

text \<open>
  C11. The pass keeps the program: the functions with their names, arguments and loops, and
  in every block the instructions in their order, with their results and operands. The only
  instructions that change are calls of functions whose name ends in _instrumented: they
  keep their callee and the number of their arguments, lose their metadata, and differ only
  in arguments whose parameter their metadata names.
\<close>

theorem program_kept:
  assumes "runOnModule M = Inr M'" and "own_module M"
  shows "alike (\<lambda>b b'. list_all2 (kept (formal_args M)) (progs b) (progs b')) M M'"
  using assms by (rule pass_kept)

lemma sample_own: "own_module sample_program"
  by (simp add: own_module_def sample_program_def buffer_instr_def write_instr_def loop_write_instr_def
    call_write_instr_def plain_instr_def tagged_instr_def)

lemma sample_shape: "2 < length (fns sample_program)"
    "blocks (fns sample_program ! 2) = [[Prog call_write_instr, Prog (plain_instr 4 Op_Ret)]]"
  by (simp_all add: sample_program_def)

lemma kept_result: "kept formals i i' \<Longrightarrow> result i' = result i"
  by (auto simp: kept_def)

lemma kept_results: "list_all2 (kept formals) is is' \<Longrightarrow> map result is' = map result is"
  by (induction rule: list_all2_induct) (simp_all add: kept_result)

theorem program_kept_witness:
  "\<exists>M'. runOnModule sample_program = Inr M' \<and> map result (progs (blocks (fns M' ! 2) ! 0)) = [3, 4]"
proof -
  obtain M' where M': "runOnModule sample_program = Inr M'" using sample_runs by blast
  have "list_all2 (\<lambda>b b'. list_all2 (kept (formal_args sample_program)) (progs b) (progs b'))
      (blocks (fns sample_program ! 2)) (blocks (fns M' ! 2))"
    using list_all2_nthD [OF program_kept [OF M' sample_own, unfolded alike_def], of 2] sample_shape(1) by blast
  from list_all2_nthD [OF this, of 0] have "list_all2 (kept (formal_args sample_program)) [call_write_instr, plain_instr 4 Op_Ret] (progs (blocks (fns M' ! 2) ! 0))"
    by (simp add: sample_shape(2))
  from kept_results [OF this] have "map result (progs (blocks (fns M' ! 2) ! 0)) = [3, 4]"
    by (simp add: call_write_instr_def tagged_instr_def plain_instr_def)
  with M' show ?thesis by (intro exI [of _ M'] conjI)
qed

text \<open>
  C19. Main begins with the call of zinit, before any report, and every return of main has
  the call of zexit right in front of it, so that the cache is flushed behind the last
  report.
\<close>

theorem main_opened_and_closed:
  assumes "runOnModule M = Inr M'" and "own_module M" and "F \<in> set (fns M')" and "fn_name F = ''main''"
  shows "(blocks F \<noteq> [] \<longrightarrow> (\<exists>b. hd (blocks F) = Call ''zinit'' [] # b)) \<and> (\<forall>b \<in> set (blocks F). closing False b)"
  using pass_frames_main [OF assms(1,2)] assms(3,4) by (simp add: in_main_def opened_def closed_def)

theorem main_opened_and_closed_witness:
  "\<exists>M' b bs. runOnModule sample_program = Inr M' \<and> blocks (fns M' ! 2) = (Call ''zinit'' [] # b) # bs \<and>
    closing False b"
proof -
  obtain M' where M': "runOnModule sample_program = Inr M'" using sample_runs by blast
  have l: "list_all2 (\<lambda>F F'. fn_name F' = fn_name F \<and> length (blocks F') = length (blocks F)) (fns sample_program) (fns M')"
    using pass_kept [OF M' sample_own] unfolding alike_def by (rule list_all2_mono) (auto dest: list_all2_lengthD)
  have "length (fns M') = 3" using list_all2_lengthD [OF l] by (simp add: sample_program_def)
  moreover from this have "fn_name (fns M' ! 2) = ''main''" "length (blocks (fns M' ! 2)) = 1"
    using list_all2_nthD2 [OF l, of 2] by (simp_all add: sample_program_def)
  ultimately have "(blocks (fns M' ! 2) \<noteq> [] \<longrightarrow> (\<exists>b. hd (blocks (fns M' ! 2)) = Call ''zinit'' [] # b)) \<and>
      (\<forall>b \<in> set (blocks (fns M' ! 2)). closing False b)"
    by (intro main_opened_and_closed [OF M' sample_own]) simp_all
  with \<open>length (blocks (fns M' ! 2)) = 1\<close> show ?thesis
    using M' by (cases "blocks (fns M' ! 2)") auto
qed

section \<open>What a report carries\<close>

lemma id_of_number: "get_id_var (uint (id_in v (word_of_int z))) = (z mod 65536, uint (fst v))"
  by (simp add: id_in_def packed_unpacked uint_word_of_int)

lemma fulfilled: "fulfils (f i) (Inr g) \<Longrightarrow> \<exists>code. f i = Inr code \<and> makes code g"
  by (auto elim: rel_sum.cases)

text \<open>
  A store whose metadata the analysis set to the number of its use is reported with the
  end of what it writes, and the verifier unpacks from the report the number, up to 16
  bits, and the recursion counter at the time of the store.
\<close>

theorem instrumented_store_reported:
  assumes "attached i ''zsuse'' = Some (int_text z)" and "0 \<le> z" and "z \<le> 2147483647"
    and "attached i ''ziuse'' = None" and "opcode i = Op_Store v ptr sz" and "no_tmp ptr"
  shows "\<exists>code. store_instr params i = Inr code \<and> (\<forall>m. \<exists>x.
    map linked (calls (exec_code code m)) = map linked (calls m) @ [Some (Report_Use x (operand_value m ptr + sz))] \<and>
    get_id_var (uint x) = (z mod 65536, uint (rec_counter m)))"
proof -
  have "store_calls params i = Inr (\<lambda>v. [Report_Use (id_in v (word_of_int z)) (seen v ptr + sz)])"
    using assms by (simp add: store_calls_def tagged_def use_spec_def stoi16_number)
  then obtain code where "store_instr params i = Inr code"
    "makes code (\<lambda>v. [Report_Use (id_in v (word_of_int z)) (seen v ptr + sz)])"
    using store_instr_fulfils [of i params] assms(5,6) fulfilled [of "store_instr params" i] by auto
  then show ?thesis using assms(6) id_of_number
    by (auto simp: makes_def seen_operand view_def)
qed

theorem instrumented_store_reported_witness:
  "\<exists>code x. store_instr [] write_instr = Inr code \<and>
    map linked (calls (exec_code code sample_machine)) = [Some (Report_Use x 516)] \<and> get_id_var (uint x) = (3, 2)"
proof -
  obtain code where "store_instr [] write_instr = Inr code" and "\<forall>m. \<exists>x.
      map linked (calls (exec_code code m)) = map linked (calls m) @ [Some (Report_Use x (operand_value m (Val 0) + 4))] \<and>
      get_id_var (uint x) = (3 mod 65536, uint (rec_counter m))"
    using instrumented_store_reported [of write_instr 3 "Imm 1" "Val 0" 4 "[]"]
    by (auto simp: write_instr_def tagged_instr_def)
  from this(1) spec [OF this(2), of sample_machine] show ?thesis by (auto simp: sample_machine_def)
qed

text \<open>
  The report of a memcpy carries the address it reads from, the second operand, plus
  the size; nothing of the address it writes to, the first operand, is reported.
\<close>

theorem memcpy_reports_source:
  assumes "attached i ''zluse'' = Some (int_text z)" and "0 \<le> z" and "z \<le> 2147483647"
    and "attached i ''ziuse'' = None" and "opcode i = Op_Call (Some ''memcpy'') [dest, src, n]"
    and "list_all no_tmp [dest, src, n]"
  shows "\<exists>code. library_instr params i = Inr code \<and> (\<forall>m. \<exists>x.
    map linked (calls (exec_code code m)) =
      map linked (calls m) @ [Some (Report_Luse x (operand_value m src) (operand_value m n))])"
proof -
  have "library_calls params i = Inr (\<lambda>v. [Report_Luse (id_in v (word_of_int z)) (seen v src) (seen v n)])"
    using assms by (simp add: library_calls_def tagged_def lib_spec_def stoi16_number write_target_def getOperand_def c_read_def)
  then obtain code where "library_instr params i = Inr code"
    "makes code (\<lambda>v. [Report_Luse (id_in v (word_of_int z)) (seen v src) (seen v n)])"
    using library_instr_fulfils [of i params] assms(5,6) fulfilled [of "library_instr params" i] by auto
  then show ?thesis using assms(6) by (auto simp: makes_def seen_operand)
qed

theorem memcpy_reports_source_witness:
  "\<exists>code x. library_instr [] (tagged_instr 6 (Op_Call (Some ''memcpy'') [Val 0, Imm 1024, Imm 16]) ''zluse'' (int_text 5)) = Inr code \<and>
    map linked (calls (exec_code code sample_machine)) = [Some (Report_Luse x 1024 16)]"
proof -
  let ?i = "tagged_instr 6 (Op_Call (Some ''memcpy'') [Val 0, Imm 1024, Imm 16]) ''zluse'' (int_text 5)"
  obtain code where "library_instr [] ?i = Inr code" and "\<forall>m. \<exists>x. map linked (calls (exec_code code m)) =
      map linked (calls m) @ [Some (Report_Luse x (operand_value m (Imm 1024)) (operand_value m (Imm 16)))]"
    using memcpy_reports_source [of ?i 5 "Val 0" "Imm 1024" "Imm 16" "[]"] by (auto simp: tagged_instr_def)
  from this(1) spec [OF this(2), of sample_machine] show ?thesis by (auto simp: sample_machine_def)
qed

text \<open>
  In a loop a store makes a second report, as an indirect use of the definition 0: the
  trusted application gives it a slot of the ring, and no line of the trace ever shows it.
\<close>

theorem loop_store_takes_a_slot:
  assumes "attached i = [''zsuse'' \<mapsto> int_text z]" and "0 \<le> z" and "z \<le> 2147483647"
    and "opcode i = Op_Store v ptr sz" and "no_tmp ptr" and "ta_fresh s" and "trace_id s < 2048"
  shows "\<exists>code. loop_instr params i = Inr code \<and> (\<forall>m. \<exists>x e s'.
    map linked (calls (exec_code code m)) = map linked (calls m) @ [Some (Collect_Entry T_iuse x e 0 0 0)] \<and>
    record_iuse x 0 e s = Inr s' \<and> trace_id s' = trace_id s + 1 \<and> ta_log s' = ta_log s)"
proof -
  have "loop_calls params i = Inr (\<lambda>v. [Collect_Entry T_iuse (id_in v (word_of_int z)) (seen v ptr + sz) 0 0 0])"
    using assms(1-4) by (simp add: loop_calls_def tagged_def use_spec_def stoi16_number)
  then obtain code where code: "loop_instr params i = Inr code"
    "makes code (\<lambda>v. [Collect_Entry T_iuse (id_in v (word_of_int z)) (seen v ptr + sz) 0 0 0])"
    using loop_instr_fulfils [of i params] assms(4,5) fulfilled [of "loop_instr params" i] by auto
  have "\<exists>s'. record_iuse x 0 e s = Inr s' \<and> trace_id s' = trace_id s + 1 \<and> ta_log s' = ta_log s" for x e
    using blank_iuse_log [OF assms(6,7)] by simp
  then show ?thesis using code by (auto simp: makes_def)
qed

theorem loop_store_takes_a_slot_witness:
  "\<exists>code x e s'. loop_instr [] loop_write_instr = Inr code \<and>
    map linked (calls (exec_code code sample_machine)) = [Some (Collect_Entry T_iuse x e 0 0 0)] \<and>
    record_iuse x 0 e ta_initial = Inr s' \<and> trace_id s' = 1 \<and> ta_log s' = []"
proof -
  have "trace_id ta_initial = 0" by (simp add: ta_initial_def)
  then obtain code where "loop_instr [] loop_write_instr = Inr code" and "\<forall>m. \<exists>x e s'.
      map linked (calls (exec_code code m)) = map linked (calls m) @ [Some (Collect_Entry T_iuse x e 0 0 0)] \<and>
      record_iuse x 0 e ta_initial = Inr s' \<and> trace_id s' = 1 \<and> ta_log s' = []"
    using loop_store_takes_a_slot [of loop_write_instr 4 "Imm 2" "Val 0" 4 ta_initial "[]"] ta_fresh_initial
    unfolding ta_log_initial by (auto simp: loop_write_instr_def tagged_instr_def)
  from this(1) spec [OF this(2), of sample_machine] show ?thesis by (auto simp: sample_machine_def)
qed

end
