(* ===== verification/Whole_Tool.thy ===== *)
theory Whole_Tool
  imports Static_Facts Static_Driver_Props Instrument_Props
begin

text \<open>
  The parts together: the static analysis writes the trace and the metadata, the pass reads
  the metadata and injects the reports, the host and the trusted application record them,
  and the verifier judges them by the trace. The theorems here start with the analysis and
  end with the verdict.
\<close>

section \<open>The trace and the verdict\<close>

lemma exported_trace_watches:
  assumes "exportTrace g m order trace md = Inr (text, md')" and "trace \<noteq> []"
    and "items_ok evals g (trace_items trace)" and "unique_ids (trace_items trace)"
  shows "\<exists>v. trace_parser evals text verifier_initial = Inr v \<and> watches (facts_of m (trace_items trace)) Map.empty v \<and>
    (\<forall>e. traced m (trace_items trace) e \<longrightarrow> known (facts_of m (trace_items trace)) v e)"
proof -
  obtain vm where "export_entities g m trace = Inr (text, vm)"
    using assms(1) by (auto simp: exportTrace_def cbind_eq_Inr)
  from exported_store [OF this assms(3,2)] obtain v where
    v: "trace_parser evals text verifier_initial = Inr v" "store_of g m (trace_items trace) v" by blast
  then have "ver_wf v" "unseen v" using trace_parser_wf [OF _ ver_wf_initial] trace_parser_unseen by blast+
  then show ?thesis using v store_watches [OF v(2) _ _ assms(4)] traced_known [OF v(2) _ assms(4)] by blast
qed

text \<open>Without dynamic definitions every line is that of an entity which was entered.\<close>

definition no_dynamic :: "(int \<times> entity) list \<Rightarrow> bool" where
  "no_dynamic its \<longleftrightarrow> list_all (\<lambda>x. getEntityType (snd x) \<noteq> TT_ddef) its"

lemma no_dynamic_append [simp]: "no_dynamic (xs @ ys) \<longleftrightarrow> no_dynamic xs \<and> no_dynamic ys"
  by (simp add: no_dynamic_def)

lemma entity_item: "no_dynamic (entity_items f e) \<Longrightarrow> entity_items f e = [(f, e)]"
  by (cases "(f, e)" rule: entity_items.cases) (simp_all add: no_dynamic_def)

lemma no_dynamic_concat: "no_dynamic (concat (map h xs)) \<longleftrightarrow> (\<forall>x \<in> set xs. no_dynamic (h x))"
  by (induction xs) (simp_all add: no_dynamic_def)

lemma items_entered:
  assumes "no_dynamic (trace_items trace)"
  shows "snd ` set (trace_items trace) \<subseteq> set (entered trace)"
proof -
  have uses: "snd ` set (use_items e) \<subseteq> set (map the (targetObjects e))" if "no_dynamic (use_items e)" for e
    using that entity_item by (fastforce simp: use_items_def no_dynamic_concat)
  have sub: "snd ` set (sub_items f te) \<subseteq> set (entered_sub te)" if "no_dynamic (sub_items f te)" for f te
    using that uses [of "the te"] entity_item [of f "the te"] by (auto simp: sub_items_def entered_sub_def)
  have "snd ` set (top_items te) \<subseteq> set (entered_top te)" if "no_dynamic (top_items te)" for te
  proof -
    have "\<forall>x \<in> set (sub_objects (the te)). snd ` set (sub_items (getId (the te)) x) \<subseteq> set (entered_sub x)"
      using that sub by (simp add: top_items_def no_dynamic_concat)
    then show ?thesis
      using that entity_item [of "-1" "the te"] unfolding top_items_def entered_top_def by (fastforce simp: no_dynamic_concat)
  qed
  then have "\<forall>te \<in> set trace. snd ` set (top_items te) \<subseteq> set (entered_top te)"
    using assms by (simp add: trace_items_def no_dynamic_concat)
  then show ?thesis unfolding trace_items_def entered_def by fastforce
qed

lemma judged_session:
  assumes "search_trace g m p md = Inr a" and "main_analysis g m p order md = Inr (text, md')"
    and "its = trace_items (entities a)" and "entities a \<noteq> []" and "items_ok evals g its" and "no_dynamic its"
    and "optee_transport env code page" and "all_well os" and "one_kind es" and "length (foldl absorb [] es) \<le> 121"
    and "list_all (traced m its) es"
  shows "\<exists>v h s msgs alarms w. trace_parser evals text verifier_initial = Inr v \<and>
    cbind (zinit env (host_initial, ta_initial)) (\<lambda>w. cbind (c_run (report env mem) es w) (zexit env)) = Inr (h, s) \<and>
    z_extractor env [\<lparr>parent_gone = True, answers_os = os, secure = s\<rparr>] = Inr [msgs] \<and>
    verify_input (concat msgs) v = Inr (alarms, w) \<and>
    map (verdict v) alarms = monitor (facts_of m its) Map.empty (foldl absorb [] es)"
proof -
  have e: "exportTrace g m order (entities a) (call_md a) = Inr (text, md')"
    using assms(1,2) by (simp add: main_analysis_def)
  have "unique_ids its"
    using inj_on_subset [OF exported_ids [OF assms(1,2)] items_entered] assms(3,6) by (simp add: unique_ids_def)
  then obtain v where v: "trace_parser evals text verifier_initial = Inr v" "watches (facts_of m its) Map.empty v"
    "\<forall>e. traced m its e \<longrightarrow> known (facts_of m its) v e"
    using exported_trace_watches [OF e assms(4)] assms(3,5) by blast
  then have "list_all (known (facts_of m its) v) es" using assms(11) by (simp add: list_all_iff)
  from session_verdict [OF assms(7-10) v(2) this] v(1) show ?thesis by blast
qed

text \<open>
  From the analysis to the verdict: the verifier that reads the trace the analysis wrote
  judges any session of the program, of definitions and uses in that trace, by the sizes,
  offsets and targets of the analysis, and by nothing else. Programs with heap objects are
  left out here, because their traces name a dynamic definition twice.
\<close>

theorem analysis_judges_session:
  assumes "search_trace g m p md = Inr a" and "main_analysis g m p order md = Inr (text, md')"
    and "its = trace_items (entities a)" and "entities a \<noteq> []" and "items_ok evals g its" and "no_dynamic its"
    and "optee_transport env code page" and "all_well os" and "one_kind es" and "length (foldl absorb [] es) \<le> 121"
    and "list_all (traced m its) es"
  shows "\<exists>v h s msgs alarms w. trace_parser evals text verifier_initial = Inr v \<and>
    cbind (zinit env (host_initial, ta_initial)) (\<lambda>w. cbind (c_run (report env mem) es w) (zexit env)) = Inr (h, s) \<and>
    z_extractor env [\<lparr>parent_gone = True, answers_os = os, secure = s\<rparr>] = Inr [msgs] \<and>
    verify_input (concat msgs) v = Inr (alarms, w) \<and>
    map (verdict v) alarms = monitor (facts_of m its) Map.empty (foldl absorb [] es)"
  using judged_session [OF assms] .

text \<open>Two calls of memcpy into a buffer of 16 bytes: the first use writes 17.\<close>

definition copy_items :: "(int \<times> entity) list" where
  "copy_items = [(-1, In 0 5 (Some 0) [Some (LUse 1 0 (Some (AllocaInst 7 (IntegerTy 32))) [Some copy_buffer])]),
     (0, LUse 1 0 (Some (AllocaInst 7 (IntegerTy 32))) [Some copy_buffer]), (1, copy_buffer),
     (-1, In 3 5 (Some 1) [Some (LUse 4 1 (Some (AllocaInst 7 (IntegerTy 32))) [Some copy_buffer])]),
     (3, LUse 4 1 (Some (AllocaInst 7 (IntegerTy 32))) [Some copy_buffer]), (4, copy_buffer)]"

lemma copy_items: "trace_items copy_trace_entities = copy_items"
  by (simp add: copy_items_def copy_trace_entities_def trace_items_def top_items_def sub_items_def use_items_def copy_buffer_def)

lemma copy_facts:
  "checked_def (facts_of sample_module copy_items) 1 = Some 2" "object_of (facts_of sample_module copy_items) 2 = 2"
  "object_size (facts_of sample_module copy_items) 2 = 16" "object_offset (facts_of sample_module copy_items) 2 = 0"
  by code_simp+

theorem analysis_judges_session_witness:
  "\<exists>text md' v h s msgs alarms w. main_analysis copy_graphs sample_module copy_svf (\<lambda>x. x) (\<lambda>_ _. None) = Inr (text, md') \<and>
    trace_parser (\<lambda>_. True) text verifier_initial = Inr v \<and>
    cbind (zinit (direct_optee \<lparr>seconds = 0, millis = 0\<rparr>) (host_initial, ta_initial)) (\<lambda>w.
      cbind (c_run (report (direct_optee \<lparr>seconds = 0, millis = 0\<rparr>) (\<lambda>_. None)) [Def 131072 512, Use 65536 529] w)
        (zexit (direct_optee \<lparr>seconds = 0, millis = 0\<rparr>))) = Inr (h, s) \<and>
    z_extractor (direct_optee \<lparr>seconds = 0, millis = 0\<rparr>) [\<lparr>parent_gone = True, answers_os = well_answers, secure = s\<rparr>] = Inr [msgs] \<and>
    verify_input (concat msgs) v = Inr (alarms, w) \<and> map (verdict v) alarms = [(1, 2)]"
proof -
  let ?es = "[Def 131072 512, Use 65536 529] :: event list"
  let ?its = "trace_items copy_trace_entities"
  obtain s md' where r: "main_analysis copy_graphs sample_module copy_svf (\<lambda>x. x) (\<lambda>_ _. None) = Inr (s, md')"
    using copy_exported by blast
  have "items_ok (\<lambda>_. True) copy_graphs ?its" "no_dynamic ?its"
    by (simp_all add: copy_items copy_items_def items_ok_def item_ok_def copy_buffer_def copy_fields no_dynamic_def nl_def)
  moreover have "one_kind ?es" "length (foldl absorb [] ?es) \<le> 121" by (simp_all add: one_kind_def agree_kind_def)
  moreover have "all_well well_answers" by (simp add: all_well_def well_answers_def)
  moreover have "list_all (traced sample_module ?its) ?es"
    unfolding copy_items by (simp add: copy_facts) (simp add: copy_items_def is_def_item_def copy_buffer_def)
  moreover have "monitor (facts_of sample_module ?its) Map.empty (foldl absorb [] ?es) = [(1, 2)]"
    unfolding copy_items by (simp add: overflows_def place_of_def copy_facts)
  moreover have "copy_trace_entities \<noteq> []" by (simp add: copy_trace_entities_def)
  ultimately show ?thesis
    using analysis_judges_session [OF copy_search r, of ?its "\<lambda>_. True", OF _ _ _ _ direct.optee_transport_axioms, of well_answers ?es] r
    by auto
qed

section \<open>From the value to the verdict\<close>

text \<open>
  What the analysis found out of a program: the definition \<open>d\<close> of the value \<open>vd\<close>, and the
  store \<open>vs\<close> whose use \<open>u\<close> is checked against it; no other definition and no other use of the
  trace has these values, and the identifiers fit 16 bits.
\<close>

definition found_pair :: "graphs \<Rightarrow> llvm_module \<Rightarrow> driver \<Rightarrow> entity \<Rightarrow> llvm_value \<Rightarrow> entity \<Rightarrow> llvm_value \<Rightarrow> bool" where
  "found_pair g m a d vd u vs \<longleftrightarrow>
     d \<in> set (entered (entities a)) \<and> tags_value g ''zdef'' vd d \<and>
     (\<forall>e \<in> set (entered (entities a)). tags_value g ''zdef'' vd e \<longrightarrow> e = d) \<and>
     u \<in> set (entered (entities a)) \<and> tags_value g ''zsuse'' vs u \<and>
     (\<forall>e \<in> set (entered (entities a)). tags_value g ''zsuse'' vs e \<longrightarrow> e = u) \<and>
     checked_def (facts_of m (trace_items (entities a))) (getId u) = Some (getId d) \<and>
     0 < getId d \<and> getId d < 65536 \<and> 0 < getId u \<and> getId u < 65536"

text \<open>The offset of a field in its struct; other objects are reported where they start.\<close>

definition offset_of :: "entity \<Rightarrow> int" where
  "offset_of e = (case e of SDef i n t fs off dmn \<Rightarrow> off | _ \<Rightarrow> 0)"

definition var_instr :: "nat \<Rightarrow> string option \<Rightarrow> instr" where
  "var_instr r tag = \<lparr>result = r, opcode = Op_Alloca, attached = [''zdef'' \<mapsto> the tag]\<rparr>"

definition write_of :: "nat \<Rightarrow> operand \<Rightarrow> operand \<Rightarrow> u32 \<Rightarrow> string option \<Rightarrow> instr" where
  "write_of r x ptr n tag = \<lparr>result = r, opcode = Op_Store x ptr n, attached = [''zsuse'' \<mapsto> the tag]\<rparr>"

lemma not_in_number: "digit_val c = None \<Longrightarrow> c \<noteq> CHR ''-'' \<Longrightarrow> c \<notin> set (int_text z)"
  using number_text_char digit_val_char by (fastforce simp: int_text_def split: if_splits)

lemma single_id: "py_split (CHR ''_'') (int_text z) = [int_text z]"
  using not_in_number [of "CHR ''_''" z] by (intro py_split_plain) (simp add: digit_val_def)

lemma var_calls:
  assumes "0 \<le> d" and "d < 65536"
  shows "instr_calls ps False (var_instr r (Some (int_text d))) =
    Inr (\<lambda>v. [Collect_Alloca (id_in v (word_of_int d)) (seen v (Val r))])"
proof -
  have "def_ids (int_text d) = Inr [word_of_int d]" using assms by (simp add: def_ids_def single_id stoi16_number)
  then show ?thesis
    by (simp add: instr_calls_def def_calls_def store_calls_def library_calls_def tagged_def var_spec_def var_instr_def)
qed

lemma write_calls:
  assumes "0 \<le> u" and "u < 65536"
  shows "instr_calls ps False (write_of r x ptr n (Some (int_text u))) =
    Inr (\<lambda>v. [Report_Use (id_in v (word_of_int u)) (seen v ptr + n)])"
proof -
  have "stoi16 (int_text u) = Inr (word_of_int u)" using assms by (simp add: stoi16_number)
  then show ?thesis
    by (simp add: instr_calls_def def_calls_def store_calls_def library_calls_def tagged_def use_spec_def write_of_def)
qed

lemma block_reports:
  assumes "runOnModule M = Inr M'" and "j < length (fns M)" and "fn_name (fns M ! j) \<noteq> ''main''" and "loops (fns M ! j) = []"
    and "k < length (blocks (fns M ! j))" and "no_tmp x" and "no_tmp ptr"
    and "blocks (fns M ! j) ! k = map Prog [var_instr r (Some (int_text d)), write_of r' x ptr n (Some (int_text u))]"
    and "0 \<le> d" and "d < 65536" and "0 \<le> u" and "u < 65536"
  shows "map linked (calls (exec_code (blocks (fns M' ! j) ! k) mc)) = map linked (calls mc) @
    map Some [Collect_Alloca (id_in (view mc) (word_of_int d)) (vals mc r),
      Report_Use (id_in (view mc) (word_of_int u)) (operand_value mc ptr + n)]"
proof -
  let ?i = "var_instr r (Some (int_text d))" and ?w = "write_of r' x ptr n (Some (int_text u))"
  have own: "own_operands (opcode i)" "\<not> calls_instrumented i" if "i \<in> set [?i, ?w]" for i
    using that assms(6,7) by (auto simp: var_instr_def write_of_def calls_instrumented_def)
  have "distinct (concat (loops (fns M ! j)))" using assms(4) by simp
  from block_calls [OF assms(1,2,5) refl assms(3) this assms(8) own]
  obtain rs where rs: "list_all2 (\<lambda>i r. instr_calls (fn_args (fns M ! j)) (k \<in> set (concat (loops (fns M ! j)))) i = Inr r) [?i, ?w] rs"
    "covers [?i, ?w] rs (blocks (fns M' ! j) ! k)"
    by blast
  note calls = var_calls [OF assms(9,10)] write_calls [OF assms(11,12)]
  have "concat (map (\<lambda>f. f (view mc)) rs) = [Collect_Alloca (id_in (view mc) (word_of_int d)) (vals mc r),
      Report_Use (id_in (view mc) (word_of_int u)) (operand_value mc ptr + n)]"
    using rs(1) assms(4) seen_operand [OF assms(7), of mc] seen_operand [of "Val r" mc] by (auto simp: list_all2_Cons1 calls)
  then show ?thesis using covers_calls [OF rs(2), of mc] by simp
qed

lemma found_tags:
  assumes "search_trace g m p md = Inr a" and "main_analysis g m p order md = Inr (text, md')" and "\<And>vm. set (order vm) = set vm"
    and "found_pair g m a d vd u vs"
  shows "md' vd ''zdef'' = Some (int_text (getId d)) \<and> md' vs ''zsuse'' = Some (int_text (getId u))"
proof -
  have e: "exportTrace g m order (entities a) (call_md a) = Inr (text, md')"
    using assms(1,2) by (simp add: main_analysis_def)
  note inj = exported_ids [OF assms(1,2)]
  show ?thesis
    using value_tagged [OF e assms(3) inj, of d "''zdef''" vd] value_tagged [OF e assms(3) inj, of u "''zsuse''" vs] assms(4)
    by (auto simp: found_pair_def)
qed

lemma id_word: "0 \<le> z \<Longrightarrow> z < 65536 \<Longrightarrow> uint (id_in v (word_of_int z)) div 65536 = z"
  "uint (id_in v w) mod 65536 = uint (fst v)"
  using packed_unpacked [of "word_of_int z" "fst v"] packed_unpacked [of w "fst v"]
  by (simp_all add: id_in_def get_id_var_def uint_word_of_int)


text \<open>A value is read into a buffer of 16 bytes and written back into it behind its end.\<close>

definition fill_graphs :: graphs where
  "fill_graphs = copy_graphs
     \<lparr>svfg_out := (\<lambda>n. if n = 1 then [2] else []),
      svfg_value := (\<lambda>n. if n = 2 then Some (StoreInst 9 (AllocaInst 7 (IntegerTy 32)) ''main'') else None),
      call_site := (\<lambda>c. CallInst c (Some ''wrapper_scanf'') ''main'')\<rparr>"

definition fill_svf :: svf where
  "fill_svf = copy_svf\<lparr>call_sites := [0], actual_params := (\<lambda>_. [5, 5]), def_node := (\<lambda>_. Some 1)\<rparr>"

definition fill_buffer :: entity where
  "fill_buffer = ADef 1 4 (AllocaInst 7 (IntegerTy 32)) False"

definition fill_write :: entity where
  "fill_write = SUse 2 2 (StoreInst 9 (AllocaInst 7 (IntegerTy 32)) ''main'') (Some (AllocaInst 7 (IntegerTy 32))) [Some fill_buffer]"

definition fill_end :: driver where
  "fill_end = \<lparr>entities = [Some (In 0 5 (Some 0) [Some fill_buffer, Some fill_write])],
     deflist = [Some fill_buffer, Some fill_buffer], idCount = 3, call_md = (\<lambda>_ _. None)\<rparr>"

lemma fill_fields:
  "in_edges fill_graphs n = (if n = 5 then [edge Addr_Edge 4 5] else [])"
  "out_edges fill_graphs n = (if n = 4 then [edge Addr_Edge 4 5] else [])"
  "node_value fill_graphs n = Some (AllocaInst 7 (IntegerTy 32))" "value_node fill_graphs v = 5"
  "call_site fill_graphs c = CallInst c (Some ''wrapper_scanf'') ''main''"
  "svfg_out fill_graphs n = (if n = 1 then [2] else [])" "svfg_store fill_graphs n" "node_id fill_graphs n = int n"
  "svfg_value fill_graphs n = (if n = 2 then Some (StoreInst 9 (AllocaInst 7 (IntegerTy 32)) ''main'') else None)"
  "node_text fill_graphs n = ''buf''" "svfg_text fill_graphs n = ''store''" "is_dummy fill_graphs n = False"
  by (simp_all add: fill_graphs_def copy_graphs_def no_graphs_def)

lemma fill_calls:
  "call_sites fill_svf = [0]" "actual_params fill_svf c = [5, 5]" "def_node fill_svf n = Some 1"
  "module_stores fill_svf = []" "int_to_ptrs fill_svf = []" "hash_order fill_svf = sorted_list_of_set"
  by (simp_all add: fill_svf_def copy_svf_def)

lemma fill_lookups:
  "getDefNodes fill_graphs 5 = Inr [4]" "isDominatorNode fill_graphs 4 = Inr False"
  "findFirstDominator fill_graphs 5 = Inr (Some 4)" "findFirstDominator fill_graphs 4 = Inr None" "findDefNodesFromStore fill_graphs v = Inr [4]"
  "traverseOnVFG fill_graphs fill_svf v = Inr [2]"
proof -
  have d: "getDefNodes fill_graphs 5 = Inr [4]" "getDefNodes fill_graphs 4 = Inr []"
    by (simp_all add: getDefNodes_def visitAndSelectPagNodes_def visit_loop.simps visit_from_def never_stuck_def selectDefs_def selectDefs_edge_def
      fill_fields edge_def pop_def push_def Let_def)
  show "getDefNodes fill_graphs 5 = Inr [4]" by (rule d)
  show "isDominatorNode fill_graphs 4 = Inr False" "findFirstDominator fill_graphs 5 = Inr (Some 4)"
    "findFirstDominator fill_graphs 4 = Inr None"
    by (simp_all add: isDominatorNode_def edges_of_def findFirstDominator_def selectFirstDominator_def first_result_def
      visitAndSelectPagNodes_def visit_loop.simps visit_from_def never_stuck_def fill_fields edge_def pop_def)
  show "findDefNodesFromStore fill_graphs v = Inr [4]"
    by (simp add: findDefNodesFromStore_def store_start_def fill_fields d edges_of_def Let_def edge_def)
  show "traverseOnVFG fill_graphs fill_svf v = Inr [2]"
    by (simp add: traverseOnVFG_def fill_fields fill_calls traverse_loop.simps visit_succs_def)
qed

lemma fill_call: "call_site_step fill_graphs sample_module fill_svf 0 (driver_initial (\<lambda>_ _. None)) = Inr fill_end"
proof -
  let ?use = "SUse 2 2 (StoreInst 9 (AllocaInst 7 (IntegerTy 32)) ''main'') (Some (AllocaInst 7 (IntegerTy 32))) []"
  have t: "target_def fill_graphs sample_module fill_svf v 4 ([Some fill_buffer], 3, Some ?use) =
      Inr ([Some fill_buffer, Some fill_buffer], 3, Some fill_write)" for v
    by (simp add: target_def_def fill_fields copy_fields getOrBuildDef_def add_targets_def fill_buffer_def fill_write_def defNodeCompare_def)
  have b: "getOrBuildDef fill_graphs [] 4 1 = Inr (Some fill_buffer, 2)"
    by (simp add: getOrBuildDef_def buildDef_def build_loop.simps new_ADef_def new_id_def c_incr_def INT_MAX_def fill_lookups
      fill_fields fill_buffer_def)
  show ?thesis
    by (simp add: call_site_step_def fill_fields fill_calls inputFunctions_def input_call_def input_param_def new_In_def
      new_id_def c_incr_def INT_MAX_def driver_initial_def fill_lookups input_def_def b stores_reached_def VFGNodeFilter_def
      store_use_of_def new_SUse_def t fill_end_def)
qed

lemma fill_search: "search_trace fill_graphs sample_module fill_svf (\<lambda>_ _. None) = Inr fill_end"
proof -
  have z: "zref_call fill_graphs sample_module fill_svf c s = Inr s" for c s
    by (simp add: zref_call_def fill_fields name_ends_with_def)
  have "ziuse_use fill_graphs sample_module fill_svf (Some fill_buffer) fill_end = Inr fill_end"
    by (simp add: ziuse_use_def asUse_def isUse_def fill_buffer_def trace_entity_dynamic_cast_def)
  moreover have "ziuse_use fill_graphs sample_module fill_svf (Some fill_write) fill_end = Inr fill_end"
    by (simp add: fill_fields copy_fields trace_entity_dynamic_cast_def printEntity_def getUseInstruction_def fill_end_def fill_write_def
      ziuse_use_def asUse_def isUse_def use_start_def edge_def fill_lookups defNodeCompare_def ziuse_def_def fill_buffer_def edges_of_def)
  moreover have "printable (Some fill_buffer)" "printable (Some fill_write)" by (simp_all add: fill_buffer_def fill_write_def)
  ultimately have "ziuse_entity fill_graphs sample_module fill_svf (Some (In 0 5 (Some 0) [Some fill_buffer, Some fill_write])) fill_end =
      Inr fill_end"
    by (simp add: ziuse_entity_def fill_calls trace_entity_dynamic_cast_def printEntity_def)
  then show ?thesis
    by (simp add: search_trace_def fill_calls fill_call z) (simp add: fill_end_def)
qed

lemma fill_exported: "\<exists>s md'. main_analysis fill_graphs sample_module fill_svf (\<lambda>x. x) (\<lambda>_ _. None) = Inr (s, md')"
  by (simp add: main_analysis_def fill_search fill_end_def fill_buffer_def fill_write_def Let_def exportTrace_def export_entities_def export_top_def export_one_def exportEntity_def
    getBytes_defs traceLine_defs evaluateSizeDL_def updateValueMap_def trace_entity_dynamic_cast_def export_sub_def
    asUse_def isUse_def update_tags_def put_tag_def tag_entity_def no_tags_def fill_fields getUseInstruction_def)

definition fill_items :: "(int \<times> entity) list" where
  "fill_items = [(-1, In 0 5 (Some 0) [Some fill_buffer, Some fill_write]), (0, fill_buffer), (0, fill_write), (2, fill_buffer)]"

lemma fill_items: "trace_items (entities fill_end) = fill_items"
  by (simp add: fill_items_def fill_end_def trace_items_def top_items_def sub_items_def use_items_def fill_buffer_def fill_write_def)

lemma fill_facts: "checked_def (facts_of sample_module fill_items) 2 = Some 1"
  by code_simp

lemma fill_found: "found_pair fill_graphs sample_module fill_end fill_buffer (AllocaInst 7 (IntegerTy 32))
    fill_write (StoreInst 9 (AllocaInst 7 (IntegerTy 32)) ''main'')"
proof -
  have "entered (entities fill_end) = [In 0 5 (Some 0) [Some fill_buffer, Some fill_write], fill_buffer, fill_write, fill_buffer]"
    by (simp add: fill_end_def entered_def entered_top_def entered_sub_def fill_buffer_def fill_write_def)
  moreover have "getId fill_buffer = 1" "getId fill_write = 2" by (simp_all add: fill_buffer_def fill_write_def)
  ultimately show ?thesis
    by (simp add: found_pair_def fill_items fill_facts tags_value_def is_def_entity_def) (simp add: fill_buffer_def fill_write_def)
qed

definition fill_program :: ir_module where
  "fill_program = \<lparr>has_counter = True, globals = [], fns = [\<lparr>fn_name = ''work'', fn_args = [],
     blocks = [map Prog [var_instr 0 (Some (int_text 1)), write_of 1 (Imm 1) (Val 0) 17 (Some (int_text 2))]], loops = []\<rparr>]\<rparr>"

lemma fill_runs: "\<exists>M'. runOnModule fill_program = Inr M'"
proof -
  have "\<not> isl (runOnModule fill_program)" by code_simp
  then show ?thesis by (cases "runOnModule fill_program") auto
qed


end
