(* ===== verification/Program_Runs.thy ===== *)
theory Program_Runs
  imports Whole_Tool
begin

text \<open>
  Runs of the instrumented program: any sequence of blocks, with whatever values the program
  has at the start of each. The reports of a run are known without the injected code, and so
  are the alarms.
\<close>

section \<open>Runs\<close>

text \<open>
  A step of a run is a block (of a function, by their numbers) and the view the program has
  of its values there. Between blocks the program may change all of them; what it reported
  stays.
\<close>

type_synonym step = "nat \<times> nat \<times> program_view"

fun run_path :: "ir_module \<Rightarrow> step list \<Rightarrow> machine \<Rightarrow> machine" where
  "run_path M [] m = m"
| "run_path M ((j, k, c, vs, as) # p) m =
     run_path M p (exec_code (blocks (fns M ! j) ! k) (m\<lparr>rec_counter := c, vals := vs, arg_vals := as\<rparr>))"

text \<open>The instructions of the program in a block, and the calls promised for them.\<close>

definition promised :: "ir_module \<Rightarrow> step \<Rightarrow> host_call list c" where
  "promised M s = (case s of (j, k, v) \<Rightarrow>
     cbind (c_map (instr_calls (fn_args (fns M ! j)) (k \<in> set (concat (loops (fns M ! j))))) (progs (blocks (fns M ! j) ! k)))
       (\<lambda>rs. Inr (concat (map (\<lambda>f. f v) rs))))"

text \<open>A step the pass has instrumented: a block of the program, of a function other than main.\<close>

definition own_step :: "ir_module \<Rightarrow> step \<Rightarrow> bool" where
  "own_step M s \<longleftrightarrow> (case s of (j, k, v) \<Rightarrow>
     j < length (fns M) \<and> k < length (blocks (fns M ! j)) \<and> fn_name (fns M ! j) \<noteq> ''main'' \<and>
     distinct (concat (loops (fns M ! j))) \<and>
     blocks (fns M ! j) ! k = map Prog (progs (blocks (fns M ! j) ! k)) \<and>
     (\<forall>i \<in> set (progs (blocks (fns M ! j) ! k)). own_operands (opcode i) \<and> \<not> calls_instrumented i))"

lemma c_map_list_all2: "list_all2 (\<lambda>x y. f x = Inr y) xs ys \<Longrightarrow> c_map f xs = Inr ys"
  by (induction rule: list_all2_induct) simp_all

text \<open>The calls of a run are the promised ones, in order.\<close>

lemma run_calls:
  assumes "runOnModule M = Inr M'" and "list_all (own_step M) p"
  shows "\<exists>css. c_map (promised M) p = Inr css \<and>
    map linked (calls (run_path M' p m)) = map linked (calls m) @ map Some (concat css)"
  using assms(2)
proof (induction p arbitrary: m)
  case Nil
  then show ?case by simp
next
  case (Cons s p)
  obtain j k c vs as where s: "s = (j, k, c, vs, as)" by (cases s)
  let ?is = "progs (blocks (fns M ! j) ! k)" and ?m = "m\<lparr>rec_counter := c, vals := vs, arg_vals := as\<rparr>"
  have o: "own_step M (j, k, c, vs, as)" "list_all (own_step M) p" using Cons.prems by (simp_all add: s)
  then obtain rs where rs: "list_all2 (\<lambda>i r. instr_calls (fn_args (fns M ! j)) (k \<in> set (concat (loops (fns M ! j)))) i = Inr r) ?is rs"
    "covers ?is rs (blocks (fns M' ! j) ! k)"
    using block_calls [OF assms(1), of j k "fns M ! j" ?is] unfolding own_step_def by auto
  have v: "view ?m = (c, vs, as)" "calls ?m = calls m" by (simp_all add: view_def)
  have "map linked (calls (exec_code (blocks (fns M' ! j) ! k) ?m)) = map linked (calls m) @ map Some (concat (map (\<lambda>f. f (c, vs, as)) rs))"
    using covers_calls [OF rs(2), of ?m] v by simp
  moreover have "promised M s = Inr (concat (map (\<lambda>f. f (c, vs, as)) rs))"
    using c_map_list_all2 [OF rs(1)] by (simp add: promised_def s)
  moreover obtain css where "c_map (promised M) p = Inr css"
    "\<And>m. map linked (calls (run_path M' p m)) = map linked (calls m) @ map Some (concat css)"
    using Cons.IH [OF o(2)] by (metis sum.inject(2))
  ultimately show ?case by (simp add: s)
qed

section \<open>Events\<close>

text \<open>The event a call reports; a library call of unknown size reads the memory for its end.\<close>

fun event_of :: "memory \<Rightarrow> host_call \<Rightarrow> event option" where
  "event_of mem (Collect_Alloca i a) = Some (Def i a)"
| "event_of mem (Collect_Alloca_Dyn i a n) = Some (Ddef i a n)"
| "event_of mem (Report_Use i e) = Some (Use i e)"
| "event_of mem (Report_Luse i a n) = (case end_of_write mem a n of Inr e \<Rightarrow> Some (Use i e) | _ \<Rightarrow> None)"
| "event_of mem (Report_Iuse i d e) = Some (Iuse i d e)"
| "event_of mem (Report_Iluse i d a n) = (case end_of_write mem a n of Inr e \<Rightarrow> Some (Iuse i d e) | _ \<Rightarrow> None)"
| "event_of mem c = None"

lemma call_reports: "event_of mem c = Some e \<Longrightarrow> do_call env mem c = report env mem e"
  by (cases c) (auto simp: fun_eq_iff zbouncer_luse_def zbouncer_iluse_def split: sum.splits)

lemma calls_report: "map (event_of mem) cs = map Some es \<Longrightarrow> c_run (do_call env mem) cs = c_run (report env mem) es"
proof (induction cs arbitrary: es)
  case Nil
  then show ?case by simp
next
  case (Cons c cs)
  then obtain e es' where "es = e # es'" "event_of mem c = Some e" "map (event_of mem) cs = map Some es'" by (cases es) auto
  then show ?case using Cons.IH [of es'] by (intro ext) (simp add: call_reports)
qed

section \<open>The verdict on a run\<close>


text \<open>The block of the sample is run twice, the buffer at 512 and then at 640.\<close>

definition fill_path :: "step list" where
  "fill_path = [(0, 0, 2, \<lambda>_. 512, \<lambda>_. 0), (0, 0, 2, \<lambda>_. 640, \<lambda>_. 0)]"

lemma fill_promised: "c_map (promised fill_program) fill_path =
    Inr [[Collect_Alloca 65538 512, Report_Use 131074 529], [Collect_Alloca 65538 640, Report_Use 131074 657]]"
proof -
  have b: "blocks (fns fill_program ! 0) ! 0 = [Prog (var_instr 0 (Some (int_text 1))), Prog (write_of 1 (Imm 1) (Val 0) 17 (Some (int_text 2)))]"
    "loops (fns fill_program ! 0) = []" by (simp_all add: fill_program_def)
  show ?thesis by (simp add: fill_path_def promised_def b var_calls write_calls id_in_def packed_def)
qed

lemma fill_own: "list_all (own_step fill_program) fill_path"
  by (simp add: fill_path_def own_step_def fill_program_def var_instr_def write_of_def calls_instrumented_def)

lemma fill_sizes: "object_of (facts_of sample_module fill_items) 1 = 1" "object_size (facts_of sample_module fill_items) 1 = 16"
  "object_offset (facts_of sample_module fill_items) 1 = 0"
  by code_simp+


end
