(* ===== verification/Search.thy ===== *)
theory Search
  imports EW_Prelude
begin

text \<open>
  Searches of a finite graph given by the successors of its nodes, shared by the analyses:
  the nodes a search has seen and those it still has to look at, and the reachability that
  is left when none are.
\<close>

locale finite_graph =
  fixes succs :: "nat \<Rightarrow> nat list" and universe :: "nat set"
  assumes finite_universe: "finite universe" and succs_universe: "set (succs n) \<subseteq> universe"
begin

definition arcs :: "(nat \<times> nat) set" where
  "arcs = {(a, b). b \<in> set (succs a)}"

lemma reach_universe: "arcs\<^sup>* `` {s} \<subseteq> insert s universe"
proof
  fix n assume "n \<in> arcs\<^sup>* `` {s}"
  then have "(s, n) \<in> arcs\<^sup>*" by simp
  then show "n \<in> insert s universe"
    by (cases rule: rtranclE) (use succs_universe in \<open>auto simp: arcs_def\<close>)
qed

lemma finite_reach: "finite (arcs\<^sup>* `` {s})"
  using finite_subset [OF reach_universe] finite_universe by simp

text \<open>Every node the search knows is reachable, and a node it has seen has its successors known.\<close>

definition searching :: "nat \<Rightarrow> nat set \<Rightarrow> nat set \<Rightarrow> bool" where
  "searching s seen work \<longleftrightarrow> s \<in> seen \<union> work \<and> seen \<union> work \<subseteq> arcs\<^sup>* `` {s} \<and>
     (\<forall>n \<in> seen. set (succs n) \<subseteq> seen \<union> work)"

lemma searching_start: "searching s {} {s}"
  by (simp add: searching_def)

lemma searching_step:
  assumes "searching s seen (insert n work)" and "set (succs n) - seen \<subseteq> insert n new \<union> work" and "new \<subseteq> set (succs n)"
  shows "searching s (insert n seen) (work \<union> new)"
proof -
  have n: "(s, n) \<in> arcs\<^sup>*" using assms(1) by (auto simp: searching_def)
  have "new \<subseteq> arcs\<^sup>* `` {s}"
  proof
    fix m assume "m \<in> new"
    then have "(n, m) \<in> arcs" using assms(3) by (auto simp: arcs_def)
    then show "m \<in> arcs\<^sup>* `` {s}" using n by (auto intro: rtrancl_into_rtrancl)
  qed
  moreover have "set (succs m) \<subseteq> insert n seen \<union> (work \<union> new)" if "m \<in> insert n seen" for m
    using that assms(1,2) unfolding searching_def by blast
  ultimately show ?thesis using assms(1) unfolding searching_def by blast
qed

lemma searching_skip: "searching s seen (insert n work) \<Longrightarrow> n \<in> seen \<Longrightarrow> searching s seen work"
  unfolding searching_def by blast

lemma searching_work: "searching s seen work \<Longrightarrow> work \<subseteq> arcs\<^sup>* `` {s}"
  by (simp add: searching_def)

lemma searching_end: "searching s seen {} \<Longrightarrow> seen = arcs\<^sup>* `` {s}"
proof -
  assume r: "searching s seen {}"
  have "n \<in> seen" if "(s, n) \<in> arcs\<^sup>*" for n
    using that by (induction rule: rtrancl_induct) (use r in \<open>auto simp: searching_def arcs_def\<close>)
  then show ?thesis using r by (auto simp: searching_def)
qed

text \<open>How many reachable nodes are left to see.\<close>

definition unseen :: "nat \<Rightarrow> nat set \<Rightarrow> nat" where
  "unseen s seen = card (arcs\<^sup>* `` {s} - seen)"

lemma unseen_less: "n \<in> arcs\<^sup>* `` {s} \<Longrightarrow> n \<notin> seen \<Longrightarrow> unseen s (insert n seen) < unseen s seen"
  unfolding unseen_def by (rule psubset_card_mono) (use finite_reach in auto)

lemma unseen_add:
  assumes "set new \<subseteq> arcs\<^sup>* `` {s} - seen" and "distinct new"
  shows "unseen s (seen \<union> set new) + length new = unseen s seen"
proof -
  have "arcs\<^sup>* `` {s} - (seen \<union> set new) = (arcs\<^sup>* `` {s} - seen) - set new" by auto
  moreover have "card ((arcs\<^sup>* `` {s} - seen) - set new) = card (arcs\<^sup>* `` {s} - seen) - card (set new)"
    using assms(1) by (intro card_Diff_subset) simp_all
  moreover have "card (set new) \<le> card (arcs\<^sup>* `` {s} - seen)"
    using assms(1) finite_reach by (intro card_mono) auto
  ultimately show ?thesis using distinct_card [OF assms(2)] by (simp add: unseen_def)
qed

end

end
