(* ===== verification/Uaf_Graph.thy ===== *)
theory Uaf_Graph
  imports Search "HOL-Library.AList"
begin

text \<open>
  The directed graph of the use-after-free analysis (the class template Graph of
  SVF/tools/Uaf/svf-uaf.cpp). The hash table of nodes is an association list and each hash
  set of successors a list without duplicates; the order of these lists stands for the
  order in which the tables are walked. What is said of the operations depends on their
  elements only.
\<close>

section \<open>Operations\<close>

type_synonym flow_graph = "(nat \<times> nat list) list"

definition addNode :: "nat \<Rightarrow> flow_graph \<Rightarrow> flow_graph" where
  "addNode v g = (if map_of g v = None then g @ [(v, [])] else g)"

text \<open>The node an edge goes to is not added.\<close>

definition addEdge :: "nat \<Rightarrow> nat \<Rightarrow> flow_graph \<Rightarrow> flow_graph" where
  "addEdge a b g = AList.update a (let s = (case map_of g a of None \<Rightarrow> [] | Some s \<Rightarrow> s) in if b \<in> set s then s else s @ [b]) g"

definition removeNode :: "nat \<Rightarrow> flow_graph \<Rightarrow> flow_graph" where
  "removeNode v g = AList.delete v (map (\<lambda>(n, s). (n, removeAll v s)) g)"

definition removeEdge :: "nat \<Rightarrow> nat \<Rightarrow> flow_graph \<Rightarrow> flow_graph" where
  "removeEdge a b g = (case map_of g a of None \<Rightarrow> g | Some s \<Rightarrow> AList.update a (removeAll b s) g)"

definition getIncomingNodes :: "flow_graph \<Rightarrow> nat \<Rightarrow> nat list" where
  "getIncomingNodes g n = map fst (filter (\<lambda>(m, s). n \<in> set s) g)"

definition getOutgoingNodes :: "flow_graph \<Rightarrow> nat \<Rightarrow> nat list" where
  "getOutgoingNodes g n = (case map_of g n of None \<Rightarrow> [] | Some s \<Rightarrow> s)"

text \<open>A path is looked for with a stack, whose top is the head; a node may be on it more than once.\<close>

partial_function (option) path_loop :: "flow_graph \<Rightarrow> nat \<Rightarrow> nat list \<times> nat list \<Rightarrow> bool option" where
  "path_loop g node2 st =
     (case st of
        ([], visited) \<Rightarrow> Some False
      | (current # stack, visited) \<Rightarrow>
          if current = node2 then Some True
          else path_loop g node2
            (rev (filter (\<lambda>n. n \<notin> set (current # visited)) (getOutgoingNodes g current)) @ stack, current # visited))"

definition hasPath :: "flow_graph \<Rightarrow> nat \<Rightarrow> nat \<Rightarrow> bool c" where
  "hasPath g node1 node2 = (case path_loop g node2 ([node1], []) of None \<Rightarrow> Inl Diverges | Some b \<Rightarrow> Inr b)"

section \<open>Edges\<close>

text \<open>Nodes are listed once; the edges are what the operations change.\<close>

definition graph_ok :: "flow_graph \<Rightarrow> bool" where
  "graph_ok g \<longleftrightarrow> distinct (map fst g)"

definition edges :: "flow_graph \<Rightarrow> (nat \<times> nat) set" where
  "edges g = {(a, b). b \<in> set (getOutgoingNodes g a)}"

lemma in_edges: "(a, b) \<in> edges g \<longleftrightarrow> b \<in> set (getOutgoingNodes g a)"
  by (simp add: edges_def)

lemma outgoing_addNode: "getOutgoingNodes (addNode v g) n = getOutgoingNodes g n"
  by (auto simp: getOutgoingNodes_def addNode_def map_add_def split: option.splits)

lemma edges_addNode [simp]: "edges (addNode v g) = edges g"
  by (simp add: edges_def outgoing_addNode)

lemma edges_addEdge [simp]: "edges (addEdge a b g) = insert (a, b) (edges g)"
  by (auto simp: edges_def getOutgoingNodes_def addEdge_def update_conv' Let_def split: option.splits if_splits)

lemma graph_ok_empty [simp]: "graph_ok []" "edges [] = {}"
  by (simp_all add: graph_ok_def edges_def getOutgoingNodes_def)

lemma graph_ok_addNode [simp]: "graph_ok g \<Longrightarrow> graph_ok (addNode v g)"
  by (auto simp: graph_ok_def addNode_def map_of_eq_None_iff)

lemma graph_ok_addEdge [simp]: "graph_ok g \<Longrightarrow> graph_ok (addEdge a b g)"
  unfolding graph_ok_def addEdge_def by (rule distinct_update)

lemma map_of_removeAll: "map_of (map (\<lambda>(n, s). (n, removeAll v s)) g) n = map_option (removeAll v) (map_of g n)"
  by (induction g) auto

lemma outgoing_removeNode:
  "getOutgoingNodes (removeNode v g) n = (if n = v then [] else removeAll v (getOutgoingNodes g n))"
  unfolding getOutgoingNodes_def removeNode_def delete_conv' by (cases "map_of g n") (simp_all add: map_of_removeAll)

lemma edges_removeNode: "edges (removeNode v g) = {(a, b) \<in> edges g. a \<noteq> v \<and> b \<noteq> v}"
  by (auto simp: edges_def outgoing_removeNode split: if_splits)

lemma graph_ok_removeNode [simp]: "graph_ok g \<Longrightarrow> graph_ok (removeNode v g)"
  unfolding graph_ok_def removeNode_def by (rule distinct_delete) (simp add: comp_def case_prod_beta)

lemma edges_removeEdge: "edges (removeEdge a b g) = edges g - {(a, b)}"
  by (auto simp: edges_def getOutgoingNodes_def removeEdge_def update_conv' split: option.splits if_splits)

lemma incoming_edges: "graph_ok g \<Longrightarrow> m \<in> set (getIncomingNodes g n) \<longleftrightarrow> (m, n) \<in> edges g"
  by (force simp: graph_ok_def getIncomingNodes_def edges_def getOutgoingNodes_def split: option.splits dest: map_of_SomeD)

text \<open>The targets of edges; the graph is finite.\<close>

definition graph_targets :: "flow_graph \<Rightarrow> nat set" where
  "graph_targets g = (\<Union>x \<in> set g. set (snd x))"

interpretation carved: finite_graph "getOutgoingNodes g" "graph_targets g" for g
proof
  show "finite (graph_targets g)" by (simp add: graph_targets_def)
  show "set (getOutgoingNodes g n) \<subseteq> graph_targets g" for n
  proof (cases "map_of g n")
    case (Some s)
    then have "(n, s) \<in> set g" by (rule map_of_SomeD)
    then show ?thesis using Some by (force simp: getOutgoingNodes_def graph_targets_def)
  qed (simp add: getOutgoingNodes_def)
qed

lemma carved_arcs: "carved.arcs g = edges g"
  by (simp add: carved.arcs_def edges_def)

section \<open>Paths\<close>

text \<open>
  A node that is popped again pushes only nodes not seen yet, so that the next step sees one
  of them; the length of the stack counts only where its top has been seen.
\<close>

definition path_measure :: "flow_graph \<Rightarrow> nat \<Rightarrow> nat list \<times> nat list \<Rightarrow> nat \<times> nat" where
  "path_measure g s st = (carved.unseen g s (set (snd st)),
     if fst st \<noteq> [] \<and> hd (fst st) \<notin> set (snd st) then 0 else Suc (length (fst st)))"

lemma path_step_smaller:
  assumes "carved.searching g s (set visited) (set (n # stack))"
  shows "(path_measure g s (rev (filter (\<lambda>n'. n' \<notin> set (n # visited)) (getOutgoingNodes g n)) @ stack, n # visited),
      path_measure g s (n # stack, visited)) \<in> less_than <*lex*> less_than"
proof (cases "n \<in> set visited")
  case False
  have "n \<in> (carved.arcs g)\<^sup>* `` {s}" using carved.searching_work [OF assms] by simp
  from carved.unseen_less [OF this False] show ?thesis by (simp add: path_measure_def)
next
  case True
  then have seen: "set (n # visited) = set visited" by auto
  define new where "new = rev (filter (\<lambda>n'. n' \<notin> set (n # visited)) (getOutgoingNodes g n))"
  have m: "path_measure g s (new @ stack, n # visited) =
      (carved.unseen g s (set visited), if new @ stack \<noteq> [] \<and> hd (new @ stack) \<notin> set visited then 0 else Suc (length (new @ stack)))"
    unfolding path_measure_def fst_conv snd_conv seen by (rule refl)
  have "(path_measure g s (new @ stack, n # visited), path_measure g s (n # stack, visited)) \<in> less_than <*lex*> less_than"
  proof (cases new)
    case Nil
    then show ?thesis using True unfolding m by (simp add: path_measure_def)
  next
    case (Cons x xs)
    then have "x \<in> set new" by simp
    then have "x \<notin> set visited" unfolding new_def by simp
    then show ?thesis using True Cons unfolding m by (simp add: path_measure_def)
  qed
  then show ?thesis unfolding new_def .
qed

lemma path_loop_result:
  assumes "carved.searching g s (set (snd st)) (set (fst st))" and "t \<notin> set (snd st)"
  shows "path_loop g t st = Some ((s, t) \<in> (edges g)\<^sup>*)"
  using assms
proof (induction st rule: wf_induct_rule [OF wf_inv_image [OF wf_lex_prod [OF wf_less_than wf_less_than], where f = "path_measure g s"]])
  case (1 st)
  obtain visited where st: "snd st = visited" by simp
  show ?case
  proof (cases "fst st")
    case Nil
    then have "set visited = (edges g)\<^sup>* `` {s}"
      using 1(2) carved.searching_end st by (simp add: carved_arcs)
    then have "(s, t) \<notin> (edges g)\<^sup>*" using 1(3) st by auto
    then show ?thesis using Nil st by (cases st) (simp add: path_loop.simps)
  next
    case (Cons n stack)
    then have s: "st = (n # stack, visited)" using st by (cases st) simp
    show ?thesis
    proof (cases "n = t")
      case True
      have "n \<in> (edges g)\<^sup>* `` {s}" using carved.searching_work [OF 1(2)] s by (simp add: carved_arcs)
      then show ?thesis using True s by (simp add: path_loop.simps)
    next
      case False
      let ?st = "(rev (filter (\<lambda>n'. n' \<notin> set (n # visited)) (getOutgoingNodes g n)) @ stack, n # visited)"
      have "carved.searching g s (insert n (set visited)) (set stack \<union> {n' \<in> set (getOutgoingNodes g n). n' \<notin> set (n # visited)})"
        using 1(2) s by (intro carved.searching_step) auto
      then have "carved.searching g s (set (snd ?st)) (set (fst ?st))" by (simp add: Un_commute)
      moreover have "(?st, st) \<in> inv_image (less_than <*lex*> less_than) (path_measure g s)"
        using path_step_smaller 1(2) s by simp
      ultimately have "path_loop g t ?st = Some ((s, t) \<in> (edges g)\<^sup>*)"
        using 1(1) [of ?st] 1(3) False s by simp
      then show ?thesis using False s by (simp add: path_loop.simps)
    qed
  qed
qed

lemma hasPath_reach: "hasPath g a b = Inr ((a, b) \<in> (edges g)\<^sup>*)"
proof -
  have "path_loop g b ([a], []) = Some ((a, b) \<in> (edges g)\<^sup>*)"
    by (rule path_loop_result) (use carved.searching_start in simp_all)
  then show ?thesis by (simp add: hasPath_def)
qed

end
