(* ===== verification/Uaf.thy ===== *)
theory Uaf
  imports Uaf_Graph Static_Driver
begin

text \<open>
  The use-after-free analysis (SVF/tools/Uaf/svf-uaf.cpp and what its copy of visits.cpp
  has of its own): the calls that allocate and free, the graph of their nodes and of the
  definitions behind them, carved out of the control-flow graph of the program, the pairs of
  an allocation and a free of the same variable, and the files it writes. Log output is
  left out.
\<close>

section \<open>The control-flow graph\<close>

datatype icfg_kind = FunEntryBlock | FunExitBlock | FunCallBlock | FunRetBlock | GlobalBlock | IntraBlock

record svf_stmt =
  stmt_text :: string
  stmt_opcode :: "string option"
  stmt_kind :: int

text \<open>
  The graph of the SVF library as data: the successors of its nodes, their identifiers,
  functions (a global node has none), texts, kinds and statements (one need not have an
  instruction); the node of an instruction, of a call and of the entry of a function; the
  instruction of an edge of the assignment graph, and the base of a variable; the text of
  a pointer.
\<close>

record icfg =
  cfg_edges :: "(nat \<times> nat list) list"
  cfg_id :: "nat \<Rightarrow> u32"
  cfg_fun :: "nat \<Rightarrow> string option"
  cfg_text :: "nat \<Rightarrow> string"
  cfg_kind :: "nat \<Rightarrow> icfg_kind"
  cfg_stmts :: "nat \<Rightarrow> svf_stmt list"
  node_of_inst :: "llvm_value \<Rightarrow> nat"
  node_of_call :: "nat \<Rightarrow> nat"
  entry_of :: "string \<Rightarrow> nat"
  edge_inst :: "pag_edge \<Rightarrow> llvm_value option"
  base_var :: "nat \<Rightarrow> nat"
  ptr_text :: "nat \<Rightarrow> string"

definition cfg_succs :: "icfg \<Rightarrow> nat \<Rightarrow> nat list" where
  "cfg_succs I n = (case map_of (cfg_edges I) n of None \<Rightarrow> [] | Some s \<Rightarrow> s)"

text \<open>Only the first edge is looked at.\<close>

definition getICFGNodeFromPAGNode :: "graphs \<Rightarrow> icfg \<Rightarrow> nat \<Rightarrow> nat option" where
  "getICFGNodeFromPAGNode g I n =
     (case out_edges g n of [] \<Rightarrow> None | e # _ \<Rightarrow> map_option (node_of_inst I) (edge_inst I e))"

section \<open>Text\<close>

text \<open>The search goes on behind the text put in, so that it may contain what it replaces.\<close>

function replace_loop :: "string \<Rightarrow> string \<Rightarrow> string \<Rightarrow> nat \<Rightarrow> string" where
  "replace_loop pat to str start =
     (if pat = [] then str
      else case find_sub pat (drop start str) of
        None \<Rightarrow> str
      | Some i \<Rightarrow> replace_loop pat to (take (start + i) str @ to @ drop (start + i + length pat) str) (start + i + length to))"
  by pat_completeness auto
termination
proof (relation "measure (\<lambda>(pat, to, str, start). length str - start)")
  fix pat to str :: string and start i
  assume "pat \<noteq> []" and "find_sub pat (drop start str) = Some i"
  then obtain x xs where "pat = x # xs" "i + length pat \<le> length str - start"
    using find_sub_bound [of pat "drop start str"] by (cases pat) simp_all
  then show "((pat, to, take (start + i) str @ to @ drop (start + i + length pat) str, start + i + length to), pat, to, str, start)
      \<in> measure (\<lambda>(pat, to, str, start). length str - start)"
    by auto
qed simp

declare replace_loop.simps [simp del]

definition replace_all :: "string \<Rightarrow> string \<Rightarrow> string \<Rightarrow> string" where
  "replace_all str pat to = replace_loop pat to str 0"

definition escaped :: "string \<Rightarrow> string" where
  "escaped name =
     replace_all (replace_all (replace_all (replace_all name [CHR 0x0A] [CHR 0x5C, CHR ''n''])
       ''{'' [CHR 0x5C, CHR ''{'']) ''}'' [CHR 0x5C, CHR ''}'']) ''<'' [CHR 0x5C, CHR ''<'']"

section \<open>Searches\<close>

text \<open>
  Whether a node reaches another without passing a forbidden one, breadth first: nodes are
  told apart by their identifiers where they are compared with the target or the forbidden
  ones, and by their addresses where they have been visited.
\<close>

definition allowed_succs :: "icfg \<Rightarrow> u32 set \<Rightarrow> nat \<Rightarrow> nat list" where
  "allowed_succs I forbidden n = filter (\<lambda>s. cfg_id I s \<notin> forbidden) (cfg_succs I n)"

definition exist_next :: "(nat \<Rightarrow> nat list) \<Rightarrow> nat list \<Rightarrow> nat \<Rightarrow> nat list" where
  "exist_next succs seen current = filter (\<lambda>s. s \<notin> set (seen @ [current])) (succs current)"

partial_function (option) exist_loop ::
    "(nat \<Rightarrow> nat list) \<Rightarrow> (nat \<Rightarrow> bool) \<Rightarrow> nat list \<times> nat list \<Rightarrow> bool option" where
  "exist_loop succs is_target st =
     (case st of
        ([], seen) \<Rightarrow> Some False
      | (current # work, seen) \<Rightarrow>
          if current \<in> set seen then exist_loop succs is_target (work, seen)
          else if list_ex is_target (exist_next succs seen current) then Some True
          else exist_loop succs is_target (work @ exist_next succs seen current, seen @ [current]))"

definition existPathWithoutForbiddenNodes :: "icfg \<Rightarrow> nat \<Rightarrow> nat \<Rightarrow> u32 set \<Rightarrow> bool c" where
  "existPathWithoutForbiddenNodes I nodeA nodeB forbidden =
     (if cfg_id I nodeA = cfg_id I nodeB then Inr True
      else case exist_loop (allowed_succs I forbidden) (\<lambda>s. cfg_id I s = cfg_id I nodeB) ([nodeA], []) of
        None \<Rightarrow> Inl Diverges
      | Some b \<Rightarrow> Inr b)"

text \<open>
  Taking nodes out of a graph, with edges from each node before to each node behind them.
  The list of nodes that are to stay is a global variable nothing is ever put into.
\<close>

definition evictedIfNotAllocOrFree :: "icfg \<Rightarrow> nat list \<Rightarrow> nat \<Rightarrow> bool" where
  "evictedIfNotAllocOrFree I whitelist node = (\<not> list_ex (\<lambda>n. cfg_id I n = cfg_id I node) whitelist)"

definition bridge :: "nat \<Rightarrow> flow_graph \<Rightarrow> flow_graph" where
  "bridge current g =
     (let nodi_entranti = getIncomingNodes g current; nodi_uscenti = getOutgoingNodes g current in
      fold (\<lambda>i. fold (addEdge i) nodi_uscenti) nodi_entranti (removeNode current g))"

partial_function (option) remove_loop ::
    "(nat \<Rightarrow> bool) \<Rightarrow> flow_graph \<times> nat list \<times> nat list \<Rightarrow> flow_graph option" where
  "remove_loop evict st =
     (case st of
        (g, [], seen) \<Rightarrow> Some g
      | (g, current # work, seen) \<Rightarrow>
          remove_loop evict (if evict current then bridge current g else g,
            visit_succs (getOutgoingNodes g current) (work, List.insert current seen)))"

definition traverseAndRemoveNodes :: "(nat \<Rightarrow> bool) \<Rightarrow> nat \<Rightarrow> flow_graph \<Rightarrow> flow_graph c" where
  "traverseAndRemoveNodes evict start g =
     (case remove_loop evict (g, [start], []) of None \<Rightarrow> Inl Diverges | Some g' \<Rightarrow> Inr g')"

text \<open>Copying the part of the control-flow graph that can be reached.\<close>

definition copy_edges :: "nat \<Rightarrow> nat list \<Rightarrow> flow_graph \<Rightarrow> flow_graph" where
  "copy_edges current succs g = fold (\<lambda>s g. addEdge current s (addNode s g)) succs (addNode current g)"

partial_function (option) copy_loop :: "icfg \<Rightarrow> flow_graph \<times> nat list \<times> nat list \<Rightarrow> flow_graph option" where
  "copy_loop I st =
     (case st of
        (g, [], seen) \<Rightarrow> Some g
      | (g, current # work, seen) \<Rightarrow>
          copy_loop I (copy_edges current (cfg_succs I current) g,
            visit_succs (cfg_succs I current) (work, List.insert current seen)))"

definition traverseAndCopyGraph :: "icfg \<Rightarrow> nat \<Rightarrow> flow_graph \<Rightarrow> flow_graph c" where
  "traverseAndCopyGraph I start g =
     (case copy_loop I (addNode start g, [start], []) of None \<Rightarrow> Inl Diverges | Some g' \<Rightarrow> Inr g')"

text \<open>
  Following the control flow from the definitions, with the last node of interest on the
  way; the first is a dummy with identifier -1.
\<close>

definition ident :: "icfg \<Rightarrow> nat \<Rightarrow> nat \<Rightarrow> u32" where
  "ident I dummy n = (if n = dummy then -1 else cfg_id I n)"

definition note_node :: "icfg \<Rightarrow> nat \<Rightarrow> nat \<Rightarrow> nat \<Rightarrow> flow_graph \<times> nat \<Rightarrow> flow_graph \<times> nat" where
  "note_node I dummy current a st = (case st of (g, from) \<Rightarrow>
     if ident I dummy a = ident I dummy current then (addEdge from current (addNode current g), current) else (g, from))"

partial_function (option) flow_loop ::
    "(nat \<Rightarrow> nat list) \<Rightarrow> (nat \<Rightarrow> flow_graph \<times> nat \<Rightarrow> flow_graph \<times> nat) \<Rightarrow>
     flow_graph \<times> (nat \<times> nat) list \<times> nat list \<Rightarrow> flow_graph option" where
  "flow_loop succs note_current st =
     (case st of
        (g, [], seen) \<Rightarrow> Some g
      | (g, (current, from) # work, seen) \<Rightarrow>
          (case note_current current (g, from) of (g', from') \<Rightarrow>
           case visit_succs (succs current) ([], seen) of (next, seen') \<Rightarrow>
             flow_loop succs note_current (g', rev (map (\<lambda>s. (s, from')) next) @ work, seen')))"

definition traverseAndCreateAllocFreeFlowGraph ::
    "icfg \<Rightarrow> nat \<Rightarrow> nat list \<Rightarrow> nat list \<Rightarrow> flow_graph \<Rightarrow> flow_graph c" where
  "traverseAndCreateAllocFreeFlowGraph I dummy allocNodes defFreeNodes g =
     (case flow_loop (cfg_succs I) (\<lambda>current. fold (note_node I dummy current) (defFreeNodes @ allocNodes))
        (addNode dummy g, rev (map (\<lambda>n. (n, dummy)) defFreeNodes), []) of None \<Rightarrow> Inl Diverges | Some g' \<Rightarrow> Inr g')"

section \<open>Calls that allocate and free\<close>

text \<open>
  A call with the node it stands at, the variable, and the definitions behind it: a set
  with an address of its own, since sets are compared as pointers.
\<close>

record def_set =
  ds_addr :: nat
  ds_elems :: "nat list"

record mem_call =
  mc_icfg :: nat
  mc_pag :: nat
  mc_call :: nat
  mc_defs :: "def_set option"

definition allocFunctions :: "string list" where
  "allocFunctions = [''malloc'', ''calloc'', ''realloc'']"

definition freeFunctions :: "string list" where
  "freeFunctions = [''free'']"

text \<open>What main has collected; the node of main is uninitialised at first.\<close>

record uaf =
  free_list :: "mem_call list"
  alloc_list :: "mem_call list"
  main_node :: "nat option"
  next_set :: nat

definition mem_call_of :: "graphs \<Rightarrow> icfg \<Rightarrow> nat \<Rightarrow> nat \<Rightarrow> nat \<Rightarrow> mem_call c" where
  "mem_call_of g I call v address =
     cbind (quiet_getDefNodes g v) (\<lambda>ds.
     Inr \<lparr>mc_icfg = node_of_call I call, mc_pag = v, mc_call = call, mc_defs = Some \<lparr>ds_addr = address, ds_elems = ds\<rparr>\<rparr>)"

definition free_param :: "graphs \<Rightarrow> icfg \<Rightarrow> nat \<Rightarrow> nat \<Rightarrow> uaf \<Rightarrow> uaf c" where
  "free_param g I call p s =
     cbind (mem_call_of g I call (base_var I p) (next_set s)) (\<lambda>f.
     Inr (s\<lparr>free_list := free_list s @ [f], next_set := Suc (next_set s)\<rparr>))"

definition alloc_result :: "graphs \<Rightarrow> icfg \<Rightarrow> svf \<Rightarrow> nat \<Rightarrow> uaf \<Rightarrow> uaf c" where
  "alloc_result g I p call s =
     cbind (c_deref (actual_ret p call)) (\<lambda>r.
     cbind (mem_call_of g I call (base_var I r) (next_set s)) (\<lambda>m.
     Inr (s\<lparr>alloc_list := alloc_list s @ [m], next_set := Suc (next_set s)\<rparr>)))"

text \<open>Any caller that has main in its name replaces the node of main; an indirect call is skipped.\<close>

definition uaf_call :: "graphs \<Rightarrow> icfg \<Rightarrow> svf \<Rightarrow> nat \<Rightarrow> uaf \<Rightarrow> uaf c" where
  "uaf_call g I p call s =
     (case call_site g call of
        CallInst i (Some name) caller \<Rightarrow>
          cbind (if name \<in> set freeFunctions then c_run (free_param g I call) (actual_params p call) s else Inr s) (\<lambda>s1.
          cbind (if name \<in> set allocFunctions then alloc_result g I p call s1 else Inr s1) (\<lambda>s2.
          Inr (if contains caller ''main'' then s2\<lparr>main_node := Some (entry_of I caller)\<rparr> else s2)))
      | _ \<Rightarrow> Inr s)"

definition uaf_calls :: "graphs \<Rightarrow> icfg \<Rightarrow> svf \<Rightarrow> uaf c" where
  "uaf_calls g I p =
     c_run (uaf_call g I p) (call_sites p) \<lparr>free_list = [], alloc_list = [], main_node = None, next_set = 0\<rparr>"

section \<open>The carved graph\<close>

text \<open>
  The nodes of interest: each call, and the nodes of its definitions. Two of them are
  joined where one reaches the other without passing a third.
\<close>

definition listed_nodes :: "graphs \<Rightarrow> icfg \<Rightarrow> mem_call list \<Rightarrow> nat list c" where
  "listed_nodes g I cs =
     cbind (c_map (\<lambda>m. cbind (c_deref (mc_defs m)) (\<lambda>ds.
       Inr (mc_icfg m # List.map_filter (getICFGNodeFromPAGNode g I) (ds_elems ds)))) cs) (\<lambda>xss. Inr (concat xss))"

definition forbidden_ids :: "icfg \<Rightarrow> nat list \<Rightarrow> nat \<Rightarrow> nat \<Rightarrow> u32 set" where
  "forbidden_ids I nodes nodeA nodeB = set (map (cfg_id I) nodes) - {cfg_id I nodeB} - {cfg_id I nodeA}"

definition carve_pair :: "icfg \<Rightarrow> nat list \<Rightarrow> nat \<Rightarrow> nat \<Rightarrow> flow_graph \<Rightarrow> flow_graph c" where
  "carve_pair I nodes nodeA nodeB gr =
     cbind (existPathWithoutForbiddenNodes I nodeA nodeB (forbidden_ids I nodes nodeA nodeB)) (\<lambda>b.
     Inr (if b then addEdge nodeA nodeB (addNode nodeB (addNode nodeA gr)) else gr))"

definition createAllocFreeFlowGraph ::
    "graphs \<Rightarrow> icfg \<Rightarrow> mem_call list \<Rightarrow> mem_call list \<Rightarrow> flow_graph \<Rightarrow> flow_graph c" where
  "createAllocFreeFlowGraph g I freeList allocList gr =
     cbind (listed_nodes g I freeList) (\<lambda>fs.
     cbind (listed_nodes g I allocList) (\<lambda>as.
     let nodes = fs @ as in
     c_run (\<lambda>nodeA. c_run (carve_pair I nodes nodeA) nodes) nodes gr))"

section \<open>Pairs of an allocation and a free\<close>

text \<open>
  A pair has the call it takes for the allocation, the one it takes for the free, the
  allocations found later and the definitions of both. Whether the set of the free is null
  is asked of the one of the allocation.
\<close>

record MFPath =
  mf_alloc :: mem_call
  mf_free :: mem_call
  lastAlloc :: "mem_call list"
  pathDefs :: "nat list"

definition new_MFPath :: "mem_call \<Rightarrow> mem_call \<Rightarrow> MFPath c" where
  "new_MFPath f a =
     cbind (case mc_defs a of
         None \<Rightarrow> Inr []
       | Some ad \<Rightarrow> cbind (c_deref (mc_defs f)) (\<lambda>fd. Inr (sort (remdups (ds_elems fd @ ds_elems ad))))) (\<lambda>defs.
     Inr \<lparr>mf_alloc = a, mf_free = f, lastAlloc = [], pathDefs = defs\<rparr>)"

definition addLastAlloc :: "mem_call \<Rightarrow> MFPath \<Rightarrow> MFPath" where
  "addLastAlloc a path = path\<lparr>lastAlloc := List.insert a (lastAlloc path)\<rparr>"

definition getICFGAlloc :: "MFPath \<Rightarrow> nat" where
  "getICFGAlloc path = mc_icfg (mf_alloc path)"

definition getPAGAlloc :: "MFPath \<Rightarrow> nat" where
  "getPAGAlloc path = mc_pag (mf_alloc path)"

definition getICFGFree :: "MFPath \<Rightarrow> nat" where
  "getICFGFree path = mc_icfg (mf_free path)"

definition getPAGFree :: "MFPath \<Rightarrow> nat" where
  "getPAGFree path = mc_pag (mf_free path)"

definition getMFMPathCounter :: "MFPath \<Rightarrow> int" where
  "getMFMPathCounter path = int (length (lastAlloc path))"

definition isIntraFunction :: "icfg \<Rightarrow> MFPath \<Rightarrow> bool" where
  "isIntraFunction I path = (cfg_fun I (getICFGAlloc path) = cfg_fun I (getICFGFree path))"

definition u32_text :: "u32 \<Rightarrow> string" where
  "u32_text w = number_text 10 (unat w)"

text \<open>The text has the allocation where the free should be.\<close>

definition printMFPath :: "graphs \<Rightarrow> icfg \<Rightarrow> MFPath \<Rightarrow> string" where
  "printMFPath g I path =
     (let a = u32_text (cfg_id I (getICFGAlloc path)) @ '' (PAG='' @ int_text (node_id g (getPAGAlloc path)) @ '')'' in
      ''MFPath'' @ [CHR 0x0A] @ ''alloc ICFG='' @ a @ '' --> free ICFG='' @ a @ [CHR 0x0A] @ ''DEFS: '' @
      concat (map (\<lambda>d. int_text (node_id g d) @ '', '') (pathDefs path)) @ [CHR 0x0A])"

definition printMFPathFull :: "graphs \<Rightarrow> icfg \<Rightarrow> MFPath \<Rightarrow> string" where
  "printMFPathFull g I path =
     (let a = cfg_text I (getICFGAlloc path) in
      ''MFPath'' @ [CHR 0x0A] @ ''alloc ICFG='' @ a @ [CHR 0x0A] @ ''free ICFG='' @ a @ [CHR 0x0A] @ ''DEFS: '' @
      concat (map (\<lambda>d. CHR 0x09 # ''[-]'' @ node_text g d @ '' '') (pathDefs path)) @ [CHR 0x0A])"

text \<open>One pair for each two definitions that are the same.\<close>

definition match_pair :: "graphs \<Rightarrow> mem_call \<Rightarrow> mem_call \<Rightarrow> MFPath list \<Rightarrow> MFPath list c" where
  "match_pair g f a flow =
     cbind (c_deref (mc_defs f)) (\<lambda>fd.
     c_run (\<lambda>freeDef flow.
       cbind (c_deref (mc_defs a)) (\<lambda>ad.
       c_run (\<lambda>allocDef flow.
         if node_id g freeDef = node_id g allocDef
         then cbind (new_MFPath f a) (\<lambda>path. Inr (flow @ [path]))
         else Inr flow) (ds_elems ad) flow)) (ds_elems fd) flow)"

definition initMFFlow :: "graphs \<Rightarrow> MFPath list \<Rightarrow> mem_call list \<Rightarrow> mem_call list \<Rightarrow> MFPath list c" where
  "initMFFlow g flow allocList freeList = c_run (\<lambda>f. c_run (match_pair g f) allocList) freeList flow"

definition resolve_path :: "flow_graph \<Rightarrow> mem_call list \<Rightarrow> MFPath \<Rightarrow> MFPath c" where
  "resolve_path gr allocList path =
     c_run (\<lambda>a path. cbind (hasPath gr (getICFGFree path) (mc_icfg a)) (\<lambda>b.
       Inr (if b then addLastAlloc a path else path))) allocList path"

definition resolveMFMFlow :: "flow_graph \<Rightarrow> MFPath list \<Rightarrow> mem_call list \<Rightarrow> MFPath list c" where
  "resolveMFMFlow gr flow allocList = c_map (resolve_path gr allocList) flow"

section \<open>The files\<close>

text \<open>The printed graph, and the graph in the format of dot.\<close>

definition printICFGGraph :: "icfg \<Rightarrow> flow_graph \<Rightarrow> string" where
  "printICFGGraph I gr =
     concat (map (\<lambda>(n, s). u32_text (cfg_id I n) @ '' >>> '' @
       concat (map (\<lambda>v. u32_text (cfg_id I v) @ '' '') s) @ [CHR 0x0A, CHR 0x0A]) gr)"

definition printICFGGraphFull :: "icfg \<Rightarrow> flow_graph \<Rightarrow> string" where
  "printICFGGraphFull I gr =
     concat (map (\<lambda>(n, s). cfg_text I n @ '' >>> '' @
       concat (map (\<lambda>v. cfg_text I v @ '' '') s) @ [CHR 0x0A, CHR 0x0A]) gr)"

definition dot_node :: "icfg \<Rightarrow> nat \<Rightarrow> string" where
  "dot_node I n =
     ''Node'' @ ptr_text I n @ '' [shape=record,color='' @
     (if cfg_id I n \<noteq> 0
      then let name = escaped (cfg_text I n) in
        (if contains name ''malloc'' \<or> contains name ''calloc'' \<or> contains name ''realloc'' then ''blue''
         else if contains name ''alloc'' then ''green'' else ''red'') @ '',label='' @ [CHR 0x22] @ name
      else ''black,label='' @ [CHR 0x22] @ ''start'') @ [CHR 0x22] @ ''];'' @ [CHR 0x0A]"

definition dot_edges :: "icfg \<Rightarrow> nat \<times> nat list \<Rightarrow> string" where
  "dot_edges I x = (case x of (n, s) \<Rightarrow>
     concat (map (\<lambda>v. ''Node'' @ ptr_text I n @ '' -> Node'' @ ptr_text I v @ '' [style=solid];'' @ [CHR 0x0A]) s))"

definition printICFGDotGraph :: "icfg \<Rightarrow> flow_graph \<Rightarrow> string" where
  "printICFGDotGraph I gr =
     ''digraph G {'' @ [CHR 0x0A] @ concat (map (dot_node I \<circ> fst) gr) @ concat (map (dot_edges I) gr) @ ''}'' @ [CHR 0x0A]"

text \<open>
  A line for each statement of the nodes that can be reached, breadth first; a node without
  statements has none, whatever the line would say of it.
\<close>

fun kind_text :: "icfg_kind \<Rightarrow> string" where
  "kind_text FunEntryBlock = ''Function entry''"
| "kind_text FunExitBlock = ''Function exit''"
| "kind_text FunCallBlock = ''Call''"
| "kind_text FunRetBlock = ''Function Ret''"
| "kind_text GlobalBlock = ''Global''"
| "kind_text IntraBlock = ''Intra function''"

definition csv_call :: "graphs \<Rightarrow> svf \<Rightarrow> nat \<Rightarrow> string" where
  "csv_call g p current =
     (case call_site g current of
        CallInst i (Some name) caller \<Rightarrow> name @ '';'' @ int_text (int (length (actual_params p current))) @ '';''
      | _ \<Rightarrow> '';;'')"

definition csv_stmt :: "graphs \<Rightarrow> svf \<Rightarrow> icfg \<Rightarrow> nat \<Rightarrow> svf_stmt \<Rightarrow> string c" where
  "csv_stmt g p I current st =
     cbind (c_deref (stmt_opcode st)) (\<lambda>opcode_name.
     cbind (c_deref (cfg_fun I current)) (\<lambda>f.
     Inr (escaped (stmt_text st) @ '';'' @ opcode_name @ '';'' @ int_text (stmt_kind st) @ '';'' @
       (if cfg_stmts I current = [] then '';;;'' else []) @ f @ '';'' @ kind_text (cfg_kind I current) @ '';'' @
       (if cfg_kind I current = FunCallBlock then csv_call g p current else '';;'') @ [CHR 0x0A])))"

definition csv_node :: "graphs \<Rightarrow> svf \<Rightarrow> icfg \<Rightarrow> nat \<Rightarrow> string c" where
  "csv_node g p I current = cbind (c_map (csv_stmt g p I current) (cfg_stmts I current)) (\<lambda>ls. Inr (concat ls))"

partial_function (option) csv_loop :: "icfg \<Rightarrow> (nat \<Rightarrow> string c) \<Rightarrow> nat list \<times> nat list \<times> string \<Rightarrow> string c option" where
  "csv_loop I line st =
     (case st of
        ([], seen, text) \<Rightarrow> Some (Inr text)
      | (current # work, seen, text) \<Rightarrow> (case line current of
          Inl e \<Rightarrow> Some (Inl e)
        | Inr l \<Rightarrow> (case visit_succs (cfg_succs I current) (work, seen) of (work', seen') \<Rightarrow>
            csv_loop I line (work', seen', text @ l))))"

definition csv_header :: string where
  "csv_header = ''instruction;opcode;instr_kind;function;type;call_to;call_params'' @ [CHR 0x0A]"

definition traverseAndWriteToCSV :: "graphs \<Rightarrow> svf \<Rightarrow> icfg \<Rightarrow> nat \<Rightarrow> string c" where
  "traverseAndWriteToCSV g p I start =
     (case csv_loop I (csv_node g p I) ([start], [start], csv_header) of None \<Rightarrow> Inl Diverges | Some r \<Rightarrow> r)"

section \<open>Sizes\<close>

definition getSizeInBytes :: "llvm_module \<Rightarrow> llvm_type \<Rightarrow> 64 word" where
  "getSizeInBytes m t = of_nat (alloc_size m t)"

definition getSizeOfStructInBytes :: "llvm_module \<Rightarrow> string \<Rightarrow> 64 word" where
  "getSizeOfStructInBytes m s = fold (\<lambda>t totalSize. totalSize + getSizeInBytes m t) (struct_elements m s) 0"

text \<open>
  The argument of an allocation: a constant, a getelementptr with the type of its pointer
  operand, another instruction, or none. Whether the size is constant, and what is printed.
\<close>

datatype size_arg = ConstantSize "64 word" | GepSize llvm_type | InstructionSize | OtherSize

definition isSizeConstant :: "llvm_module \<Rightarrow> size_arg \<Rightarrow> bool \<times> string" where
  "isSizeConstant m sizeArg =
     (case sizeArg of
        ConstantSize n \<Rightarrow> (True, ''Found statically known size: '' @ number_text 10 (unat n) @ '' bytes'' @ [CHR 0x0A])
      | GepSize t \<Rightarrow> (False, ''Found dynamically computed size: '' @ [CHR 0x0A] @
          (case t of
             PointerTy (ArrayTy k e) \<Rightarrow> ''Array type with size: '' @ number_text 10 (unat (getSizeInBytes m (ArrayTy k e))) @ '' bytes'' @ [CHR 0x0A]
           | PointerTy (StructTy s) \<Rightarrow> ''Struct type with size: '' @ number_text 10 (unat (getSizeOfStructInBytes m s)) @ '' bytes'' @ [CHR 0x0A]
           | PointerTy e \<Rightarrow> ''Unknown type'' @ [CHR 0x0A]
           | _ \<Rightarrow> ''''))
      | _ \<Rightarrow> (False, ''''))"

text \<open>The copy of the search for the uses of a value.\<close>

definition uaf_traverseOnVFG :: "graphs \<Rightarrow> svf \<Rightarrow> llvm_value \<Rightarrow> nat list c" where
  "uaf_traverseOnVFG g p val =
     cbind (c_find (def_node p) (value_node g val)) (\<lambda>vNode.
     case traverse_loop g ([vNode], []) of
       None \<Rightarrow> Inl Diverges
     | Some seen \<Rightarrow> Inr (hash_order p (set seen)))"

section \<open>The analysis\<close>

text \<open>
  The pointer analysis is chosen by the second argument, which may be any part of the name
  of an option; without arguments there is none. No choice ends the program.
\<close>

datatype pta_choice = DDA | Ander | FlowSens

definition choose_pta :: "string list \<Rightarrow> pta_choice option c" where
  "choose_pta argv =
     (if length argv < 2 then Inl Null_Deref
      else if length argv = 2 then Inl Null_Deref
      else Inr (if contains ''--pta-dda'' (argv ! 2) then Some DDA
                else if contains ''--pta-ander'' (argv ! 2) then Some Ander
                else if contains ''--pta-fs'' (argv ! 2) then Some FlowSens else None))"

text \<open>The driver of the static trace chooses in the same way, but wants its arguments.\<close>

definition driver_choose_pta :: "string list \<Rightarrow> pta_choice option" where
  "driver_choose_pta argv =
     (if length argv < 3 then None
      else if contains ''--pta-dda'' (argv ! 2) then Some DDA
      else if contains ''--pta-ander'' (argv ! 2) then Some Ander
      else if contains ''--pta-fs'' (argv ! 2) then Some FlowSens else None)"

text \<open>
  The lists of allocations and frees are exchanged where the pairs are made. What is left:
  the carved graph, the pairs, the number of later allocations, and the text of the CSV.
\<close>

record report =
  carved_graph :: flow_graph
  mf_flow :: "MFPath list"
  mfm_counter :: int
  csv_text :: string

definition uaf_main :: "graphs \<Rightarrow> icfg \<Rightarrow> svf \<Rightarrow> report c" where
  "uaf_main g I p =
     cbind (uaf_calls g I p) (\<lambda>s.
     cbind (createAllocFreeFlowGraph g I (free_list s) (alloc_list s) []) (\<lambda>gr.
     cbind (initMFFlow g [] (free_list s) (alloc_list s)) (\<lambda>flow.
     cbind (resolveMFMFlow gr flow (alloc_list s)) (\<lambda>flow'.
     cbind (case main_node s of None \<Rightarrow> Inl Indeterminate_Value | Some n \<Rightarrow> traverseAndWriteToCSV g p I n) (\<lambda>text.
     Inr \<lparr>carved_graph = gr, mf_flow = flow',
          mfm_counter = sum_list (map getMFMPathCounter flow'), csv_text = text\<rparr>)))))"

section \<open>What the copy of visits.cpp has of its own\<close>

text \<open>All stores behind a node; no node is remembered.\<close>

definition selectAllStore_edge :: "graphs \<Rightarrow> pag_edge \<Rightarrow> visit \<Rightarrow> visit" where
  "selectAllStore_edge g e w =
     (if is_dummy g (edge_src e) then w
      else push (edge_dst e) (if edge_kind e = Store_Edge then w\<lparr>ret := insert (edge_dst e) (ret w)\<rparr> else w))"

definition selectAllStore :: "graphs \<Rightarrow> nat \<Rightarrow> visit \<Rightarrow> visit" where
  "selectAllStore g current w = fold (selectAllStore_edge g) (out_edges g current) w"

definition findAllStore :: "graphs \<Rightarrow> nat \<Rightarrow> nat list c" where
  "findAllStore g start = visitAndSelectPagNodes start (never_stuck (selectAllStore g))"

text \<open>Unlike the other copy, a call without a store has no target.\<close>

definition uaf_findTargetOfCall :: "graphs \<Rightarrow> nat \<Rightarrow> nat option c" where
  "uaf_findTargetOfCall g callNode =
     cbind (findFirstStore g callNode) (\<lambda>s. case s of
       None \<Rightarrow> Inr None
     | Some storeNode \<Rightarrow>
         (case find (\<lambda>e. \<not> is_dummy g (edge_src e)) (edges_of Store_Edge (in_edges g storeNode)) of
            None \<Rightarrow> Inr None
          | Some e \<Rightarrow> cbind (store_target (edge_value e)) (\<lambda>target.
              findFirstDominator g (value_node g target))))"

end
