(* ===== verification/Uaf_Laws.thy ===== *)
theory Uaf_Laws
  imports Uaf
begin

text \<open>
  The searches of the use-after-free analysis as reachability in the control-flow graph,
  and the graph it carves out of it.
\<close>

section \<open>The search that avoids nodes\<close>

context finite_graph
begin

lemma exist_loop_result:
  assumes "searching s (set seen) (set work)" and "\<not> list_ex is_target (seen @ work)"
  shows "exist_loop succs is_target (work, seen) = Some (\<exists>t. (s, t) \<in> arcs\<^sup>* \<and> is_target t)"
  using assms
proof (induction "(unseen s (set seen), length work)" arbitrary: work seen
    rule: wf_induct_rule [OF wf_lex_prod [OF wf_less_than wf_less_than]])
  case less: 1
  show ?case
  proof (cases work)
    case Nil
    then have "set seen = arcs\<^sup>* `` {s}" using less.prems(1) searching_end by simp
    then have "\<not> (\<exists>t. (s, t) \<in> arcs\<^sup>* \<and> is_target t)" using less.prems(2) by (auto simp: list_ex_iff)
    then show ?thesis using Nil by (simp add: exist_loop.simps)
  next
    case (Cons n rest)
    show ?thesis
    proof (cases "n \<in> set seen")
      case True
      have "searching s (set seen) (set rest)" using less.prems(1) Cons True searching_skip by simp
      then have "exist_loop succs is_target (rest, seen) = Some (\<exists>t. (s, t) \<in> arcs\<^sup>* \<and> is_target t)"
        using less.hyps [of seen rest] less.prems(2) Cons by (simp add: list_ex_iff)
      then show ?thesis using Cons True by (simp add: exist_loop.simps)
    next
      case False
      let ?next = "exist_next succs seen n"
      have reach: "(s, n) \<in> arcs\<^sup>*" using searching_work [OF less.prems(1)] Cons by auto
      have inv: "searching s (set (seen @ [n])) (set (rest @ ?next))"
        using searching_step [of s "set seen" n "set rest" "set ?next"] less.prems(1) Cons
        by (auto simp: exist_next_def)
      show ?thesis
      proof (cases "list_ex is_target ?next")
        case True
        then obtain t where "t \<in> set ?next" "is_target t" by (auto simp: list_ex_iff)
        moreover have "(s, t) \<in> arcs\<^sup>*" using searching_work [OF inv] calculation(1) by auto
        ultimately show ?thesis using Cons False True by (auto simp: exist_loop.simps)
      next
        case no: False
        have "exist_loop succs is_target (rest @ ?next, seen @ [n]) = Some (\<exists>t. (s, t) \<in> arcs\<^sup>* \<and> is_target t)"
          by (rule less.hyps [OF _ inv])
            (use unseen_less [of n s "set seen"] reach False no less.prems(2) Cons in \<open>auto simp: list_ex_iff\<close>)
        then show ?thesis using Cons False no by (simp add: exist_loop.simps)
      qed
    qed
  qed
qed

end

section \<open>The control-flow graph\<close>

definition cfg_nodes :: "icfg \<Rightarrow> nat set" where
  "cfg_nodes I = (\<Union>x \<in> set (cfg_edges I). set (snd x))"

lemma cfg_succs_nodes: "set (cfg_succs I n) \<subseteq> cfg_nodes I"
proof (cases "map_of (cfg_edges I) n")
  case (Some s)
  then have "(n, s) \<in> set (cfg_edges I)" by (rule map_of_SomeD)
  then show ?thesis using Some by (force simp: cfg_succs_def cfg_nodes_def)
qed (simp add: cfg_succs_def)

interpretation flow: finite_graph "cfg_succs I" "cfg_nodes I" for I
  by unfold_locales (use cfg_succs_nodes in \<open>auto simp: cfg_nodes_def\<close>)

interpretation avoiding: finite_graph "allowed_succs I forbidden" "cfg_nodes I" for I forbidden
  by unfold_locales (use cfg_succs_nodes in \<open>auto simp: cfg_nodes_def allowed_succs_def\<close>)

definition cfg_arcs :: "icfg \<Rightarrow> (nat \<times> nat) set" where
  "cfg_arcs I = {(a, b). b \<in> set (cfg_succs I a)}"

lemma flow_arcs: "flow.arcs I = cfg_arcs I"
  by (simp add: flow.arcs_def cfg_arcs_def)

definition avoiding_arcs :: "icfg \<Rightarrow> u32 set \<Rightarrow> (nat \<times> nat) set" where
  "avoiding_arcs I forbidden = {(a, b) \<in> cfg_arcs I. cfg_id I b \<notin> forbidden}"

lemma avoiding_arcs: "avoiding.arcs I forbidden = avoiding_arcs I forbidden"
  by (auto simp: avoiding.arcs_def avoiding_arcs_def cfg_arcs_def allowed_succs_def)

lemma exist_path_result:
  "existPathWithoutForbiddenNodes I a b forbidden =
     Inr (\<exists>t. (a, t) \<in> (avoiding_arcs I forbidden)\<^sup>* \<and> cfg_id I t = cfg_id I b)"
proof (cases "cfg_id I a = cfg_id I b")
  case True
  then show ?thesis by (auto simp: existPathWithoutForbiddenNodes_def)
next
  case False
  then show ?thesis
    using avoiding.exist_loop_result [of I forbidden a "[]" "[a]" "\<lambda>s. cfg_id I s = cfg_id I b"] avoiding.searching_start
    by (simp add: existPathWithoutForbiddenNodes_def avoiding_arcs)
qed

text \<open>Identifiers tell the nodes apart.\<close>

definition ids_distinct :: "icfg \<Rightarrow> nat list \<Rightarrow> bool" where
  "ids_distinct I nodes \<longleftrightarrow> inj_on (cfg_id I) (cfg_nodes I \<union> set nodes)"

lemma exist_path_listed:
  assumes "ids_distinct I nodes" and "a \<in> set nodes" and "b \<in> set nodes"
  shows "existPathWithoutForbiddenNodes I a b forbidden = Inr ((a, b) \<in> (avoiding_arcs I forbidden)\<^sup>*)"
proof -
  have "t = b" if "(a, t) \<in> (avoiding_arcs I forbidden)\<^sup>*" "cfg_id I t = cfg_id I b" for t
  proof -
    have "t \<in> insert a (cfg_nodes I)" using avoiding.reach_universe [of I forbidden a] that(1) by (auto simp: avoiding_arcs)
    then show ?thesis using assms that(2) by (auto simp: ids_distinct_def inj_on_def)
  qed
  then show ?thesis by (auto simp: exist_path_result)
qed

section \<open>The carved graph\<close>

text \<open>Two nodes are joined where a path leads from one to the other past no other listed node.\<close>

definition joined :: "icfg \<Rightarrow> nat list \<Rightarrow> nat \<Rightarrow> nat \<Rightarrow> bool" where
  "joined I nodes a b \<longleftrightarrow> (a, b) \<in> (avoiding_arcs I (forbidden_ids I nodes a b))\<^sup>*"

lemma carve_row:
  assumes "ids_distinct I nodes" and "a \<in> set nodes" and "set bs \<subseteq> set nodes"
  shows "\<exists>gr'. c_run (carve_pair I nodes a) bs gr = Inr gr' \<and>
    edges gr' = edges gr \<union> {(x, b). x = a \<and> b \<in> set bs \<and> joined I nodes a b}"
  using assms(3)
proof (induction bs arbitrary: gr)
  case (Cons b bs)
  let ?gr = "if joined I nodes a b then addEdge a b (addNode b (addNode a gr)) else gr"
  have "carve_pair I nodes a b gr = Inr ?gr"
    using exist_path_listed [OF assms(1,2)] Cons.prems by (simp add: carve_pair_def joined_def)
  moreover obtain gr' where "c_run (carve_pair I nodes a) bs ?gr = Inr gr'"
    "edges gr' = edges ?gr \<union> {(x, b). x = a \<and> b \<in> set bs \<and> joined I nodes a b}"
    using Cons.IH [of ?gr] Cons.prems by (meson set_subset_Cons subset_trans)
  ultimately show ?case by auto
qed simp

lemma carve_rows:
  assumes "ids_distinct I nodes" and "set as \<subseteq> set nodes"
  shows "\<exists>gr'. c_run (\<lambda>a. c_run (carve_pair I nodes a) nodes) as gr = Inr gr' \<and>
    edges gr' = edges gr \<union> {(a, b). a \<in> set as \<and> b \<in> set nodes \<and> joined I nodes a b}"
  using assms(2)
proof (induction as arbitrary: gr)
  case (Cons a as)
  obtain gr1 where "c_run (carve_pair I nodes a) nodes gr = Inr gr1"
    "edges gr1 = edges gr \<union> {(x, b). x = a \<and> b \<in> set nodes \<and> joined I nodes a b}"
    using carve_row [OF assms(1), of a nodes gr] Cons.prems by auto
  moreover obtain gr2 where "c_run (\<lambda>a. c_run (carve_pair I nodes a) nodes) as gr1 = Inr gr2"
    "edges gr2 = edges gr1 \<union> {(a, b). a \<in> set as \<and> b \<in> set nodes \<and> joined I nodes a b}"
    using Cons.IH [of gr1] Cons.prems by auto
  ultimately show ?case by auto
qed simp

lemma carved_edges:
  assumes "listed_nodes g I frees = Inr fs" and "listed_nodes g I allocs = Inr as" and "ids_distinct I (fs @ as)"
  shows "\<exists>gr. createAllocFreeFlowGraph g I frees allocs [] = Inr gr \<and>
    edges gr = {(a, b). a \<in> set (fs @ as) \<and> b \<in> set (fs @ as) \<and> joined I (fs @ as) a b}"
  using carve_rows [OF assms(3), of "fs @ as" "[]"] assms(1,2)
  by (simp add: createAllocFreeFlowGraph_def Let_def)

text \<open>A path of the control-flow graph is cut at the listed nodes.\<close>

lemma joined_path: "joined I nodes a b \<Longrightarrow> (a, b) \<in> (cfg_arcs I)\<^sup>*"
  unfolding joined_def by (erule rtrancl_mono [THEN subsetD, rotated]) (auto simp: avoiding_arcs_def)

lemma path_cut:
  assumes "ids_distinct I nodes" and "(a, n) \<in> (cfg_arcs I)\<^sup>*" and "a \<in> set nodes"
  shows "\<exists>c \<in> set nodes. (a, c) \<in> {(a, b). a \<in> set nodes \<and> b \<in> set nodes \<and> joined I nodes a b}\<^sup>* \<and>
    (c, n) \<in> (avoiding_arcs I (set (map (cfg_id I) nodes)))\<^sup>*"
  using assms(2)
proof (induction rule: rtrancl_induct)
  case base
  then show ?case using assms(3) by blast
next
  case (step n m)
  then obtain c where c: "c \<in> set nodes" "(a, c) \<in> {(a, b). a \<in> set nodes \<and> b \<in> set nodes \<and> joined I nodes a b}\<^sup>*"
    "(c, n) \<in> (avoiding_arcs I (set (map (cfg_id I) nodes)))\<^sup>*" by blast
  show ?case
  proof (cases "cfg_id I m \<in> set (map (cfg_id I) nodes)")
    case False
    then have "(n, m) \<in> avoiding_arcs I (set (map (cfg_id I) nodes))" using step(2) by (simp add: avoiding_arcs_def)
    then show ?thesis using c by (meson rtrancl.rtrancl_into_rtrancl)
  next
    case True
    have "m \<in> cfg_nodes I" using step(2) cfg_succs_nodes by (auto simp: cfg_arcs_def)
    then have m: "m \<in> set nodes" using True assms(1) by (auto simp: ids_distinct_def inj_on_def)
    have "avoiding_arcs I (set (map (cfg_id I) nodes)) \<subseteq> avoiding_arcs I (forbidden_ids I nodes c m)"
      by (auto simp: avoiding_arcs_def forbidden_ids_def)
    then have "(c, n) \<in> (avoiding_arcs I (forbidden_ids I nodes c m))\<^sup>*" using c(3) rtrancl_mono by blast
    moreover have "(n, m) \<in> avoiding_arcs I (forbidden_ids I nodes c m)"
      using step(2) by (simp add: avoiding_arcs_def forbidden_ids_def)
    ultimately have "joined I nodes c m" unfolding joined_def by (rule rtrancl_into_rtrancl)
    then have "(a, m) \<in> {(a, b). a \<in> set nodes \<and> b \<in> set nodes \<and> joined I nodes a b}\<^sup>*"
      using c(1,2) m by (auto intro: rtrancl_into_rtrancl)
    then show ?thesis using m by blast
  qed
qed

lemma carved_reach:
  assumes "ids_distinct I nodes" and "a \<in> set nodes" and "b \<in> set nodes"
  shows "(a, b) \<in> {(a, b). a \<in> set nodes \<and> b \<in> set nodes \<and> joined I nodes a b}\<^sup>* \<longleftrightarrow> (a, b) \<in> (cfg_arcs I)\<^sup>*"
proof
  assume "(a, b) \<in> {(a, b). a \<in> set nodes \<and> b \<in> set nodes \<and> joined I nodes a b}\<^sup>*"
  then show "(a, b) \<in> (cfg_arcs I)\<^sup>*"
    by (induction rule: rtrancl_induct) (auto dest: joined_path)
next
  assume "(a, b) \<in> (cfg_arcs I)\<^sup>*"
  from path_cut [OF assms(1) this assms(2)] obtain c where c: "c \<in> set nodes"
    "(a, c) \<in> {(a, b). a \<in> set nodes \<and> b \<in> set nodes \<and> joined I nodes a b}\<^sup>*"
    "(c, b) \<in> (avoiding_arcs I (set (map (cfg_id I) nodes)))\<^sup>*" by blast
  from c(3) have "c = b"
    by (cases rule: rtranclE) (use assms(3) in \<open>auto simp: avoiding_arcs_def\<close>)
  then show "(a, b) \<in> {(a, b). a \<in> set nodes \<and> b \<in> set nodes \<and> joined I nodes a b}\<^sup>*" using c(2) by simp
qed

end
