(* ===== verification/Uaf_Removal.thy ===== *)
theory Uaf_Removal
  imports Uaf_Laws
begin

text \<open>
  Taking nodes out of a graph (traverseAndRemoveNodes): one node leaves the paths between
  all others as they are, and the whole traversal ends with every node that can be reached
  looked at.
\<close>

section \<open>One node\<close>

lemma edges_fold_addEdge: "edges (fold (addEdge i) outs g) = edges g \<union> {i} \<times> set outs"
  by (induction outs arbitrary: g) auto

lemma edges_fold_pairs: "edges (fold (\<lambda>i. fold (addEdge i) outs) ins g) = edges g \<union> set ins \<times> set outs"
  by (induction ins arbitrary: g) (auto simp: edges_fold_addEdge)

lemma graph_ok_fold_pairs: "graph_ok g \<Longrightarrow> graph_ok (fold (\<lambda>i. fold (addEdge i) outs) ins g)"
proof (induction ins arbitrary: g)
  case (Cons i ins)
  have "graph_ok (fold (addEdge i) outs g)" using Cons.prems by (induction outs arbitrary: g) simp_all
  then show ?case using Cons.IH by simp
qed simp

lemma graph_ok_bridge: "graph_ok g \<Longrightarrow> graph_ok (bridge c g)"
  by (simp add: bridge_def Let_def graph_ok_fold_pairs)

lemma edges_bridge:
  assumes "graph_ok g"
  shows "edges (bridge c g) = {(a, b) \<in> edges g. a \<noteq> c \<and> b \<noteq> c} \<union> {a. (a, c) \<in> edges g} \<times> {b. (c, b) \<in> edges g}"
  using incoming_edges [OF assms, of _ c] by (auto simp: bridge_def Let_def edges_fold_pairs edges_removeNode in_edges)

lemma bridge_paths:
  assumes "graph_ok g" and "a \<noteq> c" and "b \<noteq> c"
  shows "(a, b) \<in> (edges (bridge c g))\<^sup>* \<longleftrightarrow> (a, b) \<in> (edges g)\<^sup>*"
proof
  have "edges (bridge c g) \<subseteq> (edges g)\<^sup>*"
    unfolding edges_bridge [OF assms(1)] by (auto intro: converse_rtrancl_into_rtrancl)
  then show "(a, b) \<in> (edges (bridge c g))\<^sup>* \<Longrightarrow> (a, b) \<in> (edges g)\<^sup>*"
    using rtrancl_subset_rtrancl by blast
next
  have "if n = c then \<exists>m. (a, m) \<in> (edges (bridge c g))\<^sup>* \<and> (m, c) \<in> edges g else (a, n) \<in> (edges (bridge c g))\<^sup>*"
    if "(a, n) \<in> (edges g)\<^sup>*" for n
    using that
  proof (induction rule: rtrancl_induct)
    case base
    then show ?case using assms(2) by simp
  next
    case (step n k)
    show ?case
    proof (cases "n = c")
      case True
      then obtain m where m: "(a, m) \<in> (edges (bridge c g))\<^sup>*" "(m, c) \<in> edges g" using step.IH by auto
      then have "(m, k) \<in> edges (bridge c g)" using step.hyps(2) True by (simp add: edges_bridge [OF assms(1)])
      then show ?thesis using m by (auto intro: rtrancl_into_rtrancl)
    next
      case False
      then have "(a, n) \<in> (edges (bridge c g))\<^sup>*" using step.IH by simp
      moreover have "k \<noteq> c \<Longrightarrow> (n, k) \<in> edges (bridge c g)" using step.hyps(2) False by (simp add: edges_bridge [OF assms(1)])
      ultimately show ?thesis using step.hyps(2) by (auto intro: rtrancl_into_rtrancl)
    qed
  qed
  then show "(a, b) \<in> (edges g)\<^sup>* \<Longrightarrow> (a, b) \<in> (edges (bridge c g))\<^sup>*" using assms(3) by fastforce
qed

text \<open>A node has no edge, or one to itself.\<close>

definition gone :: "flow_graph \<Rightarrow> nat \<Rightarrow> bool" where
  "gone g c \<longleftrightarrow> (c, c) \<in> edges g \<or> (\<forall>x. (c, x) \<notin> edges g \<and> (x, c) \<notin> edges g)"

lemma edges_bridge_trancl: "graph_ok g \<Longrightarrow> edges (bridge c g) \<subseteq> (edges g)\<^sup>+"
  unfolding edges_bridge by (auto intro: trancl_into_trancl)

lemma bridge_gone: "graph_ok g \<Longrightarrow> gone (bridge c g) c"
  by (auto simp: gone_def edges_bridge)

lemma bridge_keeps_gone: "graph_ok g \<Longrightarrow> gone g d \<Longrightarrow> gone (bridge c g) d"
  by (cases "d = c") (auto simp: gone_def edges_bridge)

section \<open>The traversal\<close>

text \<open>
  What holds of the graph while nodes are taken out of \<open>g0\<close>: the paths between the nodes to
  keep, the nodes looked at, and the edges between nodes that were not.
\<close>

definition removing :: "(nat \<Rightarrow> bool) \<Rightarrow> nat \<Rightarrow> flow_graph \<Rightarrow> flow_graph \<times> nat list \<times> nat list \<Rightarrow> nat set \<Rightarrow> bool" where
  "removing evict start g0 st processed \<longleftrightarrow> (case st of (g, work, seen) \<Rightarrow>
     graph_ok g \<and> snd ` edges g \<subseteq> graph_targets g0 \<and> edges g \<subseteq> (edges g0)\<^sup>+ \<and>
     (\<forall>a b. \<not> evict a \<longrightarrow> \<not> evict b \<longrightarrow> (a, b) \<in> (edges g)\<^sup>* \<longleftrightarrow> (a, b) \<in> (edges g0)\<^sup>*) \<and>
     (\<forall>c \<in> processed. evict c \<longrightarrow> gone g c) \<and>
     (\<forall>a b. a \<notin> processed \<longrightarrow> b \<notin> processed \<longrightarrow> (a, b) \<in> edges g0 \<longrightarrow> (a, b) \<in> edges g) \<and>
     start \<in> processed \<union> set work \<and> set seen \<subseteq> processed \<union> set work \<and>
     (\<forall>a \<in> processed. \<forall>b. (a, b) \<in> edges g0 \<longrightarrow> b \<in> processed \<union> set work))"

lemma removing_step:
  assumes "removing evict start g0 (g, n # rest, seen) processed"
    and new: "set new = set (getOutgoingNodes g n) - set (List.insert n seen)"
  shows "removing evict start g0 (if evict n then bridge n g else g, rest @ new, List.insert n seen @ new) (insert n processed)"
proof -
  let ?g = "if evict n then bridge n g else g"
  note inv = assms(1) [unfolded removing_def prod.case]
  have ok: "graph_ok g" and t: "snd ` edges g \<subseteq> graph_targets g0" and within: "edges g \<subseteq> (edges g0)\<^sup>+"
    and paths: "\<forall>a b. \<not> evict a \<longrightarrow> \<not> evict b \<longrightarrow> (a, b) \<in> (edges g)\<^sup>* \<longleftrightarrow> (a, b) \<in> (edges g0)\<^sup>*"
    and g: "\<forall>c \<in> processed. evict c \<longrightarrow> gone g c"
    and left: "\<forall>a b. a \<notin> processed \<longrightarrow> b \<notin> processed \<longrightarrow> (a, b) \<in> edges g0 \<longrightarrow> (a, b) \<in> edges g"
    and start: "start \<in> processed \<union> set (n # rest)" and seen: "set seen \<subseteq> processed \<union> set (n # rest)"
    and succ: "\<forall>a \<in> processed. \<forall>b. (a, b) \<in> edges g0 \<longrightarrow> b \<in> processed \<union> set (n # rest)"
    using inv by blast+
  have "graph_ok ?g" using ok graph_ok_bridge by simp
  moreover have "snd ` edges ?g \<subseteq> graph_targets g0" using t by (auto simp: edges_bridge [OF ok] image_subset_iff)
  moreover have "edges ?g \<subseteq> (edges g0)\<^sup>+"
  proof -
    have "(edges g)\<^sup>+ \<subseteq> (edges g0)\<^sup>+" using within by (metis trancl_id trans_trancl trancl_mono subsetI)
    then show ?thesis using edges_bridge_trancl [OF ok, of n] within by auto
  qed
  moreover have "\<forall>a b. \<not> evict a \<longrightarrow> \<not> evict b \<longrightarrow> (a, b) \<in> (edges ?g)\<^sup>* \<longleftrightarrow> (a, b) \<in> (edges g0)\<^sup>*"
  proof (intro allI impI)
    fix a b assume ab: "\<not> evict a" "\<not> evict b"
    have "evict n \<Longrightarrow> (a, b) \<in> (edges (bridge n g))\<^sup>* \<longleftrightarrow> (a, b) \<in> (edges g)\<^sup>*"
      using ab by (intro bridge_paths [OF ok]) auto
    then show "(a, b) \<in> (edges ?g)\<^sup>* \<longleftrightarrow> (a, b) \<in> (edges g0)\<^sup>*" using paths ab by simp
  qed
  moreover have "\<forall>c \<in> insert n processed. evict c \<longrightarrow> gone ?g c"
    using g bridge_gone [OF ok] bridge_keeps_gone [OF ok] by auto
  moreover have "\<forall>a b. a \<notin> insert n processed \<longrightarrow> b \<notin> insert n processed \<longrightarrow> (a, b) \<in> edges g0 \<longrightarrow> (a, b) \<in> edges ?g"
    using left by (auto simp: edges_bridge [OF ok])
  moreover have "start \<in> insert n processed \<union> set (rest @ new)" using start by auto
  moreover have "set (List.insert n seen @ new) \<subseteq> insert n processed \<union> set (rest @ new)" using seen by auto
  moreover have "\<forall>a \<in> insert n processed. \<forall>b. (a, b) \<in> edges g0 \<longrightarrow> b \<in> insert n processed \<union> set (rest @ new)"
  proof (intro ballI allI impI)
    fix a b assume ab: "a \<in> insert n processed" "(a, b) \<in> edges g0"
    show "b \<in> insert n processed \<union> set (rest @ new)"
    proof (cases "b \<in> insert n processed \<or> a \<in> processed")
      case True
      then show ?thesis using succ ab(2) by auto
    next
      case False
      then have "(n, b) \<in> edges g" using left ab by auto
      then show ?thesis using new seen False by (auto simp: in_edges)
    qed
  qed
  ultimately show ?thesis unfolding removing_def prod.case by blast
qed

lemma remove_loop_result:
  assumes "removing evict start g0 (g, work, seen) processed"
  shows "\<exists>g' processed'. remove_loop evict (g, work, seen) = Some g' \<and> removing evict start g0 (g', [], []) processed'"
  using assms
proof (induction "length work + card (graph_targets g0 - set seen)" arbitrary: g work seen processed rule: less_induct)
  case less
  show ?case
  proof (cases work)
    case Nil
    then have "removing evict start g0 (g, [], []) processed" using less.prems by (simp add: removing_def)
    then show ?thesis using Nil by (auto simp: remove_loop.simps)
  next
    case (Cons n rest)
    obtain new where new: "visit_succs (getOutgoingNodes g n) (rest, List.insert n seen) = (rest @ new, List.insert n seen @ new)"
      "distinct new" "set new = set (getOutgoingNodes g n) - set (List.insert n seen)" using visit_succs_new by blast
    have inv: "removing evict start g0 (if evict n then bridge n g else g, rest @ new, List.insert n seen @ new) (insert n processed)"
      using removing_step [OF _ new(3)] less.prems Cons by simp
    have sub: "set new \<subseteq> graph_targets g0 - set seen"
    proof
      fix m assume m: "m \<in> set new"
      then have "(n, m) \<in> edges g" using new(3) by (simp add: in_edges)
      moreover have "snd ` edges g \<subseteq> graph_targets g0" using less.prems unfolding removing_def prod.case by blast
      ultimately have "m \<in> graph_targets g0" by force
      then show "m \<in> graph_targets g0 - set seen" using m new(3) by auto
    qed
    have fin: "finite (graph_targets g0)" by (rule carved.finite_universe)
    have "card (graph_targets g0 - set (List.insert n seen @ new)) \<le> card ((graph_targets g0 - set seen) - set new)"
      using fin by (intro card_mono) auto
    also have "\<dots> = card (graph_targets g0 - set seen) - length new"
      using sub by (simp add: card_Diff_subset distinct_card [OF new(2)])
    finally have c: "card (graph_targets g0 - set (List.insert n seen @ new)) \<le> card (graph_targets g0 - set seen) - length new" .
    have "length new \<le> card (graph_targets g0 - set seen)"
      using card_mono [OF _ sub] fin by (simp add: distinct_card [OF new(2)])
    then have "length (rest @ new) + card (graph_targets g0 - set (List.insert n seen @ new)) <
        length work + card (graph_targets g0 - set seen)" using c Cons by simp
    from less.hyps [OF this inv] show ?thesis using Cons new(1) by (simp add: remove_loop.simps)
  qed
qed

lemma removing_start: "graph_ok g0 \<Longrightarrow> removing evict start g0 (g0, [start], []) {}"
  by (auto simp: removing_def in_edges intro!: r_into_trancl dest: carved.succs_universe [THEN subsetD])

lemma traverse_and_remove:
  assumes "graph_ok g0"
  shows "\<exists>g'. traverseAndRemoveNodes evict start g0 = Inr g' \<and>
    (\<forall>a b. \<not> evict a \<longrightarrow> \<not> evict b \<longrightarrow> (a, b) \<in> (edges g')\<^sup>* \<longleftrightarrow> (a, b) \<in> (edges g0)\<^sup>*) \<and>
    (\<forall>c. (start, c) \<in> (edges g0)\<^sup>* \<longrightarrow> evict c \<longrightarrow> (\<forall>x. (c, x) \<notin> edges g' \<and> (x, c) \<notin> edges g') \<or>
       (c, c) \<in> edges g' \<and> (c, c) \<in> (edges g0)\<^sup>+)"
proof -
  obtain g' processed where r: "remove_loop evict (g0, [start], []) = Some g'" "removing evict start g0 (g', [], []) processed"
    using remove_loop_result [OF removing_start [OF assms]] by blast
  note inv = r(2) [unfolded removing_def prod.case]
  have start: "start \<in> processed" and succ: "\<forall>a \<in> processed. \<forall>b. (a, b) \<in> edges g0 \<longrightarrow> b \<in> processed"
    and g: "\<forall>c \<in> processed. evict c \<longrightarrow> gone g' c" and within: "edges g' \<subseteq> (edges g0)\<^sup>+"
    and paths: "\<forall>a b. \<not> evict a \<longrightarrow> \<not> evict b \<longrightarrow> (a, b) \<in> (edges g')\<^sup>* \<longleftrightarrow> (a, b) \<in> (edges g0)\<^sup>*"
    using inv by simp_all
  have "c \<in> processed" if "(start, c) \<in> (edges g0)\<^sup>*" for c
    using that by (induction rule: rtrancl_induct) (use start succ in blast)+
  then have "(\<forall>x. (c, x) \<notin> edges g' \<and> (x, c) \<notin> edges g') \<or> (c, c) \<in> edges g' \<and> (c, c) \<in> (edges g0)\<^sup>+"
    if "(start, c) \<in> (edges g0)\<^sup>*" "evict c" for c
    using g within that unfolding gone_def by blast
  then show ?thesis using r(1) paths by (simp add: traverseAndRemoveNodes_def)
qed

end
