(* ===== verification/Uaf_Files.thy ===== *)
theory Uaf_Files
  imports Uaf_Laws
begin

text \<open>
  The text of the files: what replacing and escaping make of a string, and the lines of the
  CSV as one visit of each node that can be reached.
\<close>

section \<open>Replacing\<close>

lemma find_sub_char:
  "find_sub [c] s = (if c \<in> set s then Some (length (takeWhile (\<lambda>x. x \<noteq> c) s)) else None)"
  by (induction s) (auto simp: prefix_def)

lemma concat_map_keep: "c \<notin> set xs \<Longrightarrow> concat (map (\<lambda>x. if x = c then to else [x]) xs) = xs"
  by (induction xs) auto

lemma replace_loop_char:
  "replace_loop [c] to (front @ rest) (length front) = front @ concat (map (\<lambda>x. if x = c then to else [x]) rest)"
proof (induction "length rest" arbitrary: front rest rule: less_induct)
  case less
  define pre where "pre = takeWhile (\<lambda>x. x \<noteq> c) rest"
  show ?case
  proof (cases "c \<in> set rest")
    case False
    then have "concat (map (\<lambda>x. if x = c then to else [x]) rest) = rest" by (rule concat_map_keep)
    then show ?thesis using False by (subst replace_loop.simps) (simp add: find_sub_char)
  next
    case True
    then obtain ys post where split: "rest = ys @ c # post" "c \<notin> set ys" by (auto dest: split_list_first)
    have "takeWhile (\<lambda>x. x \<noteq> c) (ys @ c # post) = ys" using split(2) by (subst takeWhile_append2) auto
    then have pre: "pre = ys" by (simp add: pre_def split(1))
    have split: "rest = pre @ c # post" and "c \<notin> set pre" using split pre by simp_all
    from this(2) have keep: "concat (map (\<lambda>x. if x = c then to else [x]) pre) = pre" by (rule concat_map_keep)
    have tw: "takeWhile (\<lambda>x. x \<noteq> c) (pre @ c # post) = pre" using pre_def split by simp
    have "replace_loop [c] to (front @ rest) (length front) =
        replace_loop [c] to ((front @ pre @ to) @ post) (length (front @ pre @ to))"
      using True by (subst replace_loop.simps) (simp add: find_sub_char tw split add.assoc)
    also have "\<dots> = front @ concat (map (\<lambda>x. if x = c then to else [x]) rest)"
      using less.hyps [of post "front @ pre @ to"] split keep by simp
    finally show ?thesis .
  qed
qed

lemma replace_all_char: "replace_all s [c] to = concat (map (\<lambda>x. if x = c then to else [x]) s)"
  using replace_loop_char [of c to "[]" s] by (simp add: replace_all_def)

definition escape_char :: "char \<Rightarrow> string" where
  "escape_char x = (if x = CHR 0x0A then [CHR 0x5C, CHR ''n'']
     else if x = CHR ''{'' \<or> x = CHR ''}'' \<or> x = CHR ''<'' then [CHR 0x5C, x] else [x])"

lemma concat_map_concat: "concat (map f (concat (map h s))) = concat (map (\<lambda>x. concat (map f (h x))) s)"
  by (induction s) auto

lemma escaped_chars: "escaped name = concat (map escape_char name)"
  unfolding escaped_def replace_all_char concat_map_concat
  by (rule arg_cong [where f = concat], rule map_cong) (auto simp: escape_char_def)

section \<open>Lines\<close>

lemma csv_visits:
  assumes "flow.searching I start (set seen - set work) (set work)" and "distinct work" and "set work \<subseteq> set seen"
  shows "\<exists>ord. distinct ord \<and> set ord = (cfg_arcs I)\<^sup>* `` {start} - (set seen - set work) \<and>
    csv_loop I line (work, seen, out) = Some (cbind (c_map line ord) (\<lambda>ls. Inr (out @ concat ls)))"
  using assms
proof (induction "length work + flow.unseen I start (set seen)" arbitrary: work seen out rule: less_induct)
  case less
  show ?case
  proof (cases work)
    case Nil
    then have "set seen = (cfg_arcs I)\<^sup>* `` {start}" using less.prems(1) flow.searching_end by (simp add: flow_arcs)
    then show ?thesis using Nil by (intro exI [of _ "[]"]) (simp add: csv_loop.simps)
  next
    case (Cons n rest)
    obtain new where new: "visit_succs (cfg_succs I n) (rest, seen) = (rest @ new, seen @ new)"
      "distinct new" "set new = set (cfg_succs I n) - set seen" using visit_succs_new by blast
    have sets: "set (seen @ new) - set (rest @ new) = insert n (set seen - set work)"
      using less.prems(2,3) Cons new(3) by auto
    have inv: "flow.searching I start (set (seen @ new) - set (rest @ new)) (set (rest @ new))"
      unfolding sets using flow.searching_step [of I start "set seen - set work" n "set rest" "set new"] less.prems(1) Cons new(3)
      by auto
    have sub: "set new \<subseteq> (flow.arcs I)\<^sup>* `` {start} - set seen"
      using flow.searching_work [OF inv] new(3) by auto
    have "flow.unseen I start (set (seen @ new)) + length new = flow.unseen I start (set seen)"
      using flow.unseen_add [OF sub new(2)] by simp
    then have smaller: "length (rest @ new) + flow.unseen I start (set (seen @ new)) < length work + flow.unseen I start (set seen)"
      using Cons by simp
    have d: "distinct (rest @ new)" "set (rest @ new) \<subseteq> set (seen @ new)" using less.prems(2,3) Cons new(2,3) by auto
    have loop: "csv_loop I line (work, seen, out) =
        (case line n of Inl e \<Rightarrow> Some (Inl e) | Inr l \<Rightarrow> csv_loop I line (rest @ new, seen @ new, out @ l))"
      using Cons new(1) by (subst csv_loop.simps) (simp split: sum.split)
    obtain ord where o: "distinct ord"
      "set ord = (cfg_arcs I)\<^sup>* `` {start} - (set (seen @ new) - set (rest @ new))"
      "csv_loop I line (rest @ new, seen @ new, out @ (case line n of Inl e \<Rightarrow> [] | Inr l \<Rightarrow> l)) =
        Some (cbind (c_map line ord) (\<lambda>ls. Inr ((out @ (case line n of Inl e \<Rightarrow> [] | Inr l \<Rightarrow> l)) @ concat ls)))"
      using less.hyps [OF smaller inv d] by blast
    have "n \<in> (cfg_arcs I)\<^sup>* `` {start}" using flow.searching_work [OF less.prems(1)] Cons by (simp add: flow_arcs)
    then have set_ord: "set (n # ord) = (cfg_arcs I)\<^sup>* `` {start} - (set seen - set work)"
      using o(2) Cons less.prems(3) unfolding sets by auto
    have "distinct (n # ord)" using o(1,2) unfolding sets by auto
    moreover have "csv_loop I line (work, seen, out) = Some (cbind (c_map line (n # ord)) (\<lambda>ls. Inr (out @ concat ls)))"
      using o(3) unfolding loop by (cases "line n") (simp_all add: cbind_assoc)
    ultimately show ?thesis using set_ord by blast
  qed
qed

lemma csv_lines:
  "\<exists>ord. distinct ord \<and> set ord = (cfg_arcs I)\<^sup>* `` {start} \<and>
     traverseAndWriteToCSV g p I start = cbind (c_map (csv_node g p I) ord) (\<lambda>ls. Inr (csv_header @ concat ls))"
  using csv_visits [of I start "[start]" "[start]" "csv_node g p I" csv_header] flow.searching_start [of I start]
  by (auto simp: traverseAndWriteToCSV_def)

end
