(* ===== verification/Uaf_Stores.thy ===== *)
theory Uaf_Stores
  imports Uaf Visits_Laws
begin

text \<open>
  The search for all stores behind a node (findAllStore), which remembers no node: on a
  graph with a cycle ahead it does not end, and on any other it finds every store.
\<close>

definition pag_steps :: "graphs \<Rightarrow> (nat \<times> nat) set" where
  "pag_steps g = {(a, b). \<exists>e \<in> set (out_edges g a). \<not> is_dummy g (edge_src e) \<and> b = edge_dst e}"

definition stores_of :: "graphs \<Rightarrow> nat \<Rightarrow> nat set" where
  "stores_of g n = {b. \<exists>e \<in> set (out_edges g n). \<not> is_dummy g (edge_src e) \<and> edge_kind e = Store_Edge \<and> b = edge_dst e}"

definition stores_behind :: "graphs \<Rightarrow> nat \<Rightarrow> nat set" where
  "stores_behind g n = (\<Union>m \<in> (pag_steps g)\<^sup>* `` {n}. stores_of g m)"

definition cycle_ahead :: "graphs \<Rightarrow> nat \<Rightarrow> bool" where
  "cycle_ahead g n \<longleftrightarrow> (\<exists>c. (n, c) \<in> (pag_steps g)\<^sup>* \<and> (c, c) \<in> (pag_steps g)\<^sup>+)"

abbreviation pushed :: "graphs \<Rightarrow> nat \<Rightarrow> nat list" where
  "pushed g n \<equiv> map edge_dst (filter (\<lambda>e. \<not> is_dummy g (edge_src e)) (out_edges g n))"

lemma set_pushed: "set (pushed g n) = pag_steps g `` {n}"
  by (auto simp: pag_steps_def)

lemma select_all_edges:
  "fold (selectAllStore_edge g) es w = w\<lparr>worklist := worklist w @ map edge_dst (filter (\<lambda>e. \<not> is_dummy g (edge_src e)) es),
     ret := ret w \<union> {b. \<exists>e \<in> set es. \<not> is_dummy g (edge_src e) \<and> edge_kind e = Store_Edge \<and> b = edge_dst e}\<rparr>"
proof (induction es arbitrary: w)
  case (Cons e es)
  show ?case
  proof (cases "is_dummy g (edge_src e)")
    case True
    then have "{b. \<exists>x \<in> set (e # es). \<not> is_dummy g (edge_src x) \<and> edge_kind x = Store_Edge \<and> b = edge_dst x} =
        {b. \<exists>x \<in> set es. \<not> is_dummy g (edge_src x) \<and> edge_kind x = Store_Edge \<and> b = edge_dst x}" by auto
    then show ?thesis using True Cons.IH [of w] by (simp add: selectAllStore_edge_def)
  next
    case False
    then have "{b. \<exists>x \<in> set (e # es). \<not> is_dummy g (edge_src x) \<and> edge_kind x = Store_Edge \<and> b = edge_dst x} =
        (if edge_kind e = Store_Edge then {edge_dst e} else {}) \<union>
        {b. \<exists>x \<in> set es. \<not> is_dummy g (edge_src x) \<and> edge_kind x = Store_Edge \<and> b = edge_dst x}" by auto
    then show ?thesis using False Cons.IH by (simp add: selectAllStore_edge_def push_def)
  qed
qed simp

lemma select_all: "selectAllStore g n w = w\<lparr>worklist := worklist w @ pushed g n, ret := ret w \<union> stores_of g n\<rparr>"
  by (simp add: selectAllStore_def select_all_edges stores_of_def)

section \<open>Cycles\<close>

lemma cycle_step: "cycle_ahead g n \<Longrightarrow> \<exists>m \<in> set (pushed g n). cycle_ahead g m"
proof -
  assume "cycle_ahead g n"
  then obtain c where c: "(n, c) \<in> (pag_steps g)\<^sup>*" "(c, c) \<in> (pag_steps g)\<^sup>+" by (auto simp: cycle_ahead_def)
  have "(n, c) \<in> (pag_steps g)\<^sup>+" using c by (cases "n = c") (auto simp: rtrancl_eq_or_trancl)
  then obtain m where "(n, m) \<in> pag_steps g" "(m, c) \<in> (pag_steps g)\<^sup>*" by (meson tranclD)
  then have "m \<in> set (pushed g n)" "cycle_ahead g m" unfolding set_pushed cycle_ahead_def using c(2) by auto
  then show ?thesis ..
qed

lemma stores_diverge:
  assumes "cycle_ahead g start"
  shows "findAllStore g start = Inl Diverges"
proof -
  have "visit_loop (never_stuck (selectAllStore g)) (visit_from start) = None"
  proof (rule visit_loop_diverges [where I = "\<lambda>w. \<exists>n \<in> set (worklist w). cycle_ahead g n"])
    show "\<exists>n \<in> set (worklist (visit_from start)). cycle_ahead g n" using assms by (simp add: visit_from_def)
    fix w :: visit assume "\<exists>n \<in> set (worklist w). cycle_ahead g n"
    then obtain n where n: "n \<in> set (worklist w)" "cycle_ahead g n" by blast
    then have ne: "worklist w \<noteq> []" by auto
    have "n \<in> set (butlast (worklist w)) \<or> n = last (worklist w)"
      using n(1) by (metis append_butlast_last_id ne Un_iff set_append list.set(1) list.simps(15) empty_iff insert_iff)
    then have "\<exists>m \<in> set (butlast (worklist w) @ pushed g (last (worklist w))). cycle_ahead g m"
      using n(2) cycle_step by (metis Un_iff set_append)
    then show "worklist w \<noteq> [] \<and>
        (\<exists>n \<in> set (worklist (selectAllStore g (last (worklist w)) (pop w))). cycle_ahead g n)"
      using ne by (simp add: select_all pop_def)
  qed
  then show ?thesis by (simp add: findAllStore_def visitAndSelectPagNodes_def)
qed

section \<open>No cycle\<close>

lemma stores_behind_step: "stores_behind g n = stores_of g n \<union> (\<Union>m \<in> set (pushed g n). stores_behind g m)"
proof -
  have "(pag_steps g)\<^sup>* `` {n} = insert n (\<Union>m \<in> pag_steps g `` {n}. (pag_steps g)\<^sup>* `` {m})"
    by (auto elim: converse_rtranclE intro: converse_rtrancl_into_rtrancl)
  then show ?thesis unfolding set_pushed stores_behind_def by simp
qed

lemma drain_list:
  assumes "\<And>m ws r. m \<in> set ms \<Longrightarrow> visit_loop (never_stuck (selectAllStore g)) \<lparr>worklist = ws @ [m], visited = [], ret = r\<rparr> =
      visit_loop (never_stuck (selectAllStore g)) \<lparr>worklist = ws, visited = [], ret = r \<union> stores_behind g m\<rparr>"
  shows "visit_loop (never_stuck (selectAllStore g)) \<lparr>worklist = ws @ ms, visited = [], ret = r\<rparr> =
    visit_loop (never_stuck (selectAllStore g)) \<lparr>worklist = ws, visited = [], ret = r \<union> (\<Union>m \<in> set ms. stores_behind g m)\<rparr>"
  using assms
proof (induction ms arbitrary: r rule: rev_induct)
  case (snoc m ms)
  have "visit_loop (never_stuck (selectAllStore g)) \<lparr>worklist = (ws @ ms) @ [m], visited = [], ret = r\<rparr> =
      visit_loop (never_stuck (selectAllStore g)) \<lparr>worklist = ws @ ms, visited = [], ret = r \<union> stores_behind g m\<rparr>"
    by (rule snoc.prems) simp
  also have "\<dots> = visit_loop (never_stuck (selectAllStore g))
      \<lparr>worklist = ws, visited = [], ret = (r \<union> stores_behind g m) \<union> (\<Union>m \<in> set ms. stores_behind g m)\<rparr>"
    by (rule snoc.IH) (use snoc.prems in simp)
  finally show ?case by (simp add: Un_ac)
qed simp

lemma drain:
  assumes "wf ((pag_steps g \<inter> region \<times> region)\<inverse>)" and "pag_steps g `` region \<subseteq> region" and "n \<in> region"
  shows "visit_loop (never_stuck (selectAllStore g)) \<lparr>worklist = ws @ [n], visited = [], ret = r\<rparr> =
    visit_loop (never_stuck (selectAllStore g)) \<lparr>worklist = ws, visited = [], ret = r \<union> stores_behind g n\<rparr>"
  using assms(3)
proof (induction n arbitrary: ws r rule: wf_induct_rule [OF assms(1)])
  case (1 n)
  have step: "visit_loop (never_stuck (selectAllStore g)) \<lparr>worklist = ws @ [n], visited = [], ret = r\<rparr> =
      visit_loop (never_stuck (selectAllStore g)) \<lparr>worklist = ws @ pushed g n, visited = [], ret = r \<union> stores_of g n\<rparr>"
    by (subst visit_loop.simps) (simp add: select_all pop_def never_stuck_def)
  also have "\<dots> = visit_loop (never_stuck (selectAllStore g))
      \<lparr>worklist = ws, visited = [], ret = (r \<union> stores_of g n) \<union> (\<Union>m \<in> set (pushed g n). stores_behind g m)\<rparr>"
  proof (rule drain_list)
    fix m ws r assume "m \<in> set (pushed g n)"
    then have "(n, m) \<in> pag_steps g" unfolding set_pushed by simp
    then show "visit_loop (never_stuck (selectAllStore g)) \<lparr>worklist = ws @ [m], visited = [], ret = r\<rparr> =
        visit_loop (never_stuck (selectAllStore g)) \<lparr>worklist = ws, visited = [], ret = r \<union> stores_behind g m\<rparr>"
      using 1 assms(2) by (intro "1.IH") auto
  qed
  finally show ?case by (simp add: stores_behind_step [of g n] Un_assoc)
qed

lemma stores_found:
  assumes "finite ((pag_steps g)\<^sup>* `` {start})" and "\<not> cycle_ahead g start"
  shows "findAllStore g start = Inr (sorted_list_of_set (stores_behind g start))"
proof -
  let ?region = "(pag_steps g)\<^sup>* `` {start}"
  have "acyclic (pag_steps g \<inter> ?region \<times> ?region)"
    unfolding acyclic_def
  proof (intro allI notI)
    fix c assume c: "(c, c) \<in> (pag_steps g \<inter> ?region \<times> ?region)\<^sup>+"
    then have "(c, c) \<in> (pag_steps g)\<^sup>+" using trancl_mono by blast
    moreover have "c \<in> ?region" using c by (auto dest: tranclD)
    ultimately show False using assms(2) by (auto simp: cycle_ahead_def)
  qed
  moreover have "finite (pag_steps g \<inter> ?region \<times> ?region)" using assms(1) by simp
  ultimately have wf: "wf ((pag_steps g \<inter> ?region \<times> ?region)\<inverse>)" by (rule finite_acyclic_wf_converse [rotated])
  have "visit_loop (never_stuck (selectAllStore g)) \<lparr>worklist = [] @ [start], visited = [], ret = {}\<rparr> =
      visit_loop (never_stuck (selectAllStore g)) \<lparr>worklist = [], visited = [], ret = {} \<union> stores_behind g start\<rparr>"
    by (rule drain [OF wf]) (auto intro: rtrancl_into_rtrancl)
  then show ?thesis by (simp add: findAllStore_def visitAndSelectPagNodes_def visit_from_def visit_loop.simps [of _ "\<lparr>worklist = [], visited = [], ret = _\<rparr>"])
qed

end
