(* ===== verification/Uaf_Props.thy ===== *)
theory Uaf_Props
  imports Uaf_Removal Uaf_Files Uaf_Stores Static_Driver_Props
begin

text \<open>
  The properties of the use-after-free analysis: the graph it carves keeps what reaches
  what, the pairs it counts take allocations for frees, and its files.
\<close>

section \<open>Listed nodes\<close>

lemma call_listed: "listed_nodes g I cs = Inr ns \<Longrightarrow> m \<in> set cs \<Longrightarrow> mc_icfg m \<in> set ns"
  by (force simp: listed_nodes_def cbind_eq_Inr dest!: c_map_in)

section \<open>Pairs\<close>

definition paired :: "graphs \<Rightarrow> mem_call list \<Rightarrow> mem_call list \<Rightarrow> MFPath \<Rightarrow> bool" where
  "paired g fs as path \<longleftrightarrow> mf_free path \<in> set fs \<and> mf_alloc path \<in> set as \<and> lastAlloc path = [] \<and>
     (\<exists>fd ad. mc_defs (mf_free path) = Some fd \<and> mc_defs (mf_alloc path) = Some ad \<and>
        (\<exists>x \<in> set (ds_elems fd). \<exists>y \<in> set (ds_elems ad). node_id g x = node_id g y))"

lemma new_pair:
  assumes "new_MFPath f a = Inr path" and "f \<in> set fs" and "a \<in> set as" and "mc_defs f = Some fd" and "mc_defs a = Some ad"
    and "x \<in> set (ds_elems fd)" and "y \<in> set (ds_elems ad)" and "node_id g x = node_id g y"
  shows "paired g fs as path"
proof -
  have "path = \<lparr>mf_alloc = a, mf_free = f, lastAlloc = [], pathDefs = sort (remdups (ds_elems fd @ ds_elems ad))\<rparr>"
    using assms(1,4,5) by (simp add: new_MFPath_def)
  then show ?thesis using assms(2-8) unfolding paired_def by auto
qed

lemma match_pair_paired:
  assumes "match_pair g f a flow = Inr flow'" and "f \<in> set fs" and "a \<in> set as" and "\<forall>path \<in> set flow. paired g fs as path"
  shows "\<forall>path \<in> set flow'. paired g fs as path"
proof -
  obtain fd where fd: "mc_defs f = Some fd"
    and r: "c_run (\<lambda>freeDef flow. cbind (c_deref (mc_defs a)) (\<lambda>ad.
       c_run (\<lambda>allocDef flow. if node_id g freeDef = node_id g allocDef
         then cbind (new_MFPath f a) (\<lambda>path. Inr (flow @ [path])) else Inr flow) (ds_elems ad) flow)) (ds_elems fd) flow = Inr flow'"
    using assms(1) by (auto simp: match_pair_def cbind_eq_Inr c_deref_def split: option.splits)
  show ?thesis
  proof (rule c_run_invariant [where P = "\<lambda>flow. \<forall>path \<in> set flow. paired g fs as path", OF r assms(4)])
    fix x s s' assume x: "x \<in> set (ds_elems fd)" and s: "\<forall>path \<in> set s. paired g fs as path"
      and step: "cbind (c_deref (mc_defs a)) (\<lambda>ad. c_run (\<lambda>allocDef flow. if node_id g x = node_id g allocDef
         then cbind (new_MFPath f a) (\<lambda>path. Inr (flow @ [path])) else Inr flow) (ds_elems ad) s) = Inr s'"
    then obtain ad where ad: "mc_defs a = Some ad"
      and r: "c_run (\<lambda>allocDef flow. if node_id g x = node_id g allocDef
         then cbind (new_MFPath f a) (\<lambda>path. Inr (flow @ [path])) else Inr flow) (ds_elems ad) s = Inr s'"
      by (auto simp: cbind_eq_Inr c_deref_def split: option.splits)
    show "\<forall>path \<in> set s'. paired g fs as path"
      by (rule c_run_invariant [where P = "\<lambda>flow. \<forall>path \<in> set flow. paired g fs as path", OF r s])
        (use new_pair [OF _ assms(2,3) fd ad x] in \<open>auto simp: cbind_eq_Inr split: if_splits\<close>)
  qed
qed

lemma flow_paired: "initMFFlow g [] as fs = Inr flow \<Longrightarrow> path \<in> set flow \<Longrightarrow> paired g fs as path"
proof -
  assume r: "initMFFlow g [] as fs = Inr flow" and path: "path \<in> set flow"
  have "\<forall>path \<in> set flow. paired g fs as path"
  proof (rule c_run_invariant [where P = "\<lambda>flow. \<forall>path \<in> set flow. paired g fs as path", OF r [unfolded initMFFlow_def]])
    fix f s s' assume f: "f \<in> set fs" and row: "c_run (match_pair g f) as s = Inr s'" and s: "\<forall>path \<in> set s. paired g fs as path"
    show "\<forall>path \<in> set s'. paired g fs as path"
      by (rule c_run_invariant [where P = "\<lambda>flow. \<forall>path \<in> set flow. paired g fs as path", OF row s]) (use f match_pair_paired in blast)
  qed simp
  then show ?thesis using path by blast
qed

text \<open>The allocations added to a pair are those its free reaches in the carved graph.\<close>

lemma resolve_path_result:
  "\<exists>path'. resolve_path gr as path = Inr path' \<and> mf_free path' = mf_free path \<and> mf_alloc path' = mf_alloc path \<and>
     set (lastAlloc path') = set (lastAlloc path) \<union> {a \<in> set as. (mc_icfg (mf_free path), mc_icfg a) \<in> (edges gr)\<^sup>*} \<and>
     (distinct (lastAlloc path) \<longrightarrow> distinct (lastAlloc path'))"
proof (induction as arbitrary: path)
  case Nil
  then show ?case by (simp add: resolve_path_def)
next
  case (Cons a as)
  let ?path = "if (mc_icfg (mf_free path), mc_icfg a) \<in> (edges gr)\<^sup>* then addLastAlloc a path else path"
  obtain path' where p: "resolve_path gr as ?path = Inr path'" "mf_free path' = mf_free ?path" "mf_alloc path' = mf_alloc ?path"
    "set (lastAlloc path') = set (lastAlloc ?path) \<union> {a \<in> set as. (mc_icfg (mf_free ?path), mc_icfg a) \<in> (edges gr)\<^sup>*}"
    "distinct (lastAlloc ?path) \<longrightarrow> distinct (lastAlloc path')" using Cons.IH [of ?path] by blast
  have "resolve_path gr (a # as) path = resolve_path gr as ?path"
    by (simp add: resolve_path_def hasPath_reach getICFGFree_def)
  then have r: "resolve_path gr (a # as) path = Inr path'" using p(1) by simp
  show ?case
  proof (cases "(mc_icfg (mf_free path), mc_icfg a) \<in> (edges gr)\<^sup>*")
    case True
    then show ?thesis using r p(2-5) by (intro exI [of _ path']) (auto simp: addLastAlloc_def)
  next
    case False
    then show ?thesis using r p(2-5) by (intro exI [of _ path']) auto
  qed
qed

lemma resolve_flow:
  assumes "resolveMFMFlow gr flow as = Inr flow'" and "path' \<in> set flow'"
  obtains path where "path \<in> set flow" "mf_free path' = mf_free path" "mf_alloc path' = mf_alloc path"
    "set (lastAlloc path') = set (lastAlloc path) \<union> {a \<in> set as. (mc_icfg (mf_free path), mc_icfg a) \<in> (edges gr)\<^sup>*}"
proof -
  obtain path where path: "path \<in> set flow" "resolve_path gr as path = Inr path'"
    using c_map_from [OF assms(1) [unfolded resolveMFMFlow_def] assms(2)] by blast
  from resolve_path_result [of gr as path]
  obtain path1 where r: "resolve_path gr as path = Inr path1 \<and> mf_free path1 = mf_free path \<and> mf_alloc path1 = mf_alloc path \<and>
     set (lastAlloc path1) = set (lastAlloc path) \<union> {a \<in> set as. (mc_icfg (mf_free path), mc_icfg a) \<in> (edges gr)\<^sup>*} \<and>
     (distinct (lastAlloc path) \<longrightarrow> distinct (lastAlloc path1))" ..
  have "path1 = path'" using path(2) r by simp
  then show ?thesis by (intro that [OF path(1)]) (use r in simp_all)
qed

section \<open>What the analysis computes\<close>

text \<open>
  C17. The graph carved out of the control flow, whose nodes are the calls that allocate or
  free and the definitions behind them, loses nothing that matters: a path between two of
  its nodes is found in it exactly if one leads from the first to the second in the program,
  past whatever other nodes.
\<close>

theorem carving_keeps_paths:
  assumes "listed_nodes g I frees = Inr fs" and "listed_nodes g I allocs = Inr as" and "ids_distinct I (fs @ as)"
    and "a \<in> set (fs @ as)" and "b \<in> set (fs @ as)"
  shows "\<exists>gr. createAllocFreeFlowGraph g I frees allocs [] = Inr gr \<and> hasPath gr a b = Inr ((a, b) \<in> (cfg_arcs I)\<^sup>*)"
proof -
  obtain gr where gr: "createAllocFreeFlowGraph g I frees allocs [] = Inr gr"
    "edges gr = {(a, b). a \<in> set (fs @ as) \<and> b \<in> set (fs @ as) \<and> joined I (fs @ as) a b}"
    using carved_edges [OF assms(1-3)] by blast
  have "(a, b) \<in> (edges gr)\<^sup>* \<longleftrightarrow> (a, b) \<in> (cfg_arcs I)\<^sup>*"
    unfolding gr(2) by (rule carved_reach [OF assms(3-5)])
  then show ?thesis using gr(1) by (auto simp: hasPath_reach)
qed

text \<open>
  C25. The analysis is after memory that is allocated, freed and allocated again, but the
  lists of allocations and frees are exchanged where the pairs are made: the free of every
  pair is an allocation, its allocation is a free, and what is counted is how many
  allocations the first allocation can reach, itself among them. No path that is counted is
  ever asked to pass the free.
\<close>

theorem frees_and_allocations_exchanged:
  assumes "uaf_calls g I p = Inr s" and "uaf_main g I p = Inr r"
    and "listed_nodes g I (free_list s) = Inr fs" and "listed_nodes g I (alloc_list s) = Inr as" and "ids_distinct I (fs @ as)"
    and "path \<in> set (mf_flow r)"
  shows "mf_free path \<in> set (alloc_list s) \<and> mf_alloc path \<in> set (free_list s) \<and> mf_free path \<in> set (lastAlloc path) \<and>
    set (lastAlloc path) = {a \<in> set (alloc_list s). (mc_icfg (mf_free path), mc_icfg a) \<in> (cfg_arcs I)\<^sup>*}"
proof -
  obtain gr where gr: "createAllocFreeFlowGraph g I (free_list s) (alloc_list s) [] = Inr gr"
    "edges gr = {(a, b). a \<in> set (fs @ as) \<and> b \<in> set (fs @ as) \<and> joined I (fs @ as) a b}"
    using carved_edges [OF assms(3-5)] by blast
  obtain flow flow' where flow: "initMFFlow g [] (free_list s) (alloc_list s) = Inr flow"
    "resolveMFMFlow gr flow (alloc_list s) = Inr flow'" "mf_flow r = flow'"
    using assms(1,2) gr(1) by (auto simp: uaf_main_def cbind_eq_Inr)
  obtain path0 where path0: "path0 \<in> set flow" "mf_free path = mf_free path0" "mf_alloc path = mf_alloc path0"
    "set (lastAlloc path) = set (lastAlloc path0) \<union> {a \<in> set (alloc_list s). (mc_icfg (mf_free path0), mc_icfg a) \<in> (edges gr)\<^sup>*}"
    using resolve_flow [OF flow(2)] assms(6) flow(3) by blast
  have pair: "mf_free path \<in> set (alloc_list s)" "mf_alloc path \<in> set (free_list s)" "lastAlloc path0 = []"
    using flow_paired [OF flow(1) path0(1)] path0(2,3) by (simp_all add: paired_def)
  have "(mc_icfg (mf_free path), mc_icfg a) \<in> (edges gr)\<^sup>* \<longleftrightarrow> (mc_icfg (mf_free path), mc_icfg a) \<in> (cfg_arcs I)\<^sup>*"
    if "a \<in> set (alloc_list s)" for a
    unfolding gr(2) using call_listed [OF assms(4)] pair(1) that by (intro carved_reach [OF assms(5)]) auto
  then have later: "set (lastAlloc path) = {a \<in> set (alloc_list s). (mc_icfg (mf_free path), mc_icfg a) \<in> (cfg_arcs I)\<^sup>*}"
    using path0(2,4) pair(3) by auto
  then show ?thesis using pair by simp
qed

text \<open>
  C18. Taking nodes out of a graph ends, cycles or not, and keeps the paths between any two
  nodes that stay. A node that is to go and can be reached from the start is left without
  edges, unless it was on a cycle of the graph: then it may stay as well, with an edge to
  itself. Of a node to go that cannot be reached from the start nothing is said.
\<close>

theorem removal_keeps_paths:
  assumes "graph_ok g"
  shows "\<exists>g'. traverseAndRemoveNodes evict start g = Inr g' \<and>
    (\<forall>a b. \<not> evict a \<longrightarrow> \<not> evict b \<longrightarrow> hasPath g' a b = hasPath g a b) \<and>
    (\<forall>c. hasPath g start c = Inr True \<longrightarrow> evict c \<longrightarrow>
       (\<forall>x. (c, x) \<notin> edges g' \<and> (x, c) \<notin> edges g') \<or> (c, c) \<in> edges g' \<and> (c, c) \<in> (edges g)\<^sup>+)"
  using traverse_and_remove [OF assms, of evict start] by (auto simp: hasPath_reach)

text \<open>
  The CSV of the program covers what main can reach and nothing else: each node of the
  control-flow graph that can be reached is visited once, and has a line for each of its
  statements.
\<close>

theorem csv_covers_program:
  assumes "traverseAndWriteToCSV g p I start = Inr out"
  shows "\<exists>ord ls. distinct ord \<and> set ord = (cfg_arcs I)\<^sup>* `` {start} \<and> c_map (csv_node g p I) ord = Inr ls \<and>
    out = csv_header @ concat ls"
proof -
  obtain ord where ord: "distinct ord" "set ord = (cfg_arcs I)\<^sup>* `` {start}"
    "cbind (c_map (csv_node g p I) ord) (\<lambda>ls. Inr (csv_header @ concat ls)) = Inr out"
    using csv_lines [of I start g p] assms by auto
  from ord(3) show ?thesis unfolding cbind_eq_Inr using ord(1,2) by auto
qed

text \<open>
  Replacing goes on behind the text put in and therefore ends even where that contains
  what it replaces; the four replacements that make a label of a text act as one pass that
  escapes each character, and leave no line break.
\<close>

theorem labels_escaped: "escaped name = concat (map escape_char name) \<and> CHR 0x0A \<notin> set (escaped name)"
  by (auto simp: escaped_chars escape_char_def split: if_splits)

text \<open>
  C24. The search for all stores behind a node, which forgets the nodes it has seen, ends
  exactly if no cycle can be reached; then it returns every store that can be, each once.
\<close>

theorem all_stores_found:
  assumes "finite ((pag_steps g)\<^sup>* `` {start})"
  shows "findAllStore g start = (if cycle_ahead g start then Inl Diverges else Inr (sorted_list_of_set (stores_behind g start)))"
  using stores_diverge [of g start] stores_found [OF assms] by simp

section \<open>A program that allocates once and frees once\<close>

definition mem_graphs :: graphs where
  "mem_graphs = copy_graphs\<lparr>call_site := (\<lambda>c. CallInst c (Some (if c = 0 then ''malloc'' else ''free'')) ''main'')\<rparr>"

definition mem_svf :: svf where
  "mem_svf = copy_svf\<lparr>actual_ret := (\<lambda>_. Some 5)\<rparr>"

definition mem_cfg :: icfg where
  "mem_cfg = \<lparr>cfg_edges = [(0, [10]), (10, [11])], cfg_id = of_nat, cfg_fun = (\<lambda>_. Some ''main''), cfg_text = (\<lambda>_. ''node''),
     cfg_kind = (\<lambda>_. IntraBlock), cfg_stmts = (\<lambda>_. []), node_of_inst = (\<lambda>_. 0), node_of_call = (\<lambda>c. c + 10),
     entry_of = (\<lambda>_. 0), edge_inst = (\<lambda>_. None), base_var = (\<lambda>n. n), ptr_text = (\<lambda>_. ''0x0'')\<rparr>"

definition mem_alloc :: mem_call where
  "mem_alloc = \<lparr>mc_icfg = 10, mc_pag = 5, mc_call = 0, mc_defs = Some \<lparr>ds_addr = 0, ds_elems = [4]\<rparr>\<rparr>"

definition mem_free :: mem_call where
  "mem_free = \<lparr>mc_icfg = 11, mc_pag = 5, mc_call = 1, mc_defs = Some \<lparr>ds_addr = 1, ds_elems = [4]\<rparr>\<rparr>"

lemma mem_defs: "quiet_getDefNodes mem_graphs 5 = Inr [4]"
  by (simp add: quiet_getDefNodes_def visitAndSelectPagNodes_def visit_loop.simps visit_from_def never_stuck_def
    quiet_selectDefs_def quiet_selectDefs_edge_def mem_graphs_def
    copy_graphs_def no_graphs_def edge_def pop_def push_def Let_def)

lemma mem_calls: "uaf_calls mem_graphs mem_cfg mem_svf =
    Inr \<lparr>free_list = [mem_free], alloc_list = [mem_alloc], main_node = Some 0, next_set = 2\<rparr>"
proof -
  have "mem_call_of mem_graphs mem_cfg 0 5 0 = Inr mem_alloc" "mem_call_of mem_graphs mem_cfg (Suc 0) 5 (Suc 0) = Inr mem_free"
    by (simp_all add: mem_call_of_def mem_defs mem_alloc_def mem_free_def mem_cfg_def)
  then show ?thesis
    by (simp add: uaf_calls_def uaf_call_def mem_svf_def copy_svf_def mem_graphs_def [THEN arg_cong [where f = call_site], simplified]
      allocFunctions_def freeFunctions_def alloc_result_def free_param_def contains_def mem_cfg_def numeral_2_eq_2)
qed

lemma mem_listed: "listed_nodes mem_graphs mem_cfg [mem_free] = Inr [11]" "listed_nodes mem_graphs mem_cfg [mem_alloc] = Inr [10]"
  by (simp_all add: listed_nodes_def mem_free_def mem_alloc_def getICFGNodeFromPAGNode_def mem_cfg_def List.map_filter_def
    mem_graphs_def copy_graphs_def)

lemma mem_ids: "ids_distinct mem_cfg ([11] @ [10])"
  by (simp add: ids_distinct_def cfg_nodes_def mem_cfg_def)

lemma mem_arc: "(10, 11) \<in> (cfg_arcs mem_cfg)\<^sup>*"
  by (rule r_into_rtrancl) (simp add: cfg_arcs_def cfg_succs_def mem_cfg_def)

lemma mem_csv: "\<exists>out. traverseAndWriteToCSV mem_graphs mem_svf mem_cfg 0 = Inr out"
proof -
  have "csv_node mem_graphs mem_svf mem_cfg n = Inr []" for n by (simp add: csv_node_def mem_cfg_def)
  then have "\<exists>ls. c_map (csv_node mem_graphs mem_svf mem_cfg) ord = Inr ls" for ord by (induction ord) auto
  then show ?thesis using csv_lines [of mem_cfg 0 mem_graphs mem_svf] by (metis cbind_Inr)
qed

theorem carving_keeps_paths_witness:
  "\<exists>gr. createAllocFreeFlowGraph mem_graphs mem_cfg [mem_free] [mem_alloc] [] = Inr gr \<and> hasPath gr 10 11 = Inr True"
  using carving_keeps_paths [OF mem_listed mem_ids, of 10 11] mem_arc by simp

theorem frees_and_allocations_exchanged_witness:
  "\<exists>r path. uaf_main mem_graphs mem_cfg mem_svf = Inr r \<and> path \<in> set (mf_flow r) \<and> mf_free path = mem_alloc \<and>
     mem_alloc \<in> set (lastAlloc path)"
proof -
  obtain gr where gr: "createAllocFreeFlowGraph mem_graphs mem_cfg [mem_free] [mem_alloc] [] = Inr gr"
    using carved_edges [OF mem_listed mem_ids] by blast
  have flow: "initMFFlow mem_graphs [] [mem_free] [mem_alloc] =
      Inr [\<lparr>mf_alloc = mem_free, mf_free = mem_alloc, lastAlloc = [], pathDefs = [4]\<rparr>]"
    by (simp add: initMFFlow_def match_pair_def mem_free_def mem_alloc_def new_MFPath_def)
  obtain path' where "resolve_path gr [mem_alloc] \<lparr>mf_alloc = mem_free, mf_free = mem_alloc, lastAlloc = [], pathDefs = [4]\<rparr> = Inr path'"
    using resolve_path_result by blast
  then have flow': "resolveMFMFlow gr [\<lparr>mf_alloc = mem_free, mf_free = mem_alloc, lastAlloc = [], pathDefs = [4]\<rparr>] [mem_alloc] = Inr [path']"
    by (simp add: resolveMFMFlow_def)
  obtain out where "traverseAndWriteToCSV mem_graphs mem_svf mem_cfg 0 = Inr out" using mem_csv by blast
  then obtain r where r: "uaf_main mem_graphs mem_cfg mem_svf = Inr r" "mf_flow r = [path']"
    using gr flow flow' by (simp add: uaf_main_def mem_calls)
  have "mf_free path' \<in> set [mem_alloc] \<and> mf_alloc path' \<in> set [mem_free] \<and> mf_free path' \<in> set (lastAlloc path') \<and>
      set (lastAlloc path') = {a \<in> set [mem_alloc]. (mc_icfg (mf_free path'), mc_icfg a) \<in> (cfg_arcs mem_cfg)\<^sup>*}"
    using frees_and_allocations_exchanged [OF mem_calls r(1) _ _ mem_ids, of path'] mem_listed r(2) by simp
  then show ?thesis using r by (intro exI [of _ r] exI [of _ path']) simp
qed

theorem removal_keeps_paths_witness:
  "\<exists>g'. traverseAndRemoveNodes (\<lambda>n. n = 2) 1 [(1, [2]), (2, [3])] = Inr g' \<and> hasPath g' 1 3 = Inr True \<and>
     (\<forall>x. (2, x) \<notin> edges g' \<and> (x, 2) \<notin> edges g')"
proof -
  let ?g = "[(1, [2]), (2, [3])] :: flow_graph"
  have e: "edges ?g = {(1, 2), (2, 3)}" by (auto simp: edges_def getOutgoingNodes_def split: if_splits)
  have "(1, 2) \<in> (edges ?g)\<^sup>*" "(1, 3) \<in> (edges ?g)\<^sup>*" unfolding e by (blast intro: rtrancl_into_rtrancl)+
  then have p: "hasPath ?g 1 2 = Inr True" "hasPath ?g 1 3 = Inr True" by (simp_all add: hasPath_reach)
  have "(a, b) \<in> (edges ?g)\<^sup>+ \<Longrightarrow> a < b" for a b unfolding e by (induction rule: trancl_induct) auto
  then have "(2, 2) \<notin> (edges ?g)\<^sup>+" by blast
  with p removal_keeps_paths [of ?g "\<lambda>n. n = 2" 1] show ?thesis by (auto simp: graph_ok_def)
qed

theorem csv_covers_program_witness:
  "\<exists>out ord ls. traverseAndWriteToCSV mem_graphs mem_svf mem_cfg 0 = Inr out \<and> distinct ord \<and>
     set ord = (cfg_arcs mem_cfg)\<^sup>* `` {0} \<and> out = csv_header @ concat ls"
  using mem_csv csv_covers_program [of mem_graphs mem_svf mem_cfg 0] by metis

theorem all_stores_found_witness:
  "findAllStore no_graphs 1 = Inr [] \<and> findAllStore (no_graphs\<lparr>out_edges := (\<lambda>n. [edge Store_Edge n n])\<rparr>) 1 = Inl Diverges"
proof -
  have a: "pag_steps no_graphs = {}" by (simp add: pag_steps_def no_graphs_def)
  have b: "pag_steps (no_graphs\<lparr>out_edges := (\<lambda>n. [edge Store_Edge n n])\<rparr>) = Id"
    by (auto simp: pag_steps_def no_graphs_def edge_def)
  have "stores_behind no_graphs 1 = {}" by (simp add: stores_behind_def stores_of_def no_graphs_def)
  moreover have "\<not> cycle_ahead no_graphs 1" "cycle_ahead (no_graphs\<lparr>out_edges := (\<lambda>n. [edge Store_Edge n n])\<rparr>) 1"
    unfolding cycle_ahead_def a b by auto
  ultimately show ?thesis
    using all_stores_found [of no_graphs 1] all_stores_found [of "no_graphs\<lparr>out_edges := (\<lambda>n. [edge Store_Edge n n])\<rparr>" 1]
    unfolding a b by simp
qed

end
