(* ===== verification/Helper_Passes.thy ===== *)
theory Helper_Passes
  imports Instrument_Pass "HOL-Library.List_Lexorder"
begin

text \<open>
  The three small passes that run before the analysis: RecursionTracker keeps the depth of
  calls in the counter the reports carry, InputWrapper marks the calls that read input, and
  FunctionInstrumentor extends functions by a parameter for the identifier of each pointer
  they take. Log output is left out, and so is the type of a value apart from being a
  pointer.
\<close>

section \<open>RecursionTracker\<close>

text \<open>The counter has 16 bits; it is widened, stepped and cut back.\<close>

definition CreateTrunc :: "operand \<Rightarrow> operand builder" where
  "CreateTrunc x = do { t \<leftarrow> fresh; emit (Trunc t x); State_Monad.return (Tmp t) }"

definition step_counter :: "u32 \<Rightarrow> ir list" where
  "step_counter k = built (do {
     localgv_ptr \<leftarrow> CreateLoadCounter;
     localgv \<leftarrow> CreateSExt localgv_ptr;
     sum \<leftarrow> CreateBin Add_Op localgv (Imm k);
     res \<leftarrow> CreateTrunc sum;
     emit (Store_Counter res) })"

text \<open>One is added before the first instruction of a function, and taken off before each return.\<close>

fun enter_blocks :: "ir list list \<Rightarrow> ir list list" where
  "enter_blocks [] = []"
| "enter_blocks ([] # bs) = [] # enter_blocks bs"
| "enter_blocks ((x # b) # bs) = (step_counter 1 @ x # b) # bs"

definition leave_instr :: "ir \<Rightarrow> ir list" where
  "leave_instr x = (case x of
     Prog i \<Rightarrow> if opcode i = Op_Ret then step_counter (-1) @ [x] else [x]
   | _ \<Rightarrow> [x])"

definition trackRecursion :: "fn \<Rightarrow> fn" where
  "trackRecursion F = F\<lparr>blocks := map (\<lambda>b. concat (map leave_instr b)) (enter_blocks (blocks F))\<rparr>"

text \<open>
  The pass adds the counter to the module. A declaration has no blocks. The pass reports a
  change where it has seen a body.
\<close>

definition track_module :: "ir_module \<Rightarrow> bool \<times> ir_module" where
  "track_module M =
     (list_ex (\<lambda>F. blocks F \<noteq> []) (fns M),
      M\<lparr>has_counter := True, fns := map (\<lambda>F. if blocks F = [] then F else trackRecursion F) (fns M)\<rparr>)"

section \<open>InputWrapper\<close>

text \<open>The callee and the arguments of a call, unless it is indirect; injected calls are calls.\<close>

fun call_of :: "ir \<Rightarrow> (string \<times> operand list) option" where
  "call_of (Prog i) = (case opcode i of Op_Call (Some f) xs \<Rightarrow> Some (f, xs) | _ \<Rightarrow> None)"
| "call_of (Call f xs) = Some (f, xs)"
| "call_of _ = None"

definition wrap_blacklist :: "string list" where
  "wrap_blacklist = [''zbouncer_init'', ''zbouncer_destroy'', ''zbouncer_violation'', ''zbouncer_entry'', ''zbouncer_exit'',
     ''wrapper_scanf'', ''wrapper_gets'']"

text \<open>
  In front of a call whose name contains scanf or gets comes one of the wrapper, with as
  many of the arguments as that takes; they are not checked to be that many.
\<close>

definition wrap_scanf :: "string \<Rightarrow> operand list \<Rightarrow> ir list c" where
  "wrap_scanf f xs =
     (if contains f ''scanf''
      then cbind (c_read xs 0) (\<lambda>fmt. cbind (c_read xs 1) (\<lambda>buf. Inr [Call ''wrapper_scanf'' [fmt, buf]]))
      else Inr [])"

definition wrap_gets :: "string \<Rightarrow> operand list \<Rightarrow> ir list c" where
  "wrap_gets f xs =
     (if contains f ''gets'' \<and> \<not> contains f ''fgets''
      then cbind (c_read xs 0) (\<lambda>buf. Inr [Call ''wrapper_gets'' [buf]])
      else Inr [])"

definition wrap_instr :: "ir \<Rightarrow> ir list c" where
  "wrap_instr x = (case call_of x of
     None \<Rightarrow> Inr [x]
   | Some (f, xs) \<Rightarrow> cbind (wrap_scanf f xs) (\<lambda>s. cbind (wrap_gets f xs) (\<lambda>g. Inr (s @ g @ [x]))))"

definition wrap_inputs :: "ir_module \<Rightarrow> (bool \<times> ir_module) c" where
  "wrap_inputs M =
     cbind (c_map (\<lambda>F. if blocks F = [] \<or> fn_name F \<in> set wrap_blacklist then Inr F
         else rewrite_fn (\<lambda>_. wrap_instr) F) (fns M)) (\<lambda>Fs.
     Inr (True, M\<lparr>fns := Fs\<rparr>))"

text \<open>The wrappers themselves (wrapped-fn/wrapped-fn.c) read nothing and return the buffer.\<close>

definition wrapper_scanf :: "u32 \<Rightarrow> u32 \<Rightarrow> u32" where
  "wrapper_scanf fmt buf = buf"

definition wrapper_gets :: "u32 \<Rightarrow> u32" where
  "wrapper_gets buf = buf"

section \<open>FunctionInstrumentor\<close>

text \<open>
  Which arguments of a function are pointers. Two services of LLVM are parameters: the name
  a function gets where the one asked for is taken, and the copy of a body.
\<close>

record typed_fn = fn +
  pointers :: "bool list"

record llvm_services =
  unique_name :: "string list \<Rightarrow> string \<Rightarrow> string"
  clone_body :: "typed_fn \<Rightarrow> ir list list"

text \<open>The functions of the module, the names that are left alone, and the functions extended.\<close>

record extender =
  module_fns :: "typed_fn list"
  blacklist :: "string list"
  extended :: "(string \<times> nat) list"

definition instrumented_name :: "string \<Rightarrow> string" where
  "instrumented_name f = f @ ''_instrumented''"

definition pointer_names :: "typed_fn \<Rightarrow> string list" where
  "pointer_names F = map (\<lambda>(a, p). a @ ''_id'') (filter snd (zip (fn_args F) (pointers F)))"

definition instrumentable :: "typed_fn \<Rightarrow> nat" where
  "instrumentable F = length (pointer_names F)"

definition clone_fn :: "llvm_services \<Rightarrow> string list \<Rightarrow> typed_fn \<Rightarrow> typed_fn" where
  "clone_fn L names F =
     \<lparr>fn_name = unique_name L names (instrumented_name (fn_name F)), fn_args = fn_args F @ pointer_names F,
      blocks = clone_body L F, loops = loops F, pointers = pointers F @ replicate (instrumentable F) False\<rparr>"

definition instrumentFunction :: "llvm_services \<Rightarrow> typed_fn \<Rightarrow> extender \<Rightarrow> bool \<times> extender" where
  "instrumentFunction L F s =
     (if instrumentable F = 0 \<or> fn_name F \<in> set (blacklist s) then (False, s)
      else (True, s\<lparr>module_fns := module_fns s @ [clone_fn L (map fn_name (module_fns s)) F],
        extended := (if map_of (extended s) (fn_name F) = None
          then extended s @ [(fn_name F, instrumentable F)] else extended s)\<rparr>))"

text \<open>The loop over the functions of the module also sees the ones it adds.\<close>

definition extend_step :: "llvm_services \<Rightarrow> typed_fn \<Rightarrow> extender \<Rightarrow> extender" where
  "extend_step L F s =
     (if blocks F = [] then s
      else case instrumentFunction L F s of (res, s') \<Rightarrow>
        s'\<lparr>blacklist := blacklist s' @ [if res then instrumented_name (fn_name F) else fn_name F]\<rparr>)"

partial_function (option) extend_loop :: "llvm_services \<Rightarrow> nat \<times> extender \<Rightarrow> extender option" where
  "extend_loop L st =
     (case st of (k, s) \<Rightarrow>
        if k < length (module_fns s) then extend_loop L (Suc k, extend_step L (module_fns s ! k) s)
        else Some s)"

text \<open>
  A call of an extended function becomes one of its copy, with a zero for each identifier
  and without metadata; LLVM checks that the copy takes that many arguments.
\<close>

definition with_callee :: "string \<Rightarrow> operand list \<Rightarrow> ir \<Rightarrow> ir" where
  "with_callee f xs x = (case x of
     Prog i \<Rightarrow> Prog (i\<lparr>opcode := Op_Call (Some f) xs, attached := Map.empty\<rparr>)
   | _ \<Rightarrow> Call f xs)"

definition redirect :: "typed_fn list \<Rightarrow> (string \<times> nat) list \<Rightarrow> ir \<Rightarrow> (bool \<times> ir) c" where
  "redirect Fs ext x = (case call_of x of
     None \<Rightarrow> Inr (False, x)
   | Some (f, xs) \<Rightarrow> (case map_of ext f of
       None \<Rightarrow> Inr (False, x)
     | Some k \<Rightarrow> (case find (\<lambda>F. fn_name F = instrumented_name f) Fs of
         None \<Rightarrow> Inr (False, x)
       | Some G \<Rightarrow>
           if length xs + k = length (fn_args G)
           then Inr (True, with_callee (instrumented_name f) (xs @ replicate k (Imm 0)) x)
           else Inl Assertion_Failure)))"

definition redirect_block :: "typed_fn list \<Rightarrow> (string \<times> nat) list \<Rightarrow> ir list \<Rightarrow> (bool \<times> ir list) c" where
  "redirect_block Fs ext b =
     cbind (c_map (redirect Fs ext) b) (\<lambda>rs. Inr (list_ex fst rs, map snd rs))"

definition redirect_fn :: "typed_fn list \<Rightarrow> (string \<times> nat) list \<Rightarrow> typed_fn \<Rightarrow> (bool \<times> typed_fn) c" where
  "redirect_fn Fs ext F =
     (if blocks F = [] \<or> fn_name F \<in> fst ` set ext then Inr (False, F)
      else cbind (c_map (redirect_block Fs ext) (blocks F)) (\<lambda>rs.
        Inr (list_ex fst rs, F\<lparr>blocks := map snd rs\<rparr>)))"

definition instrumentCalls :: "typed_fn list \<Rightarrow> (string \<times> nat) list \<Rightarrow> (bool \<times> typed_fn list) c" where
  "instrumentCalls Fs ext =
     cbind (c_map (redirect_fn Fs ext) Fs) (\<lambda>rs. Inr (list_ex fst rs, map snd rs))"

text \<open>
  The extended functions are deleted in the order of their names. Deleting a function drops
  what its own body uses; a call left in another one keeps the address of what is freed.
\<close>

definition calls_fn :: "string \<Rightarrow> typed_fn \<Rightarrow> bool" where
  "calls_fn f F = list_ex (list_ex (\<lambda>x. map_option fst (call_of x) = Some f)) (blocks F)"

fun erase_fns :: "string list \<Rightarrow> typed_fn list \<Rightarrow> typed_fn list c" where
  "erase_fns [] Fs = Inr Fs"
| "erase_fns (f # fs) Fs =
     (if f \<notin> fn_name ` set Fs then Inl Null_Deref
      else let Fs' = filter (\<lambda>F. fn_name F \<noteq> f) Fs in
        if list_ex (calls_fn f) Fs' then Inl Use_After_Free else erase_fns fs Fs')"

text \<open>
  What the loop over the functions finds is kept in a variable of its own: the pass reports
  a change where a call has been replaced.
\<close>

definition extend_blacklist :: "string list" where
  "extend_blacklist = [''main'', ''wrapper_scanf'', ''wrapper_gets'']"

definition extend_module :: "llvm_services \<Rightarrow> typed_fn list \<Rightarrow> (bool \<times> typed_fn list) c" where
  "extend_module L Fs =
     (case extend_loop L (0, \<lparr>module_fns = Fs, blacklist = extend_blacklist, extended = []\<rparr>) of
        None \<Rightarrow> Inl Diverges
      | Some s \<Rightarrow>
          cbind (instrumentCalls (module_fns s) (extended s)) (\<lambda>(ret, Gs).
          cbind (erase_fns (sort (map fst (extended s))) Gs) (\<lambda>Hs. Inr (ret, Hs))))"

end
