(* ===== verification/Helper_Laws.thy ===== *)
theory Helper_Laws
  imports Helper_Passes Instrument_Kept
begin

text \<open>
  Laws of the passes that run before the analysis: runs of a module, the counter of the
  recursion tracker along them, and the functions the extender leaves.
\<close>

section \<open>Runs of a module\<close>

text \<open>
  A call of a function runs a path through its blocks, from the entry, which nothing jumps
  to, to a return; what the branches decide is left open. An indirect call may enter any
  function or none. The events are the instructions of the program, with the depth of calls
  they run at and the counter they find.
\<close>

definition returns :: "ir list \<Rightarrow> bool" where
  "returns b \<longleftrightarrow> b \<noteq> [] \<and> is_ret (last b) \<and> \<not> list_ex is_ret (butlast b)"

definition path :: "ir list list \<Rightarrow> nat list \<Rightarrow> bool" where
  "path bs ks \<longleftrightarrow> ks \<noteq> [] \<and> hd ks = 0 \<and> 0 \<notin> set (tl ks) \<and> (\<forall>k \<in> set ks. k < length bs) \<and>
     (\<forall>k \<in> set (butlast ks). \<not> list_ex is_ret (bs ! k)) \<and> returns (bs ! last ks)"

definition path_code :: "ir list list \<Rightarrow> nat list \<Rightarrow> ir list" where
  "path_code bs ks = concat (map ((!) bs) ks)"

definition enters :: "fn list \<Rightarrow> instr \<Rightarrow> fn \<Rightarrow> bool" where
  "enters Fs i F \<longleftrightarrow> F \<in> set Fs \<and> blocks F \<noteq> [] \<and>
     (case opcode i of Op_Call None ys \<Rightarrow> True | Op_Call (Some f) ys \<Rightarrow> f = fn_name F | _ \<Rightarrow> False)"

definition stays :: "fn list \<Rightarrow> instr \<Rightarrow> bool" where
  "stays Fs i \<longleftrightarrow> (case opcode i of Op_Call (Some f) ys \<Rightarrow> \<forall>F \<in> set Fs. \<not> enters Fs i F | _ \<Rightarrow> True)"

inductive runs :: "fn list \<Rightarrow> nat \<Rightarrow> ir list \<Rightarrow> machine \<Rightarrow> (nat \<times> instr \<times> u16) list \<Rightarrow> machine \<Rightarrow> bool" for Fs where
  runs_end: "runs Fs d [] m [] m"
| runs_code: "\<forall>i. x \<noteq> Prog i \<Longrightarrow> runs Fs d xs (exec_ir x m) es m' \<Longrightarrow> runs Fs d (x # xs) m es m'"
| runs_instr: "stays Fs i \<Longrightarrow> rec_counter m1 = rec_counter m \<Longrightarrow> runs Fs d xs m1 es m' \<Longrightarrow>
    runs Fs d (Prog i # xs) m ((d, i, rec_counter m) # es) m'"
| runs_call: "enters Fs i F \<Longrightarrow> path (blocks F) ks \<Longrightarrow> runs Fs (Suc d) (path_code (blocks F) ks) m es1 m1 \<Longrightarrow>
    runs Fs d xs m1 es2 m' \<Longrightarrow> runs Fs d (Prog i # xs) m ((d, i, rec_counter m) # es1 @ es2) m'"

section \<open>The counter\<close>

lemma is_ret_iff: "is_ret x \<longleftrightarrow> (case x of Prog i \<Rightarrow> opcode i = Op_Ret | _ \<Rightarrow> False)"
  by (cases x) simp_all

text \<open>Code that is not the program's own, and whether it leaves the counter alone or adds to it.\<close>

definition inserted :: "ir list \<Rightarrow> bool" where
  "inserted code \<longleftrightarrow> (\<forall>i. Prog i \<notin> set code)"

lemma inserted_Cons: "inserted (x # code) \<longleftrightarrow> (\<forall>i. x \<noteq> Prog i) \<and> inserted code"
  by (auto simp: inserted_def)

lemma quiet_one: "quiet [x] \<longleftrightarrow> (\<forall>i. x \<noteq> Prog i) \<and> (\<forall>y. x \<noteq> Store_Counter y)"
  by (auto simp: quiet_def)

lemma exec_quiet: "quiet [x] \<Longrightarrow> rec_counter (exec_ir x m) = rec_counter m"
  by (cases x) (simp_all add: quiet_one set_tmp_def)

lemma step_code: "step_counter k = [Load_Counter 0, Sext 1 (Tmp 0), Bin 2 Add_Op (Tmp 1) (Imm k), Trunc 3 (Tmp 2), Store_Counter (Tmp 3)]"
  by (simp add: step_counter_def built_def builder_simps CreateTrunc_def numeral_2_eq_2 numeral_3_eq_3)

lemma step_inserted: "inserted (step_counter k)"
  by (simp add: step_code inserted_def)

lemma ucast_of_int: "ucast (of_int z :: u32) = (of_int z :: u16)"
  by transfer (simp add: take_bit_take_bit)

lemma ucast_step: "ucast (scast (c :: u16) + k :: u32) = (c + ucast k :: u16)"
proof -
  have "scast c + k = (of_int (sint c + uint k) :: u32)" by simp
  then have "ucast (scast c + k :: u32) = (of_int (sint c + uint k) :: u16)" by (metis ucast_of_int)
  then show ?thesis by simp
qed

lemma exec_step: "rec_counter (exec_code (step_counter k) m) = rec_counter m + ucast k"
  by (simp add: step_code exec_code_def set_tmp_def ucast_down_up ucast_step)

definition adds :: "u16 \<Rightarrow> ir list \<Rightarrow> bool" where
  "adds k code \<longleftrightarrow> inserted code \<and> (\<forall>m. rec_counter (exec_code code m) = rec_counter m + k)"

lemma adds_up: "adds 1 (step_counter 1)"
  by (simp add: adds_def step_inserted exec_step)

lemma adds_down: "adds (-1) (step_counter (-1))"
  using ucast_of_int [of "-1"] by (simp add: adds_def step_inserted exec_step)

text \<open>What an instruction of the program and quiet code may stand between.\<close>

definition calm :: "ir \<Rightarrow> bool" where
  "calm x \<longleftrightarrow> quiet [x] \<or> (\<exists>i. x = Prog i \<and> opcode i \<noteq> Op_Ret)"

lemma runs_injected:
  assumes "runs Fs d (code @ xs) m es m'" and "inserted code"
  shows "runs Fs d xs (exec_code code m) es m'"
  using assms
proof (induction code arbitrary: m)
  case Nil
  then show ?case by (simp add: exec_code_def)
next
  case (Cons x code)
  then have x: "\<forall>i. x \<noteq> Prog i" and c: "inserted code" by (auto simp: inserted_def)
  from Cons.prems(1) have "runs Fs d (code @ xs) (exec_ir x m) es m'"
    by (cases rule: runs.cases) (use x in auto)
  from Cons.IH [OF this c] show ?case by (simp add: exec_code_def)
qed

lemma ret_stays: "opcode i = Op_Ret \<Longrightarrow> stays Fs i" "opcode i = Op_Ret \<Longrightarrow> \<not> enters Fs i F"
  by (simp_all add: stays_def enters_def)

text \<open>Behind the last instruction but the return nothing changes the counter.\<close>

lemma runs_tail:
  assumes "runs Fs d xs m es m'" and "\<forall>x \<in> set xs. quiet [x] \<or> is_ret x"
  shows "rec_counter m' = rec_counter m \<and> (\<forall>(k, i, c) \<in> set es. k = d \<and> opcode i = Op_Ret \<and> c = rec_counter m)"
  using assms
proof (induction rule: runs.induct)
  case (runs_code x d xs m es m')
  then have "quiet [x]" by (auto simp: is_ret_iff split: ir.splits)
  then show ?case using runs_code by (simp add: exec_quiet)
next
  case (runs_instr i m1 m d xs es m')
  then have "opcode i = Op_Ret" by (auto simp: is_ret_iff quiet_one)
  then show ?case using runs_instr by auto
next
  case (runs_call i F ks d m es1 m1 xs es2 m')
  then have "opcode i = Op_Ret" by (auto simp: is_ret_iff quiet_one)
  then show ?case using runs_call(1) ret_stays by blast
qed simp

text \<open>
  The code of a call: something that steps the counter up, the body, something that steps
  it down again, and the return.
\<close>

definition framed :: "ir list \<Rightarrow> bool" where
  "framed xs \<longleftrightarrow> (\<exists>pre mid post tail. xs = pre @ mid @ post @ tail \<and> adds 1 pre \<and> (\<forall>x \<in> set mid. calm x) \<and>
     adds (-1) post \<and> (\<forall>x \<in> set tail. quiet [x] \<or> is_ret x))"

lemma framedI:
  assumes "xs = pre @ mid @ post @ tail" and "adds 1 pre" and "\<forall>x \<in> set mid. calm x" and "adds (-1) post"
    and "\<forall>x \<in> set tail. quiet [x] \<or> is_ret x"
  shows "framed xs"
  unfolding framed_def by (intro exI conjI) (rule assms)+

lemma framedE:
  assumes "framed xs"
  obtains pre mid post tail where "xs = pre @ mid @ post @ tail" "adds 1 pre" "\<forall>x \<in> set mid. calm x" "adds (-1) post"
    "\<forall>x \<in> set tail. quiet [x] \<or> is_ret x"
  using assms unfolding framed_def by (elim exE conjE) (rule that)

text \<open>What the events of a run find in the counter, from its value in the body on.\<close>

definition counts :: "nat \<Rightarrow> u16 \<Rightarrow> (nat \<times> instr \<times> u16) list \<Rightarrow> bool" where
  "counts d c es \<longleftrightarrow> (\<forall>(k, i, c') \<in> set es. d \<le> k \<and>
     c' = c + of_nat (k - d) - (if opcode i = Op_Ret then 1 else 0))"

lemma counts_simps [simp]: "counts d c []" "counts d c (es1 @ es2) \<longleftrightarrow> counts d c es1 \<and> counts d c es2"
  "counts d c ((k, i, c') # es) \<longleftrightarrow> d \<le> k \<and> c' = c + of_nat (k - d) - (if opcode i = Op_Ret then 1 else 0) \<and> counts d c es"
  by (simp_all add: counts_def ball_Un)

lemma counts_Suc: "counts (Suc d) (c + 1) es \<Longrightarrow> counts d c es"
proof -
  assume "counts (Suc d) (c + 1) es"
  moreover have "c + 1 + of_nat (k - Suc d) = c + (of_nat (k - d) :: u16)" if "Suc d \<le> k" for k
  proof -
    have "k - d = Suc (k - Suc d)" using that by simp
    then show ?thesis by (metis add.assoc of_nat_Suc)
  qed
  ultimately show ?thesis unfolding counts_def by fastforce
qed

lemma runs_body:
  assumes "runs Fs d xs m es m'" and "\<forall>F \<in> set Fs. \<forall>ks. path (blocks F) ks \<longrightarrow> framed (path_code (blocks F) ks)"
    and "xs = pre @ mid @ post @ tail" and "inserted pre" and "\<forall>x \<in> set mid. calm x" and "adds (-1) post"
    and "\<forall>x \<in> set tail. quiet [x] \<or> is_ret x"
  shows "rec_counter m' = rec_counter (exec_code pre m) - 1 \<and> counts d (rec_counter (exec_code pre m)) es"
proof -
  have last: "rec_counter m' = rec_counter m - 1 \<and> counts d (rec_counter m) es"
    if "runs Fs d (post @ tail) m es m'" "adds (-1) post" "\<forall>x \<in> set tail. quiet [x] \<or> is_ret x" for d post tail m es m'
  proof -
    have "runs Fs d tail (exec_code post m) es m'" using that(1,2) runs_injected by (simp add: adds_def)
    from runs_tail [OF this that(3)] show ?thesis using that(2) by (auto simp: adds_def counts_def)
  qed
  show ?thesis using assms(1,3-)
  proof (induction arbitrary: pre mid post tail rule: runs.induct)
    case (runs_end d m)
    then show ?case using last [of d post tail m "[]" m] runs.runs_end by (simp add: exec_code_def)
  next
    case (runs_code x d xs m es m')
    show ?case
    proof (cases pre)
      case (Cons y pre')
      then show ?thesis using runs_code by (simp add: exec_code_def inserted_Cons)
    next
      case Nil
      show ?thesis
      proof (cases mid)
        case (Cons y mid')
        then have "quiet [x]" using runs_code.hyps(1) runs_code.prems Nil by (auto simp: calm_def)
        then show ?thesis
          using runs_code.IH [of "[]" mid' post tail] runs_code.prems Cons Nil by (simp add: exec_code_def exec_quiet)
      next
        case Nil
        then show ?thesis
          using last [of d post tail m es m'] runs.runs_code [OF runs_code.hyps] runs_code.prems \<open>pre = []\<close>
          by (simp add: exec_code_def)
      qed
    qed
  next
    case (runs_instr i m1 m d xs es m')
    then have pre: "pre = []" by (cases pre) (auto simp: inserted_def)
    show ?case
    proof (cases mid)
      case (Cons y mid')
      then have "opcode i \<noteq> Op_Ret" using runs_instr.prems pre by (auto simp: calm_def quiet_one)
      then show ?thesis
        using runs_instr.IH [of "[]" mid' post tail] runs_instr.prems runs_instr.hyps(2) Cons pre by (simp add: exec_code_def)
    next
      case Nil
      then show ?thesis
        using last [of d post tail m "(d, i, rec_counter m) # es" m'] runs.runs_instr [OF runs_instr.hyps] runs_instr.prems pre
        by (simp add: exec_code_def)
    qed
  next
    case (runs_call i F ks d m es1 m1 xs es2 m')
    then have pre: "pre = []" by (cases pre) (auto simp: inserted_def)
    show ?case
    proof (cases mid)
      case (Cons y mid')
      have not_ret: "opcode i \<noteq> Op_Ret" using runs_call.hyps(1) ret_stays by blast
      have "framed (path_code (blocks F) ks)" using assms(2) runs_call.hyps(1,2) by (simp add: enters_def)
      then obtain cpre cmid cpost ctail where f: "path_code (blocks F) ks = cpre @ cmid @ cpost @ ctail" "adds 1 cpre"
        "\<forall>x \<in> set cmid. calm x" "adds (-1) cpost" "\<forall>x \<in> set ctail. quiet [x] \<or> is_ret x"
        by (rule framedE)
      have "rec_counter m1 = rec_counter m" "counts (Suc d) (rec_counter m + 1) es1"
        using runs_call.IH(1) [OF f(1) _ f(3-5)] f(2) by (simp_all add: adds_def)
      moreover from counts_Suc [OF this(2)] have "counts d (rec_counter m) es1" .
      ultimately show ?thesis
        using runs_call.IH(2) [of "[]" mid' post tail] runs_call.prems Cons pre not_ret by (simp add: exec_code_def)
    next
      case Nil
      then show ?thesis
        using last [of d post tail m "(d, i, rec_counter m) # es1 @ es2" m'] runs.runs_call [OF runs_call.hyps] runs_call.prems pre
        by (simp add: exec_code_def)
    qed
  qed
qed

section \<open>Paths through a tracked function\<close>

abbreviation leave :: "ir list \<Rightarrow> ir list" where
  "leave b \<equiv> concat (map leave_instr b)"

lemma leave_kept: "\<not> list_ex is_ret b \<Longrightarrow> leave b = b"
  by (induction b) (auto simp: leave_instr_def is_ret_iff split: ir.splits)

lemma inserted_no_ret: "inserted b \<Longrightarrow> \<not> list_ex is_ret b"
  by (auto simp: inserted_def is_ret_iff list_ex_iff split: ir.splits)

lemma leave_rets: "list_ex is_ret (leave b) \<longleftrightarrow> list_ex is_ret b"
proof (induction b)
  case (Cons x b)
  have "list_ex is_ret (leave_instr x) \<longleftrightarrow> is_ret x"
    using inserted_no_ret [OF step_inserted] by (auto simp: leave_instr_def is_ret_iff split: ir.splits)
  then show ?case using Cons by simp
qed simp

lemma returns_leave:
  assumes "returns (leave b)"
  obtains b1 r where "b = b1 @ [r]" "is_ret r" "leave b = b1 @ step_counter (-1) @ [r]" "\<not> list_ex is_ret b1"
proof -
  have "b \<noteq> []" using assms by (auto simp: returns_def)
  then obtain b1 r where b: "b = b1 @ [r]" by (metis append_butlast_last_id)
  then have l: "leave b = leave b1 @ leave_instr r" by simp
  have "last (leave_instr r) = r" "leave_instr r \<noteq> []" by (auto simp: leave_instr_def split: ir.splits)
  then have r: "is_ret r" using assms l by (simp add: returns_def)
  then have "leave_instr r = step_counter (-1) @ [r]" by (auto simp: leave_instr_def is_ret_iff split: ir.splits)
  moreover from this have "\<not> list_ex is_ret (leave b1)" using assms l by (simp add: returns_def butlast_append)
  ultimately show ?thesis using that [OF b r] l by (simp add: leave_kept leave_rets)
qed

definition counter_free :: "fn \<Rightarrow> bool" where
  "counter_free F \<longleftrightarrow> (\<forall>b \<in> set (blocks F). \<forall>x \<in> set b. \<forall>y. x \<noteq> Store_Counter y)"

lemma calm_or_ret: "\<forall>y. x \<noteq> Store_Counter y \<Longrightarrow> \<not> is_ret x \<Longrightarrow> calm x"
  by (cases x) (auto simp: calm_def quiet_one is_ret_iff)

lemma calm_block:
  assumes "counter_free F" and "b \<in> set (blocks F)" and "set c \<subseteq> set b" and "\<not> list_ex is_ret c"
  shows "\<forall>x \<in> set c. calm x"
proof
  fix x assume x: "x \<in> set c"
  then have "\<forall>y. x \<noteq> Store_Counter y" using assms(1-3) unfolding counter_free_def by blast
  moreover have "\<not> is_ret x" using x assms(4) by (auto simp: list_ex_iff)
  ultimately show "calm x" by (rule calm_or_ret)
qed

lemma tracked_path_framed:
  assumes "blocks F = (x # b) # bs" and "counter_free F" and "path (blocks (trackRecursion F)) ks"
  shows "framed (path_code (blocks (trackRecursion F)) ks)"
proof -
  have B: "blocks (trackRecursion F) = (step_counter 1 @ leave (x # b)) # map leave bs"
    using leave_kept [OF inserted_no_ret [OF step_inserted [of 1]]] by (simp add: trackRecursion_def assms(1))
  obtain ks' where ks: "ks = 0 # ks'" "0 \<notin> set ks'" using assms(3) by (cases ks) (auto simp: path_def)
  have at: "blocks (trackRecursion F) ! k = leave (blocks F ! k)" "blocks F ! k \<in> set (blocks F)" if "k \<in> set ks'" for k
  proof -
    have "k < length (blocks (trackRecursion F))" using that ks assms(3) by (auto simp: path_def)
    moreover have "k \<noteq> 0" using that ks(2) by metis
    ultimately obtain j where "k = Suc j" "j < length bs" by (cases k) (auto simp: B)
    then show "blocks (trackRecursion F) ! k = leave (blocks F ! k)" "blocks F ! k \<in> set (blocks F)"
      by (simp_all add: B assms(1))
  qed
  have framed: "framed (step_counter 1 @ mid @ step_counter (-1) @ [r])" if "\<forall>x \<in> set mid. calm x" "is_ret r" for mid r
    by (rule framedI [OF refl adds_up that(1) adds_down]) (use that(2) in simp)
  show ?thesis
  proof (cases ks' rule: rev_cases)
    case Nil
    have "x # b \<noteq> []" by simp
    moreover have "returns (step_counter 1 @ leave (x # b))" using assms(3) ks(1) Nil by (simp add: path_def B)
    ultimately have "returns (leave (x # b))"
      by (auto simp: returns_def butlast_append leave_instr_def split: if_splits ir.splits)
    then obtain b1 r where r: "x # b = b1 @ [r]" "is_ret r" "leave (x # b) = b1 @ step_counter (-1) @ [r]" "\<not> list_ex is_ret b1"
      by (rule returns_leave)
    have "\<forall>x \<in> set b1. calm x" by (rule calm_block [OF assms(2), of "x # b"]) (use assms(1) r in auto)
    from framed [OF this r(2)] show ?thesis using r(3) ks(1) Nil by (simp add: path_code_def B)
  next
    case (snoc ls k)
    have early: "\<not> list_ex is_ret (x # b)" "\<forall>k \<in> set ls. \<not> list_ex is_ret (blocks F ! k)"
    proof -
      have early: "\<forall>k \<in> set (0 # ls). \<not> list_ex is_ret (blocks (trackRecursion F) ! k)"
        using assms(3) ks(1) snoc by (simp add: path_def butlast_append)
      then have "\<not> list_ex is_ret (leave (x # b))" by (simp add: B)
      then show "\<not> list_ex is_ret (x # b)" by (simp only: leave_rets not_False_eq_True)
      show "\<forall>k \<in> set ls. \<not> list_ex is_ret (blocks F ! k)" using early at(1) snoc leave_rets by simp
    qed
    have "returns (leave (blocks F ! k))" using assms(3) ks(1) snoc at(1) by (simp add: path_def)
    then obtain b1 r where r: "blocks F ! k = b1 @ [r]" "is_ret r" "leave (blocks F ! k) = b1 @ step_counter (-1) @ [r]" "\<not> list_ex is_ret b1"
      by (rule returns_leave)
    let ?mid = "(x # b) @ concat (map ((!) (blocks F)) ls) @ b1"
    have "map ((!) (blocks (trackRecursion F))) ls = map ((!) (blocks F)) ls"
      using early(2) at(1) snoc leave_kept by simp
    then have "concat (map ((!) (blocks (trackRecursion F))) ls) = concat (map ((!) (blocks F)) ls)" by (rule arg_cong)
    moreover have "blocks (trackRecursion F) ! 0 = step_counter 1 @ x # b" using leave_kept [OF early(1)] by (simp add: B)
    moreover have "blocks (trackRecursion F) ! k = b1 @ step_counter (-1) @ [r]" using at(1) snoc r(3) by simp
    ultimately have code: "path_code (blocks (trackRecursion F)) ks = step_counter 1 @ ?mid @ step_counter (-1) @ [r]"
      unfolding path_code_def ks(1) snoc by simp
    have "\<forall>y \<in> set (x # b). calm y" by (rule calm_block [OF assms(2), of "x # b"]) (use assms(1) early in simp_all)
    moreover have "\<forall>y \<in> set (blocks F ! j). calm y" if "j \<in> set ls" for j
      by (rule calm_block [OF assms(2), of "blocks F ! j"]) (use that at(2) snoc early in simp_all)
    moreover have "\<forall>y \<in> set b1. calm y"
      by (rule calm_block [OF assms(2) at(2) [of k]]) (use snoc r(1,4) in auto)
    ultimately have "\<forall>y \<in> set ?mid. calm y" by auto
    from framed [OF this r(2)] show ?thesis unfolding code .
  qed
qed

text \<open>A module whose functions do not touch the counter, and have an instruction in their entry.\<close>

definition trackable :: "ir_module \<Rightarrow> bool" where
  "trackable M \<longleftrightarrow> (\<forall>F \<in> set (fns M). counter_free F \<and> (blocks F \<noteq> [] \<longrightarrow> progs (hd (blocks F)) \<noteq> []))"

lemma path_blocks: "path bs ks \<Longrightarrow> bs \<noteq> []"
  by (auto simp: path_def)

lemma tracked_framed:
  assumes "trackable M" and "F \<in> set (fns (snd (track_module M)))" and "path (blocks F) ks"
  shows "framed (path_code (blocks F) ks)"
proof -
  obtain G where G: "G \<in> set (fns M)" "F = (if blocks G = [] then G else trackRecursion G)"
    using assms(2) by (auto simp: track_module_def)
  have F: "F = trackRecursion G" "blocks G \<noteq> []" using G(2) path_blocks [OF assms(3)] by (auto split: if_splits)
  obtain x b bs where "blocks G = (x # b) # bs"
    using F(2) assms(1) G(1) unfolding trackable_def by (metis list.exhaust list.sel(1) progs.simps(1))
  then show ?thesis using tracked_path_framed assms(1,3) F(1) G(1) by (simp add: trackable_def)
qed

end
