(* ===== verification/Helper_Depth.thy ===== *)
theory Helper_Depth
  imports Helper_Laws
begin

text \<open>
  The counter of the recursion tracker under the instrumentation pass, which runs after it:
  what the pass injects stands around instructions of the program and at the beginning of
  main, and leaves the frames of the calls as they are.
\<close>

section \<open>Blocks that grow\<close>

text \<open>Quiet code around the instructions of the program, which stay returns or no returns.\<close>

inductive grows :: "ir list \<Rightarrow> ir list \<Rightarrow> bool" where
  grows_Nil: "grows [] []"
| grows_code: "\<forall>i. x \<noteq> Prog i \<Longrightarrow> grows b b' \<Longrightarrow> grows (x # b) (x # b')"
| grows_prog: "quiet c \<Longrightarrow> quiet e \<Longrightarrow> opcode i' = Op_Ret \<longleftrightarrow> opcode i = Op_Ret \<Longrightarrow> grows b b' \<Longrightarrow>
    grows (Prog i # b) (c @ Prog i' # e @ b')"

lemma grows_Cons:
  assumes "grows (x # b) d"
  shows "(\<exists>b1. d = x # b1 \<and> (\<forall>i. x \<noteq> Prog i) \<and> grows b b1) \<or>
    (\<exists>c e i i' b1. x = Prog i \<and> d = c @ Prog i' # e @ b1 \<and> quiet c \<and> quiet e \<and> (opcode i' = Op_Ret \<longleftrightarrow> opcode i = Op_Ret) \<and>
       grows b b1)"
  using assms
proof (cases rule: grows.cases)
  case (grows_prog c e i' i b')
  then show ?thesis by (intro disjI2 exI [of _ c] exI [of _ e] exI [of _ i] exI [of _ i'] exI [of _ b']) simp
qed auto

lemma quiet_no_ret: "quiet c \<Longrightarrow> \<not> list_ex is_ret c"
  by (auto simp: quiet_def is_ret_iff list_ex_iff split: ir.splits)

lemma grows_rets: "grows b b' \<Longrightarrow> length (filter is_ret b') = length (filter is_ret b)"
proof (induction rule: grows.induct)
  case (grows_prog c e i' i b b')
  have "filter is_ret c = []" "filter is_ret e = []"
    using quiet_no_ret grows_prog(1,2) by (simp_all add: filter_empty_conv list_ex_iff)
  then show ?case using grows_prog by simp
qed simp_all

lemma grows_last: "grows b b' \<Longrightarrow> b' \<noteq> [] \<Longrightarrow> is_ret (last b') \<Longrightarrow> b \<noteq> [] \<and> is_ret (last b)"
proof (induction rule: grows.induct)
  case (grows_code x b b')
  then show ?case by (cases "b' = []") (auto elim: grows.cases)
next
  case (grows_prog c e i' i b b')
  show ?case
  proof (cases "b' = []")
    case True
    then have "b = []" using grows_prog(4) by (auto elim: grows.cases)
    moreover have "e = []"
    proof (rule ccontr)
      assume "e \<noteq> []"
      then have "is_ret (last e)" "last e \<in> set e" using grows_prog.prems True by simp_all
      then show False using quiet_no_ret [OF grows_prog(2)] by (auto simp: list_ex_iff)
    qed
    ultimately show ?thesis using grows_prog True by simp
  next
    case False
    then show ?thesis using grows_prog by simp
  qed
qed simp

lemma returns_filter: "returns b \<longleftrightarrow> b \<noteq> [] \<and> is_ret (last b) \<and> length (filter is_ret b) = 1"
proof (cases b rule: rev_cases)
  case (snoc c x)
  then show ?thesis by (auto simp: returns_def filter_empty_conv list_ex_iff)
qed (simp add: returns_def)

lemma grows_returns: "grows b b' \<Longrightarrow> returns b' \<Longrightarrow> returns b"
  using grows_rets grows_last by (simp add: returns_filter)

lemma no_ret_filter: "list_ex is_ret b \<longleftrightarrow> length (filter is_ret b) \<noteq> 0"
  by (auto simp: list_ex_iff filter_empty_conv)

lemma grows_no_ret: "grows b b' \<Longrightarrow> list_ex is_ret b' \<longleftrightarrow> list_ex is_ret b"
  by (simp add: no_ret_filter grows_rets del: length_0_conv)

lemma grows_append: "grows b b' \<Longrightarrow> grows c c' \<Longrightarrow> grows (b @ c) (b' @ c')"
proof (induction rule: grows.induct)
  case (grows_prog c e i' i b b')
  then show ?case using grows.grows_prog [of c e i' i "b @ _" "b' @ _"] by simp
qed (auto intro: grows.intros)

lemma grows_split: "grows (b @ c) d \<Longrightarrow> \<exists>b' c'. d = b' @ c' \<and> grows b b' \<and> grows c c'"
proof (induction b arbitrary: d)
  case Nil
  then show ?case by (auto intro: grows.intros)
next
  case (Cons x b)
  from Cons.prems have "grows (x # (b @ c)) d" by simp
  from grows_Cons [OF this] consider b1 where "d = x # b1" "\<forall>i. x \<noteq> Prog i" "grows (b @ c) b1"
    | p e i i' b1 where "x = Prog i" "d = p @ Prog i' # e @ b1" "quiet p" "quiet e" "opcode i' = Op_Ret \<longleftrightarrow> opcode i = Op_Ret"
        "grows (b @ c) b1" by blast
  then show ?case
  proof cases
    case 1
    obtain b' c' where "b1 = b' @ c'" "grows b b'" "grows c c'" using Cons.IH [OF 1(3)] by blast
    with 1(1,2) show ?thesis by (intro exI [of _ "x # b'"] exI [of _ c']) (simp add: grows.grows_code)
  next
    case 2
    obtain b' c' where "b1 = b' @ c'" "grows b b'" "grows c c'" using Cons.IH [OF 2(6)] by blast
    with 2(1-5) show ?thesis
      by (intro exI [of _ "p @ Prog i' # e @ b'"] exI [of _ c']) (simp add: grows.grows_prog)
  qed
qed

lemma grows_splitE:
  assumes "grows (b @ c) d"
  obtains b' c' where "d = b' @ c'" "grows b b'" "grows c c'"
  using grows_split [OF assms] by blast

lemma grows_inserted: "grows b b' \<Longrightarrow> inserted b \<Longrightarrow> b' = b"
  by (induction rule: grows.induct) (auto simp: inserted_def)

lemma quiet_calm: "quiet c \<Longrightarrow> x \<in> set c \<Longrightarrow> calm x"
  by (auto simp: quiet_def calm_def)

lemma quiet_in: "quiet c \<Longrightarrow> x \<in> set c \<Longrightarrow> quiet [x]"
  by (auto simp: quiet_def)

lemma grows_calm: "grows b b' \<Longrightarrow> \<forall>x \<in> set b. calm x \<Longrightarrow> \<forall>x \<in> set b'. calm x"
  by (induction rule: grows.induct) (auto simp: quiet_calm calm_def quiet_one dest: quiet_in)

lemma grows_tail: "grows b b' \<Longrightarrow> \<forall>x \<in> set b. quiet [x] \<or> is_ret x \<Longrightarrow> \<forall>x \<in> set b'. quiet [x] \<or> is_ret x"
  by (induction rule: grows.induct) (auto simp: quiet_one dest: quiet_in)

lemma framed_grows:
  assumes "framed xs" and "grows xs ys"
  shows "framed ys"
proof -
  obtain pre mid post tail where f: "xs = pre @ mid @ post @ tail" "adds 1 pre" "\<forall>x \<in> set mid. calm x"
    "adds (-1) post" "\<forall>x \<in> set tail. quiet [x] \<or> is_ret x" using assms(1) by (rule framedE)
  obtain pre' ys1 where g1: "ys = pre' @ ys1" "grows pre pre'" "grows (mid @ post @ tail) ys1"
    using assms(2) unfolding f(1) by (rule grows_splitE)
  obtain mid' ys2 where g2: "ys1 = mid' @ ys2" "grows mid mid'" "grows (post @ tail) ys2" using g1(3) by (rule grows_splitE)
  obtain post' tail' where g3: "ys2 = post' @ tail'" "grows post post'" "grows tail tail'" using g2(3) by (rule grows_splitE)
  have g: "ys = pre' @ mid' @ post' @ tail'" using g1(1) g2(1) g3(1) by simp
  have "pre' = pre" "post' = post" using grows_inserted g1(2) g3(2) f(2,4) by (auto simp: adds_def)
  then show ?thesis using framedI [OF g] f grows_calm [OF g2(2)] grows_tail [OF g3(3)] by simp
qed

lemma framed_prefix:
  assumes "framed xs" and "quiet q"
  shows "framed (q @ xs)"
proof -
  obtain pre mid post tail where f: "xs = pre @ mid @ post @ tail" "adds 1 pre" "\<forall>x \<in> set mid. calm x"
    "adds (-1) post" "\<forall>x \<in> set tail. quiet [x] \<or> is_ret x" using assms(1) by (rule framedE)
  have "rec_counter (exec_code q m) = rec_counter m" for m
    using assms(2)
  proof (induction q arbitrary: m)
    case (Cons x q)
    then have "quiet [x]" "quiet q" by (auto simp: quiet_def)
    then show ?case using Cons.IH [of "exec_ir x m"] by (simp add: exec_code_def exec_quiet)
  qed (simp add: exec_code_def)
  then have "adds 1 (q @ pre)" using f(2) assms(2) by (auto simp: adds_def exec_append inserted_def quiet_def)
  from framedI [of "q @ xs", OF _ this f(3-5)] show ?thesis using f(1) by simp
qed

section \<open>Functions and phases\<close>

definition framed_fn :: "fn \<Rightarrow> bool" where
  "framed_fn F \<longleftrightarrow> (\<forall>ks. path (blocks F) ks \<longrightarrow> framed (path_code (blocks F) ks))"

definition framed_module :: "ir_module \<Rightarrow> bool" where
  "framed_module M \<longleftrightarrow> (\<forall>F \<in> set (fns M). framed_fn F)"

lemma grows_path:
  assumes "list_all2 grows bs bs'" and "path bs' ks"
  shows "path bs ks" and "grows (path_code bs ks) (path_code bs' ks)"
proof -
  have g: "grows (bs ! k) (bs' ! k)" if "k \<in> set ks" for k
    using that assms(2) list_all2_nthD2 [OF assms(1)] by (simp add: path_def)
  have last: "last ks \<in> set ks" and early: "set (butlast ks) \<subseteq> set ks"
    using assms(2) by (auto simp: path_def dest: in_set_butlastD)
  have "returns (bs ! last ks)" using assms(2) grows_returns [OF g [OF last]] by (simp add: path_def)
  moreover have "\<forall>k \<in> set (butlast ks). \<not> list_ex is_ret (bs ! k)"
    using assms(2) early grows_no_ret [OF g] unfolding path_def by blast
  ultimately show "path bs ks" using assms by (simp add: path_def list_all2_lengthD)
  show "grows (path_code bs ks) (path_code bs' ks)"
    using g unfolding path_code_def by (induction ks) (auto intro: grows.intros grows_append)
qed

lemma framed_fn_grows: "framed_fn F \<Longrightarrow> list_all2 grows (blocks F) (blocks F') \<Longrightarrow> framed_fn F'"
  unfolding framed_fn_def using grows_path framed_grows by blast

lemma framed_alike: "framed_module M \<Longrightarrow> alike grows M M' \<Longrightarrow> framed_module M'"
proof -
  assume M: "framed_module M" and a: "alike grows M M'"
  have "framed_fn (fns M' ! j)" if "j < length (fns M')" for j
  proof -
    have "j < length (fns M)" using a that by (simp add: alike_def list_all2_lengthD)
    then show ?thesis
      using M a framed_fn_grows [of "fns M ! j"] by (simp add: framed_module_def alike_def list_all2_conv_all_nth)
  qed
  then show ?thesis by (auto simp: framed_module_def in_set_conv_nth)
qed

lemma rewrite_grows:
  assumes "rewrite_block f b = Inr b'" and "\<And>x c. x \<in> set b \<Longrightarrow> f x = Inr c \<Longrightarrow> grows [x] c"
  shows "grows b b'"
  using assms
proof (induction b arbitrary: b')
  case Nil
  then show ?case by (simp add: grows.intros)
next
  case (Cons x b)
  then obtain c b1 where c: "f x = Inr c" and b1: "rewrite_block f b = Inr b1" "b' = c @ b1"
    by (auto simp: rewrite_block_Cons cbind_eq_Inr)
  have "grows b b1" by (rule Cons.IH [OF b1(1)]) (use Cons.prems(2) in simp)
  moreover have "grows [x] c" using Cons.prems(2) [OF _ c] by simp
  ultimately show ?case using grows_append [of "[x]" c b b1] by (simp add: b1(2))
qed

lemma grows_one: "quiet c \<Longrightarrow> quiet e \<Longrightarrow> opcode i' = Op_Ret \<longleftrightarrow> opcode i = Op_Ret \<Longrightarrow> grows [Prog i] (c @ Prog i' # e)"
  using grows.grows_prog [OF _ _ _ grows.grows_Nil, of c e i' i] by simp

lemma grows_same: "grows [x] [x]"
  by (cases x) (auto intro: grows.intros grows_one [of "[]" "[]", simplified])

lemma grows_refl: "grows b b"
  using grows_append [OF grows_same] by (induction b) (auto intro: grows.intros)

lemma inject_grows:
  assumes "rewrite_block (inject_after f) b = Inr b'" and "\<And>i. i \<in> set (progs b) \<Longrightarrow> fulfils (f i) (g i)"
  shows "grows b b'"
proof (rule rewrite_grows [OF assms(1)])
  fix x c assume x: "x \<in> set b" and r: "inject_after f x = Inr c"
  show "grows [x] c"
  proof (cases x)
    case (Prog i)
    then obtain e where e: "f i = Inr e" "c = Prog i # e" using r by (auto simp: inject_after_def cbind_eq_Inr)
    have "fulfils (f i) (g i)" using assms(2) x Prog by (simp add: set_progs)
    then have "quiet e" using e(1) by (rule fulfils_quiet)
    then show ?thesis using grows_one [of "[]" e i i] by (simp add: e(2) Prog)
  qed (use r grows_same in \<open>auto simp: inject_after_def\<close>)
qed

lemma zexit_grows: "rewrite_block (zexit_instr F) b = Inr b' \<Longrightarrow> grows b b'"
proof (erule rewrite_grows)
  fix x c assume "zexit_instr F x = Inr c"
  then show "grows [x] c"
    using grows_same grows_one [of "[Call ''zexit'' []]" "[]"]
    by (cases x) (auto simp: zexit_instr_def quiet_one split: if_splits)
qed

lemma calls_grow: "rewrite_block (call_instr M F) b = Inr b' \<Longrightarrow> grows b b'"
proof (erule rewrite_grows)
  fix x c assume r: "call_instr M F x = Inr c"
  show "grows [x] c"
  proof (cases "\<exists>i. x = Prog i \<and> calls_instrumented i")
    case False
    then have "c = [x]" using call_instr_other [of x M F] r by auto
    then show ?thesis by (simp add: grows_same)
  next
    case True
    then obtain i where i: "x = Prog i" "calls_instrumented i" by blast
    then obtain e i' where e: "c = e @ [Prog i']" "quiet e" "opcode i' \<noteq> Op_Ret" using call_instr_result r by blast
    have "opcode i \<noteq> Op_Ret" using i(2) by (auto simp: calls_instrumented_iff)
    then show ?thesis using grows_one [OF e(2), of "[]" i' i] e(1,3) i(1) by (simp add: quiet_def)
  qed
qed

lemma inject_framed:
  assumes "rewrite_all (\<lambda>F. inject_after (f F)) M = Inr M'" and "own_module M"
    and "\<And>F i. own_operands (opcode i) \<Longrightarrow> fulfils (f F i) (g F i)" and "framed_module M"
  shows "framed_module M'"
proof (rule framed_alike [OF assms(4)], rule rewrite_alike [OF assms(1)])
  fix F b b'
  assume F: "F \<in> set (fns M)" "b \<in> set (blocks F)" "rewrite_block (inject_after (f F)) b = Inr b'"
  have "fulfils (f F i) (g F i)" if "i \<in> set (progs b)" for i
    using assms(2,3) F that unfolding own_module_def by blast
  then show "grows b b'" by (rule inject_grows [OF F(3)])
qed

lemma loop_blocks_framed:
  assumes "c_run loop_block ks F = Inr F'" and "own_blocks (blocks F)" and "framed_fn F"
  shows "framed_fn F'"
  using assms
proof (induction ks arbitrary: F)
  case (Cons k ks)
  then obtain F1 where F1: "loop_block k F = Inr F1" "c_run loop_block ks F1 = Inr F'" by (auto simp: cbind_eq_Inr)
  note r = loop_block_result [OF F1(1)]
  have "grows (blocks F ! k) (blocks F1 ! k)"
    by (rule inject_grows [OF r(7) loop_instr_fulfils]) (use Cons.prems(2) r(6) in auto)
  then have "list_all2 grows (blocks F) (blocks F1)"
    unfolding list_all2_conv_all_nth using r(4,5) grows_refl by metis
  then have "framed_fn F1" by (rule framed_fn_grows [OF Cons.prems(3)])
  moreover have "own_blocks (blocks F1)"
    using loop_block_progs [of "[k]" F F1] own_same F1(1) Cons.prems(2) by auto
  ultimately show ?case using Cons.IH [OF F1(2)] by blast
qed simp

lemma loop_phase_framed:
  assumes "loop_phase M = Inr M'" and "own_module M" and "framed_module M"
  shows "framed_module M'"
proof -
  have "framed_fn (fns M' ! j)" if j: "j < length (fns M')" for j
  proof -
    have len: "j < length (fns M)" using assms(1) j by (auto simp: loop_phase_def cbind_eq_Inr c_map_nth)
    then have run: "(if blocks (fns M ! j) = [] then Inr (fns M ! j) else c_run loop_block (concat (loops (fns M ! j))) (fns M ! j)) = Inr (fns M' ! j)"
      using assms(1) by (auto simp: loop_phase_def cbind_eq_Inr c_map_nth)
    have "framed_fn (fns M ! j)" "own_blocks (blocks (fns M ! j))"
      using assms(2,3) len unfolding own_module_def framed_module_def by (meson nth_mem)+
    then show ?thesis using run loop_blocks_framed by (cases "blocks (fns M ! j) = []") auto
  qed
  then show ?thesis by (auto simp: framed_module_def in_set_conv_nth)
qed

text \<open>What opens main stands in front of its entry, which a path takes once.\<close>

lemma prefix_path:
  assumes "path ((q @ b) # bs) ks" and "quiet q" and "b \<noteq> []"
  shows "path (b # bs) ks" and "path_code ((q @ b) # bs) ks = q @ path_code (b # bs) ks"
proof -
  obtain ls where ks: "ks = 0 # ls" "0 \<notin> set ls" using assms(1) by (cases ks) (auto simp: path_def)
  have at: "((q @ b) # bs) ! k = (b # bs) ! k" if "k \<in> set ls" for k
  proof -
    have "k \<noteq> 0" using that ks(2) by metis
    then show ?thesis by (cases k) simp_all
  qed
  have rets: "list_ex is_ret (((q @ b) # bs) ! k) \<longleftrightarrow> list_ex is_ret ((b # bs) ! k)" for k
    using quiet_no_ret [OF assms(2)] by (cases k) simp_all
  have "returns (((q @ b) # bs) ! k) \<longleftrightarrow> returns ((b # bs) ! k)" for k
  proof (cases k)
    case 0
    have "filter is_ret q = []" using quiet_no_ret [OF assms(2)] by (simp add: filter_empty_conv list_ex_iff)
    then show ?thesis using 0 assms(3) by (simp add: returns_filter)
  qed simp
  then show "path (b # bs) ks" using assms(1) rets by (simp add: path_def)
  have "map ((!) ((q @ b) # bs)) ls = map ((!) (b # bs)) ls" using at by simp
  then show "path_code ((q @ b) # bs) ks = q @ path_code (b # bs) ks"
    unfolding path_code_def ks(1) by (simp del: map_eq_conv)
qed

lemma framed_fn_prefix:
  assumes "framed_fn F" and "blocks F = b # bs" and "b \<noteq> []" and "blocks F' = (q @ b) # bs" and "quiet q"
  shows "framed_fn F'"
  using assms(1) prefix_path [OF _ assms(5,3), of bs] framed_prefix [OF _ assms(5)]
  unfolding framed_fn_def assms(2,4) by metis

lemma entries_alike:
  assumes "alike same_progs M M'" and "\<forall>F \<in> set (fns M). blocks F \<noteq> [] \<longrightarrow> progs (hd (blocks F)) \<noteq> []"
  shows "\<forall>F \<in> set (fns M'). blocks F \<noteq> [] \<longrightarrow> progs (hd (blocks F)) \<noteq> []"
proof
  fix F' assume "F' \<in> set (fns M')"
  then obtain j where j: "j < length (fns M)" "F' = fns M' ! j"
    using assms(1) by (auto simp: alike_def in_set_conv_nth list_all2_lengthD)
  then have "list_all2 same_progs (blocks (fns M ! j)) (blocks F')" "fns M ! j \<in> set (fns M)"
    using assms(1) by (simp_all add: alike_def list_all2_conv_all_nth)
  then show "blocks F' \<noteq> [] \<longrightarrow> progs (hd (blocks F')) \<noteq> []"
    using assms(2) by (cases "blocks (fns M ! j)"; cases "blocks F'") force+
qed

lemma zinit_phase_framed:
  assumes "zinit_phase M = Inr M'" and "framed_module M" and "\<forall>F \<in> set (fns M). blocks F \<noteq> [] \<longrightarrow> progs (hd (blocks F)) \<noteq> []"
  shows "framed_module M'"
proof -
  have "framed_fn (fns M' ! j)" if j: "j < length (fns M')" for j
  proof -
    let ?F = "fns M ! j"
    have len: "j < length (fns M)" using assms(1) j by (auto simp: zinit_phase_def cbind_eq_Inr c_map_nth)
    then have F: "framed_fn ?F" "blocks ?F \<noteq> [] \<longrightarrow> progs (hd (blocks ?F)) \<noteq> []"
      using assms(2,3) by (simp_all add: framed_module_def)
    have run: "(if blocks ?F = [] \<or> fn_name ?F \<noteq> ''main'' then Inr ?F
      else cbind (global_code M) (\<lambda>gs. Inr (?F\<lparr>blocks := (Call ''zinit'' [] # gs @ hd (blocks ?F)) # tl (blocks ?F)\<rparr>))) = Inr (fns M' ! j)"
      using assms(1) len by (auto simp: zinit_phase_def cbind_eq_Inr c_map_nth)
    show ?thesis
    proof (cases "blocks ?F = [] \<or> fn_name ?F \<noteq> ''main''")
      case True
      then show ?thesis using run F(1) by simp
    next
      case False
      then obtain gs where gs: "global_code M = Inr gs"
        "fns M' ! j = ?F\<lparr>blocks := (Call ''zinit'' [] # gs @ hd (blocks ?F)) # tl (blocks ?F)\<rparr>"
        using run by (auto simp: cbind_eq_Inr)
      obtain b bs where b: "blocks ?F = b # bs" using False by (cases "blocks ?F") auto
      have "quiet (Call ''zinit'' [] # gs)" using global_code_quiet [OF gs(1)] by simp
      then show ?thesis
        using framed_fn_prefix [OF F(1) b, of "fns M' ! j" "Call ''zinit'' [] # gs"] F(2) b gs(2) by (cases "b = []") auto
    qed
  qed
  then show ?thesis by (auto simp: framed_module_def in_set_conv_nth)
qed

lemma pass_framed:
  assumes "runOnModule M = Inr M'" and "own_module M" and "framed_module M"
    and "\<forall>F \<in> set (fns M). blocks F \<noteq> [] \<longrightarrow> progs (hd (blocks F)) \<noteq> []"
  shows "framed_module M'"
proof -
  obtain M1 M2 M3 M4 where
    m: "loop_phase M = Inr M1" "zinit_phase M1 = Inr M2" "rewrite_all zexit_instr M2 = Inr M3" "use_phases M3 = Inr M4"
    "rewrite_all (call_instr M4) M4 = Inr M'" and own: "own_module M3"
    by (rule pass_phases [OF assms(1,2)])
  obtain N1 N2 where
    n: "rewrite_all (\<lambda>F. inject_after def_instr) M3 = Inr N1"
      "rewrite_all (\<lambda>F. inject_after (store_instr (fn_args F))) N1 = Inr N2"
      "rewrite_all (\<lambda>F. inject_after (library_instr (fn_args F))) N2 = Inr M4"
    using m(4) by (auto simp: use_phases_def cbind_eq_Inr)
  have o1: "own_module N1" by (rule own_alike [OF inject_alike [OF n(1) own def_instr_fulfils] own])
  have o2: "own_module N2" by (rule own_alike [OF inject_alike [OF n(2) o1 store_instr_fulfils] o1])
  have f1: "framed_module M1" by (rule loop_phase_framed [OF m(1) assms(2,3)])
  have "framed_module M2"
    by (rule zinit_phase_framed [OF m(2) f1 entries_alike [OF loop_phase_alike [OF m(1) assms(2)] assms(4)]])
  then have f3: "framed_module M3" by (rule framed_alike) (rule rewrite_alike [OF m(3)], rule zexit_grows)
  have g1: "framed_module N1" by (rule inject_framed [OF n(1) own def_instr_fulfils f3])
  have g2: "framed_module N2" by (rule inject_framed [OF n(2) o1 store_instr_fulfils g1])
  have g3: "framed_module M4" by (rule inject_framed [OF n(3) o2 library_instr_fulfils g2])
  from g3 show ?thesis by (rule framed_alike) (rule rewrite_alike [OF m(5)], rule calls_grow)
qed

section \<open>Both passes\<close>

lemma progs_step [simp]: "progs (step_counter k) = []"
  by (simp add: step_code)

lemma progs_leave: "progs (leave b) = progs b"
proof (induction b)
  case (Cons x b)
  have "progs (leave_instr x) = progs [x]" by (auto simp: leave_instr_def split: ir.splits)
  then show ?case using Cons by (cases x) simp_all
qed simp

lemma progs_enter: "map progs (enter_blocks bs) = map progs bs"
  by (induction bs rule: enter_blocks.induct) simp_all

lemma progs_tracked: "map progs (blocks (trackRecursion F)) = map progs (blocks F)"
  using progs_enter [of "blocks F"] by (simp add: trackRecursion_def progs_leave comp_def)

lemma tracked_fn:
  assumes "F \<in> set (fns (snd (track_module M)))"
  obtains G where "G \<in> set (fns M)" "map progs (blocks F) = map progs (blocks G)"
proof -
  obtain G where "G \<in> set (fns M)" "F = (if blocks G = [] then G else trackRecursion G)"
    using assms by (auto simp: track_module_def)
  then show ?thesis using that progs_tracked by (cases "blocks G = []") auto
qed

lemma tracked_own: "own_module M \<Longrightarrow> own_module (snd (track_module M))"
  unfolding own_module_def
proof (intro ballI)
  fix F b i
  assume own: "\<forall>F \<in> set (fns M). \<forall>b \<in> set (blocks F). \<forall>i \<in> set (progs b). own_operands (opcode i)"
    and F: "F \<in> set (fns (snd (track_module M)))" and b: "b \<in> set (blocks F)" and i: "i \<in> set (progs b)"
  obtain G where G: "G \<in> set (fns M)" "map progs (blocks F) = map progs (blocks G)" using F by (rule tracked_fn)
  have "progs b \<in> set (map progs (blocks G))" using b unfolding G(2) [symmetric] by simp
  then show "own_operands (opcode i)" using own G(1) i by auto
qed

lemma tracked_entries:
  assumes "trackable M"
  shows "\<forall>F \<in> set (fns (snd (track_module M))). blocks F \<noteq> [] \<longrightarrow> progs (hd (blocks F)) \<noteq> []"
proof (intro ballI impI)
  fix F assume F: "F \<in> set (fns (snd (track_module M)))" "blocks F \<noteq> []"
  obtain G where G: "G \<in> set (fns M)" "map progs (blocks F) = map progs (blocks G)" using F(1) by (rule tracked_fn)
  have "blocks G \<noteq> []" using G(2) F(2) by auto
  moreover from this have "progs (hd (blocks F)) = progs (hd (blocks G))" using G(2) F(2) by (metis hd_map)
  ultimately show "progs (hd (blocks F)) \<noteq> []" using assms G(1) by (simp add: trackable_def)
qed

lemma framed_runs:
  assumes "framed_module M" and "F \<in> set (fns M)" and "path (blocks F) ks" and "runs (fns M) d (path_code (blocks F) ks) m es m'"
  shows "rec_counter m' = rec_counter m \<and> counts d (rec_counter m + 1) es"
proof -
  have f: "\<forall>F \<in> set (fns M). \<forall>ks. path (blocks F) ks \<longrightarrow> framed (path_code (blocks F) ks)"
    using assms(1) by (simp add: framed_module_def framed_fn_def)
  obtain pre mid post tail where p: "path_code (blocks F) ks = pre @ mid @ post @ tail" "adds 1 pre" "\<forall>x \<in> set mid. calm x"
    "adds (-1) post" "\<forall>x \<in> set tail. quiet [x] \<or> is_ret x" using f assms(2,3) framedE by blast
  have "rec_counter m' = rec_counter (exec_code pre m) - 1 \<and> counts d (rec_counter (exec_code pre m)) es"
    by (rule runs_body [OF assms(4) f p(1) _ p(3-5)]) (use p(2) in \<open>simp add: adds_def\<close>)
  then show ?thesis using p(2) by (simp add: adds_def)
qed

lemma tracked_module_framed: "trackable M \<Longrightarrow> framed_module (snd (track_module M))"
  using tracked_framed by (simp add: framed_module_def framed_fn_def)

lemma both_framed:
  assumes "trackable M" and "own_module M" and "runOnModule (snd (track_module M)) = Inr M'"
  shows "framed_module M'"
  by (rule pass_framed [OF assms(3) tracked_own [OF assms(2)] tracked_module_framed [OF assms(1)] tracked_entries [OF assms(1)]])

end
