(* ===== verification/Helper_Extend.thy ===== *)
theory Helper_Extend
  imports Helper_Passes
begin

text \<open>
  What FunctionInstrumentor makes of a module: the functions it copies, the calls it
  redirects, and in which order it deletes.
\<close>

section \<open>Modules and services\<close>

text \<open>
  LLVM keeps a name that is not taken, and a copy of a body calls what the body calls, with
  as many arguments.
\<close>

definition call_shape :: "ir \<Rightarrow> (string \<times> nat) option" where
  "call_shape x = map_option (map_prod id length) (call_of x)"

definition services_ok :: "llvm_services \<Rightarrow> bool" where
  "services_ok L \<longleftrightarrow> (\<forall>names n. n \<notin> set names \<longrightarrow> unique_name L names n = n) \<and>
     (\<forall>F. map (map call_shape) (clone_body L F) = map (map call_shape) (blocks F))"

definition target :: "typed_fn \<Rightarrow> bool" where
  "target F \<longleftrightarrow> blocks F \<noteq> [] \<and> instrumentable F \<noteq> 0 \<and> fn_name F \<notin> set extend_blacklist"

abbreviation targets :: "typed_fn list \<Rightarrow> typed_fn list" where
  "targets Fs \<equiv> filter target Fs"

text \<open>
  Functions have names of their own, none of them that of a copy; what is called is in the
  module, and called with as many arguments as it takes where it will be copied.
\<close>

definition extendable :: "typed_fn list \<Rightarrow> bool" where
  "extendable Fs \<longleftrightarrow> distinct (map fn_name Fs) \<and> (\<forall>F \<in> set Fs. \<forall>f. fn_name F \<noteq> instrumented_name f) \<and>
     (\<forall>F \<in> set Fs. \<forall>b \<in> set (blocks F). \<forall>x \<in> set b. \<forall>f n. call_shape x = Some (f, n) \<longrightarrow>
        (\<exists>G \<in> set Fs. fn_name G = f \<and> (target G \<longrightarrow> n = length (fn_args G))))"

lemma instrumented_inj [simp]: "instrumented_name f = instrumented_name g \<longleftrightarrow> f = g"
  by (simp add: instrumented_name_def)

section \<open>The copies\<close>

definition copy_of :: "llvm_services \<Rightarrow> typed_fn \<Rightarrow> typed_fn" where
  "copy_of L F = \<lparr>fn_name = instrumented_name (fn_name F), fn_args = fn_args F @ pointer_names F,
     blocks = clone_body L F, loops = loops F, pointers = pointers F @ replicate (instrumentable F) False\<rparr>"

lemma clone_fn_name: "services_ok L \<Longrightarrow> instrumented_name (fn_name F) \<notin> set names \<Longrightarrow> clone_fn L names F = copy_of L F"
  by (simp add: services_ok_def clone_fn_def copy_of_def)

text \<open>The state after the first functions of the module, as long as none of the copies has been looked at.\<close>

definition extended_by :: "llvm_services \<Rightarrow> typed_fn list \<Rightarrow> typed_fn list \<Rightarrow> extender" where
  "extended_by L Fs Gs = \<lparr>module_fns = Fs @ map (copy_of L) (targets Gs),
     blacklist = extend_blacklist @ map (\<lambda>F. if target F then instrumented_name (fn_name F) else fn_name F)
       (filter (\<lambda>F. blocks F \<noteq> []) Gs),
     extended = map (\<lambda>F. (fn_name F, instrumentable F)) (targets Gs)\<rparr>"

lemma extended_by_step:
  assumes "services_ok L" and "extendable Fs" and "Fs = Gs @ F # Hs"
  shows "extend_step L F (extended_by L Fs Gs) = extended_by L Fs (Gs @ [F])"
proof (cases "blocks F = []")
  case True
  then show ?thesis by (simp add: extend_step_def extended_by_def target_def)
next
  case False
  have new: "fn_name F \<notin> fn_name ` set Gs" using assms(2,3) by (simp add: extendable_def)
  have own: "fn_name F \<noteq> instrumented_name f" for f using assms(2,3) by (simp add: extendable_def)
  have known: "fn_name F \<in> set (blacklist (extended_by L Fs Gs)) \<longleftrightarrow> fn_name F \<in> set extend_blacklist"
    using new own by (auto simp: extended_by_def split: if_splits)
  show ?thesis
  proof (cases "target F")
    case True
    have "\<forall>G \<in> set Fs. instrumented_name (fn_name F) \<noteq> fn_name G" using assms(2) unfolding extendable_def by metis
    then have "instrumented_name (fn_name F) \<notin> set (map fn_name (module_fns (extended_by L Fs Gs)))"
      using new by (auto simp: extended_by_def copy_of_def)
    from clone_fn_name [OF assms(1) this]
    have c: "clone_fn L (map fn_name (module_fns (extended_by L Fs Gs))) F = copy_of L F" .
    have "map_of (extended (extended_by L Fs Gs)) (fn_name F) = None"
      using new by (auto simp: extended_by_def map_of_eq_None_iff)
    then have "instrumentFunction L F (extended_by L Fs Gs) =
        (True, (extended_by L Fs Gs)\<lparr>module_fns := module_fns (extended_by L Fs Gs) @ [copy_of L F],
          extended := extended (extended_by L Fs Gs) @ [(fn_name F, instrumentable F)]\<rparr>)"
      using True known c by (simp add: instrumentFunction_def target_def)
    then show ?thesis using True False by (simp add: extend_step_def extended_by_def)
  next
    case no: False
    then have "instrumentFunction L F (extended_by L Fs Gs) = (False, extended_by L Fs Gs)"
      using known False by (auto simp: instrumentFunction_def target_def)
    then show ?thesis using no False by (simp add: extend_step_def extended_by_def)
  qed
qed

lemma extend_loop_program:
  assumes "services_ok L" and "extendable Fs" and "Fs = Gs @ Hs"
  shows "extend_loop L (length Gs, extended_by L Fs Gs) = extend_loop L (length Fs, extended_by L Fs Fs)"
  using assms(3)
proof (induction Hs arbitrary: Gs)
  case (Cons F Hs)
  have "length Gs < length (module_fns (extended_by L Fs Gs))" "module_fns (extended_by L Fs Gs) ! length Gs = F"
    using Cons.prems by (simp_all add: extended_by_def nth_append)
  then have "extend_loop L (length Gs, extended_by L Fs Gs) = extend_loop L (length (Gs @ [F]), extended_by L Fs (Gs @ [F]))"
    using extended_by_step [OF assms(1,2) Cons.prems] by (simp add: extend_loop.simps)
  also have "\<dots> = extend_loop L (length Fs, extended_by L Fs Fs)" by (rule Cons.IH) (use Cons.prems in simp)
  finally show ?case .
qed simp

text \<open>The copies are on the list of names that are left alone.\<close>

lemma extend_loop_copies:
  assumes "\<forall>F \<in> set (drop k (module_fns s)). fn_name F \<in> set (blacklist s)"
  shows "\<exists>s'. extend_loop L (k, s) = Some s' \<and> module_fns s' = module_fns s \<and> extended s' = extended s"
  using assms
proof (induction "length (module_fns s) - k" arbitrary: k s)
  case 0
  then show ?case by (simp add: extend_loop.simps)
next
  case (Suc n)
  let ?F = "module_fns s ! k" and ?s = "extend_step L (module_fns s ! k) s"
  have k: "k < length (module_fns s)" using Suc.hyps(2) by simp
  then have "fn_name ?F \<in> set (blacklist s)" using Suc.prems by (simp add: Cons_nth_drop_Suc [symmetric])
  then have s: "module_fns ?s = module_fns s" "extended ?s = extended s" "set (blacklist s) \<subseteq> set (blacklist ?s)"
    by (auto simp: extend_step_def instrumentFunction_def)
  have "set (drop (Suc k) (module_fns s)) \<subseteq> set (drop k (module_fns s))" by (rule set_drop_subset_set_drop) simp
  then have "\<exists>s'. extend_loop L (Suc k, ?s) = Some s' \<and> module_fns s' = module_fns ?s \<and> extended s' = extended ?s"
    using Suc.hyps(2) Suc.prems s by (intro Suc.hyps(1)) auto
  then show ?case using k s by (simp add: extend_loop.simps [of L "(k, s)"])
qed

lemma extend_loop_result:
  assumes "services_ok L" and "extendable Fs"
  shows "\<exists>s. extend_loop L (0, \<lparr>module_fns = Fs, blacklist = extend_blacklist, extended = []\<rparr>) = Some s \<and>
    module_fns s = Fs @ map (copy_of L) (targets Fs) \<and> extended s = map (\<lambda>F. (fn_name F, instrumentable F)) (targets Fs)"
proof -
  have "extend_loop L (0, \<lparr>module_fns = Fs, blacklist = extend_blacklist, extended = []\<rparr>) =
      extend_loop L (length Fs, extended_by L Fs Fs)"
    using extend_loop_program [OF assms, of "[]" Fs] by (simp add: extended_by_def)
  moreover have "\<forall>F \<in> set (drop (length Fs) (module_fns (extended_by L Fs Fs))). fn_name F \<in> set (blacklist (extended_by L Fs Fs))"
    by (force simp: extended_by_def copy_of_def target_def)
  ultimately show ?thesis using extend_loop_copies [of "length Fs" "extended_by L Fs Fs" L] by (simp add: extended_by_def)
qed

section \<open>The calls\<close>

definition redirected :: "typed_fn list \<Rightarrow> ir \<Rightarrow> ir" where
  "redirected Ts x = (case call_of x of None \<Rightarrow> x
     | Some (f, xs) \<Rightarrow> (case find (\<lambda>F. fn_name F = f) Ts of None \<Rightarrow> x
       | Some F \<Rightarrow> with_callee (instrumented_name f) (xs @ replicate (instrumentable F) (Imm 0)) x))"

lemma redirected_target:
  assumes "inj_on fn_name (set Ts)" and "F \<in> set Ts" and "call_of x = Some (fn_name F, xs)"
  shows "redirected Ts x = with_callee (instrumented_name (fn_name F)) (xs @ replicate (instrumentable F) (Imm 0)) x"
proof (cases "find (\<lambda>G. fn_name G = fn_name F) Ts")
  case None
  then show ?thesis using assms(2) by (auto simp: find_None_iff)
next
  case (Some G)
  then have "G \<in> set Ts" "fn_name G = fn_name F" by (auto simp: find_Some_iff)
  then have "G = F" using assms(1,2) by (simp add: inj_on_def)
  then show ?thesis using Some assms(3) by (simp add: redirected_def)
qed

lemma redirected_other:
  "\<forall>F \<in> set Ts. map_option fst (call_of x) \<noteq> Some (fn_name F) \<Longrightarrow> redirected Ts x = x"
  by (auto simp: redirected_def find_None_iff find_Some_iff split: option.splits)

text \<open>
  An instruction and what has become of it: a call of one of the functions is a call of its
  copy, with the same arguments and a zero behind them for each pointer; any other
  instruction stays.
\<close>

definition turned :: "typed_fn list \<Rightarrow> ir \<Rightarrow> ir \<Rightarrow> bool" where
  "turned Ts x y \<longleftrightarrow>
     (\<forall>F \<in> set Ts. \<forall>xs. call_of x = Some (fn_name F, xs) \<longrightarrow> length xs = length (fn_args F) \<and>
        y = with_callee (instrumented_name (fn_name F)) (xs @ replicate (instrumentable F) (Imm 0)) x) \<and>
     ((\<forall>F \<in> set Ts. map_option fst (call_of x) \<noteq> Some (fn_name F)) \<longrightarrow> y = x)"

definition calls_one :: "typed_fn list \<Rightarrow> ir \<Rightarrow> bool" where
  "calls_one Ts x \<longleftrightarrow> (\<exists>F \<in> set Ts. map_option fst (call_of x) = Some (fn_name F))"

lemma map_of_find: "map_of (map (\<lambda>F. (fn_name F, h F)) Ts) f = map_option h (find (\<lambda>F. fn_name F = f) Ts)"
  by (induction Ts) auto

lemma find_fn: "find (\<lambda>F. fn_name F = f) Ts = Some F \<Longrightarrow> F \<in> set Ts \<and> fn_name F = f"
  by (induction Ts) (auto split: if_splits)

lemma find_copy:
  assumes "\<forall>F \<in> set Fs. fn_name F \<noteq> instrumented_name f"
  shows "find (\<lambda>F. fn_name F = instrumented_name f) (Fs @ map (copy_of L) Ts) = map_option (copy_of L) (find (\<lambda>F. fn_name F = f) Ts)"
proof -
  have "find (\<lambda>F. fn_name F = instrumented_name f) (map (copy_of L) Ts) = map_option (copy_of L) (find (\<lambda>F. fn_name F = f) Ts)"
    by (induction Ts) (simp_all add: copy_of_def)
  then show ?thesis using assms by (induction Fs) simp_all
qed

definition fits :: "typed_fn list \<Rightarrow> ir \<Rightarrow> bool" where
  "fits Ts x \<longleftrightarrow> (\<forall>G \<in> set Ts. \<forall>n. call_shape x = Some (fn_name G, n) \<longrightarrow> n = length (fn_args G))"

lemma redirect_result:
  assumes "\<forall>F \<in> set Fs. \<forall>f. fn_name F \<noteq> instrumented_name f" and "fits Ts x"
  shows "redirect (Fs @ map (copy_of L) Ts) (map (\<lambda>F. (fn_name F, instrumentable F)) Ts) x = Inr (calls_one Ts x, redirected Ts x)"
proof (cases "call_of x")
  case None
  then show ?thesis by (simp add: redirect_def calls_one_def redirected_def)
next
  case (Some c)
  obtain f xs where c: "c = (f, xs)" by (cases c)
  show ?thesis
  proof (cases "find (\<lambda>F. fn_name F = f) Ts")
    case None
    then have "fn_name F \<noteq> f" if "F \<in> set Ts" for F using that by (auto simp: find_None_iff)
    then show ?thesis using None Some c by (auto simp: redirect_def calls_one_def redirected_def map_of_find)
  next
    case F: (Some F)
    from find_fn [OF this] have "F \<in> set Ts" "fn_name F = f" by simp_all
    moreover from this have "length xs = length (fn_args F)"
      using assms(2) Some c by (auto simp: fits_def call_shape_def)
    ultimately show ?thesis
      using F Some c find_copy [of Fs f L Ts] assms(1)
      by (auto simp: redirect_def calls_one_def redirected_def map_of_find copy_of_def instrumentable_def)
  qed
qed

definition redirected_fn :: "typed_fn list \<Rightarrow> typed_fn \<Rightarrow> typed_fn" where
  "redirected_fn Ts F = (if fn_name F \<in> fn_name ` set Ts then F else F\<lparr>blocks := map (map (redirected Ts)) (blocks F)\<rparr>)"

definition calls_some :: "typed_fn list \<Rightarrow> typed_fn \<Rightarrow> bool" where
  "calls_some Ts F \<longleftrightarrow> (\<exists>b \<in> set (blocks F). \<exists>x \<in> set b. calls_one Ts x)"

lemma redirect_fn_result:
  assumes "\<forall>F \<in> set Fs. \<forall>f. fn_name F \<noteq> instrumented_name f" and "\<forall>b \<in> set (blocks F). \<forall>x \<in> set b. fits Ts x"
  shows "redirect_fn (Fs @ map (copy_of L) Ts) (map (\<lambda>F. (fn_name F, instrumentable F)) Ts) F =
    Inr (fn_name F \<notin> fn_name ` set Ts \<and> calls_some Ts F, redirected_fn Ts F)"
proof -
  let ?r = "redirect_block (Fs @ map (copy_of L) Ts) (map (\<lambda>F. (fn_name F, instrumentable F)) Ts)"
  have b: "?r b = Inr (list_ex (calls_one Ts) b, map (redirected Ts) b)" if "b \<in> set (blocks F)" for b
  proof -
    have "c_map (redirect (Fs @ map (copy_of L) Ts) (map (\<lambda>F. (fn_name F, instrumentable F)) Ts)) b =
        Inr (map (\<lambda>x. (calls_one Ts x, redirected Ts x)) b)"
      by (rule c_map_all) (use that assms redirect_result in blast)
    then show ?thesis by (simp add: redirect_block_def list_ex_iff comp_def)
  qed
  have "c_map ?r (blocks F) = Inr (map (\<lambda>b. (list_ex (calls_one Ts) b, map (redirected Ts) b)) (blocks F))"
    by (rule c_map_all) (rule b)
  moreover have "fst ` set (map (\<lambda>F. (fn_name F, instrumentable F)) Ts) = fn_name ` set Ts" by force
  ultimately show ?thesis
    by (auto simp: redirect_fn_def redirected_fn_def calls_some_def list_ex_iff comp_def)
qed

lemma calls_one_shape: "calls_one Ts x \<longleftrightarrow> (\<exists>F \<in> set Ts. map_option fst (call_shape x) = Some (fn_name F))"
  by (cases "call_of x") (auto simp: calls_one_def call_shape_def)

lemma same_shapes:
  assumes "map (map call_shape) bs = map (map call_shape) cs" and "b \<in> set bs" and "x \<in> set b"
  shows "\<exists>c \<in> set cs. \<exists>y \<in> set c. call_shape x = call_shape y"
proof -
  have "map call_shape b \<in> set (map (map call_shape) bs)" using assms(2) by simp
  then obtain c where c: "c \<in> set cs" "map call_shape b = map call_shape c" unfolding assms(1) by auto
  have "call_shape x \<in> set (map call_shape b)" using assms(3) by simp
  then show ?thesis using c unfolding c(2) by auto
qed

lemma calls_some_shapes: "calls_some Ts F \<longleftrightarrow>
    (\<exists>ss \<in> set (map (map call_shape) (blocks F)). \<exists>s \<in> set ss. \<exists>G \<in> set Ts. map_option fst s = Some (fn_name G))"
  by (simp add: calls_some_def calls_one_shape)

lemma copy_shapes: "services_ok L \<Longrightarrow> map (map call_shape) (blocks (copy_of L F)) = map (map call_shape) (blocks F)"
  by (simp add: services_ok_def copy_of_def)

lemma calls_some_copy: "services_ok L \<Longrightarrow> calls_some Ts (copy_of L F) = calls_some Ts F"
  unfolding calls_some_shapes by (simp only: copy_shapes)

lemma program_fits:
  assumes "extendable Fs" and "F \<in> set Fs" and "b \<in> set (blocks F)" and "x \<in> set b"
  shows "fits (targets Fs) x"
  unfolding fits_def
proof (intro ballI allI impI)
  fix G n assume G: "G \<in> set (targets Fs)" and x: "call_shape x = Some (fn_name G, n)"
  obtain H where H: "H \<in> set Fs" "fn_name H = fn_name G" "target H \<longrightarrow> n = length (fn_args H)"
    using assms x unfolding extendable_def by blast
  have "inj_on fn_name (set Fs)" using assms(1) by (simp add: extendable_def distinct_map)
  then have "H = G" using H(1,2) G by (simp add: inj_on_def)
  then show "n = length (fn_args G)" using H(3) G by simp
qed

lemma copy_fits:
  assumes "services_ok L" and "extendable Fs" and "F \<in> set Fs" and "b \<in> set (blocks (copy_of L F))" and "x \<in> set b"
  shows "fits (targets Fs) x"
proof -
  from same_shapes [OF copy_shapes [OF assms(1)] assms(4,5)] obtain c y where "c \<in> set (blocks F)" "y \<in> set c" "call_shape x = call_shape y" by blast
  then show ?thesis using program_fits [OF assms(2,3)] unfolding fits_def by metis
qed

lemma target_name: "extendable Fs \<Longrightarrow> F \<in> set Fs \<Longrightarrow> fn_name F \<in> fn_name ` set (targets Fs) \<longleftrightarrow> target F"
proof -
  assume "extendable Fs" "F \<in> set Fs"
  then have "inj_on fn_name (set Fs)" by (simp add: extendable_def distinct_map)
  from inj_on_image_mem_iff [OF this \<open>F \<in> set Fs\<close>, of "set (targets Fs)"] show ?thesis using \<open>F \<in> set Fs\<close> by auto
qed

lemma copy_name: "extendable Fs \<Longrightarrow> fn_name (copy_of L F) \<notin> fn_name ` set (targets Fs)"
proof
  assume "extendable Fs" and "fn_name (copy_of L F) \<in> fn_name ` set (targets Fs)"
  then obtain G where "G \<in> set Fs" "fn_name G = instrumented_name (fn_name F)" by (auto simp: copy_of_def)
  then show False using \<open>extendable Fs\<close> by (simp add: extendable_def)
qed

lemma list_ex_pairs: "list_ex fst (map (\<lambda>F. (P F, Q F)) Fs) \<longleftrightarrow> (\<exists>F \<in> set Fs. P F)" "map snd (map (\<lambda>F. (P F, Q F)) Fs) = map Q Fs"
  by (simp_all add: list_ex_iff comp_def)

lemma calls_result:
  assumes "services_ok L" and "extendable Fs"
  shows "instrumentCalls (Fs @ map (copy_of L) (targets Fs)) (map (\<lambda>F. (fn_name F, instrumentable F)) (targets Fs)) =
    Inr (\<exists>F \<in> set Fs. calls_some (targets Fs) F, map (redirected_fn (targets Fs)) (Fs @ map (copy_of L) (targets Fs)))"
proof -
  let ?Ms = "Fs @ map (copy_of L) (targets Fs)"
  have own: "\<forall>F \<in> set Fs. \<forall>f. fn_name F \<noteq> instrumented_name f" using assms(2) by (simp add: extendable_def)
  have "\<forall>b \<in> set (blocks F). \<forall>x \<in> set b. fits (targets Fs) x" if "F \<in> set ?Ms" for F
    using that program_fits [OF assms(2)] copy_fits [OF assms] by auto
  then have "c_map (redirect_fn ?Ms (map (\<lambda>F. (fn_name F, instrumentable F)) (targets Fs))) ?Ms =
      Inr (map (\<lambda>F. (fn_name F \<notin> fn_name ` set (targets Fs) \<and> calls_some (targets Fs) F, redirected_fn (targets Fs) F)) ?Ms)"
    by (intro c_map_all redirect_fn_result [OF own]) blast
  moreover have "(\<exists>F \<in> set ?Ms. fn_name F \<notin> fn_name ` set (targets Fs) \<and> calls_some (targets Fs) F) \<longleftrightarrow>
      (\<exists>F \<in> set Fs. calls_some (targets Fs) F)" (is "?l \<longleftrightarrow> ?r")
  proof
    assume ?l
    then obtain F where F: "F \<in> set ?Ms" "calls_some (targets Fs) F" by blast
    show ?r
    proof (cases "F \<in> set Fs")
      case False
      then obtain G where "G \<in> set Fs" "F = copy_of L G" using F(1) by auto
      then show ?thesis using F(2) calls_some_copy [OF assms(1)] by blast
    qed (use F(2) in blast)
  next
    assume ?r
    then obtain F where F: "F \<in> set Fs" "calls_some (targets Fs) F" by blast
    show ?l
    proof (cases "target F")
      case True
      then have "copy_of L F \<in> set ?Ms" using F(1) by simp
      then show ?thesis using F(2) calls_some_copy [OF assms(1)] copy_name [OF assms(2)] by blast
    next
      case False
      then show ?thesis using F target_name [OF assms(2) F(1)] by (intro bexI [of _ F]) simp_all
    qed
  qed
  ultimately show ?thesis by (simp only: instrumentCalls_def cbind_Inr list_ex_pairs)
qed

section \<open>Deleting\<close>

lemma erase_result:
  assumes "sorted fs" and "distinct fs" and "set fs \<subseteq> fn_name ` set Fs"
  shows "erase_fns fs Fs =
    (if \<exists>f \<in> set fs. \<exists>F \<in> set Fs. (fn_name F \<in> set fs \<longrightarrow> f < fn_name F) \<and> calls_fn f F then Inl Use_After_Free
     else Inr (filter (\<lambda>F. fn_name F \<notin> set fs) Fs))"
  using assms
proof (induction fs arbitrary: Fs)
  case (Cons f fs)
  let ?Gs = "filter (\<lambda>F. fn_name F \<noteq> f) Fs"
  have above: "\<forall>g \<in> set fs. f < g" using Cons.prems(1,2) by (auto simp: less_le)
  have "set fs \<subseteq> fn_name ` set ?Gs"
  proof
    fix g assume "g \<in> set fs"
    then have "g \<in> fn_name ` set Fs" "g \<noteq> f" using Cons.prems(2,3) by auto
    then show "g \<in> fn_name ` set ?Gs" by auto
  qed
  then have IH: "erase_fns fs ?Gs =
      (if \<exists>g \<in> set fs. \<exists>F \<in> set ?Gs. (fn_name F \<in> set fs \<longrightarrow> g < fn_name F) \<and> calls_fn g F then Inl Use_After_Free
       else Inr (filter (\<lambda>F. fn_name F \<notin> set fs) ?Gs))"
    by (intro Cons.IH) (use Cons.prems(1,2) in simp_all)
  have first: "(\<exists>F \<in> set ?Gs. calls_fn f F) \<longleftrightarrow> (\<exists>F \<in> set Fs. (fn_name F \<in> set (f # fs) \<longrightarrow> f < fn_name F) \<and> calls_fn f F)"
    using above by auto
  have rest: "(\<exists>F \<in> set ?Gs. (fn_name F \<in> set fs \<longrightarrow> g < fn_name F) \<and> calls_fn g F) \<longleftrightarrow>
      (\<exists>F \<in> set Fs. (fn_name F \<in> set (f # fs) \<longrightarrow> g < fn_name F) \<and> calls_fn g F)" if "g \<in> set fs" for g
  proof -
    have "\<not> g < f" "f < g" using above that by (auto simp: not_less)
    then show ?thesis by auto
  qed
  have step: "erase_fns (f # fs) Fs = (if \<exists>F \<in> set ?Gs. calls_fn f F then Inl Use_After_Free else erase_fns fs ?Gs)"
    using Cons.prems(3) by (simp add: Let_def list_ex_iff)
  have kept: "filter (\<lambda>F. fn_name F \<notin> set fs) ?Gs = filter (\<lambda>F. fn_name F \<notin> set (f # fs)) Fs"
    by (simp add: conj_commute)
  have "(\<exists>g \<in> set (f # fs). \<exists>F \<in> set Fs. (fn_name F \<in> set (f # fs) \<longrightarrow> g < fn_name F) \<and> calls_fn g F) \<longleftrightarrow>
      (\<exists>F \<in> set ?Gs. calls_fn f F) \<or> (\<exists>g \<in> set fs. \<exists>F \<in> set ?Gs. (fn_name F \<in> set fs \<longrightarrow> g < fn_name F) \<and> calls_fn g F)"
    unfolding first using rest by (simp cong: bex_cong)
  then show ?case unfolding step IH kept by (simp only: if_bool_eq_disj) argo
qed simp

text \<open>
  A function is deleted while the original of another one, which comes behind it in the
  order of names, still calls it.
\<close>

definition callee_deleted_first :: "typed_fn list \<Rightarrow> bool" where
  "callee_deleted_first Fs \<longleftrightarrow> (\<exists>F \<in> set (targets Fs). \<exists>G \<in> set (targets Fs). fn_name G < fn_name F \<and> calls_fn (fn_name G) F)"

lemma redirected_calls:
  assumes "\<forall>F \<in> set Ts. \<forall>g. fn_name F \<noteq> instrumented_name g" and "F \<in> set Ts"
  shows "map_option fst (call_of (redirected Ts x)) \<noteq> Some (fn_name F)"
proof (cases "call_of x")
  case (Some c)
  obtain f xs where c: "c = (f, xs)" by (cases c)
  show ?thesis
  proof (cases "find (\<lambda>F. fn_name F = f) Ts")
    case None
    then have "f \<noteq> fn_name F" using assms(2) by (auto simp: find_None_iff)
    moreover have "redirected Ts x = x" using None Some c by (simp add: redirected_def)
    ultimately show ?thesis using Some c by simp
  next
    case G: (Some G)
    have "call_of (with_callee h ys x) = Some (h, ys)" for h ys
      using Some by (cases x) (auto simp: with_callee_def)
    moreover have "instrumented_name f \<noteq> fn_name F" using assms by metis
    ultimately show ?thesis using Some c G by (simp add: redirected_def)
  qed
qed (simp add: redirected_def)

lemma redirected_fn_calls:
  assumes "\<forall>F \<in> set Ts. \<forall>g. fn_name F \<noteq> instrumented_name g" and "F \<in> set Ts" and "fn_name G \<notin> fn_name ` set Ts"
  shows "\<not> calls_fn (fn_name F) (redirected_fn Ts G)"
  using assms(3) redirected_calls [OF assms(1,2)] by (auto simp: calls_fn_def redirected_fn_def list_ex_iff)

lemma redirected_fn_name [simp]: "fn_name (redirected_fn Ts F) = fn_name F"
  by (simp add: redirected_fn_def)

definition extension :: "llvm_services \<Rightarrow> typed_fn list \<Rightarrow> typed_fn list" where
  "extension L Fs = map (redirected_fn (targets Fs)) (filter (\<lambda>F. \<not> target F) Fs @ map (copy_of L) (targets Fs))"

lemma extend_module_result:
  assumes "services_ok L" and "extendable Fs"
  shows "extend_module L Fs = (if callee_deleted_first Fs then Inl Use_After_Free
    else Inr (\<exists>F \<in> set Fs. calls_some (targets Fs) F, extension L Fs))"
proof -
  let ?Ms = "Fs @ map (copy_of L) (targets Fs)" and ?Ts = "targets Fs"
  let ?Gs = "map (redirected_fn ?Ts) ?Ms" and ?fs = "sort (map fn_name ?Ts)"
  have own: "\<forall>F \<in> set ?Ts. \<forall>g. fn_name F \<noteq> instrumented_name g" using assms(2) by (simp add: extendable_def)
  have names: "set ?fs = fn_name ` set ?Ts" by simp
  have "distinct (map fn_name ?Ts)" using assms(2) by (simp add: extendable_def distinct_map_filter)
  then have sorted: "sorted ?fs" "distinct ?fs" by simp_all
  have "fn_name ` set ?Gs = fn_name ` set ?Ms" by (simp only: set_map image_image redirected_fn_name)
  then have "set ?fs \<subseteq> fn_name ` set ?Gs" by auto
  note erased = erase_result [OF sorted this]
  have shape: "(\<exists>f \<in> set ?fs. \<exists>F \<in> set ?Gs. (fn_name F \<in> set ?fs \<longrightarrow> f < fn_name F) \<and> calls_fn f F) \<longleftrightarrow>
      (\<exists>G \<in> set ?Ts. \<exists>F \<in> set ?Ms. (fn_name F \<in> fn_name ` set ?Ts \<longrightarrow> fn_name G < fn_name F) \<and> calls_fn (fn_name G) (redirected_fn ?Ts F))"
    by (simp only: names set_map bex_simps redirected_fn_name)
  have "(\<exists>G \<in> set ?Ts. \<exists>F \<in> set ?Ms. (fn_name F \<in> fn_name ` set ?Ts \<longrightarrow> fn_name G < fn_name F) \<and> calls_fn (fn_name G) (redirected_fn ?Ts F))
      \<longleftrightarrow> callee_deleted_first Fs" (is "?l \<longleftrightarrow> ?r")
  proof
    assume ?l
    then obtain G F where G: "G \<in> set ?Ts" and F: "F \<in> set ?Ms" "fn_name F \<in> fn_name ` set ?Ts \<longrightarrow> fn_name G < fn_name F"
      "calls_fn (fn_name G) (redirected_fn ?Ts F)" by blast
    have known: "fn_name F \<in> fn_name ` set ?Ts" using redirected_fn_calls [OF own G] F(3) by blast
    then have "F \<in> set Fs" using F(1) copy_name [OF assms(2)] by auto
    then have "F \<in> set ?Ts" using known target_name [OF assms(2)] by simp
    moreover have "redirected_fn ?Ts F = F" using known by (simp add: redirected_fn_def)
    ultimately show ?r using G F(2,3) known unfolding callee_deleted_first_def by metis
  next
    assume ?r
    then obtain F G where F: "F \<in> set ?Ts" "G \<in> set ?Ts" "fn_name G < fn_name F" "calls_fn (fn_name G) F"
      unfolding callee_deleted_first_def by blast
    then have "redirected_fn ?Ts F = F" by (simp add: redirected_fn_def)
    moreover have "F \<in> set ?Ms" using F(1) by simp
    ultimately show ?l using F(2-4) by metis
  qed
  note erased = erased [unfolded shape this]
  have "filter (\<lambda>F. fn_name F \<notin> set ?fs) ?Gs = map (redirected_fn ?Ts) (filter (\<lambda>F. fn_name F \<notin> fn_name ` set ?Ts) ?Ms)"
    by (simp add: filter_map comp_def)
  also have "filter (\<lambda>F. fn_name F \<notin> fn_name ` set ?Ts) ?Ms = filter (\<lambda>F. \<not> target F) Fs @ map (copy_of L) ?Ts"
  proof -
    have "filter (\<lambda>F. fn_name F \<notin> fn_name ` set ?Ts) Fs = filter (\<lambda>F. \<not> target F) Fs"
      by (rule filter_cong [OF refl]) (use target_name [OF assms(2)] in blast)
    moreover have "filter (\<lambda>F. fn_name F \<notin> fn_name ` set ?Ts) (map (copy_of L) ?Ts) = map (copy_of L) ?Ts"
      by (rule filter_True) (use copy_name [OF assms(2)] in auto)
    ultimately show ?thesis by simp
  qed
  finally have kept: "filter (\<lambda>F. fn_name F \<notin> set ?fs) ?Gs = extension L Fs" by (simp only: extension_def)
  obtain s where s: "extend_loop L (0, \<lparr>module_fns = Fs, blacklist = extend_blacklist, extended = []\<rparr>) = Some s"
    "module_fns s = ?Ms" "extended s = map (\<lambda>F. (fn_name F, instrumentable F)) ?Ts"
    using extend_loop_result [OF assms] by blast
  have fst: "map fst (map (\<lambda>F. (fn_name F, instrumentable F)) ?Ts) = map fn_name ?Ts" by simp
  show ?thesis
    unfolding extend_module_def s(1) option.case s(2,3) calls_result [OF assms] cbind_Inr prod.case fst erased [unfolded kept]
    by (cases "callee_deleted_first Fs") simp_all
qed

end
