(* ===== verification/Helper_Props.thy ===== *)
theory Helper_Props
  imports Helper_Depth Helper_Extend
begin

text \<open>The properties of the passes that run before the analysis.\<close>

section \<open>Calls of an extended module\<close>

lemma calls_some_fn: "calls_some Ts F \<longleftrightarrow> (\<exists>G \<in> set Ts. calls_fn (fn_name G) F)"
  by (auto simp: calls_some_def calls_one_def calls_fn_def list_ex_iff)

lemma callee_known:
  assumes "services_ok L" and "extendable Fs" and "H \<in> set (filter (\<lambda>F. \<not> target F) Fs @ map (copy_of L) (targets Fs))"
    and "b \<in> set (blocks H)" and "x \<in> set b" and "call_of x = Some (f, xs)"
  shows "f \<noteq> instrumented_name g" and "\<forall>G \<in> set (targets Fs). fn_name G = f \<longrightarrow> length xs = length (fn_args G)"
proof -
  have shape: "call_shape x = Some (f, length xs)" using assms(6) by (simp add: call_shape_def)
  obtain F c y where F: "F \<in> set Fs" "c \<in> set (blocks F)" "y \<in> set c" "call_shape y = Some (f, length xs)"
  proof (cases "H \<in> set Fs")
    case False
    then obtain F where "F \<in> set Fs" "H = copy_of L F" using assms(3) by auto
    with same_shapes [OF copy_shapes [OF assms(1)], of b F x] assms(4,5) shape show ?thesis by (auto intro: that)
  qed (use that assms(4,5) shape in blast)
  then obtain G where "G \<in> set Fs" "fn_name G = f" using assms(2) unfolding extendable_def by blast
  then show "f \<noteq> instrumented_name g" using assms(2) unfolding extendable_def by blast
  show "\<forall>G \<in> set (targets Fs). fn_name G = f \<longrightarrow> length xs = length (fn_args G)"
    using program_fits [OF assms(2) F(1-3)] F(4) unfolding fits_def by blast
qed

section \<open>Marks of input\<close>

text \<open>What comes in front of a call, and the calls that have too few arguments for it.\<close>

definition reads_line :: "string \<Rightarrow> bool" where
  "reads_line f \<longleftrightarrow> contains f ''gets'' \<and> \<not> contains f ''fgets''"

definition marks :: "string \<Rightarrow> operand list \<Rightarrow> ir list" where
  "marks f xs = (if contains f ''scanf'' then [Call ''wrapper_scanf'' (take 2 xs)] else []) @
     (if reads_line f then [Call ''wrapper_gets'' (take 1 xs)] else [])"

definition short_call :: "ir \<Rightarrow> bool" where
  "short_call x \<longleftrightarrow> (\<exists>f xs. call_of x = Some (f, xs) \<and>
     (contains f ''scanf'' \<and> length xs < 2 \<or> reads_line f \<and> xs = []))"

definition marked :: "ir \<Rightarrow> ir list" where
  "marked x = (case call_of x of None \<Rightarrow> [x] | Some (f, xs) \<Rightarrow> marks f xs @ [x])"

lemma wrap_instr_result: "wrap_instr x = (if short_call x then Inl Out_Of_Bounds else Inr (marked x))"
proof (cases "call_of x")
  case (Some c)
  obtain f xs where c: "c = (f, xs)" by (cases c)
  consider "xs = []" | y where "xs = [y]" | y z ys where "xs = y # z # ys" by (metis list.exhaust)
  then show ?thesis
    using Some c
    by cases (auto simp: wrap_instr_def wrap_scanf_def wrap_gets_def short_call_def marked_def marks_def reads_line_def c_read_def)
qed (simp add: wrap_instr_def short_call_def marked_def)

lemma wrap_block_result: "rewrite_block wrap_instr b =
    (if \<exists>x \<in> set b. short_call x then Inl Out_Of_Bounds else Inr (concat (map marked b)))"
  using c_map_stuck [of b wrap_instr short_call Out_Of_Bounds marked] by (simp add: rewrite_block_def wrap_instr_result)

definition wrapped :: "fn \<Rightarrow> bool" where
  "wrapped F \<longleftrightarrow> fn_name F \<notin> set wrap_blacklist"

definition marked_fn :: "fn \<Rightarrow> fn" where
  "marked_fn F = (if wrapped F then F\<lparr>blocks := map (\<lambda>b. concat (map marked b)) (blocks F)\<rparr> else F)"

definition short_fn :: "fn \<Rightarrow> bool" where
  "short_fn F \<longleftrightarrow> wrapped F \<and> (\<exists>b \<in> set (blocks F). \<exists>x \<in> set b. short_call x)"

lemma wrap_fn_result: "(if blocks F = [] \<or> fn_name F \<in> set wrap_blacklist then Inr F else rewrite_fn (\<lambda>_. wrap_instr) F) =
    (if short_fn F then Inl Out_Of_Bounds else Inr (marked_fn F))"
  using c_map_stuck [of "blocks F" "rewrite_block wrap_instr" "\<lambda>b. \<exists>x \<in> set b. short_call x" Out_Of_Bounds "\<lambda>b. concat (map marked b)"]
  by (cases F) (auto simp: rewrite_fn_def wrap_block_result short_fn_def marked_fn_def wrapped_def)

lemma wrap_inputs_result: "wrap_inputs M =
    (if \<exists>F \<in> set (fns M). short_fn F then Inl Out_Of_Bounds else Inr (True, M\<lparr>fns := map marked_fn (fns M)\<rparr>))"
  using c_map_stuck [of "fns M" _ short_fn Out_Of_Bounds marked_fn] by (simp add: wrap_inputs_def wrap_fn_result)

lemma marked_instr: "marked x = pre @ Prog i # post \<Longrightarrow> x = Prog i \<and> post = []"
  by (cases "call_of x") (auto simp: marked_def marks_def append_eq_Cons_conv Cons_eq_append_conv append_eq_append_conv2 split: if_splits)

lemma progs_marked: "progs (concat (map marked b)) = progs b"
proof (induction b)
  case (Cons x b)
  have "progs (marked x) = progs [x]" by (auto simp: marked_def marks_def split: option.splits)
  then show ?case using Cons by (cases x) simp_all
qed simp

lemma marks_in_front:
  assumes "concat (map marked b) = pre @ Prog i # post" and "call_of (Prog i) = Some (f, xs)"
  shows "\<exists>pre'. pre = pre' @ marks f xs"
  using assms(1)
proof (induction b arbitrary: pre)
  case (Cons x b)
  from Cons.prems have "marked x @ concat (map marked b) = pre @ Prog i # post" by simp
  then consider us where "marked x = pre @ us" "us @ concat (map marked b) = Prog i # post"
    | us where "pre = marked x @ us" "concat (map marked b) = us @ Prog i # post"
    by (auto simp: append_eq_append_conv2)
  then show ?case
  proof cases
    case 1
    show ?thesis
    proof (cases us)
      case Nil
      then have "\<exists>pre'. [] = pre' @ marks f xs" using 1 Cons.IH [of "[]"] by simp
      then have "marks f xs = []" by simp
      then show ?thesis by simp
    next
      case (Cons u us')
      then have "marked x = pre @ Prog i # us'" using 1 by simp
      from marked_instr [OF this] have "marked (Prog i) = pre @ [Prog i]" using \<open>marked x = pre @ Prog i # us'\<close> by simp
      then show ?thesis using assms(2) by (simp add: marked_def)
    qed
  next
    case 2
    then obtain pre' where "us = pre' @ marks f xs" using Cons.IH by blast
    then show ?thesis using 2(1) by (intro exI [of _ "marked x @ pre'"]) simp
  qed
qed simp

section \<open>Properties\<close>

text \<open>
  C20. The counter the reports carry is the depth of the call. Along every run of a module
  that went through the recursion tracker and the instrumentation pass, through calls,
  recursion and indirect calls, each instruction of the program finds in it what the caller
  of the outermost function had and one more for each frame, up to 16 bits. A return finds
  the value of its caller, and a call that has returned leaves the counter as it was.
\<close>

theorem counter_is_depth:
  assumes "trackable M" and "own_module M" and "runOnModule (snd (track_module M)) = Inr M'"
    and "F \<in> set (fns M')" and "path (blocks F) ks" and "runs (fns M') d (path_code (blocks F) ks) m es m'"
  shows "rec_counter m' = rec_counter m \<and> (\<forall>(k, i, c) \<in> set es. d \<le> k \<and>
    c = rec_counter m + of_nat (k - d) + (if opcode i = Op_Ret then 0 else 1))"
  using framed_runs [OF both_framed [OF assms(1-3)] assms(4-6)] by (auto simp: counts_def)

text \<open>
  C30. The functions that have been copied are deleted in the order of their names while the
  originals of the others are still there: the pass frees a function that is still called
  exactly if one of them calls another with a smaller name. Otherwise it ends.
\<close>

theorem deletion_order_matters:
  assumes "services_ok L" and "extendable Fs"
  shows "(extend_module L Fs = Inl Use_After_Free \<longleftrightarrow> (\<exists>F \<in> set Fs. \<exists>G \<in> set Fs. target F \<and> target G \<and>
      fn_name G < fn_name F \<and> calls_fn (fn_name G) F)) \<and>
    (extend_module L Fs \<noteq> Inl Use_After_Free \<longrightarrow> (\<exists>r. extend_module L Fs = Inr r))"
  using extend_module_result [OF assms] by (auto simp: callee_deleted_first_def)

text \<open>
  C21. The targets of the pass are the functions with a body that take a pointer, other than
  main, wrapper_scanf and wrapper_gets. Where the pass ends, on a module whose names are
  distinct and whose calls stay in it and fit what they call, the targets have made way for
  their copies, named and extended by an argument for each pointer, and the other functions
  are kept. Instruction by instruction, every call of a target is now a call of its copy,
  with the same arguments and behind them a zero for each pointer, and everything else in
  the kept functions and in the copies is as it was; no target is called any more. The pass
  reports a change exactly if some function called a target.
\<close>

theorem extended_functions_called:
  assumes "services_ok L" and "extendable Fs" and "extend_module L Fs = Inr (changed, Hs)"
  shows "list_all2 (\<lambda>G H. fn_name H = fn_name G \<and> fn_args H = fn_args G \<and>
        list_all2 (list_all2 (turned (targets Fs))) (blocks G) (blocks H))
      (filter (\<lambda>F. \<not> target F) Fs @ map (copy_of L) (targets Fs)) Hs \<and>
    (\<forall>F \<in> set (targets Fs). \<forall>H \<in> set Hs. \<not> calls_fn (fn_name F) H) \<and>
    (changed \<longleftrightarrow> (\<exists>F \<in> set Fs. \<exists>G \<in> set (targets Fs). calls_fn (fn_name G) F))"
proof -
  let ?Gs = "filter (\<lambda>F. \<not> target F) Fs @ map (copy_of L) (targets Fs)"
  have r: "Hs = extension L Fs" "changed \<longleftrightarrow> (\<exists>F \<in> set Fs. calls_some (targets Fs) F)"
    using assms(3) extend_module_result [OF assms(1,2)] by (auto split: if_splits)
  have own: "\<forall>F \<in> set (targets Fs). \<forall>g. fn_name F \<noteq> instrumented_name g" using assms(2) by (simp add: extendable_def)
  have inj: "inj_on fn_name (set (targets Fs))"
    using assms(2) by (auto simp: extendable_def distinct_map intro: inj_on_subset)
  have other: "fn_name H \<notin> fn_name ` set (targets Fs)" if "H \<in> set ?Gs" for H
    using that target_name [OF assms(2)] copy_name [OF assms(2)] by auto
  have "turned (targets Fs) x (redirected (targets Fs) x)" if "G \<in> set ?Gs" "b \<in> set (blocks G)" "x \<in> set b" for G b x
    unfolding turned_def
    using redirected_target [OF inj] callee_known(2) [OF assms(1,2) that] redirected_other by blast
  then have "list_all2 (list_all2 (turned (targets Fs))) (blocks G) (blocks (redirected_fn (targets Fs) G)) \<and>
      fn_args (redirected_fn (targets Fs) G) = fn_args G" if "G \<in> set ?Gs" for G
    using that other [OF that] by (simp add: redirected_fn_def list_all2_map2 list_all2_same)
  then have "list_all2 (\<lambda>G H. fn_name H = fn_name G \<and> fn_args H = fn_args G \<and>
        list_all2 (list_all2 (turned (targets Fs))) (blocks G) (blocks H)) ?Gs Hs"
    unfolding r(1) extension_def list_all2_map2 list_all2_same by simp
  moreover have "\<not> calls_fn (fn_name F) H" if F: "F \<in> set (targets Fs)" and H: "H \<in> set Hs" for F H
  proof -
    obtain G where "G \<in> set ?Gs" "H = redirected_fn (targets Fs) G" using H by (auto simp: r(1) extension_def)
    then show ?thesis using redirected_fn_calls [OF own F other] by blast
  qed
  ultimately show ?thesis using r(2) by (simp add: calls_some_fn)
qed

text \<open>
  C31. Marking the calls that read input gets stuck exactly if one of them, outside the
  wrappers, has too few arguments to hand on, as a call of scanf with a plain text has.
  Otherwise the instructions of the program stay where they are, and each call whose name
  contains scanf or gets comes right behind its marks.
\<close>

theorem inputs_marked:
  shows "(wrap_inputs M = Inl Out_Of_Bounds \<longleftrightarrow> (\<exists>F \<in> set (fns M). short_fn F)) \<and>
    (wrap_inputs M \<noteq> Inl Out_Of_Bounds \<longrightarrow> (\<exists>M'. wrap_inputs M = Inr (True, M') \<and>
      list_all2 (\<lambda>F F'. map progs (blocks F') = map progs (blocks F) \<and>
        (wrapped F \<longrightarrow> (\<forall>b \<in> set (blocks F'). \<forall>pre i post f xs. b = pre @ Prog i # post \<longrightarrow>
          call_of (Prog i) = Some (f, xs) \<longrightarrow> (\<exists>pre'. pre = pre' @ marks f xs)))) (fns M) (fns M')))"
proof -
  have "map progs (blocks (marked_fn F)) = map progs (blocks F) \<and>
      (wrapped F \<longrightarrow> (\<forall>b \<in> set (blocks (marked_fn F)). \<forall>pre i post f xs. b = pre @ Prog i # post \<longrightarrow>
          call_of (Prog i) = Some (f, xs) \<longrightarrow> (\<exists>pre'. pre = pre' @ marks f xs)))" for F
    using marks_in_front by (auto simp: marked_fn_def progs_marked)
  then show ?thesis by (simp add: wrap_inputs_result list_all2_map2 list_all2_same)
qed

section \<open>A program with a call\<close>

text \<open>Main calls a function with a pointer, which reads a line.\<close>

definition call_line :: instr where
  "call_line = \<lparr>result = 1, opcode = Op_Call (Some ''line'') [Val 0], attached = Map.empty\<rparr>"

definition call_gets :: instr where
  "call_gets = \<lparr>result = 2, opcode = Op_Call (Some ''gets'') [Arg ''buf''], attached = Map.empty\<rparr>"

definition return_instr :: instr where
  "return_instr = \<lparr>result = 3, opcode = Op_Ret, attached = Map.empty\<rparr>"

definition main_fn :: fn where
  "main_fn = \<lparr>fn_name = ''main'', fn_args = [], blocks = [[Prog call_line, Prog return_instr]], loops = []\<rparr>"

definition line_fn :: fn where
  "line_fn = \<lparr>fn_name = ''line'', fn_args = [''buf''], blocks = [[Prog call_gets, Prog return_instr]], loops = []\<rparr>"

definition line_module :: ir_module where
  "line_module = \<lparr>has_counter = False, globals = [], fns = [main_fn, line_fn]\<rparr>"

text \<open>The module after both passes.\<close>

definition main_code :: "ir list" where
  "main_code = (Call ''zinit'' [] # step_counter 1) @ [Prog call_line] @ (step_counter (-1) @ [Call ''zexit'' []]) @ [Prog return_instr]"

definition line_code :: "ir list" where
  "line_code = step_counter 1 @ [Prog call_gets] @ step_counter (-1) @ [Prog return_instr]"

definition both_module :: ir_module where
  "both_module = \<lparr>has_counter = True, globals = [], fns = [main_fn\<lparr>blocks := [main_code]\<rparr>, line_fn\<lparr>blocks := [line_code]\<rparr>]\<rparr>"

lemma tracked_line: "snd (track_module line_module) = \<lparr>has_counter = True, globals = [],
    fns = [main_fn\<lparr>blocks := [step_counter 1 @ [Prog call_line] @ step_counter (-1) @ [Prog return_instr]]\<rparr>,
      line_fn\<lparr>blocks := [line_code]\<rparr>]\<rparr>"
  using leave_kept [OF inserted_no_ret [OF step_inserted [of 1]]]
  by (simp add: track_module_def line_module_def trackRecursion_def main_fn_def line_fn_def line_code_def leave_instr_def
    call_line_def call_gets_def return_instr_def)

lemma both_line: "runOnModule (snd (track_module line_module)) = Inr both_module"
  unfolding tracked_line
  by (simp add: both_module_def main_code_def line_code_def runOnModule_def run_phases_def loop_phase_def zinit_phase_def global_code_def
    rewrite_all_def rewrite_fn_def use_phases_def rewrite_block_def step_code zexit_instr_def inject_after_def def_instr_def
    store_instr_def library_instr_def call_instr_def if_tagged_def ends_with_def main_fn_def line_fn_def call_line_def
    call_gets_def return_instr_def)

lemma run_injected: "inserted code \<Longrightarrow> runs Fs d xs (exec_code code m) es m' \<Longrightarrow> runs Fs d (code @ xs) m es m'"
proof (induction code arbitrary: m)
  case (Cons x code)
  then have "runs Fs d (code @ xs) (exec_ir x m) es m'" by (simp add: exec_code_def inserted_Cons)
  then show ?case using Cons.prems(1) by (auto simp: inserted_Cons intro: runs.runs_code)
qed (simp add: exec_code_def)

lemma path_one: "inserted c \<Longrightarrow> inserted e \<Longrightarrow> opcode i \<noteq> Op_Ret \<Longrightarrow> path [c @ [Prog i] @ e @ [Prog return_instr]] [0]"
  "path_code [b] [0] = b"
  using inserted_no_ret [of c] inserted_no_ret [of e]
  by (simp_all add: path_def returns_def path_code_def return_instr_def butlast_append)

lemma line_paths: "path [main_code] [0]" "path [line_code] [0]"
  unfolding main_code_def line_code_def
  by (rule path_one; simp add: step_code inserted_def call_line_def call_gets_def)+

lemma line_runs:
  "\<exists>es m'. runs (fns both_module) 0 (path_code [main_code] [0]) m es m' \<and> (1, call_gets, rec_counter m + 2) \<in> set es"
proof -
  let ?Fs = "fns both_module" and ?up = "step_counter 1" and ?down = "step_counter (-1)" and ?F = "line_fn\<lparr>blocks := [line_code]\<rparr>"
  let ?m1 = "exec_code (Call ''zinit'' [] # ?up) m"
  let ?m2 = "exec_code ?up ?m1"
  let ?m3 = "exec_code ?down ?m2"
  let ?m4 = "exec_code (?down @ [Call ''zexit'' []]) ?m3"
  have r: "stays ?Fs return_instr" "stays ?Fs call_gets" "enters ?Fs call_line ?F"
    by (simp_all add: stays_def enters_def return_instr_def call_gets_def call_line_def both_module_def main_fn_def line_fn_def)
  have ret: "runs ?Fs d [Prog return_instr] m [(d, return_instr, rec_counter m)] m" for d m
    by (rule runs.runs_instr [OF r(1) refl runs.runs_end])
  have "runs ?Fs (Suc 0) (Prog call_gets # ?down @ [Prog return_instr]) ?m2
      ((Suc 0, call_gets, rec_counter ?m2) # [(Suc 0, return_instr, rec_counter ?m3)]) ?m3"
    by (rule runs.runs_instr [OF r(2) refl]) (rule run_injected [OF step_inserted ret])
  then have call: "runs ?Fs (Suc 0) (path_code (blocks ?F) [0]) ?m1
      ((Suc 0, call_gets, rec_counter ?m2) # [(Suc 0, return_instr, rec_counter ?m3)]) ?m3"
    using run_injected [OF step_inserted [of 1]] by (simp add: path_one line_code_def)
  have p: "path (blocks ?F) [0]" using line_paths(2) by simp
  have i: "inserted (?down @ [Call ''zexit'' []])" "inserted (Call ''zinit'' [] # ?up)" by (simp_all add: step_code inserted_def)
  have t: "runs ?Fs 0 ((?down @ [Call ''zexit'' []]) @ [Prog return_instr]) ?m3 [(0, return_instr, rec_counter ?m4)] ?m4"
    by (rule run_injected [OF i(1) ret])
  have "runs ?Fs 0 ((Call ''zinit'' [] # ?up) @ Prog call_line # (?down @ [Call ''zexit'' []]) @ [Prog return_instr]) m
      ((0, call_line, rec_counter ?m1) # ((Suc 0, call_gets, rec_counter ?m2) # [(Suc 0, return_instr, rec_counter ?m3)]) @
        [(0, return_instr, rec_counter ?m4)]) ?m4"
    by (rule run_injected [OF i(2) runs.runs_call [OF r(3) p call t]])
  moreover have "rec_counter ?m2 = rec_counter m + 2"
  proof -
    have "rec_counter ?m1 = rec_counter (exec_code ?up (exec_ir (Call ''zinit'' []) m))" by (simp add: exec_code_def)
    then show ?thesis by (simp add: exec_step)
  qed
  ultimately show ?thesis unfolding path_one main_code_def
    by (intro exI conjI) (simp only: append_Cons append_Nil append_assoc, simp)
qed

theorem counter_is_depth_witness:
  "\<forall>m. \<exists>es m'. runs (fns both_module) 0 (path_code [main_code] [0]) m es m' \<and>
     rec_counter m' = rec_counter m \<and> (1, call_gets, rec_counter m + 2) \<in> set es"
proof
  fix m
  have t: "trackable line_module" "own_module line_module"
    by (auto simp: trackable_def counter_free_def own_module_def line_module_def main_fn_def line_fn_def call_line_def call_gets_def
      return_instr_def)
  obtain es m' where r: "runs (fns both_module) 0 (path_code [main_code] [0]) m es m'"
    "(1, call_gets, rec_counter m + 2) \<in> set es" using line_runs [of m] by blast
  have "rec_counter m' = rec_counter m \<and> (\<forall>(k, i, c) \<in> set es. 0 \<le> k \<and>
      c = rec_counter m + of_nat (k - 0) + (if opcode i = Op_Ret then 0 else 1))"
    by (rule counter_is_depth [OF t both_line, of "main_fn\<lparr>blocks := [main_code]\<rparr>" "[0]"])
       (use r(1) line_paths(1) in \<open>simp_all add: both_module_def\<close>)
  then show "\<exists>es m'. runs (fns both_module) 0 (path_code [main_code] [0]) m es m' \<and>
     rec_counter m' = rec_counter m \<and> (1, call_gets, rec_counter m + 2) \<in> set es" using r by blast
qed

text \<open>A service that copies a body as it is, and three functions with the kinds of their arguments.\<close>

definition plain_llvm :: llvm_services where
  "plain_llvm = \<lparr>unique_name = (\<lambda>names n. n), clone_body = blocks\<rparr>"

definition typed :: "string \<Rightarrow> (string \<times> bool) list \<Rightarrow> ir list list \<Rightarrow> typed_fn" where
  "typed f params bs = \<lparr>fn_name = f, fn_args = map fst params, blocks = bs, loops = [], pointers = map snd params\<rparr>"

definition line_fns :: "typed_fn list" where
  "line_fns = [typed ''main'' [] (blocks main_fn), typed ''line'' [(''buf'', True)] (blocks line_fn), typed ''gets'' [(''s'', True)] []]"

text \<open>Two functions with a pointer, of which the second calls the first.\<close>

definition pair_fns :: "typed_fn list" where
  "pair_fns = [typed ''get'' [(''p'', True)] [[Prog return_instr]],
     typed ''use'' [(''p'', True)] [[Prog (call_gets\<lparr>opcode := Op_Call (Some ''get'') [Arg ''p'']\<rparr>), Prog return_instr]]]"

lemma plain_ok: "services_ok plain_llvm"
  by (simp add: services_ok_def plain_llvm_def)

lemma short_name: "length s < 13 \<Longrightarrow> s \<noteq> instrumented_name f"
  by (auto simp: instrumented_name_def)

lemmas typed_simps = typed_def target_def instrumentable_def pointer_names_def extend_blacklist_def
  call_shape_def main_fn_def line_fn_def call_line_def call_gets_def return_instr_def

lemma line_extendable: "extendable line_fns"
  unfolding extendable_def line_fns_def using short_name by (simp add: typed_simps)

lemma pair_extendable: "extendable pair_fns"
  unfolding extendable_def pair_fns_def using short_name by (simp add: typed_simps)

lemma line_targets: "targets line_fns = [typed ''line'' [(''buf'', True)] (blocks line_fn)]"
  "filter (\<lambda>F. \<not> target F) line_fns = [typed ''main'' [] (blocks main_fn), typed ''gets'' [(''s'', True)] []]"
  by (simp_all add: line_fns_def typed_simps)

theorem deletion_order_matters_witness: "extend_module plain_llvm pair_fns = Inl Use_After_Free"
proof -
  have "calls_fn ''get'' (pair_fns ! 1)" "target (pair_fns ! 0)" "target (pair_fns ! 1)" "fn_name (pair_fns ! 0) < fn_name (pair_fns ! 1)"
    "fn_name (pair_fns ! 0) = ''get''" "pair_fns ! 0 \<in> set pair_fns" "pair_fns ! 1 \<in> set pair_fns"
    by (simp_all add: pair_fns_def calls_fn_def typed_simps less_char_def)
  then show ?thesis using deletion_order_matters [OF plain_ok pair_extendable] by metis
qed

theorem extended_functions_called_witness:
  "\<exists>Hs. extend_module plain_llvm line_fns = Inr (True, Hs) \<and> map fn_name Hs = [''main'', ''gets'', ''line_instrumented''] \<and>
     blocks (hd Hs) = [[Prog (call_line\<lparr>opcode := Op_Call (Some ''line_instrumented'') [Val 0, Imm 0]\<rparr>), Prog return_instr]]"
proof -
  have "\<not> callee_deleted_first line_fns" by (simp add: callee_deleted_first_def line_targets)
  then obtain changed Hs where r: "extend_module plain_llvm line_fns = Inr (changed, Hs)"
    using extend_module_result [OF plain_ok line_extendable] by auto
  note p = extended_functions_called [OF plain_ok line_extendable r]
  let ?F = "typed ''line'' [(''buf'', True)] (blocks line_fn)"
  obtain A B C where Hs: "Hs = [A, B, C]" "fn_name A = ''main''" "fn_name B = ''gets''" "fn_name C = ''line_instrumented''"
    and A: "list_all2 (list_all2 (turned [?F])) (blocks main_fn) (blocks A)"
    using p by (auto simp: line_targets list_all2_Cons1 typed_def instrumented_name_def copy_of_def)
  have "instrumentable ?F = 1" by (simp add: typed_simps)
  then have "turned [?F] (Prog call_line) y \<longleftrightarrow> y = Prog (call_line\<lparr>opcode := Op_Call (Some ''line_instrumented'') [Val 0, Imm 0]\<rparr>)"
    "turned [?F] (Prog return_instr) y \<longleftrightarrow> y = Prog return_instr" for y
    by (simp_all add: turned_def typed_def call_line_def return_instr_def with_callee_def instrumented_name_def line_fn_def)
  then have "blocks A = [[Prog (call_line\<lparr>opcode := Op_Call (Some ''line_instrumented'') [Val 0, Imm 0]\<rparr>), Prog return_instr]]"
    using A by (auto simp: main_fn_def list_all2_Cons1)
  moreover have "changed" using p by (simp add: line_targets line_fns_def calls_fn_def typed_simps)
  ultimately show ?thesis using r Hs by simp
qed

theorem inputs_marked_witness:
  "\<exists>M'. wrap_inputs line_module = Inr (True, M') \<and> list_all2 (\<lambda>F F'. map progs (blocks F') = map progs (blocks F)) (fns line_module) (fns M')"
proof -
  have "\<not> (\<exists>F \<in> set (fns line_module). short_fn F)"
    by (auto simp: short_fn_def short_call_def line_module_def main_fn_def line_fn_def call_line_def call_gets_def return_instr_def
      contains_def split: if_splits)
  then obtain M' where "wrap_inputs line_module = Inr (True, M')"
    "list_all2 (\<lambda>F F'. map progs (blocks F') = map progs (blocks F) \<and>
        (wrapped F \<longrightarrow> (\<forall>b \<in> set (blocks F'). \<forall>pre i post f xs. b = pre @ Prog i # post \<longrightarrow>
          call_of (Prog i) = Some (f, xs) \<longrightarrow> (\<exists>pre'. pre = pre' @ marks f xs)))) (fns line_module) (fns M')"
    using inputs_marked [of line_module] by blast
  then show ?thesis by (intro exI [of _ M']) (auto elim: list_all2_mono)
qed

end
