(* ===== verification/VFG_Graph.thy ===== *)
theory VFG_Graph
  imports EW_Prelude
begin

text \<open>
  The value-flow graph and its sparse variant (SVF/include/Graphs/VFG.h and SVFG.h), as far
  as the headers define them: the maps from statements, variables, parameters and functions
  to nodes, and the operations that add a node of each kind. What the headers only call (the
  graph template, the control-flow graph, the functions of VFG.cpp) is a parameter.
\<close>

section \<open>Statements, nodes and edges\<close>

text \<open>
  Variables, call nodes and nodes of the control-flow graph are named by numbers, functions
  by their names. A statement has a number, for its address, its operands and its result.
\<close>

datatype pag_stmt =
    AddrStmt nat nat nat
  | CopyStmt nat nat nat
  | GepStmt nat nat nat
  | LoadStmt nat nat nat
  | StoreStmt nat nat nat
  | MultiOpndStmt nat "nat list" nat
  | CmpStmt nat "nat list" nat
  | BinaryOPStmt nat "nat list" nat
  | UnaryOPStmt nat nat nat
  | BranchStmt nat nat

text \<open>The variable on the right, of the statements that have one.\<close>

fun getSrcID :: "pag_stmt \<Rightarrow> nat" where
  "getSrcID (AddrStmt i s d) = s"
| "getSrcID (CopyStmt i s d) = s"
| "getSrcID (GepStmt i s d) = s"
| "getSrcID (LoadStmt i s d) = s"
| "getSrcID (StoreStmt i s d) = s"
| "getSrcID (UnaryOPStmt i s d) = s"

text \<open>The left-hand side of an assignment, the result of an operation, the instruction of a branch.\<close>

fun getLHSVar :: "pag_stmt \<Rightarrow> nat" where
  "getLHSVar (AddrStmt i s d) = d"
| "getLHSVar (CopyStmt i s d) = d"
| "getLHSVar (GepStmt i s d) = d"
| "getLHSVar (LoadStmt i s d) = d"
| "getLHSVar (StoreStmt i s d) = d"
| "getLHSVar (MultiOpndStmt i ss d) = d"
| "getLHSVar (CmpStmt i ss d) = d"
| "getLHSVar (BinaryOPStmt i ss d) = d"
| "getLHSVar (UnaryOPStmt i s d) = d"
| "getLHSVar (BranchStmt i b) = b"

fun getOpndVars :: "pag_stmt \<Rightarrow> nat list" where
  "getOpndVars (MultiOpndStmt i ss d) = ss"
| "getOpndVars (CmpStmt i ss d) = ss"
| "getOpndVars (BinaryOPStmt i ss d) = ss"

text \<open>
  The kinds of nodes, with what their constructors and setters are given: the calls and
  returns of a parameter, the operands of an operation, with the node they come from for a
  phi; the versions of memory regions are numbers.
\<close>

datatype vfg_kind =
    NullPtrVFGNode nat
  | AddrVFGNode pag_stmt
  | CopyVFGNode pag_stmt
  | GepVFGNode pag_stmt
  | LoadVFGNode pag_stmt
  | StoreVFGNode pag_stmt
  | ActualParmVFGNode nat nat
  | FormalParmVFGNode nat string "pag_stmt list"
  | FormalRetVFGNode nat string "pag_stmt list"
  | ActualRetVFGNode nat nat
  | IntraPHIVFGNode nat "(nat \<times> nat) list"
  | CmpVFGNode nat "nat list"
  | BinaryOPVFGNode nat "nat list"
  | UnaryOPVFGNode nat "nat list"
  | BranchVFGNode pag_stmt
  | DummyVersionPropSVFGNode u32 u32
  | FormalINSVFGNode nat string
  | FormalOUTSVFGNode nat string
  | ActualINSVFGNode nat nat
  | ActualOUTSVFGNode nat nat
  | IntraMSSAPHISVFGNode nat "(u32 \<times> nat) list"

record vfg_node =
  vfg_id :: u32
  vfg_kind :: vfg_kind
  vfg_icfg :: "nat option"

datatype VFGEdgeK = IntraDirectVF | IntraIndirectVF | CallDirVF | RetDirVF | CallIndVF | RetIndVF | TheadMHPIndirectVF

record vfg_edge =
  vfg_src :: vfg_node
  vfg_dst :: vfg_node
  vfg_edge_kind :: VFGEdgeK
  vfg_site :: "nat option"

section \<open>What the headers call\<close>

text \<open>
  The graph template with its nodes, their lists of edges and the lists of the control-flow
  graph, as one state \<open>'g\<close>. An operation that asserts something returns a result that may
  be stuck; the edges VFG.cpp and SVFG.cpp add may be null.
\<close>

record 'g graph_lib =
  addGNode :: "u32 \<Rightarrow> vfg_node \<Rightarrow> 'g \<Rightarrow> 'g"
  hasGNode :: "u32 \<Rightarrow> 'g \<Rightarrow> bool"
  getGNode :: "u32 \<Rightarrow> 'g \<Rightarrow> vfg_node c"
  removeGNode :: "vfg_node \<Rightarrow> 'g \<Rightarrow> 'g c"
  icfg_addVFGNode :: "nat \<Rightarrow> vfg_node \<Rightarrow> 'g \<Rightarrow> 'g"
  addIncomingEdge :: "vfg_node \<Rightarrow> vfg_edge \<Rightarrow> 'g \<Rightarrow> bool \<times> 'g"
  addOutgoingEdge :: "vfg_node \<Rightarrow> vfg_edge \<Rightarrow> 'g \<Rightarrow> bool \<times> 'g"
  removeIncomingEdge :: "vfg_node \<Rightarrow> vfg_edge \<Rightarrow> 'g \<Rightarrow> 'g c"
  removeOutgoingEdge :: "vfg_node \<Rightarrow> vfg_edge \<Rightarrow> 'g \<Rightarrow> 'g c"
  OutEdges :: "vfg_node \<Rightarrow> 'g \<Rightarrow> vfg_edge list"
  InEdges :: "vfg_node \<Rightarrow> 'g \<Rightarrow> vfg_edge list"
  addCallEdge :: "u32 \<Rightarrow> u32 \<Rightarrow> nat \<Rightarrow> 'g \<Rightarrow> (vfg_edge option \<times> 'g) c"
  addRetEdge :: "u32 \<Rightarrow> u32 \<Rightarrow> nat \<Rightarrow> 'g \<Rightarrow> (vfg_edge option \<times> 'g) c"
  addInterIndirectVFCallEdge :: "vfg_node \<Rightarrow> vfg_node \<Rightarrow> nat \<Rightarrow> 'g \<Rightarrow> (vfg_edge option \<times> 'g) c"
  addInterIndirectVFRetEdge :: "vfg_node \<Rightarrow> vfg_node \<Rightarrow> nat \<Rightarrow> 'g \<Rightarrow> (vfg_edge option \<times> 'g) c"
  hasInterVFGEdge :: "vfg_node \<Rightarrow> vfg_node \<Rightarrow> VFGEdgeK \<Rightarrow> nat \<Rightarrow> 'g \<Rightarrow> vfg_edge option"
  getFun :: "vfg_node \<Rightarrow> string option"

text \<open>
  The assignment graph and the control-flow graph: the identifier of a variable, whether it
  is a pointer, a phi, a null pointer or a black hole or constant object; the node of the
  control-flow graph of a statement, of the globals, of a call, of a return, of the entry and
  the exit of a function, and the function of such a node; the statements of each kind, all
  or those of pointers.
\<close>

record svfir =
  pag_id :: "nat \<Rightarrow> u32"
  isPointer :: "nat \<Rightarrow> bool"
  isPhiNode :: "nat \<Rightarrow> bool"
  isNullPtr :: "nat \<Rightarrow> bool"
  isBlkObjOrConstantObj :: "nat \<Rightarrow> bool"
  getICFGNode :: "pag_stmt \<Rightarrow> nat"
  getGlobalICFGNode :: nat
  getCallICFGNode :: "nat \<Rightarrow> nat"
  getRetICFGNode :: "nat \<Rightarrow> nat"
  getFunEntryICFGNode :: "string \<Rightarrow> nat"
  getFunExitICFGNode :: "string \<Rightarrow> nat"
  icfg_fun :: "nat \<Rightarrow> string option"
  getSVFStmtSet :: "nat \<Rightarrow> pag_stmt list"
  getPTASVFStmtSet :: "nat \<Rightarrow> pag_stmt list"

section \<open>The state\<close>

datatype VFGK = FULLSVFG | PTRONLYSVFG | FULLSVFG_OPT | PTRONLYSVFG_OPT

record 'g vfg =
  graph_state :: 'g
  PAGEdgeToStmtVFGNodeMap :: "pag_stmt \<rightharpoonup> vfg_node"
  totalVFGNode :: u32
  PAGNodeToDefMap :: "nat \<rightharpoonup> u32"
  PAGNodeToActualParmMap :: "u32 \<times> nat \<rightharpoonup> vfg_node"
  PAGNodeToActualRetMap :: "nat \<rightharpoonup> vfg_node"
  PAGNodeToFormalParmMap :: "nat \<rightharpoonup> vfg_node"
  PAGNodeToFormalRetMap :: "nat \<rightharpoonup> vfg_node"
  PAGNodeToIntraPHIVFGNodeMap :: "nat \<rightharpoonup> vfg_node"
  PAGNodeToBinaryOPVFGNodeMap :: "nat \<rightharpoonup> vfg_node"
  PAGNodeToUnaryOPVFGNodeMap :: "nat \<rightharpoonup> vfg_node"
  PAGNodeToBranchVFGNodeMap :: "nat \<rightharpoonup> vfg_node"
  PAGNodeToCmpVFGNodeMap :: "nat \<rightharpoonup> vfg_node"
  funToVFGNodesMap :: "string \<rightharpoonup> vfg_node set"
  globalVFGNodes :: "vfg_node set"
  vfg_type :: VFGK

text \<open>
  The sparse graph extends it by the versions of memory regions, and by a pointer to what
  computed them.
\<close>

record 'g svfg = "'g vfg" +
  MSSAVarToDefMap :: "nat \<rightharpoonup> u32"
  callSiteToActualINMap :: "nat \<rightharpoonup> u32 set"
  callSiteToActualOUTMap :: "nat \<rightharpoonup> u32 set"
  funToFormalINMap :: "string \<rightharpoonup> u32 set"
  funToFormalOUTMap :: "string \<rightharpoonup> u32 set"
  mssa :: "nat option"

text \<open>\<open>map[k]\<close> of a map to sets: what is there, or the empty set, which is put there.\<close>

definition at_key :: "('k \<rightharpoonup> 'v set) \<Rightarrow> 'k \<Rightarrow> 'v set" where
  "at_key m k = (case m k of None \<Rightarrow> {} | Some s \<Rightarrow> s)"

definition c_assert :: "bool \<Rightarrow> unit c" where
  "c_assert b = (if b then Inr () else Inl Assertion_Failure)"

section \<open>Lookups\<close>

definition isPtrOnlySVFG :: "('g, 'b) vfg_scheme \<Rightarrow> bool" where
  "isPtrOnlySVFG v \<longleftrightarrow> vfg_type v = PTRONLYSVFG \<or> vfg_type v = PTRONLYSVFG_OPT"

definition getVFGNode :: "'g graph_lib \<Rightarrow> ('g, 'b) vfg_scheme \<Rightarrow> u32 \<Rightarrow> vfg_node c" where
  "getVFGNode L v i = getGNode L i (graph_state v)"

definition hasVFGNode :: "'g graph_lib \<Rightarrow> ('g, 'b) vfg_scheme \<Rightarrow> u32 \<Rightarrow> bool" where
  "hasVFGNode L v i = hasGNode L i (graph_state v)"

definition hasDef :: "('g, 'b) vfg_scheme \<Rightarrow> nat \<Rightarrow> bool" where
  "hasDef v x \<longleftrightarrow> PAGNodeToDefMap v x \<noteq> None"

definition getDef :: "('g, 'b) vfg_scheme \<Rightarrow> nat \<Rightarrow> u32 c" where
  "getDef v x = c_find (PAGNodeToDefMap v) x"

definition getDefVFGNode :: "'g graph_lib \<Rightarrow> ('g, 'b) vfg_scheme \<Rightarrow> nat \<Rightarrow> vfg_node c" where
  "getDefVFGNode L v x = cbind (getDef v x) (getVFGNode L v)"

definition getStmtVFGNode :: "('g, 'b) vfg_scheme \<Rightarrow> pag_stmt \<Rightarrow> vfg_node c" where
  "getStmtVFGNode v s = c_find (PAGEdgeToStmtVFGNodeMap v) s"

definition getIntraPHIVFGNode :: "('g, 'b) vfg_scheme \<Rightarrow> nat \<Rightarrow> vfg_node c" where
  "getIntraPHIVFGNode v x = c_find (PAGNodeToIntraPHIVFGNodeMap v) x"

definition getBinaryOPVFGNode :: "('g, 'b) vfg_scheme \<Rightarrow> nat \<Rightarrow> vfg_node c" where
  "getBinaryOPVFGNode v x = c_find (PAGNodeToBinaryOPVFGNodeMap v) x"

definition getUnaryOPVFGNode :: "('g, 'b) vfg_scheme \<Rightarrow> nat \<Rightarrow> vfg_node c" where
  "getUnaryOPVFGNode v x = c_find (PAGNodeToUnaryOPVFGNodeMap v) x"

definition getBranchVFGNode :: "('g, 'b) vfg_scheme \<Rightarrow> nat \<Rightarrow> vfg_node c" where
  "getBranchVFGNode v x = c_find (PAGNodeToBranchVFGNodeMap v) x"

definition getCmpVFGNode :: "('g, 'b) vfg_scheme \<Rightarrow> nat \<Rightarrow> vfg_node c" where
  "getCmpVFGNode v x = c_find (PAGNodeToCmpVFGNodeMap v) x"

definition getActualParmVFGNode :: "svfir \<Rightarrow> ('g, 'b) vfg_scheme \<Rightarrow> nat \<Rightarrow> nat \<Rightarrow> vfg_node c" where
  "getActualParmVFGNode P v aparm cs = c_find (PAGNodeToActualParmMap v) (pag_id P aparm, cs)"

definition getActualRetVFGNode :: "('g, 'b) vfg_scheme \<Rightarrow> nat \<Rightarrow> vfg_node c" where
  "getActualRetVFGNode v aret = c_find (PAGNodeToActualRetMap v) aret"

definition getFormalParmVFGNode :: "('g, 'b) vfg_scheme \<Rightarrow> nat \<Rightarrow> vfg_node c" where
  "getFormalParmVFGNode v fparm = c_find (PAGNodeToFormalParmMap v) fparm"

definition getFormalRetVFGNode :: "('g, 'b) vfg_scheme \<Rightarrow> nat \<Rightarrow> vfg_node c" where
  "getFormalRetVFGNode v fret = c_find (PAGNodeToFormalRetMap v) fret"

definition hasBlackHoleConstObjAddrAsDef :: "'g graph_lib \<Rightarrow> svfir \<Rightarrow> ('g, 'b) vfg_scheme \<Rightarrow> nat \<Rightarrow> bool c" where
  "hasBlackHoleConstObjAddrAsDef L P v x =
     (if hasDef v x
      then cbind (getDefVFGNode L v x) (\<lambda>defNode.
        Inr (case vfg_kind defNode of
            AddrVFGNode addr \<Rightarrow> isBlkObjOrConstantObj P (getSrcID addr)
          | CopyVFGNode copy \<Rightarrow> isNullPtr P (getSrcID copy)
          | _ \<Rightarrow> False))
      else Inr False)"

text \<open>The nodes of a function: asking for them puts an empty set where there is none.\<close>

definition getVFGNodes :: "('g, 'b) vfg_scheme \<Rightarrow> string \<Rightarrow> vfg_node set \<times> ('g, 'b) vfg_scheme" where
  "getVFGNodes v f =
     (let s = at_key (funToVFGNodesMap v) f in (s, v\<lparr>funToVFGNodesMap := (funToVFGNodesMap v)(f \<mapsto> s)\<rparr>))"

definition hasVFGNodes :: "('g, 'b) vfg_scheme \<Rightarrow> string \<Rightarrow> bool" where
  "hasVFGNodes v f \<longleftrightarrow> funToVFGNodesMap v f \<noteq> None"

definition getVFGNodeBegin :: "('g, 'b) vfg_scheme \<Rightarrow> string \<Rightarrow> vfg_node set c" where
  "getVFGNodeBegin v f = c_find (funToVFGNodesMap v) f"

definition getPAGEdgeSet :: "svfir \<Rightarrow> ('g, 'b) vfg_scheme \<Rightarrow> nat \<Rightarrow> pag_stmt list" where
  "getPAGEdgeSet P v k = (if isPtrOnlySVFG v then getPTASVFStmtSet P k else getSVFStmtSet P k)"

definition isInterestedPAGNode :: "svfir \<Rightarrow> ('g, 'b) vfg_scheme \<Rightarrow> nat \<Rightarrow> bool" where
  "isInterestedPAGNode P v x = (if isPtrOnlySVFG v then isPointer P x else True)"

definition isPhiCopyEdge :: "svfir \<Rightarrow> pag_stmt \<Rightarrow> bool" where
  "isPhiCopyEdge P copy = isPhiNode P (getLHSVar copy)"

section \<open>Nodes\<close>

definition setDef :: "'g graph_lib \<Rightarrow> nat \<Rightarrow> vfg_node \<Rightarrow> ('g, 'b) vfg_scheme \<Rightarrow> ('g, 'b) vfg_scheme c" where
  "setDef L x n v =
     (case PAGNodeToDefMap v x of
        None \<Rightarrow> cbind (c_assert (hasVFGNode L v (vfg_id n))) (\<lambda>_.
          Inr (v\<lparr>PAGNodeToDefMap := (PAGNodeToDefMap v)(x \<mapsto> vfg_id n)\<rparr>))
      | Some i \<Rightarrow> cbind (c_assert (i = vfg_id n)) (\<lambda>_. Inr v))"

text \<open>
  A node is numbered when it is made, put into the graph, and given its node of the
  control-flow graph; the result is the node that the maps then point to.
\<close>

definition new_node :: "vfg_kind \<Rightarrow> ('g, 'b) vfg_scheme \<Rightarrow> vfg_node \<times> ('g, 'b) vfg_scheme" where
  "new_node k v =
     (\<lparr>vfg_id = totalVFGNode v, vfg_kind = k, vfg_icfg = None\<rparr>, v\<lparr>totalVFGNode := totalVFGNode v + 1\<rparr>)"

definition addVFGNode :: "'g graph_lib \<Rightarrow> svfir \<Rightarrow> vfg_node \<Rightarrow> nat \<Rightarrow> ('g, 'b) vfg_scheme \<Rightarrow> vfg_node \<times> ('g, 'b) vfg_scheme" where
  "addVFGNode L P n i v =
     (let n' = n\<lparr>vfg_icfg := Some i\<rparr>;
          v' = v\<lparr>graph_state := icfg_addVFGNode L i n' (addGNode L (vfg_id n) n' (graph_state v))\<rparr> in
      (n', case icfg_fun P i of
         Some f \<Rightarrow> v'\<lparr>funToVFGNodesMap := (funToVFGNodesMap v')(f \<mapsto> insert n' (at_key (funToVFGNodesMap v') f))\<rparr>
       | None \<Rightarrow> v'\<lparr>globalVFGNodes := insert n' (globalVFGNodes v')\<rparr>))"

definition addStmtVFGNode ::
    "'g graph_lib \<Rightarrow> svfir \<Rightarrow> vfg_node \<Rightarrow> pag_stmt \<Rightarrow> ('g, 'b) vfg_scheme \<Rightarrow> (vfg_node \<times> ('g, 'b) vfg_scheme) c" where
  "addStmtVFGNode L P n s v =
     cbind (c_assert (PAGEdgeToStmtVFGNodeMap v s = None)) (\<lambda>_.
     let (n', v') = addVFGNode L P n (getICFGNode P s) v in
     Inr (n', v'\<lparr>PAGEdgeToStmtVFGNodeMap := (PAGEdgeToStmtVFGNodeMap v')(s \<mapsto> n')\<rparr>))"

text \<open>Nodes of statements; a store defines no variable.\<close>

definition addNullPtrVFGNode :: "'g graph_lib \<Rightarrow> svfir \<Rightarrow> nat \<Rightarrow> ('g, 'b) vfg_scheme \<Rightarrow> ('g, 'b) vfg_scheme c" where
  "addNullPtrVFGNode L P x v =
     (let (n, v1) = new_node (NullPtrVFGNode x) v; (n', v2) = addVFGNode L P n (getGlobalICFGNode P) v1 in
      setDef L x n' v2)"

definition addAddrVFGNode :: "'g graph_lib \<Rightarrow> svfir \<Rightarrow> pag_stmt \<Rightarrow> ('g, 'b) vfg_scheme \<Rightarrow> ('g, 'b) vfg_scheme c" where
  "addAddrVFGNode L P addr v =
     (let (n, v1) = new_node (AddrVFGNode addr) v in
      cbind (addStmtVFGNode L P n addr v1) (\<lambda>(n', v2). setDef L (getLHSVar addr) n' v2))"

definition addCopyVFGNode :: "'g graph_lib \<Rightarrow> svfir \<Rightarrow> pag_stmt \<Rightarrow> ('g, 'b) vfg_scheme \<Rightarrow> ('g, 'b) vfg_scheme c" where
  "addCopyVFGNode L P copy v =
     (let (n, v1) = new_node (CopyVFGNode copy) v in
      cbind (addStmtVFGNode L P n copy v1) (\<lambda>(n', v2). setDef L (getLHSVar copy) n' v2))"

definition addGepVFGNode :: "'g graph_lib \<Rightarrow> svfir \<Rightarrow> pag_stmt \<Rightarrow> ('g, 'b) vfg_scheme \<Rightarrow> ('g, 'b) vfg_scheme c" where
  "addGepVFGNode L P gep v =
     (let (n, v1) = new_node (GepVFGNode gep) v in
      cbind (addStmtVFGNode L P n gep v1) (\<lambda>(n', v2). setDef L (getLHSVar gep) n' v2))"

definition addLoadVFGNode :: "'g graph_lib \<Rightarrow> svfir \<Rightarrow> pag_stmt \<Rightarrow> ('g, 'b) vfg_scheme \<Rightarrow> ('g, 'b) vfg_scheme c" where
  "addLoadVFGNode L P load v =
     (let (n, v1) = new_node (LoadVFGNode load) v in
      cbind (addStmtVFGNode L P n load v1) (\<lambda>(n', v2). setDef L (getLHSVar load) n' v2))"

definition addStoreVFGNode :: "'g graph_lib \<Rightarrow> svfir \<Rightarrow> pag_stmt \<Rightarrow> ('g, 'b) vfg_scheme \<Rightarrow> ('g, 'b) vfg_scheme c" where
  "addStoreVFGNode L P store v =
     (let (n, v1) = new_node (StoreVFGNode store) v in
      cbind (addStmtVFGNode L P n store v1) (\<lambda>(n', v2). Inr v2))"

text \<open>Parameters and returns. The result of a function is defined by its phi, if it is one.\<close>

definition addActualParmVFGNode :: "'g graph_lib \<Rightarrow> svfir \<Rightarrow> nat \<Rightarrow> nat \<Rightarrow> ('g, 'b) vfg_scheme \<Rightarrow> ('g, 'b) vfg_scheme" where
  "addActualParmVFGNode L P aparm cs v =
     (let (n, v1) = new_node (ActualParmVFGNode aparm cs) v; (n', v2) = addVFGNode L P n (getCallICFGNode P cs) v1 in
      v2\<lparr>PAGNodeToActualParmMap := (PAGNodeToActualParmMap v2)((pag_id P aparm, cs) \<mapsto> n')\<rparr>)"

definition addFormalParmVFGNode ::
    "'g graph_lib \<Rightarrow> svfir \<Rightarrow> nat \<Rightarrow> string \<Rightarrow> pag_stmt list \<Rightarrow> ('g, 'b) vfg_scheme \<Rightarrow> ('g, 'b) vfg_scheme c" where
  "addFormalParmVFGNode L P fparm f callPEs v =
     (let (n, v1) = new_node (FormalParmVFGNode fparm f callPEs) v; (n', v2) = addVFGNode L P n (getFunEntryICFGNode P f) v1 in
      cbind (setDef L fparm n' v2) (\<lambda>v3.
      Inr (v3\<lparr>PAGNodeToFormalParmMap := (PAGNodeToFormalParmMap v3)(fparm \<mapsto> n')\<rparr>)))"

definition addFormalRetVFGNode ::
    "'g graph_lib \<Rightarrow> svfir \<Rightarrow> nat \<Rightarrow> string \<Rightarrow> pag_stmt list \<Rightarrow> ('g, 'b) vfg_scheme \<Rightarrow> ('g, 'b) vfg_scheme c" where
  "addFormalRetVFGNode L P uniqueFunRet f retPEs v =
     (let (n, v1) = new_node (FormalRetVFGNode uniqueFunRet f retPEs) v; (n', v2) = addVFGNode L P n (getFunExitICFGNode P f) v1;
          v3 = v2\<lparr>PAGNodeToFormalRetMap := (PAGNodeToFormalRetMap v2)(uniqueFunRet \<mapsto> n')\<rparr> in
      if isPhiNode P uniqueFunRet then Inr v3 else setDef L uniqueFunRet n' v3)"

definition addActualRetVFGNode :: "'g graph_lib \<Rightarrow> svfir \<Rightarrow> nat \<Rightarrow> nat \<Rightarrow> ('g, 'b) vfg_scheme \<Rightarrow> ('g, 'b) vfg_scheme c" where
  "addActualRetVFGNode L P r cs v =
     (let (n, v1) = new_node (ActualRetVFGNode r cs) v; (n', v2) = addVFGNode L P n (getRetICFGNode P cs) v1 in
      cbind (setDef L r n' v2) (\<lambda>v3. Inr (v3\<lparr>PAGNodeToActualRetMap := (PAGNodeToActualRetMap v3)(r \<mapsto> n')\<rparr>)))"

text \<open>Operations, with their operands.\<close>

definition addIntraPHIVFGNode :: "'g graph_lib \<Rightarrow> svfir \<Rightarrow> pag_stmt \<Rightarrow> ('g, 'b) vfg_scheme \<Rightarrow> ('g, 'b) vfg_scheme c" where
  "addIntraPHIVFGNode L P edge v =
     (let (n, v1) = new_node (IntraPHIVFGNode (getLHSVar edge) (map (\<lambda>x. (x, getICFGNode P edge)) (getOpndVars edge))) v;
          (n', v2) = addVFGNode L P n (getICFGNode P edge) v1 in
      cbind (setDef L (getLHSVar edge) n' v2) (\<lambda>v3.
      Inr (v3\<lparr>PAGNodeToIntraPHIVFGNodeMap := (PAGNodeToIntraPHIVFGNodeMap v3)(getLHSVar edge \<mapsto> n')\<rparr>)))"

definition addCmpVFGNode :: "'g graph_lib \<Rightarrow> svfir \<Rightarrow> pag_stmt \<Rightarrow> ('g, 'b) vfg_scheme \<Rightarrow> ('g, 'b) vfg_scheme c" where
  "addCmpVFGNode L P edge v =
     (let (n, v1) = new_node (CmpVFGNode (getLHSVar edge) (getOpndVars edge)) v;
          (n', v2) = addVFGNode L P n (getICFGNode P edge) v1 in
      cbind (setDef L (getLHSVar edge) n' v2) (\<lambda>v3.
      Inr (v3\<lparr>PAGNodeToCmpVFGNodeMap := (PAGNodeToCmpVFGNodeMap v3)(getLHSVar edge \<mapsto> n')\<rparr>)))"

definition addBinaryOPVFGNode :: "'g graph_lib \<Rightarrow> svfir \<Rightarrow> pag_stmt \<Rightarrow> ('g, 'b) vfg_scheme \<Rightarrow> ('g, 'b) vfg_scheme c" where
  "addBinaryOPVFGNode L P edge v =
     (let (n, v1) = new_node (BinaryOPVFGNode (getLHSVar edge) (getOpndVars edge)) v;
          (n', v2) = addVFGNode L P n (getICFGNode P edge) v1 in
      cbind (setDef L (getLHSVar edge) n' v2) (\<lambda>v3.
      Inr (v3\<lparr>PAGNodeToBinaryOPVFGNodeMap := (PAGNodeToBinaryOPVFGNodeMap v3)(getLHSVar edge \<mapsto> n')\<rparr>)))"

definition addUnaryOPVFGNode :: "'g graph_lib \<Rightarrow> svfir \<Rightarrow> pag_stmt \<Rightarrow> ('g, 'b) vfg_scheme \<Rightarrow> ('g, 'b) vfg_scheme c" where
  "addUnaryOPVFGNode L P edge v =
     (let (n, v1) = new_node (UnaryOPVFGNode (getLHSVar edge) [getSrcID edge]) v;
          (n', v2) = addVFGNode L P n (getICFGNode P edge) v1 in
      cbind (setDef L (getLHSVar edge) n' v2) (\<lambda>v3.
      Inr (v3\<lparr>PAGNodeToUnaryOPVFGNodeMap := (PAGNodeToUnaryOPVFGNodeMap v3)(getLHSVar edge \<mapsto> n')\<rparr>)))"

definition addBranchVFGNode :: "'g graph_lib \<Rightarrow> svfir \<Rightarrow> pag_stmt \<Rightarrow> ('g, 'b) vfg_scheme \<Rightarrow> ('g, 'b) vfg_scheme c" where
  "addBranchVFGNode L P edge v =
     (let (n, v1) = new_node (BranchVFGNode edge) v; (n', v2) = addVFGNode L P n (getICFGNode P edge) v1 in
      cbind (setDef L (getLHSVar edge) n' v2) (\<lambda>v3.
      Inr (v3\<lparr>PAGNodeToBranchVFGNodeMap := (PAGNodeToBranchVFGNodeMap v3)(getLHSVar edge \<mapsto> n')\<rparr>)))"

section \<open>Edges\<close>

definition addVFGEdge :: "'g graph_lib \<Rightarrow> vfg_edge \<Rightarrow> ('g, 'b) vfg_scheme \<Rightarrow> (bool \<times> ('g, 'b) vfg_scheme) c" where
  "addVFGEdge L e v =
     (let (added1, g1) = addIncomingEdge L (vfg_dst e) e (graph_state v);
          (added2, g2) = addOutgoingEdge L (vfg_src e) e g1 in
      cbind (c_assert (added1 \<and> added2)) (\<lambda>_. Inr (True, v\<lparr>graph_state := g2\<rparr>)))"

definition removeVFGEdge :: "'g graph_lib \<Rightarrow> vfg_edge \<Rightarrow> ('g, 'b) vfg_scheme \<Rightarrow> ('g, 'b) vfg_scheme c" where
  "removeVFGEdge L e v =
     cbind (removeIncomingEdge L (vfg_dst e) e (graph_state v)) (\<lambda>g1.
     cbind (removeOutgoingEdge L (vfg_src e) e g1) (\<lambda>g2. Inr (v\<lparr>graph_state := g2\<rparr>)))"

definition removeVFGNode :: "'g graph_lib \<Rightarrow> vfg_node \<Rightarrow> ('g, 'b) vfg_scheme \<Rightarrow> ('g, 'b) vfg_scheme c" where
  "removeVFGNode L n v = cbind (removeGNode L n (graph_state v)) (\<lambda>g'. Inr (v\<lparr>graph_state := g'\<rparr>))"

definition checkIntraEdgeParents :: "'g graph_lib \<Rightarrow> vfg_node \<Rightarrow> vfg_node \<Rightarrow> unit c" where
  "checkIntraEdgeParents L srcNode dstNode =
     (case (getFun L srcNode, getFun L dstNode) of
        (Some srcfun, Some dstfun) \<Rightarrow> c_assert (srcfun = dstfun)
      | _ \<Rightarrow> Inr ())"

text \<open>An edge that was added, or none, goes into the set of edges of the call.\<close>

definition put_edge :: "vfg_edge option \<Rightarrow> vfg_edge set \<Rightarrow> vfg_edge set" where
  "put_edge e edges = (case e of None \<Rightarrow> edges | Some e \<Rightarrow> insert e edges)"

definition addInterEdgeFromAPToFP ::
    "'g graph_lib \<Rightarrow> u32 \<Rightarrow> u32 \<Rightarrow> nat \<Rightarrow> ('g, 'b) vfg_scheme \<Rightarrow> (vfg_edge option \<times> ('g, 'b) vfg_scheme) c" where
  "addInterEdgeFromAPToFP L src dst csId v =
     cbind (addCallEdge L src dst csId (graph_state v)) (\<lambda>(e, g'). Inr (e, v\<lparr>graph_state := g'\<rparr>))"

definition addInterEdgeFromFRToAR ::
    "'g graph_lib \<Rightarrow> u32 \<Rightarrow> u32 \<Rightarrow> nat \<Rightarrow> ('g, 'b) vfg_scheme \<Rightarrow> (vfg_edge option \<times> ('g, 'b) vfg_scheme) c" where
  "addInterEdgeFromFRToAR L src dst csId v =
     cbind (addRetEdge L src dst csId (graph_state v)) (\<lambda>(e, g'). Inr (e, v\<lparr>graph_state := g'\<rparr>))"

definition connectAParamAndFParam ::
    "'g graph_lib \<Rightarrow> svfir \<Rightarrow> nat \<Rightarrow> nat \<Rightarrow> nat \<Rightarrow> nat \<Rightarrow> vfg_edge set \<times> ('g, 'b) vfg_scheme \<Rightarrow> (vfg_edge set \<times> ('g, 'b) vfg_scheme) c" where
  "connectAParamAndFParam L P csArg funArg cbn csId st = (case st of (edges, v) \<Rightarrow>
     cbind (getActualParmVFGNode P v csArg cbn) (\<lambda>actualParam.
     cbind (getFormalParmVFGNode v funArg) (\<lambda>formalParam.
     cbind (addInterEdgeFromAPToFP L (vfg_id actualParam) (vfg_id formalParam) csId v) (\<lambda>(e, v').
     Inr (put_edge e edges, v')))))"

definition connectFRetAndARet ::
    "'g graph_lib \<Rightarrow> nat \<Rightarrow> nat \<Rightarrow> nat \<Rightarrow> vfg_edge set \<times> ('g, 'b) vfg_scheme \<Rightarrow> (vfg_edge set \<times> ('g, 'b) vfg_scheme) c" where
  "connectFRetAndARet L funReturn csReturn csId st = (case st of (edges, v) \<Rightarrow>
     cbind (getFormalRetVFGNode v funReturn) (\<lambda>formalRet.
     cbind (getActualRetVFGNode v csReturn) (\<lambda>actualRet.
     cbind (addInterEdgeFromFRToAR L (vfg_id formalRet) (vfg_id actualRet) csId v) (\<lambda>(e, v').
     Inr (put_edge e edges, v')))))"

section \<open>The sparse graph\<close>

definition setMSSADef :: "'g graph_lib \<Rightarrow> nat \<Rightarrow> vfg_node \<Rightarrow> 'g svfg \<Rightarrow> 'g svfg c" where
  "setMSSADef L mvar n v =
     (case MSSAVarToDefMap v mvar of
        None \<Rightarrow> cbind (c_assert (hasVFGNode L v (vfg_id n))) (\<lambda>_.
          Inr (v\<lparr>MSSAVarToDefMap := (MSSAVarToDefMap v)(mvar \<mapsto> vfg_id n)\<rparr>))
      | Some i \<Rightarrow> cbind (c_assert (i = vfg_id n)) (\<lambda>_. Inr v))"

definition getMSSADef :: "'g svfg \<Rightarrow> nat \<Rightarrow> u32 c" where
  "getMSSADef v mvar = c_find (MSSAVarToDefMap v) mvar"

definition getMSSA :: "'g svfg \<Rightarrow> nat option" where
  "getMSSA v = mssa v"

definition clearMSSA :: "'g svfg \<Rightarrow> 'g svfg" where
  "clearMSSA v = v\<lparr>mssa := None\<rparr>"

definition has_key :: "('k \<rightharpoonup> 'v) \<Rightarrow> 'k \<Rightarrow> bool" where
  "has_key m k \<longleftrightarrow> m k \<noteq> None"

definition hasActualINSVFGNodes :: "'g svfg \<Rightarrow> nat \<Rightarrow> bool" where
  "hasActualINSVFGNodes v cs = has_key (callSiteToActualINMap v) cs"

definition hasActualOUTSVFGNodes :: "'g svfg \<Rightarrow> nat \<Rightarrow> bool" where
  "hasActualOUTSVFGNodes v cs = has_key (callSiteToActualOUTMap v) cs"

definition hasFormalINSVFGNodes :: "'g svfg \<Rightarrow> string \<Rightarrow> bool" where
  "hasFormalINSVFGNodes v f = has_key (funToFormalINMap v) f"

definition hasFormalOUTSVFGNodes :: "'g svfg \<Rightarrow> string \<Rightarrow> bool" where
  "hasFormalOUTSVFGNodes v f = has_key (funToFormalOUTMap v) f"

definition hasFuncEntryChi :: "'g svfg \<Rightarrow> string \<Rightarrow> bool" where
  "hasFuncEntryChi v f = has_key (funToFormalINMap v) f"

definition hasFuncRetMu :: "'g svfg \<Rightarrow> string \<Rightarrow> bool" where
  "hasFuncRetMu v f = has_key (funToFormalOUTMap v) f"

definition hasCallSiteChi :: "'g svfg \<Rightarrow> nat \<Rightarrow> bool" where
  "hasCallSiteChi v cs = has_key (callSiteToActualOUTMap v) cs"

definition hasCallSiteMu :: "'g svfg \<Rightarrow> nat \<Rightarrow> bool" where
  "hasCallSiteMu v cs = has_key (callSiteToActualINMap v) cs"

text \<open>As for the nodes of a function, asking puts an empty set where there is none.\<close>

definition getActualINSVFGNodes :: "'g svfg \<Rightarrow> nat \<Rightarrow> u32 set \<times> 'g svfg" where
  "getActualINSVFGNodes v cs =
     (let s = at_key (callSiteToActualINMap v) cs in (s, v\<lparr>callSiteToActualINMap := (callSiteToActualINMap v)(cs \<mapsto> s)\<rparr>))"

definition getActualOUTSVFGNodes :: "'g svfg \<Rightarrow> nat \<Rightarrow> u32 set \<times> 'g svfg" where
  "getActualOUTSVFGNodes v cs =
     (let s = at_key (callSiteToActualOUTMap v) cs in (s, v\<lparr>callSiteToActualOUTMap := (callSiteToActualOUTMap v)(cs \<mapsto> s)\<rparr>))"

definition getFormalINSVFGNodes :: "'g svfg \<Rightarrow> string \<Rightarrow> u32 set \<times> 'g svfg" where
  "getFormalINSVFGNodes v f =
     (let s = at_key (funToFormalINMap v) f in (s, v\<lparr>funToFormalINMap := (funToFormalINMap v)(f \<mapsto> s)\<rparr>))"

definition getFormalOUTSVFGNodes :: "'g svfg \<Rightarrow> string \<Rightarrow> u32 set \<times> 'g svfg" where
  "getFormalOUTSVFGNodes v f =
     (let s = at_key (funToFormalOUTMap v) f in (s, v\<lparr>funToFormalOUTMap := (funToFormalOUTMap v)(f \<mapsto> s)\<rparr>))"

text \<open>Nodes of memory regions, whose numbers the caller gives; a dummy has no node of the control flow.\<close>

definition addDummyVersionPropSVFGNode :: "'g graph_lib \<Rightarrow> u32 \<Rightarrow> u32 \<Rightarrow> 'g svfg \<Rightarrow> vfg_node \<times> 'g svfg" where
  "addDummyVersionPropSVFGNode L object version v =
     (let (n, v1) = new_node (DummyVersionPropSVFGNode object version) v in
      (n, v1\<lparr>graph_state := addGNode L (vfg_id n) n (graph_state v1)\<rparr>))"

definition addFormalINSVFGNode :: "'g graph_lib \<Rightarrow> svfir \<Rightarrow> string \<Rightarrow> nat \<Rightarrow> u32 \<Rightarrow> 'g svfg \<Rightarrow> 'g svfg c" where
  "addFormalINSVFGNode L P f resVer nodeId v =
     (let (n, v1) = addVFGNode L P \<lparr>vfg_id = nodeId, vfg_kind = FormalINSVFGNode resVer f, vfg_icfg = None\<rparr> (getFunEntryICFGNode P f) v in
      cbind (setMSSADef L resVer n v1) (\<lambda>v2.
      Inr (v2\<lparr>funToFormalINMap := (funToFormalINMap v2)(f \<mapsto> insert (vfg_id n) (at_key (funToFormalINMap v2) f))\<rparr>)))"

definition addFormalOUTSVFGNode :: "'g graph_lib \<Rightarrow> svfir \<Rightarrow> string \<Rightarrow> nat \<Rightarrow> u32 \<Rightarrow> 'g svfg \<Rightarrow> 'g svfg" where
  "addFormalOUTSVFGNode L P f ver nodeId v =
     (let (n, v1) = addVFGNode L P \<lparr>vfg_id = nodeId, vfg_kind = FormalOUTSVFGNode ver f, vfg_icfg = None\<rparr> (getFunExitICFGNode P f) v in
      v1\<lparr>funToFormalOUTMap := (funToFormalOUTMap v1)(f \<mapsto> insert (vfg_id n) (at_key (funToFormalOUTMap v1) f))\<rparr>)"

definition addActualINSVFGNode :: "'g graph_lib \<Rightarrow> svfir \<Rightarrow> nat \<Rightarrow> nat \<Rightarrow> u32 \<Rightarrow> 'g svfg \<Rightarrow> 'g svfg" where
  "addActualINSVFGNode L P cs ver nodeId v =
     (let (n, v1) = addVFGNode L P \<lparr>vfg_id = nodeId, vfg_kind = ActualINSVFGNode ver cs, vfg_icfg = None\<rparr> (getCallICFGNode P cs) v in
      v1\<lparr>callSiteToActualINMap := (callSiteToActualINMap v1)(cs \<mapsto> insert (vfg_id n) (at_key (callSiteToActualINMap v1) cs))\<rparr>)"

definition addActualOUTSVFGNode :: "'g graph_lib \<Rightarrow> svfir \<Rightarrow> nat \<Rightarrow> nat \<Rightarrow> u32 \<Rightarrow> 'g svfg \<Rightarrow> 'g svfg c" where
  "addActualOUTSVFGNode L P cs resVer nodeId v =
     (let (n, v1) = addVFGNode L P \<lparr>vfg_id = nodeId, vfg_kind = ActualOUTSVFGNode resVer cs, vfg_icfg = None\<rparr> (getRetICFGNode P cs) v in
      cbind (setMSSADef L resVer n v1) (\<lambda>v2.
      Inr (v2\<lparr>callSiteToActualOUTMap := (callSiteToActualOUTMap v2)(cs \<mapsto> insert (vfg_id n) (at_key (callSiteToActualOUTMap v2) cs))\<rparr>)))"

definition addIntraMSSAPHISVFGNode ::
    "'g graph_lib \<Rightarrow> svfir \<Rightarrow> nat \<Rightarrow> (u32 \<times> nat) list \<Rightarrow> nat \<Rightarrow> u32 \<Rightarrow> 'g svfg \<Rightarrow> 'g svfg c" where
  "addIntraMSSAPHISVFGNode L P BlockICFGNode opVers resVer nodeId v =
     (let (n, v1) = addVFGNode L P \<lparr>vfg_id = nodeId, vfg_kind = IntraMSSAPHISVFGNode resVer opVers, vfg_icfg = None\<rparr> BlockICFGNode v in
      setMSSADef L resVer n v1)"

text \<open>The edges of a call: of memory regions, and those to the callee that are there already.\<close>

definition connectAInAndFIn ::
    "'g graph_lib \<Rightarrow> vfg_node \<Rightarrow> vfg_node \<Rightarrow> nat \<Rightarrow> vfg_edge set \<times> 'g svfg \<Rightarrow> (vfg_edge set \<times> 'g svfg) c" where
  "connectAInAndFIn L actualIn formalIn csId st = (case st of (edges, v) \<Rightarrow>
     cbind (addInterIndirectVFCallEdge L actualIn formalIn csId (graph_state v)) (\<lambda>(e, g').
     Inr (put_edge e edges, v\<lparr>graph_state := g'\<rparr>)))"

definition connectFOutAndAOut ::
    "'g graph_lib \<Rightarrow> vfg_node \<Rightarrow> vfg_node \<Rightarrow> nat \<Rightarrow> vfg_edge set \<times> 'g svfg \<Rightarrow> (vfg_edge set \<times> 'g svfg) c" where
  "connectFOutAndAOut L formalOut actualOut csId st = (case st of (edges, v) \<Rightarrow>
     cbind (addInterIndirectVFRetEdge L formalOut actualOut csId (graph_state v)) (\<lambda>(e, g').
     Inr (put_edge e edges, v\<lparr>graph_state := g'\<rparr>)))"

definition getInterVFEdgeAtIndCSFromAPToFP ::
    "'g graph_lib \<Rightarrow> nat \<Rightarrow> nat \<Rightarrow> nat \<Rightarrow> 'g svfg \<Rightarrow> vfg_edge set \<Rightarrow> vfg_edge set c" where
  "getInterVFEdgeAtIndCSFromAPToFP L cs_arg fun_arg csId v edges =
     cbind (getDefVFGNode L v cs_arg) (\<lambda>actualParam.
     cbind (getDefVFGNode L v fun_arg) (\<lambda>formalParam.
     let edge = hasInterVFGEdge L actualParam formalParam CallDirVF csId (graph_state v) in
     cbind (c_assert (edge \<noteq> None)) (\<lambda>_. Inr (put_edge edge edges))))"

definition getInterVFEdgeAtIndCSFromFRToAR ::
    "'g graph_lib \<Rightarrow> nat \<Rightarrow> nat \<Rightarrow> nat \<Rightarrow> 'g svfg \<Rightarrow> vfg_edge set \<Rightarrow> vfg_edge set c" where
  "getInterVFEdgeAtIndCSFromFRToAR L fun_ret cs_ret csId v edges =
     cbind (getDefVFGNode L v fun_ret) (\<lambda>formalRet.
     cbind (getDefVFGNode L v cs_ret) (\<lambda>actualRet.
     let edge = hasInterVFGEdge L formalRet actualRet RetDirVF csId (graph_state v) in
     cbind (c_assert (edge \<noteq> None)) (\<lambda>_. Inr (put_edge edge edges))))"

definition getInterVFEdgeAtIndCSFromAInToFIn ::
    "'g graph_lib \<Rightarrow> vfg_node \<Rightarrow> string option \<Rightarrow> 'g svfg \<Rightarrow> vfg_edge set \<Rightarrow> vfg_edge set" where
  "getInterVFEdgeAtIndCSFromAInToFIn L actualIn callee v edges =
     edges \<union> set (filter (\<lambda>e. getFun L (vfg_dst e) = callee) (OutEdges L actualIn (graph_state v)))"

definition getInterVFEdgeAtIndCSFromFOutToAOut ::
    "'g graph_lib \<Rightarrow> vfg_node \<Rightarrow> string option \<Rightarrow> 'g svfg \<Rightarrow> vfg_edge set \<Rightarrow> vfg_edge set" where
  "getInterVFEdgeAtIndCSFromFOutToAOut L actualOut callee v edges =
     edges \<union> set (filter (\<lambda>e. getFun L (vfg_src e) = callee) (InEdges L actualOut (graph_state v)))"

end
