(* ===== verification/VFG_Laws.thy ===== *)
theory VFG_Laws
  imports VFG_Graph
begin

text \<open>
  The value-flow graph as it is built: what each operation vfg_adds, and the correspondence of
  the maps with the nodes, which every operation keeps that uses a new number.
\<close>

section \<open>The graph template\<close>

text \<open>
  What is documented of it: a node added under a new number is found under it and nothing
  else changes; the lists of the control-flow graph are not the nodes.
\<close>

definition lib_ok :: "'g graph_lib \<Rightarrow> bool" where
  "lib_ok L \<longleftrightarrow>
     (\<forall>i n g. \<not> hasGNode L i g \<longrightarrow> (\<forall>j. getGNode L j (addGNode L i n g) = (if j = i then Inr n else getGNode L j g))) \<and>
     (\<forall>i n g j. getGNode L j (icfg_addVFGNode L i n g) = getGNode L j g) \<and>
     (\<forall>i g. hasGNode L i g \<longleftrightarrow> \<not> isl (getGNode L i g))"

definition in_graph :: "'g graph_lib \<Rightarrow> ('g, 'b) vfg_scheme \<Rightarrow> vfg_node \<Rightarrow> bool" where
  "in_graph L v n \<longleftrightarrow> getGNode L (vfg_id n) (graph_state v) = Inr n"

lemma in_graph_id: "in_graph L v n \<Longrightarrow> in_graph L v m \<Longrightarrow> vfg_id n = vfg_id m \<Longrightarrow> n = m"
  by (auto simp: in_graph_def)

lemma in_graph_has: "lib_ok L \<Longrightarrow> in_graph L v n \<Longrightarrow> hasVFGNode L v (vfg_id n)"
  by (auto simp: in_graph_def lib_ok_def hasVFGNode_def)

section \<open>What a node defined_var\<close>

fun defined_var :: "svfir \<Rightarrow> vfg_kind \<Rightarrow> nat option" where
  "defined_var P (NullPtrVFGNode x) = Some x"
| "defined_var P (AddrVFGNode s) = Some (getLHSVar s)"
| "defined_var P (CopyVFGNode s) = Some (getLHSVar s)"
| "defined_var P (GepVFGNode s) = Some (getLHSVar s)"
| "defined_var P (LoadVFGNode s) = Some (getLHSVar s)"
| "defined_var P (FormalParmVFGNode x f cs) = Some x"
| "defined_var P (FormalRetVFGNode x f rs) = (if isPhiNode P x then None else Some x)"
| "defined_var P (ActualRetVFGNode x c) = Some x"
| "defined_var P (IntraPHIVFGNode x xs) = Some x"
| "defined_var P (CmpVFGNode x xs) = Some x"
| "defined_var P (BinaryOPVFGNode x xs) = Some x"
| "defined_var P (UnaryOPVFGNode x xs) = Some x"
| "defined_var P (BranchVFGNode s) = Some (getLHSVar s)"
| "defined_var P _ = None"

fun stmt_of :: "vfg_kind \<Rightarrow> pag_stmt option" where
  "stmt_of (AddrVFGNode s) = Some s"
| "stmt_of (CopyVFGNode s) = Some s"
| "stmt_of (GepVFGNode s) = Some s"
| "stmt_of (LoadVFGNode s) = Some s"
| "stmt_of (StoreVFGNode s) = Some s"
| "stmt_of _ = None"

text \<open>The version of a memory region that a node defined_var.\<close>

fun region_of :: "vfg_kind \<Rightarrow> nat option" where
  "region_of (FormalINSVFGNode x f) = Some x"
| "region_of (ActualOUTSVFGNode x c) = Some x"
| "region_of (IntraMSSAPHISVFGNode x ops) = Some x"
| "region_of _ = None"

section \<open>The maps and the nodes\<close>

text \<open>
  A map holds exactly the nodes that have something; a map of nodes by their parameter or
  result only holds such nodes; the functions and the globals divide the nodes that have a
  place in the control flow.
\<close>

definition indexed :: "'g graph_lib \<Rightarrow> ('g, 'b) vfg_scheme \<Rightarrow> ('k \<rightharpoonup> 'v) \<Rightarrow> (vfg_node \<Rightarrow> 'v) \<Rightarrow> (vfg_node \<Rightarrow> 'k option) \<Rightarrow> bool" where
  "indexed L v m r h \<longleftrightarrow> (\<forall>k y. m k = Some y \<longleftrightarrow> (\<exists>n. in_graph L v n \<and> h n = Some k \<and> y = r n))"

definition keyed :: "'g graph_lib \<Rightarrow> ('g, 'b) vfg_scheme \<Rightarrow> ('k \<rightharpoonup> vfg_node) \<Rightarrow> ('k \<Rightarrow> vfg_kind \<Rightarrow> bool) \<Rightarrow> bool" where
  "keyed L v m q \<longleftrightarrow> (\<forall>k n. m k = Some n \<longrightarrow> in_graph L v n \<and> q k (vfg_kind n))"

definition placed :: "'g graph_lib \<Rightarrow> svfir \<Rightarrow> ('g, 'b) vfg_scheme \<Rightarrow> bool" where
  "placed L P v \<longleftrightarrow>
     (\<forall>f n. n \<in> at_key (funToVFGNodesMap v) f \<longleftrightarrow> in_graph L v n \<and> (\<exists>i. vfg_icfg n = Some i \<and> icfg_fun P i = Some f)) \<and>
     (\<forall>n. n \<in> globalVFGNodes v \<longleftrightarrow> in_graph L v n \<and> (\<exists>i. vfg_icfg n = Some i \<and> icfg_fun P i = None))"

definition params_ok :: "'g graph_lib \<Rightarrow> svfir \<Rightarrow> ('g, 'b) vfg_scheme \<Rightarrow> bool" where
  "params_ok L P v \<longleftrightarrow>
     keyed L v (PAGNodeToActualParmMap v) (\<lambda>(i, cs) k. \<exists>x. k = ActualParmVFGNode x cs \<and> pag_id P x = i) \<and>
     keyed L v (PAGNodeToActualRetMap v) (\<lambda>x k. \<exists>cs. k = ActualRetVFGNode x cs) \<and>
     keyed L v (PAGNodeToFormalParmMap v) (\<lambda>x k. \<exists>f ps. k = FormalParmVFGNode x f ps) \<and>
     keyed L v (PAGNodeToFormalRetMap v) (\<lambda>x k. \<exists>f ps. k = FormalRetVFGNode x f ps)"

definition results_ok :: "'g graph_lib \<Rightarrow> ('g, 'b) vfg_scheme \<Rightarrow> bool" where
  "results_ok L v \<longleftrightarrow>
     keyed L v (PAGNodeToIntraPHIVFGNodeMap v) (\<lambda>x k. \<exists>xs. k = IntraPHIVFGNode x xs) \<and>
     keyed L v (PAGNodeToBinaryOPVFGNodeMap v) (\<lambda>x k. \<exists>xs. k = BinaryOPVFGNode x xs) \<and>
     keyed L v (PAGNodeToUnaryOPVFGNodeMap v) (\<lambda>x k. \<exists>xs. k = UnaryOPVFGNode x xs) \<and>
     keyed L v (PAGNodeToCmpVFGNodeMap v) (\<lambda>x k. \<exists>xs. k = CmpVFGNode x xs) \<and>
     keyed L v (PAGNodeToBranchVFGNodeMap v) (\<lambda>x k. \<exists>s. k = BranchVFGNode s \<and> getLHSVar s = x)"

definition def_index :: "'g graph_lib \<Rightarrow> svfir \<Rightarrow> ('g, 'b) vfg_scheme \<Rightarrow> bool" where
  "def_index L P v \<longleftrightarrow> indexed L v (PAGNodeToDefMap v) vfg_id (\<lambda>n. defined_var P (vfg_kind n))"

definition stmt_index :: "'g graph_lib \<Rightarrow> ('g, 'b) vfg_scheme \<Rightarrow> bool" where
  "stmt_index L v \<longleftrightarrow> indexed L v (PAGEdgeToStmtVFGNodeMap v) (\<lambda>n. n) (\<lambda>n. stmt_of (vfg_kind n))"

definition vfg_ok :: "'g graph_lib \<Rightarrow> svfir \<Rightarrow> ('g, 'b) vfg_scheme \<Rightarrow> bool" where
  "vfg_ok L P v \<longleftrightarrow> def_index L P v \<and> stmt_index L v \<and> placed L P v \<and> params_ok L P v \<and> results_ok L v"

section \<open>Adding a node\<close>

text \<open>The state \<open>w\<close> has the nodes of \<open>v\<close> and \<open>n\<close>.\<close>

definition grown :: "'g graph_lib \<Rightarrow> ('g, 'b) vfg_scheme \<Rightarrow> vfg_node \<Rightarrow> ('g, 'c) vfg_scheme \<Rightarrow> bool" where
  "grown L v n w \<longleftrightarrow> (\<forall>m. in_graph L w m \<longleftrightarrow> m = n \<or> in_graph L v m) \<and> \<not> in_graph L v n"

lemma grown_ex: "grown L v n w \<Longrightarrow> (\<exists>x. in_graph L w x \<and> q x) \<longleftrightarrow> q n \<or> (\<exists>x. in_graph L v x \<and> q x)"
  by (auto simp: grown_def)

lemma indexed_new:
  assumes "indexed L v m r h" and g: "grown L v n w" and "h n = Some k" and "m k = None"
  shows "indexed L w (m(k \<mapsto> r n)) r h"
proof -
  have none: "\<not> (in_graph L v x \<and> h x = Some k)" for x
    using assms(1) [unfolded indexed_def, rule_format, of k "r x"] assms(4) by auto
  show ?thesis
    using assms(1,3) none unfolding indexed_def grown_ex [OF g] by auto
qed

lemma indexed_grown: "indexed L v m r h \<Longrightarrow> grown L v n w \<Longrightarrow> h n = None \<Longrightarrow> indexed L w m r h"
  unfolding indexed_def by (simp add: grown_ex)

lemma keyed_grown: "keyed L v m q \<Longrightarrow> grown L v n w \<Longrightarrow> keyed L w m q"
  by (simp add: keyed_def grown_def)

lemma keyed_update: "keyed L v m q \<Longrightarrow> in_graph L v n \<Longrightarrow> q k (vfg_kind n) \<Longrightarrow> keyed L v (m(k \<mapsto> n)) q"
  by (simp add: keyed_def)

definition new_number :: "'g graph_lib \<Rightarrow> u32 \<Rightarrow> ('g, 'b) vfg_scheme \<Rightarrow> bool" where
  "new_number L i v \<longleftrightarrow> \<not> hasGNode L i (graph_state v)"

text \<open>What \<open>addVFGNode\<close> leaves alone.\<close>

definition same_maps :: "('g, 'b) vfg_scheme \<Rightarrow> ('g, 'c) vfg_scheme \<Rightarrow> bool" where
  "same_maps v w \<longleftrightarrow>
     PAGEdgeToStmtVFGNodeMap w = PAGEdgeToStmtVFGNodeMap v \<and> PAGNodeToDefMap w = PAGNodeToDefMap v \<and>
     PAGNodeToActualParmMap w = PAGNodeToActualParmMap v \<and> PAGNodeToActualRetMap w = PAGNodeToActualRetMap v \<and>
     PAGNodeToFormalParmMap w = PAGNodeToFormalParmMap v \<and> PAGNodeToFormalRetMap w = PAGNodeToFormalRetMap v \<and>
     PAGNodeToIntraPHIVFGNodeMap w = PAGNodeToIntraPHIVFGNodeMap v \<and> PAGNodeToBinaryOPVFGNodeMap w = PAGNodeToBinaryOPVFGNodeMap v \<and>
     PAGNodeToUnaryOPVFGNodeMap w = PAGNodeToUnaryOPVFGNodeMap v \<and> PAGNodeToCmpVFGNodeMap w = PAGNodeToCmpVFGNodeMap v \<and>
     PAGNodeToBranchVFGNodeMap w = PAGNodeToBranchVFGNodeMap v"

lemma added_node [simp]: "fst (addVFGNode L P n i v) = n\<lparr>vfg_icfg := Some i\<rparr>"
  by (simp add: addVFGNode_def Let_def)

lemma added_same: "same_maps v (snd (addVFGNode L P n i v))"
  by (simp add: addVFGNode_def Let_def same_maps_def split: option.split)

lemma added_graph: "graph_state (snd (addVFGNode L P n i v)) =
    icfg_addVFGNode L i (n\<lparr>vfg_icfg := Some i\<rparr>) (addGNode L (vfg_id n) (n\<lparr>vfg_icfg := Some i\<rparr>) (graph_state v))"
  by (simp add: addVFGNode_def Let_def split: option.split)

lemma grown_if:
  assumes "lib_ok L" and "new_number L (vfg_id n) v"
    and "\<And>j. getGNode L j (graph_state w) = getGNode L j (addGNode L (vfg_id n) n (graph_state v))"
  shows "grown L v n w"
proof -
  have g: "getGNode L j (graph_state w) = (if j = vfg_id n then Inr n else getGNode L j (graph_state v))" for j
    using assms by (simp add: lib_ok_def new_number_def)
  have "isl (getGNode L (vfg_id n) (graph_state v))" using assms(1,2) by (simp add: lib_ok_def new_number_def)
  then have "\<not> in_graph L v m" if "vfg_id m = vfg_id n" for m using that by (auto simp: in_graph_def)
  then show ?thesis unfolding grown_def in_graph_def g by (metis Inr_inject)
qed

lemma added_grown:
  assumes "lib_ok L" and "new_number L (vfg_id n) v"
  shows "grown L v (n\<lparr>vfg_icfg := Some i\<rparr>) (snd (addVFGNode L P n i v))"
  using assms by (intro grown_if) (simp_all add: added_graph lib_ok_def new_number_def)

lemma added_placed:
  assumes "placed L P v" and g: "grown L v (n\<lparr>vfg_icfg := Some i\<rparr>) (snd (addVFGNode L P n i v))"
  shows "placed L P (snd (addVFGNode L P n i v))"
proof (cases "icfg_fun P i")
  case None
  then have "funToVFGNodesMap (snd (addVFGNode L P n i v)) = funToVFGNodesMap v"
    "globalVFGNodes (snd (addVFGNode L P n i v)) = insert (n\<lparr>vfg_icfg := Some i\<rparr>) (globalVFGNodes v)"
    by (simp_all add: addVFGNode_def Let_def)
  then show ?thesis using assms None by (auto simp: placed_def grown_def)
next
  case (Some f)
  let ?m = "funToVFGNodesMap v"
  have "funToVFGNodesMap (snd (addVFGNode L P n i v)) = ?m(f \<mapsto> insert (n\<lparr>vfg_icfg := Some i\<rparr>) (at_key ?m f))"
    "globalVFGNodes (snd (addVFGNode L P n i v)) = globalVFGNodes v"
    using Some by (simp_all add: addVFGNode_def Let_def)
  moreover have "at_key (?m(f \<mapsto> s)) h = (if h = f then s else at_key ?m h)" for s h by (simp add: at_key_def)
  ultimately show ?thesis using assms Some by (auto simp: placed_def grown_def)
qed

lemma params_grown: "params_ok L P v \<Longrightarrow> grown L v n w \<Longrightarrow> same_maps v w \<Longrightarrow> params_ok L P w"
  unfolding params_ok_def same_maps_def by (auto intro: keyed_grown)

lemma results_grown: "results_ok L v \<Longrightarrow> grown L v n w \<Longrightarrow> same_maps v w \<Longrightarrow> results_ok L w"
  unfolding results_ok_def same_maps_def by (auto intro: keyed_grown)

lemmas index_defs = def_index_def stmt_index_def indexed_def in_graph_def

lemmas all_defs = index_defs placed_def params_ok_def results_ok_def keyed_def

text \<open>After a node is added, all but the maps of what it defines and of its statement are right.\<close>

lemma added_ok:
  assumes "lib_ok L" and "vfg_ok L P v" and "new_number L (vfg_id n) v" and "w = snd (addVFGNode L P n i v)"
  shows "grown L v (n\<lparr>vfg_icfg := Some i\<rparr>) w" and "same_maps v w" and "placed L P w" and "params_ok L P w" and "results_ok L w"
    and "defined_var P (vfg_kind n) = None \<Longrightarrow> def_index L P w" and "stmt_of (vfg_kind n) = None \<Longrightarrow> stmt_index L w"
proof -
  show g: "grown L v (n\<lparr>vfg_icfg := Some i\<rparr>) w" using added_grown [OF assms(1,3)] assms(4) by simp
  show s: "same_maps v w" using added_same assms(4) by blast
  show "placed L P w" using added_placed g assms(2,4) by (auto simp: vfg_ok_def)
  show "params_ok L P w" "results_ok L w" using params_grown [OF _ g s] results_grown [OF _ g s] assms(2) by (simp_all add: vfg_ok_def)
  show "def_index L P w" if "defined_var P (vfg_kind n) = None"
    using indexed_grown [OF _ g, of "PAGNodeToDefMap v" vfg_id "\<lambda>n. defined_var P (vfg_kind n)"] that assms(2) s
    by (simp add: vfg_ok_def def_index_def same_maps_def)
  show "stmt_index L w" if "stmt_of (vfg_kind n) = None"
    using indexed_grown [OF _ g, of "PAGEdgeToStmtVFGNodeMap v" "\<lambda>n. n" "\<lambda>n. stmt_of (vfg_kind n)"] that assms(2) s
    by (simp add: vfg_ok_def stmt_index_def same_maps_def)
qed

lemma number_new:
  assumes "indexed L v m vfg_id h" and g: "grown L v n w"
  shows "m x \<noteq> Some (vfg_id n)"
proof
  assume "m x = Some (vfg_id n)"
  then obtain k where "in_graph L v k" "vfg_id k = vfg_id n" using assms(1) unfolding indexed_def by metis
  then show False using g in_graph_id unfolding grown_def by metis
qed

lemma setDef_new:
  assumes "def_index L P v" and g: "grown L v n w" and m: "PAGNodeToDefMap w = PAGNodeToDefMap v"
    and "defined_var P (vfg_kind n) = Some x" and "setDef L x n w = Inr u"
  shows "u = w\<lparr>PAGNodeToDefMap := (PAGNodeToDefMap v)(x \<mapsto> vfg_id n)\<rparr>" and "def_index L P u" and "PAGNodeToDefMap v x = None"
proof -
  have "PAGNodeToDefMap v x \<noteq> Some (vfg_id n)" using assms(1) g by (simp add: def_index_def number_new)
  then show none: "PAGNodeToDefMap v x = None"
    using assms(5) m by (auto simp: setDef_def c_assert_def split: option.splits if_splits)
  then show u: "u = w\<lparr>PAGNodeToDefMap := (PAGNodeToDefMap v)(x \<mapsto> vfg_id n)\<rparr>"
    using assms(5) m by (auto simp: setDef_def c_assert_def split: if_splits)
  have "indexed L w ((PAGNodeToDefMap v)(x \<mapsto> vfg_id n)) vfg_id (\<lambda>n. defined_var P (vfg_kind n))"
    using indexed_new [OF _ g, of "PAGNodeToDefMap v" vfg_id "\<lambda>n. defined_var P (vfg_kind n)"] assms(1,4) none by (simp add: def_index_def)
  then show "def_index L P u" by (simp add: u index_defs)
qed

lemma setDef_rest:
  "stmt_index L (w\<lparr>PAGNodeToDefMap := m\<rparr>) = stmt_index L w" "placed L P (w\<lparr>PAGNodeToDefMap := m\<rparr>) = placed L P w"
  "params_ok L P (w\<lparr>PAGNodeToDefMap := m\<rparr>) = params_ok L P w" "results_ok L (w\<lparr>PAGNodeToDefMap := m\<rparr>) = results_ok L w"
  "in_graph L (w\<lparr>PAGNodeToDefMap := m\<rparr>) n = in_graph L w n"
  by (simp_all add: all_defs)

lemma defined_ok:
  assumes "vfg_ok L P v" and "grown L v n w" and "PAGNodeToDefMap w = PAGNodeToDefMap v"
    and "stmt_index L w" and "placed L P w" and "params_ok L P w" and "results_ok L w"
    and "defined_var P (vfg_kind n) = Some x" and "setDef L x n w = Inr u"
  shows "vfg_ok L P u" and "grown L v n u" and "in_graph L u n" and "PAGNodeToDefMap v x = None"
proof -
  have "def_index L P v" using assms(1) by (simp add: vfg_ok_def)
  note u = setDef_new [OF this assms(2,3,8,9)]
  then show "vfg_ok L P u" "PAGNodeToDefMap v x = None" using assms(4-7) by (simp_all add: vfg_ok_def setDef_rest)
  show "grown L v n u" using assms(2) by (simp add: u(1) grown_def setDef_rest)
  then show "in_graph L u n" by (simp add: grown_def)
qed

lemma added_defined:
  assumes "lib_ok L" and "vfg_ok L P v" and "new_number L (vfg_id n) v" and "stmt_of (vfg_kind n) = None"
    and "defined_var P (vfg_kind n) = Some x" and "setDef L x (n\<lparr>vfg_icfg := Some i\<rparr>) (snd (addVFGNode L P n i v)) = Inr u"
  shows "vfg_ok L P u" and "in_graph L u (n\<lparr>vfg_icfg := Some i\<rparr>)"
    and "grown L v (n\<lparr>vfg_icfg := Some i\<rparr>) u" and "PAGNodeToDefMap v x = None"
proof -
  note a = added_ok [OF assms(1-3) refl, of i]
  from a(2) have m: "PAGNodeToDefMap (snd (addVFGNode L P n i v)) = PAGNodeToDefMap v" by (simp add: same_maps_def)
  have "defined_var P (vfg_kind (n\<lparr>vfg_icfg := Some i\<rparr>)) = Some x" using assms(5) by simp
  note d = defined_ok [OF assms(2) a(1) m a(7) [OF assms(4)] a(3-5) this assms(6)]
  show "vfg_ok L P u" "in_graph L u (n\<lparr>vfg_icfg := Some i\<rparr>)" "grown L v (n\<lparr>vfg_icfg := Some i\<rparr>) u" "PAGNodeToDefMap v x = None"
    using d by simp_all
qed

lemma added_plain:
  assumes "lib_ok L" and "vfg_ok L P v" and "new_number L (vfg_id n) v" and "stmt_of (vfg_kind n) = None"
    and "defined_var P (vfg_kind n) = None"
  shows "vfg_ok L P (snd (addVFGNode L P n i v))" and "in_graph L (snd (addVFGNode L P n i v)) (n\<lparr>vfg_icfg := Some i\<rparr>)"
  using added_ok [OF assms(1-3) refl, of i] assms(4,5) by (simp_all add: vfg_ok_def grown_def)

lemma added_stmt:
  assumes "lib_ok L" and "vfg_ok L P v" and "new_number L (vfg_id n) v" and "stmt_of (vfg_kind n) = Some s"
    and "addStmtVFGNode L P n s v = Inr (n', w)"
  shows "n' = n\<lparr>vfg_icfg := Some (getICFGNode P s)\<rparr>" and "grown L v n' w" and "PAGNodeToDefMap w = PAGNodeToDefMap v"
    and "stmt_index L w" and "placed L P w" and "params_ok L P w" and "results_ok L w" and "PAGEdgeToStmtVFGNodeMap v s = None"
    and "defined_var P (vfg_kind n) = None \<Longrightarrow> vfg_ok L P w"
proof -
  let ?u = "snd (addVFGNode L P n (getICFGNode P s) v)" and ?n = "n\<lparr>vfg_icfg := Some (getICFGNode P s)\<rparr>"
  note a = added_ok [OF assms(1-3) refl, of "getICFGNode P s"]
  from assms(5) show none: "PAGEdgeToStmtVFGNodeMap v s = None" and n: "n' = ?n"
    by (auto simp: addStmtVFGNode_def c_assert_def case_prod_unfold Let_def split: if_splits)
  have w: "w = ?u\<lparr>PAGEdgeToStmtVFGNodeMap := (PAGEdgeToStmtVFGNodeMap v)(s \<mapsto> ?n)\<rparr>"
    using assms(5) none a(2) by (auto simp: addStmtVFGNode_def c_assert_def case_prod_unfold Let_def same_maps_def)
  have g: "in_graph L w m = in_graph L ?u m" for m by (simp add: w in_graph_def)
  then show gw: "grown L v n' w" using a(1) by (simp add: grown_def n)
  show "PAGNodeToDefMap w = PAGNodeToDefMap v" using a(2) by (simp add: w same_maps_def)
  show parts: "placed L P w" "params_ok L P w" "results_ok L w" using a(3-5) by (simp_all add: w all_defs)
  have "indexed L w ((PAGEdgeToStmtVFGNodeMap v)(s \<mapsto> ?n)) (\<lambda>n. n) (\<lambda>n. stmt_of (vfg_kind n))"
    using indexed_new [OF _ gw, of "PAGEdgeToStmtVFGNodeMap v" "\<lambda>n. n" "\<lambda>n. stmt_of (vfg_kind n)" s] assms(2,4) none
    by (simp add: vfg_ok_def stmt_index_def n)
  then show s: "stmt_index L w" by (simp add: w index_defs)
  show "vfg_ok L P w" if "defined_var P (vfg_kind n) = None"
  proof -
    have "def_index L P w" using a(6) [OF that] by (simp add: w index_defs)
    then show ?thesis using parts s by (simp add: vfg_ok_def)
  qed
qed

lemma total_ok [simp]: "vfg_ok L P (v\<lparr>totalVFGNode := t\<rparr>) = vfg_ok L P v" "new_number L i (v\<lparr>totalVFGNode := t\<rparr>) = new_number L i v"
  by (simp_all add: vfg_ok_def all_defs new_number_def)

text \<open>Each operation whose number is new keeps the correspondence.\<close>

lemma stmt_defined:
  assumes "lib_ok L" and "vfg_ok L P v" and "new_number L (vfg_id n) v" and "stmt_of (vfg_kind n) = Some s"
    and "defined_var P (vfg_kind n) = Some x"
    and "cbind (addStmtVFGNode L P n s v) (\<lambda>(n', w). setDef L x n' w) = Inr u"
  shows "vfg_ok L P u" and "PAGNodeToDefMap v x = None" and "PAGEdgeToStmtVFGNodeMap v s = None"
proof -
  from assms(6) obtain n' w where a: "addStmtVFGNode L P n s v = Inr (n', w)" "setDef L x n' w = Inr u"
    by (auto simp: cbind_eq_Inr)
  note b = added_stmt [OF assms(1-4) a(1)]
  have "defined_var P (vfg_kind n') = Some x" using assms(5) by (simp add: b(1))
  from defined_ok [OF assms(2) b(2-7) this a(2)] b(8)
  show "vfg_ok L P u" "PAGNodeToDefMap v x = None" "PAGEdgeToStmtVFGNodeMap v s = None" by simp_all
qed

section \<open>All operations\<close>

datatype vfg_op =
    Add_NullPtr nat
  | Add_Addr pag_stmt
  | Add_Copy pag_stmt
  | Add_Gep pag_stmt
  | Add_Load pag_stmt
  | Add_Store pag_stmt
  | Add_ActualParm nat nat
  | Add_FormalParm nat string "pag_stmt list"
  | Add_FormalRet nat string "pag_stmt list"
  | Add_ActualRet nat nat
  | Add_IntraPHI pag_stmt
  | Add_Cmp pag_stmt
  | Add_BinaryOP pag_stmt
  | Add_UnaryOP pag_stmt
  | Add_Branch pag_stmt

fun vfg_add :: "'g graph_lib \<Rightarrow> svfir \<Rightarrow> vfg_op \<Rightarrow> ('g, 'b) vfg_scheme \<Rightarrow> ('g, 'b) vfg_scheme c" where
  "vfg_add L P (Add_NullPtr x) v = addNullPtrVFGNode L P x v"
| "vfg_add L P (Add_Addr s) v = addAddrVFGNode L P s v"
| "vfg_add L P (Add_Copy s) v = addCopyVFGNode L P s v"
| "vfg_add L P (Add_Gep s) v = addGepVFGNode L P s v"
| "vfg_add L P (Add_Load s) v = addLoadVFGNode L P s v"
| "vfg_add L P (Add_Store s) v = addStoreVFGNode L P s v"
| "vfg_add L P (Add_ActualParm x cs) v = Inr (addActualParmVFGNode L P x cs v)"
| "vfg_add L P (Add_FormalParm x f ps) v = addFormalParmVFGNode L P x f ps v"
| "vfg_add L P (Add_FormalRet x f rs) v = addFormalRetVFGNode L P x f rs v"
| "vfg_add L P (Add_ActualRet x cs) v = addActualRetVFGNode L P x cs v"
| "vfg_add L P (Add_IntraPHI s) v = addIntraPHIVFGNode L P s v"
| "vfg_add L P (Add_Cmp s) v = addCmpVFGNode L P s v"
| "vfg_add L P (Add_BinaryOP s) v = addBinaryOPVFGNode L P s v"
| "vfg_add L P (Add_UnaryOP s) v = addUnaryOPVFGNode L P s v"
| "vfg_add L P (Add_Branch s) v = addBranchVFGNode L P s v"

text \<open>The node an operation vfg_adds, and what its success asks for.\<close>

fun op_kind :: "svfir \<Rightarrow> vfg_op \<Rightarrow> vfg_kind" where
  "op_kind P (Add_NullPtr x) = NullPtrVFGNode x"
| "op_kind P (Add_Addr s) = AddrVFGNode s"
| "op_kind P (Add_Copy s) = CopyVFGNode s"
| "op_kind P (Add_Gep s) = GepVFGNode s"
| "op_kind P (Add_Load s) = LoadVFGNode s"
| "op_kind P (Add_Store s) = StoreVFGNode s"
| "op_kind P (Add_ActualParm x cs) = ActualParmVFGNode x cs"
| "op_kind P (Add_FormalParm x f ps) = FormalParmVFGNode x f ps"
| "op_kind P (Add_FormalRet x f rs) = FormalRetVFGNode x f rs"
| "op_kind P (Add_ActualRet x cs) = ActualRetVFGNode x cs"
| "op_kind P (Add_IntraPHI s) = IntraPHIVFGNode (getLHSVar s) (map (\<lambda>x. (x, getICFGNode P s)) (getOpndVars s))"
| "op_kind P (Add_Cmp s) = CmpVFGNode (getLHSVar s) (getOpndVars s)"
| "op_kind P (Add_BinaryOP s) = BinaryOPVFGNode (getLHSVar s) (getOpndVars s)"
| "op_kind P (Add_UnaryOP s) = UnaryOPVFGNode (getLHSVar s) [getSrcID s]"
| "op_kind P (Add_Branch s) = BranchVFGNode s"

definition unclaimed :: "svfir \<Rightarrow> ('g, 'b) vfg_scheme \<Rightarrow> vfg_kind \<Rightarrow> bool" where
  "unclaimed P v k \<longleftrightarrow> (\<forall>x. defined_var P k = Some x \<longrightarrow> PAGNodeToDefMap v x = None) \<and>
     (\<forall>s. stmt_of k = Some s \<longrightarrow> PAGEdgeToStmtVFGNodeMap v s = None)"

lemma map_updates:
  assumes "vfg_ok L P u" and "in_graph L u n"
  shows "vfg_kind n = ActualParmVFGNode x cs \<Longrightarrow> vfg_ok L P (u\<lparr>PAGNodeToActualParmMap := (PAGNodeToActualParmMap u)((pag_id P x, cs) \<mapsto> n)\<rparr>)"
    and "vfg_kind n = FormalParmVFGNode x f ps \<Longrightarrow> vfg_ok L P (u\<lparr>PAGNodeToFormalParmMap := (PAGNodeToFormalParmMap u)(x \<mapsto> n)\<rparr>)"
    and "vfg_kind n = FormalRetVFGNode x f ps \<Longrightarrow> vfg_ok L P (u\<lparr>PAGNodeToFormalRetMap := (PAGNodeToFormalRetMap u)(x \<mapsto> n)\<rparr>)"
    and "vfg_kind n = ActualRetVFGNode x cs \<Longrightarrow> vfg_ok L P (u\<lparr>PAGNodeToActualRetMap := (PAGNodeToActualRetMap u)(x \<mapsto> n)\<rparr>)"
    and "vfg_kind n = IntraPHIVFGNode x xs \<Longrightarrow> vfg_ok L P (u\<lparr>PAGNodeToIntraPHIVFGNodeMap := (PAGNodeToIntraPHIVFGNodeMap u)(x \<mapsto> n)\<rparr>)"
    and "vfg_kind n = CmpVFGNode x ys \<Longrightarrow> vfg_ok L P (u\<lparr>PAGNodeToCmpVFGNodeMap := (PAGNodeToCmpVFGNodeMap u)(x \<mapsto> n)\<rparr>)"
    and "vfg_kind n = BinaryOPVFGNode x ys \<Longrightarrow> vfg_ok L P (u\<lparr>PAGNodeToBinaryOPVFGNodeMap := (PAGNodeToBinaryOPVFGNodeMap u)(x \<mapsto> n)\<rparr>)"
    and "vfg_kind n = UnaryOPVFGNode x ys \<Longrightarrow> vfg_ok L P (u\<lparr>PAGNodeToUnaryOPVFGNodeMap := (PAGNodeToUnaryOPVFGNodeMap u)(x \<mapsto> n)\<rparr>)"
    and "vfg_kind n = BranchVFGNode s \<Longrightarrow> vfg_ok L P (u\<lparr>PAGNodeToBranchVFGNodeMap := (PAGNodeToBranchVFGNodeMap u)(getLHSVar s \<mapsto> n)\<rparr>)"
  using assms by (simp_all add: vfg_ok_def index_defs placed_def params_ok_def results_ok_def keyed_def)

lemma setDef_works:
  "lib_ok L \<Longrightarrow> in_graph L w n \<Longrightarrow> PAGNodeToDefMap w x = None \<Longrightarrow>
    setDef L x n w = Inr (w\<lparr>PAGNodeToDefMap := (PAGNodeToDefMap w)(x \<mapsto> vfg_id n)\<rparr>)"
  by (simp add: setDef_def in_graph_has c_assert_def)

lemma grown_total [simp]: "grown L (v\<lparr>totalVFGNode := t\<rparr>) n w = grown L v n w"
  by (simp add: grown_def in_graph_def)

lemma graph_updates [simp]:
  "grown L v n (w\<lparr>PAGNodeToActualParmMap := a\<rparr>) = grown L v n w" "grown L v n (w\<lparr>PAGNodeToFormalParmMap := b\<rparr>) = grown L v n w"
  "grown L v n (w\<lparr>PAGNodeToFormalRetMap := b\<rparr>) = grown L v n w" "grown L v n (w\<lparr>PAGNodeToActualRetMap := b\<rparr>) = grown L v n w"
  "grown L v n (w\<lparr>PAGNodeToIntraPHIVFGNodeMap := b\<rparr>) = grown L v n w" "grown L v n (w\<lparr>PAGNodeToCmpVFGNodeMap := b\<rparr>) = grown L v n w"
  "grown L v n (w\<lparr>PAGNodeToBinaryOPVFGNodeMap := b\<rparr>) = grown L v n w" "grown L v n (w\<lparr>PAGNodeToUnaryOPVFGNodeMap := b\<rparr>) = grown L v n w"
  "grown L v n (w\<lparr>PAGNodeToBranchVFGNodeMap := b\<rparr>) = grown L v n w" "grown L v n (w\<lparr>PAGNodeToDefMap := d\<rparr>) = grown L v n w"
  by (simp_all add: grown_def in_graph_def)

text \<open>
  What an operation comes to that vfg_adds a node: an assertion fails exactly if the variable or
  the statement has a node already; otherwise the node is added.
\<close>

definition put_result :: "'g graph_lib \<Rightarrow> svfir \<Rightarrow> ('g, 'b) vfg_scheme \<Rightarrow> vfg_node \<Rightarrow> ('g, 'b) vfg_scheme c \<Rightarrow> bool" where
  "put_result L P v n e \<longleftrightarrow>
     (case e of Inl x \<Rightarrow> x = Assertion_Failure \<and> \<not> unclaimed P v (vfg_kind n)
      | Inr w \<Rightarrow> unclaimed P v (vfg_kind n) \<and> vfg_ok L P w \<and> (\<exists>i. grown L v (n\<lparr>vfg_icfg := Some i\<rparr>) w))"

text \<open>A node that defines a variable, with a map of its own that is set behind the definition.\<close>

lemma put_defined:
  assumes "lib_ok L" and "vfg_ok L P v" and "new_number L (vfg_id n) v" and "stmt_of (vfg_kind n) = None"
    and "defined_var P (vfg_kind n) = Some x"
    and e: "e = cbind (setDef L x (n\<lparr>vfg_icfg := Some i\<rparr>) (snd (addVFGNode L P n i v))) (\<lambda>u. Inr (h u))"
    and "\<And>u. vfg_ok L P u \<Longrightarrow> in_graph L u (n\<lparr>vfg_icfg := Some i\<rparr>) \<Longrightarrow> vfg_ok L P (h u)"
    and "\<And>u m. grown L v m (h u) = grown L v m u"
  shows "put_result L P v n e"
proof -
  let ?n = "n\<lparr>vfg_icfg := Some i\<rparr>" and ?w = "snd (addVFGNode L P n i v)"
  note a = added_ok [OF assms(1-3) refl, of i]
  from a(2) have m: "PAGNodeToDefMap ?w = PAGNodeToDefMap v" by (simp add: same_maps_def)
  have claim: "unclaimed P v (vfg_kind n) \<longleftrightarrow> PAGNodeToDefMap v x = None" using assms(4,5) by (simp add: unclaimed_def)
  show ?thesis
  proof (cases "setDef L x ?n ?w")
    case (Inl y)
    have "in_graph L ?w ?n" using a(1) by (simp add: grown_def)
    then have "PAGNodeToDefMap v x \<noteq> None" using setDef_works [OF assms(1), of ?w ?n x] m Inl by auto
    moreover have "y = Assertion_Failure" using Inl by (auto simp: setDef_def c_assert_def split: option.splits if_splits)
    ultimately show ?thesis by (simp add: put_result_def e Inl claim)
  next
    case (Inr u)
    note d = added_defined [OF assms(1-5) Inr]
    show ?thesis using assms(7) [OF d(1,2)] assms(8) d(3,4) by (auto simp: put_result_def e Inr claim)
  qed
qed

text \<open>A node of a statement.\<close>

lemma put_stmt:
  assumes "lib_ok L" and "vfg_ok L P v" and "new_number L (vfg_id n) v" and "stmt_of (vfg_kind n) = Some s"
    and e: "e = cbind (addStmtVFGNode L P n s v) (\<lambda>(n', w). case defined_var P (vfg_kind n) of None \<Rightarrow> Inr w | Some x \<Rightarrow> setDef L x n' w)"
  shows "put_result L P v n e"
proof (cases "addStmtVFGNode L P n s v")
  case (Inl y)
  then have "PAGEdgeToStmtVFGNodeMap v s \<noteq> None" "y = Assertion_Failure"
    by (auto simp: addStmtVFGNode_def c_assert_def case_prod_unfold Let_def split: if_splits)
  then show ?thesis using assms(4) by (auto simp: put_result_def e Inl unclaimed_def)
next
  case (Inr r)
  obtain n' w where r: "r = (n', w)" by (cases r)
  note b = added_stmt [OF assms(1-4) Inr [unfolded r]]
  show ?thesis
  proof (cases "defined_var P (vfg_kind n)")
    case None
    then show ?thesis using b assms(4) by (auto simp: put_result_def e Inr r unclaimed_def)
  next
    case (Some x)
    then have "defined_var P (vfg_kind n') = Some x" by (simp add: b(1))
    note d = defined_ok [OF assms(2) b(2-7) this]
    have claim: "unclaimed P v (vfg_kind n) \<longleftrightarrow> PAGNodeToDefMap v x = None" using assms(4) Some b(8) by (simp add: unclaimed_def)
    show ?thesis
    proof (cases "setDef L x n' w")
      case (Inl y)
      have "in_graph L w n'" using b(2) by (simp add: grown_def)
      then have "PAGNodeToDefMap v x \<noteq> None" using setDef_works [OF assms(1), of w n' x] b(3) Inl by auto
      moreover have "y = Assertion_Failure" using Inl by (auto simp: setDef_def c_assert_def split: option.splits if_splits)
      ultimately show ?thesis by (simp add: put_result_def e Inr r Some Inl claim)
    next
      case u: (Inr u)
      have "\<exists>i. grown L v (n\<lparr>vfg_icfg := Some i\<rparr>) u" using d(2) [OF u] b(1) by blast
      then show ?thesis using d [OF u] by (simp add: put_result_def e Inr r Some u claim)
    qed
  qed
qed

text \<open>A node that defines nothing and has no statement: a parameter at a call, a returned phi.\<close>

lemma put_plain:
  assumes "lib_ok L" and "vfg_ok L P v" and "new_number L (vfg_id n) v" and "stmt_of (vfg_kind n) = None"
    and "defined_var P (vfg_kind n) = None" and e: "e = Inr (h (snd (addVFGNode L P n i v)))"
    and "\<And>u. vfg_ok L P u \<Longrightarrow> in_graph L u (n\<lparr>vfg_icfg := Some i\<rparr>) \<Longrightarrow> vfg_ok L P (h u)"
    and "\<And>u m. grown L v m (h u) = grown L v m u"
  shows "put_result L P v n e"
proof -
  have "grown L v (n\<lparr>vfg_icfg := Some i\<rparr>) (h (snd (addVFGNode L P n i v)))"
    using added_grown [OF assms(1,3), of i P] assms(8) by blast
  then have "\<exists>k. grown L v (n\<lparr>vfg_icfg := Some k\<rparr>) (h (snd (addVFGNode L P n i v)))" by blast
  then show ?thesis using added_plain [OF assms(1-5), of i] assms(4,5,7) by (simp add: put_result_def e unclaimed_def)
qed

lemma put_result_total: "put_result L P (v\<lparr>totalVFGNode := t\<rparr>) n e = put_result L P v n e"
  by (simp add: put_result_def unclaimed_def split: sum.split)

text \<open>The node of the operation, before it has its place.\<close>

definition op_node :: "svfir \<Rightarrow> vfg_op \<Rightarrow> ('g, 'b) vfg_scheme \<Rightarrow> vfg_node" where
  "op_node P op v = \<lparr>vfg_id = totalVFGNode v, vfg_kind = op_kind P op, vfg_icfg = None\<rparr>"

text \<open>Its place in the control flow, and the map of its own, if there is one.\<close>

fun op_place :: "svfir \<Rightarrow> vfg_op \<Rightarrow> nat" where
  "op_place P (Add_NullPtr x) = getGlobalICFGNode P"
| "op_place P (Add_ActualParm x cs) = getCallICFGNode P cs"
| "op_place P (Add_FormalParm x f ps) = getFunEntryICFGNode P f"
| "op_place P (Add_FormalRet x f rs) = getFunExitICFGNode P f"
| "op_place P (Add_ActualRet x cs) = getRetICFGNode P cs"
| "op_place P (Add_IntraPHI s) = getICFGNode P s"
| "op_place P (Add_Cmp s) = getICFGNode P s"
| "op_place P (Add_BinaryOP s) = getICFGNode P s"
| "op_place P (Add_UnaryOP s) = getICFGNode P s"
| "op_place P (Add_Branch s) = getICFGNode P s"
| "op_place P op = 0"

fun noted :: "svfir \<Rightarrow> vfg_op \<Rightarrow> vfg_node \<Rightarrow> ('g, 'b) vfg_scheme \<Rightarrow> ('g, 'b) vfg_scheme" where
  "noted P (Add_ActualParm x cs) n u = u\<lparr>PAGNodeToActualParmMap := (PAGNodeToActualParmMap u)((pag_id P x, cs) \<mapsto> n)\<rparr>"
| "noted P (Add_FormalParm x f ps) n u = u\<lparr>PAGNodeToFormalParmMap := (PAGNodeToFormalParmMap u)(x \<mapsto> n)\<rparr>"
| "noted P (Add_FormalRet x f rs) n u = u\<lparr>PAGNodeToFormalRetMap := (PAGNodeToFormalRetMap u)(x \<mapsto> n)\<rparr>"
| "noted P (Add_ActualRet x cs) n u = u\<lparr>PAGNodeToActualRetMap := (PAGNodeToActualRetMap u)(x \<mapsto> n)\<rparr>"
| "noted P (Add_IntraPHI s) n u = u\<lparr>PAGNodeToIntraPHIVFGNodeMap := (PAGNodeToIntraPHIVFGNodeMap u)(getLHSVar s \<mapsto> n)\<rparr>"
| "noted P (Add_Cmp s) n u = u\<lparr>PAGNodeToCmpVFGNodeMap := (PAGNodeToCmpVFGNodeMap u)(getLHSVar s \<mapsto> n)\<rparr>"
| "noted P (Add_BinaryOP s) n u = u\<lparr>PAGNodeToBinaryOPVFGNodeMap := (PAGNodeToBinaryOPVFGNodeMap u)(getLHSVar s \<mapsto> n)\<rparr>"
| "noted P (Add_UnaryOP s) n u = u\<lparr>PAGNodeToUnaryOPVFGNodeMap := (PAGNodeToUnaryOPVFGNodeMap u)(getLHSVar s \<mapsto> n)\<rparr>"
| "noted P (Add_Branch s) n u = u\<lparr>PAGNodeToBranchVFGNodeMap := (PAGNodeToBranchVFGNodeMap u)(getLHSVar s \<mapsto> n)\<rparr>"
| "noted P op n u = u"

lemma noted_ok:
  "vfg_ok L P u \<Longrightarrow> in_graph L u n \<Longrightarrow> vfg_kind n = op_kind P op \<Longrightarrow> vfg_ok L P (noted P op n u)"
  "grown L v m (noted P op n u) = grown L v m u"
  by (cases op; simp add: map_updates)+

lemmas vfg_adds = addNullPtrVFGNode_def addAddrVFGNode_def addCopyVFGNode_def addGepVFGNode_def addLoadVFGNode_def addStoreVFGNode_def
  addActualParmVFGNode_def addFormalParmVFGNode_def addFormalRetVFGNode_def addActualRetVFGNode_def addIntraPHIVFGNode_def addCmpVFGNode_def
  addBinaryOPVFGNode_def addUnaryOPVFGNode_def addBranchVFGNode_def new_node_def op_node_def case_prod_unfold Let_def

lemma setDef_return:
  "setDef L x n (u\<lparr>PAGNodeToFormalRetMap := (PAGNodeToFormalRetMap u)(x \<mapsto> n)\<rparr>) =
    cbind (setDef L x n u) (\<lambda>u. Inr (u\<lparr>PAGNodeToFormalRetMap := (PAGNodeToFormalRetMap u)(x \<mapsto> n)\<rparr>))"
  by (simp add: setDef_def hasVFGNode_def c_assert_def split: option.split)

lemma cbind_id [simp]: "cbind e Inr = e"
  by (cases e) simp_all

lemma op_steps:
  assumes "w = v\<lparr>totalVFGNode := totalVFGNode v + 1\<rparr>" and "n = op_node P op v"
  shows "stmt_of (op_kind P op) = Some s \<Longrightarrow> vfg_add L P op v = cbind (addStmtVFGNode L P n s w) (\<lambda>(n', w).
      case defined_var P (op_kind P op) of None \<Rightarrow> Inr w | Some x \<Rightarrow> setDef L x n' w)"
    and "stmt_of (op_kind P op) = None \<Longrightarrow> defined_var P (op_kind P op) = Some x \<Longrightarrow> vfg_add L P op v =
      cbind (setDef L x (n\<lparr>vfg_icfg := Some (op_place P op)\<rparr>) (snd (addVFGNode L P n (op_place P op) w)))
        (\<lambda>u. Inr (noted P op (n\<lparr>vfg_icfg := Some (op_place P op)\<rparr>) u))"
    and "stmt_of (op_kind P op) = None \<Longrightarrow> defined_var P (op_kind P op) = None \<Longrightarrow> vfg_add L P op v =
      Inr (noted P op (n\<lparr>vfg_icfg := Some (op_place P op)\<rparr>) (snd (addVFGNode L P n (op_place P op) w)))"
  unfolding assms by (cases op; simp add: vfg_adds setDef_return split: if_splits)+

lemma put_op:
  assumes "lib_ok L" and "vfg_ok L P v" and "new_number L (totalVFGNode v) v"
  shows "put_result L P v (op_node P op v) (vfg_add L P op v)"
proof -
  let ?v = "v\<lparr>totalVFGNode := totalVFGNode v + 1\<rparr>" and ?n = "op_node P op v"
  have n: "vfg_id ?n = totalVFGNode v" "vfg_kind ?n = op_kind P op" by (simp_all add: op_node_def)
  then have ok: "vfg_ok L P ?v" "new_number L (vfg_id ?n) ?v" using assms(2,3) by simp_all
  note steps = op_steps [OF refl refl, of P op]
  have "put_result L P ?v ?n (vfg_add L P op v)"
  proof (cases "stmt_of (op_kind P op)")
    case (Some s)
    show ?thesis by (rule put_stmt [OF assms(1) ok, of s]) (simp_all add: n Some steps(1) [OF Some])
  next
    case stmt: None
    show ?thesis
    proof (cases "defined_var P (op_kind P op)")
      case (Some x)
      show ?thesis using n stmt Some by (intro put_defined [OF assms(1) ok _ _ steps(2) [OF stmt Some]]) (simp_all add: noted_ok)
    next
      case None
      show ?thesis using n stmt None steps(3) [OF stmt None]
        by (intro put_plain [OF assms(1) ok, where h = "noted P op (?n\<lparr>vfg_icfg := Some (op_place P op)\<rparr>)" and i = "op_place P op"])
          (simp_all add: noted_ok)
    qed
  qed
  then show ?thesis by (simp add: put_result_total)
qed

end
