(* ===== verification/VFG_Sparse.thy ===== *)
theory VFG_Sparse
  imports VFG_Laws
begin

text \<open>
  The sparse value-flow graph: its maps of memory regions, and the graphs that can be built.
\<close>

section \<open>The maps of memory regions\<close>

fun formal_in :: "vfg_kind \<Rightarrow> string option" where
  "formal_in (FormalINSVFGNode x f) = Some f"
| "formal_in _ = None"

fun formal_out :: "vfg_kind \<Rightarrow> string option" where
  "formal_out (FormalOUTSVFGNode x f) = Some f"
| "formal_out _ = None"

fun actual_in :: "vfg_kind \<Rightarrow> nat option" where
  "actual_in (ActualINSVFGNode x c) = Some c"
| "actual_in _ = None"

fun actual_out :: "vfg_kind \<Rightarrow> nat option" where
  "actual_out (ActualOUTSVFGNode x c) = Some c"
| "actual_out _ = None"

definition numbered :: "'g graph_lib \<Rightarrow> ('g, 'b) vfg_scheme \<Rightarrow> ('k \<rightharpoonup> u32 set) \<Rightarrow> (vfg_kind \<Rightarrow> 'k option) \<Rightarrow> bool" where
  "numbered L v m h \<longleftrightarrow> (\<forall>k i. i \<in> at_key m k \<longleftrightarrow> (\<exists>n. in_graph L v n \<and> vfg_id n = i \<and> h (vfg_kind n) = Some k))"

definition regions_ok :: "'g graph_lib \<Rightarrow> 'g svfg \<Rightarrow> bool" where
  "regions_ok L v \<longleftrightarrow> indexed L v (MSSAVarToDefMap v) vfg_id (\<lambda>n. region_of (vfg_kind n)) \<and>
     numbered L v (funToFormalINMap v) formal_in \<and> numbered L v (funToFormalOUTMap v) formal_out \<and>
     numbered L v (callSiteToActualINMap v) actual_in \<and> numbered L v (callSiteToActualOUTMap v) actual_out"

definition svfg_ok :: "'g graph_lib \<Rightarrow> svfir \<Rightarrow> 'g svfg \<Rightarrow> bool" where
  "svfg_ok L P v \<longleftrightarrow> vfg_ok L P v \<and> regions_ok L v"

text \<open>A node of the sparse graph alone.\<close>

definition plain_kind :: "vfg_kind \<Rightarrow> bool" where
  "plain_kind k \<longleftrightarrow> region_of k = None \<and> formal_in k = None \<and> formal_out k = None \<and> actual_in k = None \<and> actual_out k = None"

lemma numbered_grown: "numbered L v m h \<Longrightarrow> grown L v n w \<Longrightarrow> h (vfg_kind n) = None \<Longrightarrow> numbered L w m h"
  unfolding numbered_def by (auto simp: grown_ex)

lemma numbered_new:
  assumes "numbered L v m h" and "grown L v n w" and "h (vfg_kind n) = Some k" and "vfg_id n = i"
  shows "numbered L w (m(k \<mapsto> insert i (at_key m k))) h"
proof -
  have "at_key (m(k \<mapsto> s)) j = (if j = k then s else at_key m j)" for s j by (simp add: at_key_def)
  then show ?thesis using assms unfolding numbered_def by (auto simp: grown_ex)
qed

definition same_regions :: "'g svfg \<Rightarrow> 'g svfg \<Rightarrow> bool" where
  "same_regions v w \<longleftrightarrow> MSSAVarToDefMap w = MSSAVarToDefMap v \<and> funToFormalINMap w = funToFormalINMap v \<and>
     funToFormalOUTMap w = funToFormalOUTMap v \<and> callSiteToActualINMap w = callSiteToActualINMap v \<and>
     callSiteToActualOUTMap w = callSiteToActualOUTMap v"

lemma regions_grown: "regions_ok L v \<Longrightarrow> grown L v n w \<Longrightarrow> plain_kind (vfg_kind n) \<Longrightarrow> same_regions v w \<Longrightarrow> regions_ok L w"
  unfolding regions_ok_def plain_kind_def same_regions_def by (auto intro: indexed_grown numbered_grown)

lemma more_regions:
  fixes v w :: "'g svfg"
  shows "vfg.more w = vfg.more v \<Longrightarrow> same_regions v w"
  by (cases v; cases w) (simp add: same_regions_def)

lemma added_more: "vfg.more (snd (addVFGNode L P n i v)) = vfg.more v"
  by (simp add: addVFGNode_def Let_def split: option.split)

lemma setDef_more: "setDef L x n v = Inr w \<Longrightarrow> vfg.more w = vfg.more v"
  by (auto simp: setDef_def cbind_eq_Inr split: option.splits)

lemma stmt_more: "addStmtVFGNode L P n s v = Inr (n', w) \<Longrightarrow> vfg.more w = vfg.more v"
  using added_more [of L P n "getICFGNode P s" v] by (auto simp: addStmtVFGNode_def cbind_eq_Inr case_prod_unfold Let_def)

lemma noted_more: "vfg.more (noted P op n v) = vfg.more v"
  by (cases op) simp_all

lemma vfg_add_more:
  assumes "vfg_add L P op v = Inr w"
  shows "vfg.more w = vfg.more v"
proof (cases "stmt_of (op_kind P op)")
  case (Some s)
  from assms [unfolded op_steps(1) [OF refl refl Some]] show ?thesis
    by (auto simp: cbind_eq_Inr dest!: stmt_more setDef_more split: option.splits)
next
  case stmt: None
  show ?thesis
  proof (cases "defined_var P (op_kind P op)")
    case (Some x)
    from assms [unfolded op_steps(2) [OF refl refl stmt Some]] show ?thesis
      by (auto simp: cbind_eq_Inr noted_more added_more dest!: setDef_more)
  next
    case None
    from assms [unfolded op_steps(3) [OF refl refl stmt None]] show ?thesis by (auto simp: noted_more added_more)
  qed
qed

lemma op_plain: "plain_kind (op_kind P op)"
  by (cases op) (simp_all add: plain_kind_def)

section \<open>Operations of the sparse graph\<close>

datatype svfg_op =
    Top vfg_op
  | Add_DummyVersionProp u32 u32
  | Add_FormalIN string nat u32
  | Add_FormalOUT string nat u32
  | Add_ActualIN nat nat u32
  | Add_ActualOUT nat nat u32
  | Add_IntraMSSAPHI nat "(u32 \<times> nat) list" nat u32

fun svfg_add :: "'g graph_lib \<Rightarrow> svfir \<Rightarrow> svfg_op \<Rightarrow> 'g svfg \<Rightarrow> 'g svfg c" where
  "svfg_add L P (Top op) v = vfg_add L P op v"
| "svfg_add L P (Add_DummyVersionProp x y) v = Inr (snd (addDummyVersionPropSVFGNode L x y v))"
| "svfg_add L P (Add_FormalIN f x i) v = addFormalINSVFGNode L P f x i v"
| "svfg_add L P (Add_FormalOUT f x i) v = Inr (addFormalOUTSVFGNode L P f x i v)"
| "svfg_add L P (Add_ActualIN cs x i) v = Inr (addActualINSVFGNode L P cs x i v)"
| "svfg_add L P (Add_ActualOUT cs x i) v = addActualOUTSVFGNode L P cs x i v"
| "svfg_add L P (Add_IntraMSSAPHI b ops x i) v = addIntraMSSAPHISVFGNode L P b ops x i v"

text \<open>The number and the kind of the node it vfg_adds.\<close>

fun op_number :: "svfg_op \<Rightarrow> 'g svfg \<Rightarrow> u32" where
  "op_number (Add_FormalIN f x i) v = i"
| "op_number (Add_FormalOUT f x i) v = i"
| "op_number (Add_ActualIN cs x i) v = i"
| "op_number (Add_ActualOUT cs x i) v = i"
| "op_number (Add_IntraMSSAPHI b ops x i) v = i"
| "op_number op v = totalVFGNode v"

fun sparse_kind :: "svfir \<Rightarrow> svfg_op \<Rightarrow> vfg_kind" where
  "sparse_kind P (Top op) = op_kind P op"
| "sparse_kind P (Add_DummyVersionProp x y) = DummyVersionPropSVFGNode x y"
| "sparse_kind P (Add_FormalIN f x i) = FormalINSVFGNode x f"
| "sparse_kind P (Add_FormalOUT f x i) = FormalOUTSVFGNode x f"
| "sparse_kind P (Add_ActualIN cs x i) = ActualINSVFGNode x cs"
| "sparse_kind P (Add_ActualOUT cs x i) = ActualOUTSVFGNode x cs"
| "sparse_kind P (Add_IntraMSSAPHI b ops x i) = IntraMSSAPHISVFGNode x ops"

text \<open>No node defines yet what the new one is to define.\<close>

definition available :: "svfir \<Rightarrow> 'g svfg \<Rightarrow> vfg_kind \<Rightarrow> bool" where
  "available P v k \<longleftrightarrow> unclaimed P v k \<and> (\<forall>x. region_of k = Some x \<longrightarrow> MSSAVarToDefMap v x = None)"

definition sparse_result :: "'g graph_lib \<Rightarrow> svfir \<Rightarrow> 'g svfg \<Rightarrow> u32 \<Rightarrow> vfg_kind \<Rightarrow> 'g svfg c \<Rightarrow> bool" where
  "sparse_result L P v i k e \<longleftrightarrow>
     (case e of Inl x \<Rightarrow> x = Assertion_Failure \<and> \<not> available P v k
      | Inr w \<Rightarrow> available P v k \<and> svfg_ok L P w \<and> (\<exists>j. grown L v \<lparr>vfg_id = i, vfg_kind = k, vfg_icfg = j\<rparr> w))"

lemma region_updates [simp]:
  fixes w :: "'g svfg"
  shows "vfg_ok L P (w\<lparr>MSSAVarToDefMap := a\<rparr>) = vfg_ok L P w" "vfg_ok L P (w\<lparr>funToFormalINMap := b\<rparr>) = vfg_ok L P w"
    "vfg_ok L P (w\<lparr>funToFormalOUTMap := b\<rparr>) = vfg_ok L P w" "vfg_ok L P (w\<lparr>callSiteToActualINMap := d\<rparr>) = vfg_ok L P w"
    "vfg_ok L P (w\<lparr>callSiteToActualOUTMap := d\<rparr>) = vfg_ok L P w"
    "in_graph L (w\<lparr>MSSAVarToDefMap := a\<rparr>) n = in_graph L w n" "in_graph L (w\<lparr>funToFormalINMap := b\<rparr>) n = in_graph L w n"
    "in_graph L (w\<lparr>funToFormalOUTMap := b\<rparr>) n = in_graph L w n" "in_graph L (w\<lparr>callSiteToActualINMap := d\<rparr>) n = in_graph L w n"
    "in_graph L (w\<lparr>callSiteToActualOUTMap := d\<rparr>) n = in_graph L w n"
  by (simp_all add: vfg_ok_def all_defs)

lemma setMSSA_new:
  assumes "indexed L v (MSSAVarToDefMap v) vfg_id (\<lambda>n. region_of (vfg_kind n))" and g: "grown L v n w"
    and m: "MSSAVarToDefMap w = MSSAVarToDefMap v" and "region_of (vfg_kind n) = Some x" and "setMSSADef L x n w = Inr u"
  shows "u = w\<lparr>MSSAVarToDefMap := (MSSAVarToDefMap v)(x \<mapsto> vfg_id n)\<rparr>" and "MSSAVarToDefMap v x = None"
    and "indexed L w (MSSAVarToDefMap u) vfg_id (\<lambda>n. region_of (vfg_kind n))"
proof -
  show none: "MSSAVarToDefMap v x = None"
    using assms(5) m number_new [OF assms(1) g, of x] by (auto simp: setMSSADef_def c_assert_def split: option.splits if_splits)
  then show u: "u = w\<lparr>MSSAVarToDefMap := (MSSAVarToDefMap v)(x \<mapsto> vfg_id n)\<rparr>"
    using assms(5) m by (auto simp: setMSSADef_def c_assert_def split: if_splits)
  show "indexed L w (MSSAVarToDefMap u) vfg_id (\<lambda>n. region_of (vfg_kind n))"
    using indexed_new [OF assms(1) g, of x] assms(4) none by (simp add: u)
qed

lemma setMSSA_fails:
  assumes "lib_ok L" and "in_graph L w n" and "setMSSADef L x n w = Inl y"
  shows "y = Assertion_Failure \<and> MSSAVarToDefMap w x \<noteq> None"
  using assms in_graph_has [OF assms(1,2)] by (auto simp: setMSSADef_def c_assert_def split: option.splits if_splits)

text \<open>The node of a memory region, before the maps are set.\<close>

lemma region_added:
  fixes v :: "'g svfg"
  assumes "lib_ok L" and "svfg_ok L P v" and "new_number L i v" and "stmt_of k = None" and "defined_var P k = None"
    and "w = snd (addVFGNode L P \<lparr>vfg_id = i, vfg_kind = k, vfg_icfg = None\<rparr> p v)"
  shows "vfg_ok L P w" and "grown L v \<lparr>vfg_id = i, vfg_kind = k, vfg_icfg = Some p\<rparr> w" and "same_regions v w"
    and "in_graph L w \<lparr>vfg_id = i, vfg_kind = k, vfg_icfg = Some p\<rparr>" and "available P v k \<longleftrightarrow> (\<forall>x. region_of k = Some x \<longrightarrow> MSSAVarToDefMap v x = None)"
proof -
  let ?n = "\<lparr>vfg_id = i, vfg_kind = k, vfg_icfg = None\<rparr>"
  have "vfg_ok L P v" using assms(2) by (simp add: svfg_ok_def)
  note a = added_plain [OF assms(1) this, of ?n p] and g = added_grown [OF assms(1), of ?n v p P]
  show "vfg_ok L P w" "grown L v \<lparr>vfg_id = i, vfg_kind = k, vfg_icfg = Some p\<rparr> w"
    "in_graph L w \<lparr>vfg_id = i, vfg_kind = k, vfg_icfg = Some p\<rparr>"
    using a g assms(3-6) by simp_all
  show "same_regions v w" using more_regions [OF added_more] assms(6) by blast
  show "available P v k \<longleftrightarrow> (\<forall>x. region_of k = Some x \<longrightarrow> MSSAVarToDefMap v x = None)"
    using assms(4,5) by (simp add: available_def unclaimed_def)
qed

lemma grown_regions [simp]:
  fixes w :: "'g svfg"
  shows "grown L v n (w\<lparr>MSSAVarToDefMap := a\<rparr>) = grown L v n w" "grown L v n (w\<lparr>funToFormalINMap := b\<rparr>) = grown L v n w"
    "grown L v n (w\<lparr>funToFormalOUTMap := b\<rparr>) = grown L v n w" "grown L v n (w\<lparr>callSiteToActualINMap := d\<rparr>) = grown L v n w"
    "grown L v n (w\<lparr>callSiteToActualOUTMap := d\<rparr>) = grown L v n w"
  by (simp_all add: grown_def)

lemma index_regions [simp]:
  fixes w :: "'g svfg"
  shows "indexed L (w\<lparr>MSSAVarToDefMap := a\<rparr>) = indexed L w" "indexed L (w\<lparr>funToFormalINMap := b\<rparr>) = indexed L w"
    "indexed L (w\<lparr>funToFormalOUTMap := b\<rparr>) = indexed L w" "indexed L (w\<lparr>callSiteToActualINMap := d\<rparr>) = indexed L w"
    "indexed L (w\<lparr>callSiteToActualOUTMap := d\<rparr>) = indexed L w"
  by (simp_all add: fun_eq_iff indexed_def)

lemma number_regions [simp]:
  fixes w :: "'g svfg"
  shows "numbered L (w\<lparr>MSSAVarToDefMap := a\<rparr>) = numbered L w" "numbered L (w\<lparr>funToFormalINMap := b\<rparr>) = numbered L w"
    "numbered L (w\<lparr>funToFormalOUTMap := b\<rparr>) = numbered L w" "numbered L (w\<lparr>callSiteToActualINMap := d\<rparr>) = numbered L w"
    "numbered L (w\<lparr>callSiteToActualOUTMap := d\<rparr>) = numbered L w"
  by (simp_all add: fun_eq_iff numbered_def)

text \<open>One that defines a version, with a list of its own that is set behind the definition.\<close>

lemma put_region:
  fixes v :: "'g svfg"
  assumes "lib_ok L" and "svfg_ok L P v" and "new_number L i v" and k: "stmt_of k = None" "defined_var P k = None" "region_of k = Some x"
    and n: "n = \<lparr>vfg_id = i, vfg_kind = k, vfg_icfg = Some p\<rparr>"
    and e: "e = cbind (setMSSADef L x n (snd (addVFGNode L P \<lparr>vfg_id = i, vfg_kind = k, vfg_icfg = None\<rparr> p v))) (\<lambda>u. Inr (h u))"
    and h: "\<And>w u. grown L v n w \<Longrightarrow> same_regions v w \<Longrightarrow> u = w\<lparr>MSSAVarToDefMap := (MSSAVarToDefMap v)(x \<mapsto> i)\<rparr> \<Longrightarrow>
      indexed L w (MSSAVarToDefMap u) vfg_id (\<lambda>n. region_of (vfg_kind n)) \<Longrightarrow> regions_ok L (h u)"
    and "\<And>u. vfg_ok L P u \<Longrightarrow> vfg_ok L P (h u)" and "\<And>u m. grown L v m (h u) = grown L v m u"
  shows "sparse_result L P v i k e"
proof -
  let ?w = "snd (addVFGNode L P \<lparr>vfg_id = i, vfg_kind = k, vfg_icfg = None\<rparr> p v)"
  note a = region_added(1-4) [OF assms(1-3) k(1,2) refl, of p] region_added(5) [OF assms(1-3) k(1,2) refl]
  have m: "MSSAVarToDefMap ?w = MSSAVarToDefMap v" using a(3) by (simp add: same_regions_def)
  show ?thesis
  proof (cases "setMSSADef L x n ?w")
    case (Inl y)
    from setMSSA_fails [OF assms(1) a(4) Inl [unfolded n]] m show ?thesis by (simp add: sparse_result_def e Inl a(5) k(3))
  next
    case (Inr u)
    have "indexed L v (MSSAVarToDefMap v) vfg_id (\<lambda>n. region_of (vfg_kind n))" using assms(2) by (simp add: svfg_ok_def regions_ok_def)
    moreover have g: "grown L v n ?w" "region_of (vfg_kind n) = Some x" using a(2) k(3) by (simp_all add: n)
    ultimately have b: "u = ?w\<lparr>MSSAVarToDefMap := (MSSAVarToDefMap v)(x \<mapsto> i)\<rparr>" "MSSAVarToDefMap v x = None"
      "indexed L ?w (MSSAVarToDefMap u) vfg_id (\<lambda>n. region_of (vfg_kind n))"
      using setMSSA_new [OF _ g(1) m g(2) Inr] by (simp_all add: n)
    have "vfg_ok L P u" "grown L v n u" using a(1) g(1) by (simp_all add: b(1))
    then have "svfg_ok L P (h u)" "grown L v n (h u)" using h [OF g(1) a(3) b(1,3)] assms(10,11) by (simp_all add: svfg_ok_def)
    moreover from this(2) have "\<exists>j. grown L v \<lparr>vfg_id = i, vfg_kind = k, vfg_icfg = j\<rparr> (h u)" unfolding n by blast
    ultimately show ?thesis using b(2) by (simp add: sparse_result_def e Inr a(5) k(3))
  qed
qed

text \<open>A dummy has no place, no variable and no region.\<close>

lemma unplaced_ok:
  fixes v w :: "'g svfg"
  assumes "svfg_ok L P v" and g: "grown L v n w" and s: "same_maps v w" "same_regions v w"
    and "funToVFGNodesMap w = funToVFGNodesMap v" "globalVFGNodes w = globalVFGNodes v"
    and n: "vfg_icfg n = None" "defined_var P (vfg_kind n) = None" "stmt_of (vfg_kind n) = None" "plain_kind (vfg_kind n)"
  shows "svfg_ok L P w"
proof -
  have r: "regions_ok L v" "vfg_ok L P v" using assms(1) by (simp_all add: svfg_ok_def)
  have "placed L P w" using r(2) g n(1) assms(5,6) by (auto simp: vfg_ok_def placed_def grown_def)
  moreover have "def_index L P w" "stmt_index L w"
    using r(2) s(1) n(2,3) indexed_grown [OF _ g] by (auto simp: vfg_ok_def def_index_def stmt_index_def same_maps_def)
  moreover have "params_ok L P w" "results_ok L w" using r(2) params_grown [OF _ g s(1)] results_grown [OF _ g s(1)] by (simp_all add: vfg_ok_def)
  ultimately show ?thesis using regions_grown [OF r(1) g n(4) s(2)] by (simp add: svfg_ok_def vfg_ok_def)
qed

lemma put_dummy:
  assumes "lib_ok L" and "svfg_ok L P v" and "new_number L (totalVFGNode v) v"
  shows "sparse_result L P v (totalVFGNode v) (DummyVersionPropSVFGNode x y) (Inr (snd (addDummyVersionPropSVFGNode L x y v)))"
proof -
  let ?n = "\<lparr>vfg_id = totalVFGNode v, vfg_kind = DummyVersionPropSVFGNode x y, vfg_icfg = None\<rparr>"
  let ?w = "v\<lparr>totalVFGNode := totalVFGNode v + 1, graph_state := addGNode L (totalVFGNode v) ?n (graph_state v)\<rparr>"
  have g: "grown L v ?n ?w" using assms(3) by (intro grown_if [OF assms(1)]) simp_all
  then have "svfg_ok L P ?w"
    by (rule unplaced_ok [OF assms(2)]) (simp_all add: same_maps_def same_regions_def plain_kind_def)
  moreover have "snd (addDummyVersionPropSVFGNode L x y v) = ?w" by (simp add: addDummyVersionPropSVFGNode_def new_node_def)
  moreover have "\<exists>j. grown L v \<lparr>vfg_id = totalVFGNode v, vfg_kind = DummyVersionPropSVFGNode x y, vfg_icfg = j\<rparr> ?w" using g by blast
  ultimately show ?thesis by (simp add: sparse_result_def available_def unclaimed_def)
qed

text \<open>A node that is listed only.\<close>

lemma put_listed:
  fixes v :: "'g svfg"
  assumes "lib_ok L" and "svfg_ok L P v" and "new_number L i v" and k: "stmt_of k = None" "defined_var P k = None" "region_of k = None"
    and e: "e = Inr (h (snd (addVFGNode L P \<lparr>vfg_id = i, vfg_kind = k, vfg_icfg = None\<rparr> p v)))"
    and "\<And>w. grown L v \<lparr>vfg_id = i, vfg_kind = k, vfg_icfg = Some p\<rparr> w \<Longrightarrow> same_regions v w \<Longrightarrow> regions_ok L (h w)"
    and "\<And>u. vfg_ok L P u \<Longrightarrow> vfg_ok L P (h u)" and "\<And>u m. grown L v m (h u) = grown L v m u"
  shows "sparse_result L P v i k e"
proof -
  let ?w = "snd (addVFGNode L P \<lparr>vfg_id = i, vfg_kind = k, vfg_icfg = None\<rparr> p v)"
  note a = region_added(1-4) [OF assms(1-3) k(1,2) refl, of p] region_added(5) [OF assms(1-3) k(1,2) refl]
  have "svfg_ok L P (h ?w)" using assms(8) [OF a(2,3)] assms(9) [OF a(1)] by (simp add: svfg_ok_def)
  moreover have "\<exists>j. grown L v \<lparr>vfg_id = i, vfg_kind = k, vfg_icfg = j\<rparr> (h ?w)" using a(2) assms(10) by blast
  ultimately show ?thesis by (simp add: sparse_result_def e a(5) k(3))
qed

lemma put_sparse:
  assumes "lib_ok L" and "svfg_ok L P v" and "new_number L (op_number op v) v"
  shows "sparse_result L P v (op_number op v) (sparse_kind P op) (svfg_add L P op v)"
proof -
  have r: "regions_ok L v" "vfg_ok L P v" using assms(2) by (simp_all add: svfg_ok_def)
  note region = put_region [OF assms(1,2)] and listed = put_listed [OF assms(1,2)]
  note vfg_adds = addFormalINSVFGNode_def addFormalOUTSVFGNode_def addActualINSVFGNode_def addActualOUTSVFGNode_def
    addIntraMSSAPHISVFGNode_def case_prod_unfold Let_def
  show ?thesis
  proof (cases op)
    case (Top t)
    have "put_result L P v (op_node P t v) (vfg_add L P t v)" using put_op [OF assms(1) r(2)] assms(3) Top by simp
    then show ?thesis
      using regions_grown [OF r(1)] vfg_add_more [of L P t v] more_regions op_plain [of P t]
      by (fastforce simp: Top put_result_def sparse_result_def available_def svfg_ok_def op_node_def plain_kind_def split: sum.splits)
  next
    case (Add_DummyVersionProp x y)
    then show ?thesis using put_dummy [OF assms(1,2)] assms(3) by simp
  next
    case (Add_FormalIN f x i)
    show ?thesis unfolding Add_FormalIN op_number.simps sparse_kind.simps
      by (rule region [where p = "getFunEntryICFGNode P f" and h = "\<lambda>u. u\<lparr>funToFormalINMap := (funToFormalINMap u)(f \<mapsto> insert i (at_key (funToFormalINMap u) f))\<rparr>"])
       (use assms(3) Add_FormalIN r(1) in \<open>auto simp: vfg_adds regions_ok_def same_regions_def intro: numbered_grown numbered_new\<close>)
  next
    case (Add_FormalOUT f x i)
    show ?thesis unfolding Add_FormalOUT op_number.simps sparse_kind.simps
      by (rule listed [where p = "getFunExitICFGNode P f" and h = "\<lambda>u. u\<lparr>funToFormalOUTMap := (funToFormalOUTMap u)(f \<mapsto> insert i (at_key (funToFormalOUTMap u) f))\<rparr>"])
       (use assms(3) Add_FormalOUT r(1) in \<open>auto simp: vfg_adds regions_ok_def same_regions_def intro: indexed_grown numbered_grown numbered_new\<close>)
  next
    case (Add_ActualIN cs x i)
    show ?thesis unfolding Add_ActualIN op_number.simps sparse_kind.simps
      by (rule listed [where p = "getCallICFGNode P cs" and h = "\<lambda>u. u\<lparr>callSiteToActualINMap := (callSiteToActualINMap u)(cs \<mapsto> insert i (at_key (callSiteToActualINMap u) cs))\<rparr>"])
       (use assms(3) Add_ActualIN r(1) in \<open>auto simp: vfg_adds regions_ok_def same_regions_def intro: indexed_grown numbered_grown numbered_new\<close>)
  next
    case (Add_ActualOUT cs x i)
    show ?thesis unfolding Add_ActualOUT op_number.simps sparse_kind.simps
      by (rule region [where p = "getRetICFGNode P cs" and h = "\<lambda>u. u\<lparr>callSiteToActualOUTMap := (callSiteToActualOUTMap u)(cs \<mapsto> insert i (at_key (callSiteToActualOUTMap u) cs))\<rparr>"])
       (use assms(3) Add_ActualOUT r(1) in \<open>auto simp: vfg_adds regions_ok_def same_regions_def intro: numbered_grown numbered_new\<close>)
  next
    case (Add_IntraMSSAPHI b ops x i)
    show ?thesis unfolding Add_IntraMSSAPHI op_number.simps sparse_kind.simps
      by (rule region [where p = b and h = "\<lambda>u. u"])
       (use assms(3) Add_IntraMSSAPHI r(1) in \<open>auto simp: vfg_adds regions_ok_def same_regions_def intro: numbered_grown\<close>)
  qed
qed

end
