(* ===== verification/VFG_Props.thy ===== *)
theory VFG_Props
  imports VFG_Sparse Static_Driver_Props
begin

text \<open>
  Properties of the value-flow graphs that can be built, and what the search of the static
  analysis gets from them.
\<close>

section \<open>The graphs that can be built\<close>

text \<open>
  The maps are empty at first; the constructors, which are in VFG.cpp and SVFG.cpp, set the
  rest.
\<close>

definition empty_svfg :: "'g \<Rightarrow> u32 \<Rightarrow> VFGK \<Rightarrow> 'g svfg" where
  "empty_svfg g t k = \<lparr>graph_state = g, PAGEdgeToStmtVFGNodeMap = Map.empty, totalVFGNode = t, PAGNodeToDefMap = Map.empty,
     PAGNodeToActualParmMap = Map.empty, PAGNodeToActualRetMap = Map.empty, PAGNodeToFormalParmMap = Map.empty,
     PAGNodeToFormalRetMap = Map.empty, PAGNodeToIntraPHIVFGNodeMap = Map.empty, PAGNodeToBinaryOPVFGNodeMap = Map.empty,
     PAGNodeToUnaryOPVFGNodeMap = Map.empty, PAGNodeToBranchVFGNodeMap = Map.empty, PAGNodeToCmpVFGNodeMap = Map.empty,
     funToVFGNodesMap = Map.empty, globalVFGNodes = {}, vfg_type = k, MSSAVarToDefMap = Map.empty,
     callSiteToActualINMap = Map.empty, callSiteToActualOUTMap = Map.empty, funToFormalINMap = Map.empty, funToFormalOUTMap = Map.empty,
     mssa = Some 0\<rparr>"

text \<open>Every operation, in any order, as long as the number of its node is new.\<close>

inductive buildable :: "'g graph_lib \<Rightarrow> svfir \<Rightarrow> 'g svfg \<Rightarrow> bool" for L :: "'g graph_lib" and P :: svfir where
  start: "\<forall>i. \<not> hasGNode L i g \<Longrightarrow> buildable L P (empty_svfg g t k)"
| grow: "buildable L P v \<Longrightarrow> new_number L (op_number x v) v \<Longrightarrow> svfg_add L P x v = Inr w \<Longrightarrow> buildable L P w"

lemma empty_ok:
  assumes "lib_ok L" and "\<forall>i. \<not> hasGNode L i g"
  shows "svfg_ok L P (empty_svfg g t k)"
proof -
  have "isl (getGNode L i g)" for i using assms by (simp add: lib_ok_def)
  then have "getGNode L i g \<noteq> Inr n" for i n by (metis sum.disc(2))
  then have "\<not> in_graph L (empty_svfg g t k) n" for n by (simp add: in_graph_def empty_svfg_def)
  then show ?thesis
    by (simp add: svfg_ok_def vfg_ok_def def_index_def stmt_index_def indexed_def placed_def params_ok_def results_ok_def keyed_def
      regions_ok_def numbered_def at_key_def) (simp add: empty_svfg_def)
qed

lemma buildable_ok: "buildable L P v \<Longrightarrow> lib_ok L \<Longrightarrow> svfg_ok L P v"
proof (induction rule: buildable.induct)
  case (start g t k)
  show ?case using empty_ok [OF start.prems start.hyps] .
next
  case (grow v x w)
  then show ?case using put_sparse [OF grow.prems grow.IH [OF grow.prems] grow.hyps(2)] by (simp add: sparse_result_def)
qed

text \<open>A graph that is a map from numbers to nodes; an edge is found between any two nodes.\<close>

type_synonym node_map = "u32 \<rightharpoonup> vfg_node"

definition map_edge :: "VFGEdgeK \<Rightarrow> u32 \<Rightarrow> u32 \<Rightarrow> nat \<Rightarrow> node_map \<Rightarrow> (vfg_edge option \<times> node_map) c" where
  "map_edge k s d c g = cbind (c_find g s) (\<lambda>n. cbind (c_find g d) (\<lambda>m.
     Inr (Some \<lparr>vfg_src = n, vfg_dst = m, vfg_edge_kind = k, vfg_site = Some c\<rparr>, g)))"

definition map_lib :: "node_map graph_lib" where
  "map_lib = \<lparr>addGNode = (\<lambda>i n g. g(i \<mapsto> n)), hasGNode = (\<lambda>i g. g i \<noteq> None), getGNode = (\<lambda>i g. c_find g i),
     removeGNode = (\<lambda>n g. Inr (g(vfg_id n := None))), icfg_addVFGNode = (\<lambda>i n g. g), addIncomingEdge = (\<lambda>n e g. (True, g)),
     addOutgoingEdge = (\<lambda>n e g. (True, g)), removeIncomingEdge = (\<lambda>n e g. Inr g), removeOutgoingEdge = (\<lambda>n e g. Inr g),
     OutEdges = (\<lambda>n g. []), InEdges = (\<lambda>n g. []), addCallEdge = map_edge CallDirVF, addRetEdge = map_edge RetDirVF,
     addInterIndirectVFCallEdge = (\<lambda>n m. map_edge CallIndVF (vfg_id n) (vfg_id m)),
     addInterIndirectVFRetEdge = (\<lambda>n m. map_edge RetIndVF (vfg_id n) (vfg_id m)),
     hasInterVFGEdge = (\<lambda>n m k c g. Some \<lparr>vfg_src = n, vfg_dst = m, vfg_edge_kind = k, vfg_site = Some c\<rparr>), getFun = (\<lambda>n. None)\<rparr>"

lemma map_lib_ok: "lib_ok map_lib"
  by (simp add: lib_ok_def map_lib_def c_find_def isl_def split: option.split)

text \<open>A call \<open>f(y)\<close> with \<open>y = &x\<close>, and the parameter of \<open>f\<close>.\<close>

definition call_pag :: svfir where
  "call_pag = \<lparr>pag_id = of_nat, isPointer = (\<lambda>_. True), isPhiNode = (\<lambda>x. x = 9), isNullPtr = (\<lambda>_. False),
     isBlkObjOrConstantObj = (\<lambda>_. False), getICFGNode = (\<lambda>_. 1), getGlobalICFGNode = 0, getCallICFGNode = (\<lambda>c. 2),
     getRetICFGNode = (\<lambda>c. 3), getFunEntryICFGNode = (\<lambda>f. 4), getFunExitICFGNode = (\<lambda>f. 5),
     icfg_fun = (\<lambda>i. if i = 0 then None else if i < 4 then Some ''main'' else Some ''f''),
     getSVFStmtSet = (\<lambda>_. []), getPTASVFStmtSet = (\<lambda>_. [])\<rparr>"

definition call_ops :: "svfg_op list" where
  "call_ops = [Top (Add_Addr (AddrStmt 0 1 2)), Top (Add_ActualParm 2 7), Top (Add_FormalParm 3 ''f'' []),
     Add_FormalIN ''f'' 0 6]"

lemmas call_defs = addAddrVFGNode_def addActualParmVFGNode_def addFormalParmVFGNode_def addFormalINSVFGNode_def new_node_def
  addStmtVFGNode_def addVFGNode_def setDef_def setMSSADef_def hasVFGNode_def c_assert_def at_key_def map_lib_def call_pag_def empty_svfg_def

text \<open>A run of operations that checks the numbers.\<close>

definition checked_add :: "'g graph_lib \<Rightarrow> svfir \<Rightarrow> svfg_op \<Rightarrow> 'g svfg \<Rightarrow> 'g svfg c" where
  "checked_add L P x v = cbind (c_assert (\<not> hasGNode L (op_number x v) (graph_state v))) (\<lambda>_. svfg_add L P x v)"

lemma checked_buildable: "c_run (checked_add L P) xs v = Inr w \<Longrightarrow> buildable L P v \<Longrightarrow> buildable L P w"
  by (rule c_run_invariant) (auto simp: checked_add_def c_assert_def new_number_def split: if_splits intro: buildable.grow)

lemma call_made: "\<exists>v. c_run (checked_add map_lib call_pag) call_ops (empty_svfg Map.empty 0 FULLSVFG) = Inr v \<and>
    PAGNodeToDefMap v = [2 \<mapsto> 0, 3 \<mapsto> 2] \<and> totalVFGNode v = 3 \<and> graph_state v 3 = None \<and>
    PAGEdgeToStmtVFGNodeMap v (AddrStmt 0 1 2) = Some \<lparr>vfg_id = 0, vfg_kind = AddrVFGNode (AddrStmt 0 1 2), vfg_icfg = Some 1\<rparr> \<and>
    getActualParmVFGNode call_pag v 2 7 = Inr \<lparr>vfg_id = 1, vfg_kind = ActualParmVFGNode 2 7, vfg_icfg = Some 2\<rparr> \<and>
    getFormalParmVFGNode v 3 = Inr \<lparr>vfg_id = 2, vfg_kind = FormalParmVFGNode 3 ''f'' [], vfg_icfg = Some 4\<rparr> \<and>
    graph_state v 0 = Some \<lparr>vfg_id = 0, vfg_kind = AddrVFGNode (AddrStmt 0 1 2), vfg_icfg = Some 1\<rparr> \<and>
    graph_state v 1 = Some \<lparr>vfg_id = 1, vfg_kind = ActualParmVFGNode 2 7, vfg_icfg = Some 2\<rparr> \<and>
    graph_state v 2 = Some \<lparr>vfg_id = 2, vfg_kind = FormalParmVFGNode 3 ''f'' [], vfg_icfg = Some 4\<rparr>"
  by (simp add: checked_add_def call_ops_def call_defs Let_def getActualParmVFGNode_def getFormalParmVFGNode_def c_find_def)

lemma call_buildable: "c_run (checked_add map_lib call_pag) call_ops (empty_svfg Map.empty 0 FULLSVFG) = Inr v \<Longrightarrow> buildable map_lib call_pag v"
  by (erule checked_buildable) (rule buildable.start, simp add: map_lib_def)

section \<open>One definition\<close>

lemma built_maps:
  assumes "lib_ok L" and "buildable L P v"
  shows "PAGNodeToDefMap v x = Some i \<longleftrightarrow> (\<exists>n. in_graph L v n \<and> vfg_id n = i \<and> defined_var P (vfg_kind n) = Some x)"
    and "MSSAVarToDefMap v x = Some i \<longleftrightarrow> (\<exists>n. in_graph L v n \<and> vfg_id n = i \<and> region_of (vfg_kind n) = Some x)"
    and "PAGEdgeToStmtVFGNodeMap v s = Some n \<longleftrightarrow> in_graph L v n \<and> stmt_of (vfg_kind n) = Some s"
proof -
  have ok: "svfg_ok L P v" using buildable_ok assms by blast
  then have "indexed L v (PAGNodeToDefMap v) vfg_id (\<lambda>n. defined_var P (vfg_kind n))"
    "indexed L v (MSSAVarToDefMap v) vfg_id (\<lambda>n. region_of (vfg_kind n))"
    "indexed L v (PAGEdgeToStmtVFGNodeMap v) (\<lambda>n. n) (\<lambda>n. stmt_of (vfg_kind n))"
    by (simp_all add: svfg_ok_def regions_ok_def vfg_ok_def def_index_def stmt_index_def)
  then show "PAGNodeToDefMap v x = Some i \<longleftrightarrow> (\<exists>n. in_graph L v n \<and> vfg_id n = i \<and> defined_var P (vfg_kind n) = Some x)"
    "MSSAVarToDefMap v x = Some i \<longleftrightarrow> (\<exists>n. in_graph L v n \<and> vfg_id n = i \<and> region_of (vfg_kind n) = Some x)"
    "PAGEdgeToStmtVFGNodeMap v s = Some n \<longleftrightarrow> in_graph L v n \<and> stmt_of (vfg_kind n) = Some s"
    unfolding indexed_def by auto
qed

text \<open>
  C14. However a value-flow graph is built, as long as each node gets a number of its own: a
  variable has a definition in the map exactly if there is a node that defines it, and there
  is at most one such node; likewise for the versions of memory regions and for the nodes of
  statements.
\<close>

theorem definitions_unique:
  assumes "lib_ok L" and "buildable L P v"
  shows "(\<forall>x i. PAGNodeToDefMap v x = Some i \<longleftrightarrow> (\<exists>n. in_graph L v n \<and> vfg_id n = i \<and> defined_var P (vfg_kind n) = Some x)) \<and>
    (\<forall>x i. MSSAVarToDefMap v x = Some i \<longleftrightarrow> (\<exists>n. in_graph L v n \<and> vfg_id n = i \<and> region_of (vfg_kind n) = Some x)) \<and>
    (\<forall>s n. PAGEdgeToStmtVFGNodeMap v s = Some n \<longleftrightarrow> in_graph L v n \<and> stmt_of (vfg_kind n) = Some s) \<and>
    (\<forall>n m x. in_graph L v n \<and> in_graph L v m \<and> defined_var P (vfg_kind n) = Some x \<and> defined_var P (vfg_kind m) = Some x \<longrightarrow> n = m)"
proof -
  note m = built_maps [OF assms]
  have "n = m" if n: "in_graph L v n" "defined_var P (vfg_kind n) = Some x" and k: "in_graph L v m" "defined_var P (vfg_kind m) = Some x" for n m x
  proof -
    have "PAGNodeToDefMap v x = Some (vfg_id n)" "PAGNodeToDefMap v x = Some (vfg_id m)" using n k m(1) by blast+
    then show ?thesis using in_graph_id [OF n(1) k(1)] by simp
  qed
  then show ?thesis by (intro conjI allI m) blast
qed

theorem definitions_unique_witness:
  "\<exists>v. buildable map_lib call_pag v \<and> totalVFGNode v = 3 \<and>
    (\<exists>n. in_graph map_lib v n \<and> vfg_id n = 2 \<and> defined_var call_pag (vfg_kind n) = Some 3)"
proof -
  obtain v where v: "c_run (checked_add map_lib call_pag) call_ops (empty_svfg Map.empty 0 FULLSVFG) = Inr v"
    "PAGNodeToDefMap v = [2 \<mapsto> 0, 3 \<mapsto> 2]" "totalVFGNode v = 3" using call_made by blast
  have b: "buildable map_lib call_pag v" using call_buildable [OF v(1)] .
  have "PAGNodeToDefMap v 3 = Some 2" using v(2) by simp
  then have "\<exists>n. in_graph map_lib v n \<and> vfg_id n = 2 \<and> defined_var call_pag (vfg_kind n) = Some 3"
    using definitions_unique [OF map_lib_ok b] by blast
  then show ?thesis using b v(3) by blast
qed

text \<open>
  C15. Adding a node of any kind under a new number fails an assertion exactly if it would
  define a variable or a version a second time, or be the second node of a statement;
  otherwise the graph has this node in addition, and no other change.
\<close>

theorem second_definition_asserted:
  assumes "lib_ok L" and "buildable L P v" and "new_number L (op_number x v) v"
  shows "case svfg_add L P x v of
      Inl e \<Rightarrow> e = Assertion_Failure \<and> \<not> available P v (sparse_kind P x)
    | Inr w \<Rightarrow> available P v (sparse_kind P x) \<and>
        (\<exists>j. \<forall>n. in_graph L w n \<longleftrightarrow> n = \<lparr>vfg_id = op_number x v, vfg_kind = sparse_kind P x, vfg_icfg = j\<rparr> \<or> in_graph L v n)"
  using put_sparse [OF assms(1) buildable_ok [OF assms(2,1)] assms(3)]
  by (auto simp: sparse_result_def grown_def split: sum.splits)

theorem second_definition_asserted_witness:
  "\<exists>v. buildable map_lib call_pag v \<and>
    svfg_add map_lib call_pag (Top (Add_Copy (CopyStmt 5 3 2))) v = Inl Assertion_Failure"
proof -
  obtain v where v: "c_run (checked_add map_lib call_pag) call_ops (empty_svfg Map.empty 0 FULLSVFG) = Inr v"
    "PAGNodeToDefMap v = [2 \<mapsto> 0, 3 \<mapsto> 2]" "totalVFGNode v = 3" "graph_state v 3 = None" using call_made by blast
  have b: "buildable map_lib call_pag v" using call_buildable [OF v(1)] .
  let ?x = "Top (Add_Copy (CopyStmt 5 3 2))"
  have "new_number map_lib (op_number ?x v) v" using v(3,4) by (simp add: new_number_def map_lib_def)
  from second_definition_asserted [OF map_lib_ok b this] have "svfg_add map_lib call_pag ?x v = Inl Assertion_Failure"
    using v(2) by (auto simp: available_def unclaimed_def split: sum.splits)
  then show ?thesis using b by blast
qed

section \<open>What the analysis finds in the graph\<close>

text \<open>
  The search of the static analysis asks the graph for the nodes of the statements of a value
  and for the definition of its variable; nodes are named by their numbers.
\<close>

definition svf_on :: "(llvm_value \<Rightarrow> pag_stmt list) \<Rightarrow> 'g svfg \<Rightarrow> svf \<Rightarrow> svf" where
  "svf_on E v p = p\<lparr>stmt_nodes := (\<lambda>x. map (unat \<circ> vfg_id) (List.map_filter (PAGEdgeToStmtVFGNodeMap v) (E x))),
     def_node := (\<lambda>x. map_option unat (PAGNodeToDefMap v x))\<rparr>"

definition node_of_value :: "'g graph_lib \<Rightarrow> svfir \<Rightarrow> graphs \<Rightarrow> (llvm_value \<Rightarrow> pag_stmt list) \<Rightarrow> llvm_value \<Rightarrow> 'g svfg \<Rightarrow> vfg_node \<Rightarrow> bool" where
  "node_of_value L P g E x v n \<longleftrightarrow> in_graph L v n \<and>
     ((\<exists>s \<in> set (E x). stmt_of (vfg_kind n) = Some s) \<or> defined_var P (vfg_kind n) = Some (value_node g x))"

text \<open>
  C16. On a graph that was built, the nodes the analysis gets for a value are exactly those of
  the statements of the value and the one that defines its variable; so the first of them,
  which is read without a test, is there exactly if the graph has such a node.
\<close>

theorem nodes_of_value:
  assumes "lib_ok L" and "buildable L P v"
  shows "set (getSVFGNodesFromValue g (svf_on E v p) x) = {unat (vfg_id n) | n. node_of_value L P g E x v n} \<and>
    ((\<exists>i. c_read (getSVFGNodesFromValue g (svf_on E v p) x) 0 = Inr i) \<longleftrightarrow> (\<exists>n. node_of_value L P g E x v n))"
proof -
  note m = built_maps [OF assms]
  have "set (List.map_filter (PAGEdgeToStmtVFGNodeMap v) (E x)) = {n. \<exists>s \<in> set (E x). PAGEdgeToStmtVFGNodeMap v s = Some n}"
    by (force simp: List.map_filter_def image_iff)
  then have s: "set (stmt_nodes (svf_on E v p) x) = {unat (vfg_id n) | n. in_graph L v n \<and> (\<exists>s \<in> set (E x). stmt_of (vfg_kind n) = Some s)}"
    by (auto simp: svf_on_def m(3))
  have "set (case def_node (svf_on E v p) y of None \<Rightarrow> [] | Some n \<Rightarrow> [n]) = {unat i | i. PAGNodeToDefMap v y = Some i}" for y
    by (cases "PAGNodeToDefMap v y") (simp_all add: svf_on_def)
  also have "\<dots> y = {unat (vfg_id n) | n. in_graph L v n \<and> defined_var P (vfg_kind n) = Some y}" for y
    unfolding m(1) by blast
  finally have r: "set (getSVFGNodesFromValue g (svf_on E v p) x) = {unat (vfg_id n) | n. node_of_value L P g E x v n}"
    unfolding getSVFGNodesFromValue_def set_append s node_of_value_def by blast
  have "(\<exists>i. c_read (getSVFGNodesFromValue g (svf_on E v p) x) 0 = Inr i) \<longleftrightarrow> set (getSVFGNodesFromValue g (svf_on E v p) x) \<noteq> {}"
    by (simp add: c_read_def)
  then show ?thesis unfolding r by blast
qed

theorem nodes_of_value_witness:
  "\<exists>v i. buildable map_lib call_pag v \<and>
    c_read (getSVFGNodesFromValue copy_graphs (svf_on (\<lambda>_. [AddrStmt 0 1 2]) v copy_svf) (OtherValue 0)) 0 = Inr i"
proof -
  let ?n = "\<lparr>vfg_id = 0, vfg_kind = AddrVFGNode (AddrStmt 0 1 2), vfg_icfg = Some 1\<rparr>"
  obtain v where v: "c_run (checked_add map_lib call_pag) call_ops (empty_svfg Map.empty 0 FULLSVFG) = Inr v"
    "graph_state v 0 = Some ?n" using call_made by blast
  have b: "buildable map_lib call_pag v" using call_buildable [OF v(1)] .
  have "node_of_value map_lib call_pag copy_graphs (\<lambda>_. [AddrStmt 0 1 2]) (OtherValue 0) v ?n"
    using v(2) by (simp add: node_of_value_def in_graph_def map_lib_def c_find_def)
  then show ?thesis using nodes_of_value [OF map_lib_ok b] b by blast
qed

section \<open>The edges of a call\<close>

text \<open>
  What is documented of the library: an edge that was added or found joins the nodes that
  were asked for, and adding edges leaves the nodes alone.
\<close>

definition edges_ok :: "'g graph_lib \<Rightarrow> bool" where
  "edges_ok L \<longleftrightarrow>
     (\<forall>add \<in> {addCallEdge L, addRetEdge L}. \<forall>i j c g e g'. add i j c g = Inr (e, g') \<longrightarrow>
        (\<forall>k. getGNode L k g' = getGNode L k g) \<and> (\<forall>x. e = Some x \<longrightarrow> getGNode L i g = Inr (vfg_src x) \<and> getGNode L j g = Inr (vfg_dst x))) \<and>
     (\<forall>n m k c g x. hasInterVFGEdge L n m k c g = Some x \<longrightarrow> vfg_src x = n \<and> vfg_dst x = m)"

text \<open>A definition that is looked up is there, and the node found defines the variable.\<close>

lemma definition_found:
  assumes "lib_ok L" and "buildable L P v" and "hasDef v x"
  shows "\<exists>n. getDefVFGNode L v x = Inr n \<and> in_graph L v n \<and> defined_var P (vfg_kind n) = Some x"
proof -
  obtain i where i: "PAGNodeToDefMap v x = Some i" using assms(3) by (auto simp: hasDef_def)
  then obtain n where n: "in_graph L v n" "vfg_id n = i" "defined_var P (vfg_kind n) = Some x"
    unfolding built_maps(1) [OF assms(1,2)] by blast
  then have "getDefVFGNode L v x = Inr n" by (auto simp: getDefVFGNode_def getDef_def c_find_def i in_graph_def getVFGNode_def)
  then show ?thesis using n by blast
qed

lemma black_hole_decided:
  assumes "lib_ok L" and "buildable L P v"
  shows "\<exists>b. hasBlackHoleConstObjAddrAsDef L P v x = Inr b"
proof (cases "hasDef v x")
  case True
  from definition_found [OF assms True] obtain n where "getDefVFGNode L v x = Inr n" by blast
  then show ?thesis using True by (simp add: hasBlackHoleConstObjAddrAsDef_def)
qed (auto simp: hasBlackHoleConstObjAddrAsDef_def intro: exI [of _ False])

lemma parameter_nodes:
  assumes "lib_ok L" and "buildable L P v"
  shows "getActualParmVFGNode P v a c = Inr n \<Longrightarrow> in_graph L v n \<and> (\<exists>x. vfg_kind n = ActualParmVFGNode x c)"
    and "getFormalRetVFGNode v r = Inr n \<Longrightarrow> in_graph L v n \<and> (\<exists>f rs. vfg_kind n = FormalRetVFGNode r f rs)"
proof -
  have "params_ok L P v" using buildable_ok [OF assms(2,1)] by (simp add: svfg_ok_def vfg_ok_def)
  then show "getActualParmVFGNode P v a c = Inr n \<Longrightarrow> in_graph L v n \<and> (\<exists>x. vfg_kind n = ActualParmVFGNode x c)"
    "getFormalRetVFGNode v r = Inr n \<Longrightarrow> in_graph L v n \<and> (\<exists>f rs. vfg_kind n = FormalRetVFGNode r f rs)"
    by (fastforce simp: params_ok_def keyed_def getActualParmVFGNode_def getFormalRetVFGNode_def c_find_def split: option.splits)+
qed

text \<open>The edges found between definitions start at the definition.\<close>

lemma found_starts:
  assumes "lib_ok L" and "edges_ok L" and "buildable L P v" and w: "\<And>k. getGNode L k (graph_state w) = getGNode L k (graph_state v)"
    and m: "PAGNodeToDefMap w = PAGNodeToDefMap v"
  shows "getInterVFEdgeAtIndCSFromAPToFP L a f c w {} = Inr E \<Longrightarrow> e \<in> E \<Longrightarrow> in_graph L v (vfg_src e) \<and> defined_var P (vfg_kind (vfg_src e)) = Some a"
    and "getInterVFEdgeAtIndCSFromFRToAR L a f c w {} = Inr E \<Longrightarrow> e \<in> E \<Longrightarrow> in_graph L v (vfg_src e) \<and> defined_var P (vfg_kind (vfg_src e)) = Some a"
proof -
  have d: "getDefVFGNode L w x = getDefVFGNode L v x" for x by (simp add: getDefVFGNode_def getDef_def m getVFGNode_def [abs_def] w)
  have n: "in_graph L v n \<and> defined_var P (vfg_kind n) = Some x" if "getDefVFGNode L v x = Inr n" for x n
  proof -
    have "hasDef v x" using that by (auto simp: getDefVFGNode_def getDef_def c_find_def hasDef_def cbind_eq_Inr split: option.splits)
    then show ?thesis using definition_found [OF assms(1,3)] that by fastforce
  qed
  have s: "hasInterVFGEdge L n m k c g = Some x \<Longrightarrow> vfg_src x = n" for n m k c g x using assms(2) by (simp add: edges_ok_def)
  show "getInterVFEdgeAtIndCSFromAPToFP L a f c w {} = Inr E \<Longrightarrow> e \<in> E \<Longrightarrow> in_graph L v (vfg_src e) \<and> defined_var P (vfg_kind (vfg_src e)) = Some a"
    "getInterVFEdgeAtIndCSFromFRToAR L a f c w {} = Inr E \<Longrightarrow> e \<in> E \<Longrightarrow> in_graph L v (vfg_src e) \<and> defined_var P (vfg_kind (vfg_src e)) = Some a"
    by (auto simp: getInterVFEdgeAtIndCSFromAPToFP_def getInterVFEdgeAtIndCSFromFRToAR_def cbind_eq_Inr d put_edge_def c_assert_def Let_def
      split: option.splits if_splits dest!: n s)
qed

text \<open>An edge added from a node that defines nothing is not among them.\<close>

lemma added_not_found:
  assumes "edges_ok L" and "add \<in> {addCallEdge L, addRetEdge L}" and "add (vfg_id n) j c (graph_state v) = Inr (e, g')"
    and "in_graph L v n" and "defined_var P (vfg_kind n) = None"
    and "\<And>x. x \<in> F \<Longrightarrow> in_graph L v (vfg_src x) \<and> defined_var P (vfg_kind (vfg_src x)) = Some a"
  shows "put_edge e {} \<inter> F = {}"
proof -
  have "vfg_src x = n" if "x \<in> put_edge e {}" for x
  proof -
    have "e = Some x" using that by (simp add: put_edge_def split: option.splits)
    then have "getGNode L (vfg_id n) (graph_state v) = Inr (vfg_src x)" using assms(1-3) unfolding edges_ok_def by blast
    then show ?thesis using assms(4) by (simp add: in_graph_def)
  qed
  then show ?thesis using assms(5,6) by force
qed

lemma nodes_unchanged:
  assumes "edges_ok L" and "add \<in> {addCallEdge L, addRetEdge L}" and "add i j c g = Inr (e, g')"
  shows "getGNode L k g' = getGNode L k g"
  using assms unfolding edges_ok_def by blast

text \<open>
  C26. Two kinds of edges that the base class of the sparse graph connects at a call are not
  found again: the edge of an argument, which is added from the node of the actual parameter,
  and the edge of a result whose formal return is a phi node, which is added from that node.
  Both are looked for from the definition of the variable, which such a node never is; so the
  edges found, if the search does not fail its assertion, do not contain the one added. The
  edges of memory regions, and of a return that is no phi, are not meant here: they are looked
  for where they are.
\<close>

theorem connected_edges_not_found:
  assumes "lib_ok L" and "edges_ok L" and "buildable L P v"
  shows "(connectAParamAndFParam L P a f cs c ({}, v) = Inr (E, w) \<and> getInterVFEdgeAtIndCSFromAPToFP L a f c w {} = Inr F \<longrightarrow> E \<inter> F = {}) \<and>
    (isPhiNode P r \<and> connectFRetAndARet L r b c ({}, v) = Inr (G, u) \<and> getInterVFEdgeAtIndCSFromFRToAR L r b c u {} = Inr H \<longrightarrow> G \<inter> H = {})"
proof (intro conjI impI; elim conjE)
  assume c: "connectAParamAndFParam L P a f cs c ({}, v) = Inr (E, w)" and F: "getInterVFEdgeAtIndCSFromAPToFP L a f c w {} = Inr F"
  obtain n j e g' where n: "getActualParmVFGNode P v a cs = Inr n" and e: "addCallEdge L (vfg_id n) j c (graph_state v) = Inr (e, g')"
    and E: "E = put_edge e {}" and w: "w = v\<lparr>graph_state := g'\<rparr>"
    using c by (auto simp: connectAParamAndFParam_def addInterEdgeFromAPToFP_def cbind_eq_Inr)
  have k: "in_graph L v n" "defined_var P (vfg_kind n) = None" using parameter_nodes(1) [OF assms(1,3) n] by auto
  have s: "in_graph L v (vfg_src x) \<and> defined_var P (vfg_kind (vfg_src x)) = Some a" if "x \<in> F" for x
    using found_starts(1) [OF assms, of w a f c F x] nodes_unchanged [OF assms(2), of "addCallEdge L", OF _ e] F that by (simp add: w)
  show "E \<inter> F = {}" unfolding E by (rule added_not_found [OF assms(2), of "addCallEdge L", OF _ e k s]) simp_all
next
  assume p: "isPhiNode P r" and c: "connectFRetAndARet L r b c ({}, v) = Inr (G, u)" and F: "getInterVFEdgeAtIndCSFromFRToAR L r b c u {} = Inr H"
  obtain n j e g' where n: "getFormalRetVFGNode v r = Inr n" and e: "addRetEdge L (vfg_id n) j c (graph_state v) = Inr (e, g')"
    and E: "G = put_edge e {}" and w: "u = v\<lparr>graph_state := g'\<rparr>"
    using c by (auto simp: connectFRetAndARet_def addInterEdgeFromFRToAR_def cbind_eq_Inr)
  have k: "in_graph L v n" "defined_var P (vfg_kind n) = None" using parameter_nodes(2) [OF assms(1,3) n] p by auto
  have s: "in_graph L v (vfg_src x) \<and> defined_var P (vfg_kind (vfg_src x)) = Some r" if "x \<in> H" for x
    using found_starts(2) [OF assms, of u r b c H x] nodes_unchanged [OF assms(2), of "addRetEdge L", OF _ e] F that by (simp add: w)
  show "G \<inter> H = {}" unfolding E by (rule added_not_found [OF assms(2), of "addRetEdge L", OF _ e k s]) simp_all
qed

lemma map_edges_ok: "edges_ok map_lib"
  by (auto simp: edges_ok_def map_lib_def map_edge_def cbind_eq_Inr c_find_def split: option.splits)

theorem connected_edges_not_found_witness:
  "\<exists>v E w F. buildable map_lib call_pag v \<and> connectAParamAndFParam map_lib call_pag 2 3 7 0 ({}, v) = Inr (E, w) \<and>
    getInterVFEdgeAtIndCSFromAPToFP map_lib 2 3 0 w {} = Inr F \<and> E \<noteq> {} \<and> F \<noteq> {} \<and> E \<inter> F = {}"
proof -
  let ?a = "\<lparr>vfg_id = 1, vfg_kind = ActualParmVFGNode 2 7, vfg_icfg = Some 2\<rparr>"
    and ?f = "\<lparr>vfg_id = 2, vfg_kind = FormalParmVFGNode 3 ''f'' [], vfg_icfg = Some 4\<rparr>"
    and ?d = "\<lparr>vfg_id = 0, vfg_kind = AddrVFGNode (AddrStmt 0 1 2), vfg_icfg = Some 1\<rparr>"
  obtain v where v: "c_run (checked_add map_lib call_pag) call_ops (empty_svfg Map.empty 0 FULLSVFG) = Inr v"
    "PAGNodeToDefMap v = [2 \<mapsto> 0, 3 \<mapsto> 2]" "getActualParmVFGNode call_pag v 2 7 = Inr ?a" "getFormalParmVFGNode v 3 = Inr ?f"
    "graph_state v 0 = Some ?d" "graph_state v 1 = Some ?a" "graph_state v 2 = Some ?f" using call_made by blast
  have b: "buildable map_lib call_pag v" using call_buildable [OF v(1)] .
  let ?e = "\<lparr>vfg_src = ?a, vfg_dst = ?f, vfg_edge_kind = CallDirVF, vfg_site = Some 0\<rparr>"
  have c: "connectAParamAndFParam map_lib call_pag 2 3 7 0 ({}, v) = Inr ({?e}, v)"
    using v(6,7) by (simp add: connectAParamAndFParam_def v(3,4) addInterEdgeFromAPToFP_def put_edge_def)
      (simp add: map_lib_def map_edge_def c_find_def)
  have "\<exists>e. getInterVFEdgeAtIndCSFromAPToFP map_lib 2 3 0 v {} = Inr {e}"
    using v(2,5,7) by (simp add: getInterVFEdgeAtIndCSFromAPToFP_def getDefVFGNode_def getDef_def getVFGNode_def map_lib_def c_find_def
      c_assert_def put_edge_def)
  then obtain e where f: "getInterVFEdgeAtIndCSFromAPToFP map_lib 2 3 0 v {} = Inr {e}" by blast
  have "{?e} \<inter> {e} = {}" using connected_edges_not_found [OF map_lib_ok map_edges_ok b] c f by blast
  then show ?thesis using b c f by blast
qed

end
