(* ===== verification/Spec2Isabelle.thy ===== *)
theory Spec2Isabelle
  imports Verifier_Report_Props Call_Chain_Laws Program_Runs Uaf_Props Helper_Props VFG_Props
begin

text \<open>
  EmbedWatch finds memory errors of an embedded program from outside the device. A static
  analysis lists the definitions and uses of memory that input can reach; a compiler pass
  instruments them; at run time the host library reports each definition and use to a
  trusted application of OP-TEE, which keeps them in a ring; an extractor sends the ring to
  a verifier, which compares every use with the bounds of the variable it belongs to. This
  library models these parts and how they work together. Code is translated function by
  function, with its names; C and C++ code that can get stuck or fail returns a sum whose
  left side says how (EW_Prelude).

  \<^bold>\<open>Static analysis.\<close> SVF_Graph holds what the analysis uses of LLVM and of the SVF library
  (types, values, graphs), as data that the model takes as arguments. Visits is
  SVF/tools/Example/visits.cpp, Visits_Laws its searches as reachability. The file defines
  DEBUG, as svf-ex.cpp does, and what is printed there is dereferenced: a node or an edge
  without a value is then a null pointer. The copy of the search under SVF/tools/Uaf does not
  define it and is the quiet search of Visits. Static_Trace is
  trace.h and trace.cpp: the entities, their sizes and trace lines, their constructors.
  Static_Export is the part of svf-ex.cpp that writes the trace and the metadata;
  Static_Export_Laws, Static_Readback and Static_Store show what the verifier makes of the
  text, Static_Metadata what is left on the values of the module. Static_Driver is the rest
  of svf-ex.cpp: the phases of main that fill the trace, from the calls that bring input to
  the indirect uses, the analysis of getelementptr and the search for the uses of a value;
  Static_Driver_Laws follows its list of definitions and its counter of identifiers through
  all phases. The properties are in Static_Props, Static_Metadata and Static_Driver_Props.
  The search for all paths (getPathFromTo) takes the depth of its recursion as an argument,
  since on a graph with cycles it depends on the graph; a depth above the number of nodes
  that can be reached is enough (paths_found).

  \<^bold>\<open>Value-flow graphs.\<close> VFG_Graph is what the headers VFG.h and SVFG.h of SVF/include define:
  the maps of the graph the analyses search, and the operations that add a node of each kind
  and the edges of a call. The graph template, the control-flow graph and the functions of
  VFG.cpp and SVFG.cpp are a record of functions, with what is documented of them as
  hypotheses (lib_ok, edges_ok). VFG_Laws and VFG_Sparse show that every operation adds its
  node and keeps the maps in step with the nodes, or fails its assertion; VFG_Props has the
  properties of all graphs that can be built, and what the static analysis gets from them
  (getSVFGNodesFromValue). That each node has a number of its own is a hypothesis of each
  step: the header counts the numbers of some nodes with 32 bits and takes those of the
  others as arguments.

  \<^bold>\<open>Use-after-free analysis.\<close> A second analysis, SVF/tools/Uaf: Search is the reachability every
  search of a finite graph computes, a locale that is interpreted on the graph template
  (Uaf_Graph) and on the control-flow graph. Uaf has the calls that allocate and free, the
  carving of their graph out of the control flow, the pairs of both, the files it writes and
  main; what its copy of visits.cpp adds is in its last section. Uaf_Laws has the searches
  and the carved edges, Uaf_Removal the removal of nodes, Uaf_Files the texts, Uaf_Stores the
  search for stores, Uaf_Props the properties. The control-flow graph is finite data; the
  order of a hash table is the order of a list, on which no property depends; that nodes
  have identifiers of their own is a hypothesis where the code relies on it.

  \<^bold>\<open>Helper passes.\<close> Helper_Passes is RecursionTracker, InputWrapper and FunctionInstrumentor,
  over the modules of the instrumentation pass; the naming and copying of functions are
  services of LLVM and parameters, with what is documented of them as a hypothesis
  (services_ok). Helper_Laws runs modules, with calls as a step of the run, and follows the
  counter of the tracker; Helper_Depth takes this through the instrumentation pass;
  Helper_Extend has the functions and calls the extension leaves. The properties are in
  Helper_Props.

  \<^bold>\<open>Instrumentation.\<close> Instrument and Instrument_Pass are zbouncer/Zbouncer.cpp: the code
  injected for one instruction, built with a state monad as the IRBuilder does, and the
  phases of runOnModule. Instrument_Laws runs injected code, Instrument_Spec states the
  calls promised for an instruction and proves that each piece makes them, Instrument_Blocks
  lifts this to blocks and modules (of functions other than main, whose blocks get zinit and
  zexit, and of instructions that call no _instrumented function, which the pass rewrites), and Instrument_Kept shows what the pass keeps of the
  program. The properties are in Instrument_Props.

  \<^bold>\<open>Host library.\<close> Use_Entry has the struct both worlds share, TEE_Types the parameters of a
  command, Host_Cache the reporting functions, the cache and its flush
  (libzbouncer/host/libzbouncer.c), Trace_File its extractor process and the socket.
  Host_Cache_Laws and Host_Props have the bounds of the cache, the progress of every call
  and the search for the end of a string. The loop of that search and the polling loop of
  the extractor need not end: the first is a partial function, the second runs over a list
  of wake-ups.

  \<^bold>\<open>Trusted applications.\<close> Secure_Trace is zbouncer-ta/ta/zbouncer_ta.c with its handlers and
  dispatch; Secure_Trace_Laws and Secure_Trace_Props have its invariant over all reachable
  states, the effect of each command and the content of the ring. Call_Chain is the older
  libzbouncer/ta/libzbouncer_ta.c, a shadow stack of return addresses; Call_Chain_Laws
  proves that it refines a list.

  \<^bold>\<open>Both worlds.\<close> Trace_Sink is the contract of anything that records events; the trusted
  application satisfies it, and so does the host on top of it. Transport states what the
  host needs of the TEE client library as a locale and is interpreted on a transport that
  delivers each command to the model of the trusted application. Cached_Session and Sessions
  compare a session with the cache to one without, and both to an abstract cache.

  \<^bold>\<open>Verifier.\<close> Text_Format has the number formats of both sides, Verifier the parser and the
  checks of verifier/verifier.py, Verifier_Laws its consistent store, Extractor and
  Verifier_Props the way of a session to the verdict. Verifier_Report has the rest of the
  file, the pieces of a message, the loop of main and the report of an alarm, which searches
  the text of the LLVM module; Verifier_Report_Props shows that neither the cutting into
  messages nor the reports change what is verified.

  \<^bold>\<open>The parts together.\<close> Monitor is the specification of the verifier: a function that only
  remembers where each definition was last seen, and judges each use by the size of what it
  is meant to write to. Monitor_Laws proves that the store of the verifier, its lines, maps
  and children, computes it; Monitor_Props takes it through the session, from the calls of
  the program to the alarms. Static_Facts shows that the store read from an exported trace
  holds the sizes, offsets and targets the analysis computed. Whole_Tool composes them: the
  verifier judges any session by the facts of the analysis, and, for a variable and a store
  the analysis found, the block the pass instrumented raises an alarm exactly if it writes
  behind the variable. Program_Runs takes this to runs of such blocks with any values. Three
  limits hold for all of this. A session has at most the 121 events that fit the cache
  between two flushes (Host_Props shows what happens to the next). The alarms are
  those of the monitor on the content of the cache, in which a definition reported again
  stands in its first place with its last address; they are those of the monitor on the
  reports themselves if no variable is defined twice, and need not be otherwise
  (Monitor_Props has an example). And a trace has no dynamic definitions: their lines come
  twice, once with the identifier of another entity, so that the identifiers do not tell the
  lines apart.

  \<^bold>\<open>Bounds.\<close> The ring has 2048 slots, the cache 128 entries of which 122 are used, an extraction
  1024 slots. Words have the widths of the 32-bit target; the counters that are C ints are
  integers with the overflow of the increment written out.

  \<^bold>\<open>Not modelled.\<close> Log output is left out everywhere, except where printing dereferences a
  null pointer, and so are the graphs the SVF library writes to files. The LLVM and SVF
  libraries, the TEE client library and the operating system are not part of the repository
  and are parameters. Types of values are modelled where the code decides by them. The
  generated build files, the vendored PKCS11 headers, the example firmware, and the host
  program of the trusted application, which is commented out, carry no logic of the tool; the
  first version of the pass, behind an undefined macro in Zbouncer.cpp, is not compiled. Of
  the verifier, the statistics, the log file and the decoding of bytes are left out.
\<close>

end
